(* ===== verification/Prelude.thy ===== *)
theory Prelude
  imports Main "HOL-Library.Word"
begin

text \<open>
  Shared vocabulary of the development: byte strings, the \<open>std::string_view\<close> operations the
  sources use (\<open>find\<close>, \<open>substr\<close>, \<open>starts_with\<close>, trimming), the ASCII character tests, ordered
  string maps as association lists, and the round-trip interface that every encoder/decoder pair
  of the library is an instance of.
\<close>

section \<open>Theorem collections\<close>

named_theorems view_simps \<open>facts about the string view operations\<close>
named_theorems assoc_simps \<open>facts about association lists standing for std::map\<close>

section \<open>Bytes and characters\<close>

type_synonym bytes = string

abbreviation chr_tab :: char where "chr_tab \<equiv> CHR 0x09"
abbreviation chr_lf :: char where "chr_lf \<equiv> CHR 0x0A"
abbreviation chr_cr :: char where "chr_cr \<equiv> CHR 0x0D"
abbreviation chr_bslash :: char where "chr_bslash \<equiv> CHR 0x5C"
abbreviation chr_quote :: char where "chr_quote \<equiv> CHR 0x27"
abbreviation chr_dquote :: char where "chr_dquote \<equiv> CHR 0x22"
abbreviation chr_btick :: char where "chr_btick \<equiv> CHR 0x60"

definition code :: "char \<Rightarrow> nat" where
  "code c = of_char c"

lemma code_inj [simp]: "code a = code b \<longleftrightarrow> a = b"
  by (simp add: code_def)

lemma code_less_256 [simp]: "code c < 256"
  by (simp add: code_def)

definition is_digit :: "char \<Rightarrow> bool" where
  "is_digit c \<longleftrightarrow> 48 \<le> code c \<and> code c \<le> 57"

definition is_upper :: "char \<Rightarrow> bool" where
  "is_upper c \<longleftrightarrow> 65 \<le> code c \<and> code c \<le> 90"

definition is_lower :: "char \<Rightarrow> bool" where
  "is_lower c \<longleftrightarrow> 97 \<le> code c \<and> code c \<le> 122"

text \<open>\<open>std::isspace\<close> in the C locale.\<close>

definition isspace :: "char \<Rightarrow> bool" where
  "isspace c \<longleftrightarrow> (9 \<le> code c \<and> code c \<le> 13) \<or> code c = 32"

lemma isspace_simps [simp]: "isspace (CHR '' '')" "isspace chr_lf"
  by (simp_all add: isspace_def code_def)

text \<open>The value of a decimal digit; only meaningful where \<^const>\<open>is_digit\<close> holds.\<close>

definition digit_val :: "char \<Rightarrow> nat" where
  "digit_val c = code c - 48"

text \<open>ASCII lowercasing, as \<open>CaseInsensitiveLess::to_lower\<close> and \<open>std::tolower\<close> in the C locale do it.\<close>

definition to_lower :: "char \<Rightarrow> char" where
  "to_lower c = (if is_upper c then char_of (code c + 32) else c)"

lemma code_to_lower: "code (to_lower c) = (if is_upper c then code c + 32 else code c)"
  by (auto simp: to_lower_def is_upper_def code_def)

lemma to_lower_idem [simp]: "to_lower (to_lower c) = to_lower c"
proof -
  have "code (to_lower (to_lower c)) = code (to_lower c)"
    by (auto simp: code_to_lower is_upper_def)
  then show ?thesis by simp
qed

definition lower :: "bytes \<Rightarrow> bytes" where
  "lower s = map to_lower s"

lemma lower_Nil [simp]: "lower [] = []"
  and lower_append [simp]: "lower (a @ b) = lower a @ lower b"
  and lower_length [simp]: "length (lower a) = length a"
  and lower_idem [simp]: "lower (lower a) = lower a"
  and lower_eq_Nil [simp]: "lower a = [] \<longleftrightarrow> a = []"
  by (simp_all add: lower_def)

lemma to_lower_dot [simp]: "to_lower c = CHR ''.'' \<longleftrightarrow> c = CHR ''.''"
proof -
  have "code (CHR ''.'') = 46" by (simp add: code_def)
  moreover have "code (to_lower c) = 46 \<longleftrightarrow> code c = 46"
    by (auto simp: code_to_lower is_upper_def)
  ultimately show ?thesis by (metis code_inj)
qed

section \<open>String views\<close>

definition starts_with :: "'a list \<Rightarrow> 'a list \<Rightarrow> bool" where
  "starts_with s p \<longleftrightarrow> take (length p) s = p"

lemma starts_with_iff [view_simps]: "starts_with s p \<longleftrightarrow> (\<exists>r. s = p @ r)"
  unfolding starts_with_def by (metis append_eq_conv_conj append_take_drop_id)

text \<open>\<open>text.find(needle, pos)\<close>: the least index from \<open>pos\<close> on at which \<open>needle\<close> occurs.\<close>

definition find_from :: "'a list \<Rightarrow> 'a list \<Rightarrow> nat \<Rightarrow> nat option" where
  "find_from needle t pos =
     List.find (\<lambda>i. starts_with (drop i t) needle) [pos..<Suc (length t)]"

definition find_char :: "'a \<Rightarrow> 'a list \<Rightarrow> nat \<Rightarrow> nat option" where
  "find_char c t pos = find_from [c] t pos"

lemma find_upt_Some:
  "List.find P [m..<n] = Some i \<longleftrightarrow> m \<le> i \<and> i < n \<and> P i \<and> (\<forall>j. m \<le> j \<and> j < i \<longrightarrow> \<not> P j)"
proof (induction "n - m" arbitrary: m)
  case 0
  then show ?case by auto
next
  case (Suc k)
  then have lt: "m < n" and k: "k = n - Suc m" by auto
  show ?case
  proof (cases "P m")
    case True
    then show ?thesis using lt
      by (auto simp: upt_conv_Cons le_less)
  next
    case False
    have "List.find P [m..<n] = List.find P [Suc m..<n]"
      using lt False by (simp add: upt_conv_Cons)
    also have "\<dots> = Some i \<longleftrightarrow> Suc m \<le> i \<and> i < n \<and> P i \<and> (\<forall>j. Suc m \<le> j \<and> j < i \<longrightarrow> \<not> P j)"
      by (rule Suc.hyps(1) [OF k])
    also have "\<dots> \<longleftrightarrow> m \<le> i \<and> i < n \<and> P i \<and> (\<forall>j. m \<le> j \<and> j < i \<longrightarrow> \<not> P j)"
      using False by (metis Suc_leD Suc_leI le_neq_implies_less)
    finally show ?thesis .
  qed
qed

lemma find_from_Some:
  "find_from p t pos = Some i \<longleftrightarrow>
     pos \<le> i \<and> i \<le> length t \<and> starts_with (drop i t) p \<and>
     (\<forall>j. pos \<le> j \<and> j < i \<longrightarrow> \<not> starts_with (drop j t) p)"
  unfolding find_from_def find_upt_Some by auto

lemma find_from_None:
  "find_from p t pos = None \<longleftrightarrow> (\<forall>j. pos \<le> j \<and> j \<le> length t \<longrightarrow> \<not> starts_with (drop j t) p)"
  unfolding find_from_def find_None_iff by auto

lemma find_from_bound: "find_from p t pos = Some i \<Longrightarrow> i + length p \<le> length t"
proof -
  assume "find_from p t pos = Some i"
  then obtain r where "drop i t = p @ r" and "i \<le> length t"
    by (auto simp: find_from_Some starts_with_iff)
  then have "length t - i = length p + length r" by (metis length_append length_drop)
  with \<open>i \<le> length t\<close> show ?thesis by simp
qed

lemma find_from_ge: "find_from p t pos = Some i \<Longrightarrow> pos \<le> i"
  by (simp add: find_from_Some)

text \<open>
  The first occurrence of one byte, as a structural function: what precedes it and what follows
  it. It is the form in which splitting loops (\<open>line.find(':')\<close> then \<open>substr\<close>) are modelled.
\<close>

definition split_first :: "'a \<Rightarrow> 'a list \<Rightarrow> ('a list \<times> 'a list) option" where
  "split_first c s =
     (if c \<in> set s then Some (takeWhile (\<lambda>x. x \<noteq> c) s, tl (dropWhile (\<lambda>x. x \<noteq> c) s)) else None)"

lemma split_first_append [view_simps]:
  "c \<notin> set a \<Longrightarrow> split_first c (a @ c # b) = Some (a, b)"
  by (induction a) (auto simp: split_first_def)

lemma split_first_absent [view_simps]: "c \<notin> set s \<Longrightarrow> split_first c s = None"
  by (simp add: split_first_def)

lemma split_first_Some:
  "split_first c s = Some (a, b) \<longleftrightarrow> s = a @ c # b \<and> c \<notin> set a"
proof
  assume h: "split_first c s = Some (a, b)"
  then have "c \<in> set s" by (auto simp: split_first_def split: if_splits)
  then obtain x y where s: "s = x @ c # y" and x: "c \<notin> set x"
    by (meson split_list_first)
  with h show "s = a @ c # b \<and> c \<notin> set a" by (simp add: split_first_append)
next
  assume "s = a @ c # b \<and> c \<notin> set a"
  then show "split_first c s = Some (a, b)" by (simp add: split_first_append)
qed

lemma split_first_shorter: "split_first c s = Some (a, b) \<Longrightarrow> length b < length s"
  by (auto simp: split_first_Some)

text \<open>Trimming: drop a class of bytes from the front, from the back, from both ends.\<close>

definition drop_back :: "('a \<Rightarrow> bool) \<Rightarrow> 'a list \<Rightarrow> 'a list" where
  "drop_back P s = rev (dropWhile P (rev s))"

definition trim_by :: "('a \<Rightarrow> bool) \<Rightarrow> 'a list \<Rightarrow> 'a list" where
  "trim_by P s = drop_back P (dropWhile P s)"

lemma drop_back_Nil [simp]: "drop_back P [] = []"
  by (simp add: drop_back_def)

lemma drop_back_snoc [simp]:
  "drop_back P (s @ [c]) = (if P c then drop_back P s else s @ [c])"
  by (simp add: drop_back_def)

lemma drop_back_id: "s = [] \<or> \<not> P (last s) \<Longrightarrow> drop_back P s = s"
  by (cases s rule: rev_cases) auto

lemma drop_back_prefix: "\<exists>r. s = drop_back P s @ r \<and> (\<forall>c \<in> set r. P c)"
proof -
  have "rev s = takeWhile P (rev s) @ dropWhile P (rev s)" by simp
  then have "s = rev (dropWhile P (rev s)) @ rev (takeWhile P (rev s))"
    by (metis rev_append rev_rev_ident)
  then show ?thesis unfolding drop_back_def
    by (metis set_rev set_takeWhileD)
qed

lemma drop_back_length: "length (drop_back P s) \<le> length s"
  unfolding drop_back_def by (metis length_dropWhile_le length_rev)

lemma drop_back_last: "drop_back P s \<noteq> [] \<Longrightarrow> \<not> P (last (drop_back P s))"
  by (induction s rule: rev_induct) auto

lemma trim_by_id:
  "s = [] \<or> (\<not> P (hd s) \<and> \<not> P (last s)) \<Longrightarrow> trim_by P s = s"
  by (cases s) (auto simp: trim_by_def drop_back_id)

section \<open>Ordered maps\<close>

text \<open>
  \<open>std::map<std::string, V, std::less<>>\<close> is an association list: the operations below keep one
  entry per key. Where the iteration order of the map is visible the list is in key order.
\<close>

type_synonym 'v smap = "(bytes \<times> 'v) list"

definition lookup :: "('k \<times> 'v) list \<Rightarrow> 'k \<Rightarrow> 'v option" where
  "lookup m k = map_of m k"

lemma lookup_Nil [simp]: "lookup [] k = None"
  and lookup_Cons [simp]: "lookup ((a, v) # m) k = (if k = a then Some v else lookup m k)"
  by (simp_all add: lookup_def)

text \<open>\<open>map[key] = value\<close>\<close>

fun assoc_put :: "'k \<Rightarrow> 'v \<Rightarrow> ('k \<times> 'v) list \<Rightarrow> ('k \<times> 'v) list" where
  "assoc_put k v [] = [(k, v)]"
| "assoc_put k v ((a, w) # m) = (if a = k then (k, v) # m else (a, w) # assoc_put k v m)"

text \<open>\<open>map.emplace(key, value)\<close>: an existing entry wins.\<close>

definition assoc_emplace :: "'k \<Rightarrow> 'v \<Rightarrow> ('k \<times> 'v) list \<Rightarrow> ('k \<times> 'v) list" where
  "assoc_emplace k v m = (case lookup m k of None \<Rightarrow> m @ [(k, v)] | Some _ \<Rightarrow> m)"

definition assoc_erase :: "'k \<Rightarrow> ('k \<times> 'v) list \<Rightarrow> ('k \<times> 'v) list" where
  "assoc_erase k m = filter (\<lambda>e. fst e \<noteq> k) m"

definition wf_assoc :: "('k \<times> 'v) list \<Rightarrow> bool" where
  "wf_assoc m \<longleftrightarrow> distinct (map fst m)"

lemma lookup_put [simp, assoc_simps]:
  "lookup (assoc_put k v m) j = (if j = k then Some v else lookup m j)"
  by (induction k v m rule: assoc_put.induct) auto

lemma lookup_append [simp, assoc_simps]:
  "lookup (m @ n) k = (case lookup m k of None \<Rightarrow> lookup n k | Some v \<Rightarrow> Some v)"
  by (induction m) auto

lemma lookup_emplace [simp, assoc_simps]:
  "lookup (assoc_emplace k v m) j =
     (if j = k then (case lookup m k of None \<Rightarrow> Some v | Some w \<Rightarrow> Some w) else lookup m j)"
  by (auto simp: assoc_emplace_def split: option.splits)

lemma lookup_erase [simp, assoc_simps]:
  "lookup (assoc_erase k m) j = (if j = k then None else lookup m j)"
  unfolding assoc_erase_def by (induction m) auto

lemma keys_put: "set (map fst (assoc_put k v m)) = insert k (set (map fst m))"
  by (induction k v m rule: assoc_put.induct) auto

lemma lookup_None: "lookup m k = None \<longleftrightarrow> k \<notin> set (map fst m)"
  unfolding lookup_def by (metis map_of_eq_None_iff list.set_map)

lemma wf_assoc_Nil [simp]: "wf_assoc []"
  by (simp add: wf_assoc_def)

lemma wf_assoc_put [simp, assoc_simps]: "wf_assoc m \<Longrightarrow> wf_assoc (assoc_put k v m)"
  by (induction k v m rule: assoc_put.induct) (auto simp: wf_assoc_def keys_put simp del: set_map)

lemma wf_assoc_emplace [simp, assoc_simps]: "wf_assoc m \<Longrightarrow> wf_assoc (assoc_emplace k v m)"
  by (auto simp: assoc_emplace_def wf_assoc_def lookup_None split: option.splits)

lemma wf_assoc_erase [simp, assoc_simps]: "wf_assoc m \<Longrightarrow> wf_assoc (assoc_erase k m)"
  unfolding wf_assoc_def assoc_erase_def by (simp add: distinct_map_filter)

lemma lookup_in: "lookup m k = Some v \<Longrightarrow> (k, v) \<in> set m"
  by (simp add: lookup_def map_of_SomeD)

lemma in_lookup: "wf_assoc m \<Longrightarrow> (k, v) \<in> set m \<Longrightarrow> lookup m k = Some v"
  by (simp add: lookup_def wf_assoc_def)

section \<open>Encoders and decoders\<close>

text \<open>
  The contract shared by the encoder/decoder pairs of the library (percent-encoding, Netscape
  cookie lines, header lines): every admissible value is decoded from its encoding. Decoding a
  list keeps the elements that decode, as the loops over stored lines do.
\<close>

fun decode_all :: "('b \<Rightarrow> 'a option) \<Rightarrow> 'b list \<Rightarrow> 'a list" where
  "decode_all dec [] = []"
| "decode_all dec (y # ys) =
     (case dec y of None \<Rightarrow> decode_all dec ys | Some x \<Rightarrow> x # decode_all dec ys)"

lemma decode_all_append: "decode_all dec (xs @ ys) = decode_all dec xs @ decode_all dec ys"
  by (induction xs) (auto split: option.splits)

lemma decode_all_set: "set (decode_all dec ys) = {x. \<exists>y \<in> set ys. dec y = Some x}"
  by (induction ys) (auto split: option.splits)

locale codec =
  fixes enc :: "'a \<Rightarrow> 'b"
    and dec :: "'b \<Rightarrow> 'a option"
    and ok :: "'a \<Rightarrow> bool"
  assumes round: "ok x \<Longrightarrow> dec (enc x) = Some x"
begin

lemma enc_inj: "ok x \<Longrightarrow> ok y \<Longrightarrow> enc x = enc y \<longleftrightarrow> x = y"
  by (metis option.inject round)

lemma enc_inj_on: "inj_on enc {x. ok x}"
  by (rule inj_onI) (simp add: enc_inj)

lemma decode_all_map: "\<forall>x \<in> set xs. ok x \<Longrightarrow> decode_all dec (map enc xs) = xs"
  by (induction xs) (auto simp: round)

lemma map_enc_inj:
  assumes "\<forall>x \<in> set xs. ok x" and "\<forall>y \<in> set ys. ok y" and "map enc xs = map enc ys"
  shows "xs = ys"
  by (metis assms decode_all_map)

end

end
