(* ===== verification/Bitset.thy ===== *)
theory Bitset
  imports Prelude
begin

unbundle bit_operations_syntax

text \<open>
  \<open>include/aniparse/detail/BitsetLite.hpp\<close> and \<open>include/aniparse/detail/StrongBitset.hpp\<close>: the
  fixed-size bit set behind every capability descriptor, and the strongly typed wrapper around it
  (\<open>utility/FlagsBitfield.hpp\<close>), with the capability bits of \<open>types/Flags.hpp\<close>. The template
  parameter \<open>BitCount\<close> is the record field \<open>bit_count\<close>; \<open>Word\<close> is the 64-bit \<open>unsigned long\<close> of
  an LP64 platform. The abstraction \<open>bits\<close> reads a bit set as the set of its positions.
\<close>

section \<open>The data\<close>

record bitset =
  bit_count :: nat
  arr :: "64 word list"

datatype bitset_error = OutOfRange

definition word_bits :: nat where
  "word_bits = 64"

definition word_count :: "nat \<Rightarrow> nat" where
  "word_count n = (if n = 0 then 0 else (n - 1) div word_bits + 1)"

definition all_ones_word :: "64 word" where
  "all_ones_word = NOT 0"

definition last_word_bits :: "nat \<Rightarrow> nat" where
  "last_word_bits n = n mod word_bits"

definition last_word_mask :: "nat \<Rightarrow> 64 word" where
  "last_word_mask n =
     (if last_word_bits n = 0 then all_ones_word else push_bit (last_word_bits n) 1 - 1)"

definition retain_mask_needed :: "nat \<Rightarrow> bool" where
  "retain_mask_needed n \<longleftrightarrow> n \<le> word_bits"

section \<open>Construction and queries\<close>

definition bl_empty :: "nat \<Rightarrow> bitset" where
  "bl_empty n = \<lparr>bit_count = n, arr = replicate (if word_count n = 0 then 1 else word_count n) 0\<rparr>"

definition bl_of_word :: "nat \<Rightarrow> 64 word \<Rightarrow> bitset" where
  "bl_of_word n v =
     (let b = bl_empty n in
      if n = 0 then b
      else if retain_mask_needed n then b\<lparr>arr := (arr b)[0 := v AND last_word_mask n]\<rparr>
      else b\<lparr>arr := (arr b)[0 := v]\<rparr>)"

definition bl_size :: "bitset \<Rightarrow> nat" where
  "bl_size b = bit_count b"

definition bl_all :: "bitset \<Rightarrow> bool" where
  "bl_all b =
     (let n = bit_count b; wc = word_count n in
      if n = 0 then True
      else if list_all (\<lambda>w. w = all_ones_word) (take (wc - 1) (arr b))
      then arr b ! (wc - 1) AND last_word_mask n = last_word_mask n
      else False)"

definition bl_any :: "bitset \<Rightarrow> bool" where
  "bl_any b =
     (let n = bit_count b; wc = word_count n in
      if n = 0 then False
      else if list_ex (\<lambda>w. w \<noteq> 0) (take (wc - 1) (arr b)) then True
      else arr b ! (wc - 1) AND last_word_mask n \<noteq> 0)"

definition bl_none :: "bitset \<Rightarrow> bool" where
  "bl_none b = (\<not> bl_any b)"

definition bl_eq :: "bitset \<Rightarrow> bitset \<Rightarrow> bool" where
  "bl_eq l r = (let wc = word_count (bit_count l) in take wc (arr l) = take wc (arr r))"

definition bl_neq :: "bitset \<Rightarrow> bitset \<Rightarrow> bool" where
  "bl_neq l r = (\<not> bl_eq l r)"

definition get_bit :: "bitset \<Rightarrow> nat \<Rightarrow> bool" where
  "get_bit b pos =
     (let new_bit = push_bit (pos mod word_bits) 1
      in arr b ! (pos div word_bits) AND new_bit \<noteq> 0)"

section \<open>Updates\<close>

definition set_nothrow :: "bitset \<Rightarrow> nat \<Rightarrow> bool \<Rightarrow> bitset" where
  "set_nothrow b pos value =
     (let i = pos div word_bits; w = arr b ! i; new_bit = push_bit (pos mod word_bits) 1
      in b\<lparr>arr := (arr b)[i := if value then w OR new_bit else w AND NOT new_bit]\<rparr>)"

text \<open>\<open>bitset[pos] = value\<close> through a \<open>BitReference\<close>, which does not check the position.\<close>

definition bit_reference_assign :: "bitset \<Rightarrow> nat \<Rightarrow> bool \<Rightarrow> bitset" where
  "bit_reference_assign b pos value = set_nothrow b pos value"

definition bl_set :: "bitset \<Rightarrow> nat \<Rightarrow> bool \<Rightarrow> bitset_error + bitset" where
  "bl_set b pos value = (if bit_count b \<le> pos then Inl OutOfRange else Inr (set_nothrow b pos value))"

definition bl_set_all :: "bitset \<Rightarrow> bitset" where
  "bl_set_all b =
     (let wc = word_count (bit_count b)
      in b\<lparr>arr := replicate wc all_ones_word @ drop wc (arr b)\<rparr>)"

definition bl_reset :: "bitset \<Rightarrow> nat \<Rightarrow> bitset_error + bitset" where
  "bl_reset b pos = (if bit_count b \<le> pos then Inl OutOfRange else Inr (set_nothrow b pos False))"

definition bl_reset_all :: "bitset \<Rightarrow> bitset" where
  "bl_reset_all b =
     (let wc = word_count (bit_count b)
      in b\<lparr>arr := replicate wc 0 @ drop wc (arr b)\<rparr>)"

definition bl_test :: "bitset \<Rightarrow> nat \<Rightarrow> bitset_error + bool" where
  "bl_test b pos = (if bit_count b \<le> pos then Inl OutOfRange else Inr (get_bit b pos))"

text \<open>The three compound assignments run one word operation over the significant words.\<close>

definition word_op_assign :: "(64 word \<Rightarrow> 64 word \<Rightarrow> 64 word) \<Rightarrow> bitset \<Rightarrow> bitset \<Rightarrow> bitset" where
  "word_op_assign f l r =
     (let wc = word_count (bit_count l)
      in l\<lparr>arr := map2 f (take wc (arr l)) (take wc (arr r)) @ drop wc (arr l)\<rparr>)"

definition bl_or_assign :: "bitset \<Rightarrow> bitset \<Rightarrow> bitset" where
  "bl_or_assign = word_op_assign (OR)"

definition bl_and_assign :: "bitset \<Rightarrow> bitset \<Rightarrow> bitset" where
  "bl_and_assign = word_op_assign (AND)"

definition bl_xor_assign :: "bitset \<Rightarrow> bitset \<Rightarrow> bitset" where
  "bl_xor_assign = word_op_assign (XOR)"

definition bl_not :: "bitset \<Rightarrow> bitset" where
  "bl_not b =
     (let wc = word_count (bit_count b); tmp = bl_empty (bit_count b)
      in tmp\<lparr>arr := map (\<lambda>w. w XOR all_ones_word) (take wc (arr b)) @ drop wc (arr tmp)\<rparr>)"

text \<open>
  The binary operators: an overload for each value category of the operands. Two of them reuse
  the left operand, one copies it, and one (a temporary on the right) accumulates into the right.
\<close>

datatype value_category = LValue | RValue

fun binary_overload ::
  "(bitset \<Rightarrow> bitset \<Rightarrow> bitset) \<Rightarrow> value_category \<Rightarrow> value_category \<Rightarrow> bitset \<Rightarrow> bitset \<Rightarrow> bitset" where
  "binary_overload assign LValue LValue l r = (let tmp = l in assign tmp r)"
| "binary_overload assign RValue LValue l r = assign l r"
| "binary_overload assign LValue RValue l r = assign r l"
| "binary_overload assign RValue RValue l r = assign l r"

definition bl_or :: "value_category \<Rightarrow> value_category \<Rightarrow> bitset \<Rightarrow> bitset \<Rightarrow> bitset" where
  "bl_or = binary_overload bl_or_assign"

definition bl_and :: "value_category \<Rightarrow> value_category \<Rightarrow> bitset \<Rightarrow> bitset \<Rightarrow> bitset" where
  "bl_and = binary_overload bl_and_assign"

definition bl_xor :: "value_category \<Rightarrow> value_category \<Rightarrow> bitset \<Rightarrow> bitset \<Rightarrow> bitset" where
  "bl_xor = binary_overload bl_xor_assign"

definition to_ullong :: "bitset \<Rightarrow> 64 word" where
  "to_ullong b =
     (if bit_count b = 0 then 0
      else if \<not> retain_mask_needed (bit_count b) then arr b ! 0
      else arr b ! 0 AND last_word_mask (bit_count b))"

definition to_ulong :: "bitset \<Rightarrow> 64 word" where
  "to_ulong b =
     (if bit_count b = 0 then 0
      else if \<not> retain_mask_needed (bit_count b) then arr b ! 0
      else arr b ! 0 AND last_word_mask (bit_count b))"

section \<open>Invariant and abstraction\<close>

definition wf_bitset :: "bitset \<Rightarrow> bool" where
  "wf_bitset b \<longleftrightarrow> length (arr b) = (if word_count (bit_count b) = 0 then 1 else word_count (bit_count b))"

text \<open>No bit beyond \<open>bit_count\<close> is set in the last word.\<close>

definition clean :: "bitset \<Rightarrow> bool" where
  "clean b \<longleftrightarrow> bit_count b = 0 \<or>
     arr b ! (word_count (bit_count b) - 1) AND NOT (last_word_mask (bit_count b)) = 0"

definition bits :: "bitset \<Rightarrow> nat set" where
  "bits b = {i. i < bit_count b \<and> get_bit b i}"

lemmas bitset_defs =
  bl_empty_def bl_of_word_def bl_set_all_def bl_reset_all_def word_op_assign_def
  bl_or_assign_def bl_and_assign_def bl_xor_assign_def bl_not_def set_nothrow_def Let_def

lemma word_count_Suc: "0 < n \<Longrightarrow> word_count n = Suc ((n - 1) div 64)"
  by (simp add: word_count_def word_bits_def)

lemma word_index_less: "i < n \<Longrightarrow> i div 64 < word_count n"
  by (cases n) (auto simp: word_count_def word_bits_def less_Suc_eq_le div_le_mono)

lemma full_word: "j < word_count n - 1 \<Longrightarrow> k < 64 \<Longrightarrow> j * 64 + k < n"
  by (auto simp: word_count_def word_bits_def split: if_splits)

lemma bit_last_word_mask:
  assumes "0 < n" and "k < 64"
  shows "bit (last_word_mask n) k \<longleftrightarrow> (word_count n - 1) * 64 + k < n"
proof (cases "n mod 64 = 0")
  case True
  obtain q where q: "n = 64 * q" using True by (auto elim: dvdE simp: mod_eq_0_iff_dvd)
  then obtain p where p: "q = Suc p" using assms(1) by (cases q) auto
  have e: "n - 1 = 63 + p * 64" using q p by simp
  have "(n - 1) div 64 = p" unfolding e by (subst div_mult_self1) simp_all
  then have "(n - 1) div 64 * 64 + k < n" using q p assms(2) by simp
  then have "(word_count n - 1) * 64 + k < n" using assms(1) by (simp add: word_count_Suc)
  moreover have "bit (last_word_mask n) k"
    using True assms(2) by (simp add: last_word_mask_def last_word_bits_def word_bits_def all_ones_word_def)
  ultimately show ?thesis by simp
next
  case False
  define q where "q = n div 64"
  define r where "r = n mod 64"
  have n: "n = 64 * q + r" by (simp add: q_def r_def)
  have r: "0 < r" "r < 64" using False by (simp_all add: r_def)
  have m: "(2 :: 64 word) ^ r - 1 = mask r" by (simp add: mask_eq_exp_minus_1)
  have "(n - 1) div 64 = q" by (rule div_nat_eqI) (use n r in simp_all)
  then have wc: "word_count n - 1 = q" by (simp add: word_count_Suc [OF assms(1)])
  have "bit (last_word_mask n) k \<longleftrightarrow> k < r"
    using r assms(2)
    by (simp add: last_word_mask_def last_word_bits_def word_bits_def flip: r_def) (simp add: m bit_simps)
  also have "k < r \<longleftrightarrow> q * 64 + k < n" using n by linarith
  finally show ?thesis unfolding wc .
qed

lemma get_bit_bit: "get_bit b i = bit (arr b ! (i div 64)) (i mod 64)"
  by (simp add: get_bit_def word_bits_def bit_iff_and_push_bit_not_eq_0)

lemma bits_cong:
  assumes "bit_count l = bit_count r" and "\<And>i. i < bit_count l \<Longrightarrow> get_bit l i = get_bit r i"
  shows "bits l = bits r"
  using assms by (auto simp: bits_def)

lemma bits_bound: "bits b \<subseteq> {..<bit_count b}"
  by (auto simp: bits_def)

text \<open>How a bit reads after each update.\<close>

lemma wf_length: "wf_bitset b \<Longrightarrow> i < bit_count b \<Longrightarrow> i div 64 < length (arr b)"
  using word_index_less [of i "bit_count b"] by (auto simp: wf_bitset_def split: if_splits)

lemma get_bit_empty [simp]: "i < n \<Longrightarrow> \<not> get_bit (bl_empty n) i"
  using word_index_less [of i n] by (simp add: get_bit_bit bl_empty_def)

lemma get_bit_set_nothrow:
  assumes "wf_bitset b" "pos < bit_count b" "i < bit_count b"
  shows "get_bit (set_nothrow b pos v) i = (if i = pos then v else get_bit b i)"
proof -
  have len: "pos div 64 < length (arr b)" "i div 64 < length (arr b)"
    using assms by (auto intro: wf_length)
  have eq: "i = pos \<longleftrightarrow> i div 64 = pos div 64 \<and> i mod 64 = pos mod 64"
    by (metis div_mult_mod_eq)
  show ?thesis using len unfolding eq
    by (auto simp: get_bit_bit set_nothrow_def Let_def word_bits_def nth_list_update bit_simps)
qed

lemma get_bit_word_op:
  assumes "wf_bitset l" "wf_bitset r" "bit_count r = bit_count l" "i < bit_count l"
  shows "get_bit (word_op_assign f l r) i =
    bit (f (arr l ! (i div 64)) (arr r ! (i div 64))) (i mod 64)"
proof -
  have "i div 64 < word_count (bit_count l)" using assms(4) by (rule word_index_less)
  moreover have "word_count (bit_count l) \<le> length (arr l)"
    "word_count (bit_count l) \<le> length (arr r)"
    using assms by (auto simp: wf_bitset_def)
  ultimately show ?thesis
    by (simp add: get_bit_bit word_op_assign_def Let_def nth_append)
qed

lemma get_bit_or:
  "\<lbrakk>wf_bitset l; wf_bitset r; bit_count r = bit_count l; i < bit_count l\<rbrakk> \<Longrightarrow>
   get_bit (bl_or_assign l r) i = (get_bit l i \<or> get_bit r i)"
  by (simp add: bl_or_assign_def get_bit_word_op bit_simps) (simp add: get_bit_bit)

lemma get_bit_and:
  "\<lbrakk>wf_bitset l; wf_bitset r; bit_count r = bit_count l; i < bit_count l\<rbrakk> \<Longrightarrow>
   get_bit (bl_and_assign l r) i = (get_bit l i \<and> get_bit r i)"
  by (simp add: bl_and_assign_def get_bit_word_op bit_simps) (simp add: get_bit_bit)

lemma get_bit_xor:
  "\<lbrakk>wf_bitset l; wf_bitset r; bit_count r = bit_count l; i < bit_count l\<rbrakk> \<Longrightarrow>
   get_bit (bl_xor_assign l r) i = (get_bit l i \<noteq> get_bit r i)"
  by (simp add: bl_xor_assign_def get_bit_word_op bit_simps) (simp add: get_bit_bit)

lemma get_bit_not:
  assumes "wf_bitset b" "i < bit_count b"
  shows "get_bit (bl_not b) i = (\<not> get_bit b i)"
proof -
  have "i div 64 < word_count (bit_count b)" using assms(2) by (rule word_index_less)
  then show ?thesis using wf_length [OF assms] assms(1)
    by (simp add: get_bit_bit bl_not_def Let_def nth_append all_ones_word_def bit_simps)
qed

lemma get_bit_set_all: "i < bit_count b \<Longrightarrow> get_bit (bl_set_all b) i"
  using word_index_less [of i "bit_count b"]
  by (simp add: get_bit_bit bl_set_all_def Let_def nth_append all_ones_word_def bit_simps)

lemma get_bit_reset_all: "i < bit_count b \<Longrightarrow> \<not> get_bit (bl_reset_all b) i"
  using word_index_less [of i "bit_count b"]
  by (simp add: get_bit_bit bl_reset_all_def Let_def nth_append)

lemma get_bit_of_word:
  assumes "i < n"
  shows "get_bit (bl_of_word n v) i = (i < 64 \<and> bit v i)"
proof -
  have ne: "0 < n" and wc: "word_count n \<noteq> 0" using assms by (auto simp: word_count_def)
  show ?thesis
  proof (cases "n \<le> 64")
    case True
    have "word_count n = 1" using True ne by (simp add: word_count_Suc)
    then have "bit (last_word_mask n) i" using assms True bit_last_word_mask [OF ne, of i] by simp
    then show ?thesis using assms True ne wc
      by (simp add: get_bit_bit bl_of_word_def bl_empty_def retain_mask_needed_def word_bits_def
          Let_def bit_simps)
  next
    case False
    have lt: "i div 64 < word_count n" using assms by (rule word_index_less)
    show ?thesis using False ne wc lt
      by (cases "i < 64")
        (auto simp: get_bit_bit bl_of_word_def bl_empty_def retain_mask_needed_def word_bits_def
          Let_def nth_list_update div_eq_0_iff)
  qed
qed

lemma bit_count_ops [simp]:
  "bit_count (bl_empty n) = n" "bit_count (bl_of_word n v) = n"
  "bit_count (set_nothrow b pos u) = bit_count b" "bit_count (bl_set_all b) = bit_count b"
  "bit_count (bl_reset_all b) = bit_count b" "bit_count (word_op_assign f l r) = bit_count l"
  "bit_count (bl_or_assign l r) = bit_count l" "bit_count (bl_and_assign l r) = bit_count l"
  "bit_count (bl_xor_assign l r) = bit_count l" "bit_count (bl_not b) = bit_count b"
  by (simp_all add: bitset_defs)

lemma bits_empty [simp]: "bits (bl_empty n) = {}"
proof -
  have "i \<notin> bits (bl_empty n)" for i
    using get_bit_empty [of i n] by (cases "i < n") (simp_all add: bits_def)
  then show ?thesis by blast
qed

lemma wf_ops [simp, intro]:
  "wf_bitset (bl_empty n)" "wf_bitset (bl_of_word n v)"
  "wf_bitset b \<Longrightarrow> wf_bitset (set_nothrow b pos u)"
  "wf_bitset b \<Longrightarrow> wf_bitset (bl_set_all b)" "wf_bitset b \<Longrightarrow> wf_bitset (bl_reset_all b)"
  "wf_bitset l \<Longrightarrow> wf_bitset r \<Longrightarrow> bit_count r = bit_count l \<Longrightarrow> wf_bitset (word_op_assign f l r)"
  "wf_bitset b \<Longrightarrow> wf_bitset (bl_not b)"
  by (auto simp: wf_bitset_def bitset_defs split: if_splits)

lemma wf_assign [simp, intro]:
  assumes "wf_bitset l" "wf_bitset r" "bit_count r = bit_count l"
  shows "wf_bitset (bl_or_assign l r)" "wf_bitset (bl_and_assign l r)" "wf_bitset (bl_xor_assign l r)"
  using assms by (simp_all add: bl_or_assign_def bl_and_assign_def bl_xor_assign_def)

text \<open>
  A statement about every position splits into one about the full words and one about the
  significant bits of the last word: \<open>all\<close>, \<open>any\<close> and \<open>operator==\<close> all test words this way.
\<close>

lemma positions_split:
  assumes "0 < n"
  shows "(\<forall>i<n. P (i div 64) (i mod 64)) \<longleftrightarrow>
    (\<forall>j<word_count n - 1. \<forall>k<64. P j k) \<and> (\<forall>k<64. bit (last_word_mask n) k \<longrightarrow> P (word_count n - 1) k)"
    (is "?L \<longleftrightarrow> ?R")
proof
  assume L: ?L
  have "P j k" if "j < word_count n - 1" "k < 64" for j k
    using L [rule_format, of "j * 64 + k"] full_word [OF that] that(2) by simp
  moreover have "P (word_count n - 1) k" if "k < 64" "bit (last_word_mask n) k" for k
    using L [rule_format, of "(word_count n - 1) * 64 + k"] that bit_last_word_mask [OF assms that(1)]
    by simp
  ultimately show ?R by blast
next
  assume R: ?R
  show ?L
  proof (intro allI impI)
    fix i assume i: "i < n"
    have k: "i mod 64 < 64" by simp
    consider "i div 64 < word_count n - 1" | "i div 64 = word_count n - 1"
      using word_index_less [OF i] by linarith
    then show "P (i div 64) (i mod 64)"
    proof cases
      case 1
      then show ?thesis using R k by blast
    next
      case 2
      then have "(word_count n - 1) * 64 + i mod 64 = i" by (metis div_mult_mod_eq)
      then have "bit (last_word_mask n) (i mod 64)" using bit_last_word_mask [OF assms k] i by simp
      then show ?thesis using R k 2 by metis
    qed
  qed
qed

lemma word_all_ones: "w = all_ones_word \<longleftrightarrow> (\<forall>k<64. bit w k)" for w :: "64 word"
  unfolding all_ones_word_def by (auto intro: bit_word_eqI)

lemma word_and_mask_eq:
  "w AND m = m \<longleftrightarrow> (\<forall>k<64. bit m k \<longrightarrow> bit w k)" for w m :: "64 word"
proof
  assume "w AND m = m"
  then show "\<forall>k<64. bit m k \<longrightarrow> bit w k" by (metis bit_and_iff)
next
  assume "\<forall>k<64. bit m k \<longrightarrow> bit w k"
  then show "w AND m = m" by (auto intro: bit_word_eqI simp: bit_simps)
qed

lemma word_nonzero: "w \<noteq> 0 \<longleftrightarrow> (\<exists>k<64. bit w k)" for w :: "64 word"
proof -
  have "w = 0 \<longleftrightarrow> (\<forall>k<64. \<not> bit w k)" by (auto intro: bit_word_eqI)
  then show ?thesis by blast
qed

lemma wf_take:
  assumes "wf_bitset b" "0 < bit_count b"
  shows "length (arr b) = word_count (bit_count b)" "0 < word_count (bit_count b)"
  using assms by (auto simp: wf_bitset_def word_count_def split: if_splits)

lemma bl_all_iff: "wf_bitset b \<Longrightarrow> bl_all b \<longleftrightarrow> (\<forall>i<bit_count b. get_bit b i)"
proof (cases "bit_count b = 0")
  case False
  assume wf: "wf_bitset b"
  from False have n: "0 < bit_count b" by simp
  note len = wf_take [OF wf n]
  have "list_all (\<lambda>w. w = all_ones_word) (take (word_count (bit_count b) - 1) (arr b)) \<longleftrightarrow>
      (\<forall>j<word_count (bit_count b) - 1. \<forall>k<64. bit (arr b ! j) k)"
    using len by (auto simp: list_all_length word_all_ones)
  then show ?thesis using False
    unfolding get_bit_bit
    by (simp add: bl_all_def Let_def word_and_mask_eq
        positions_split [OF n, of "\<lambda>j k. bit (arr b ! j) k"])
qed (simp add: bl_all_def)

lemma bl_any_iff: "wf_bitset b \<Longrightarrow> bl_any b \<longleftrightarrow> (\<exists>i<bit_count b. get_bit b i)"
proof (cases "bit_count b = 0")
  case False
  assume wf: "wf_bitset b"
  from False have n: "0 < bit_count b" by simp
  note len = wf_take [OF wf n]
  have "list_ex (\<lambda>w. w \<noteq> 0) (take (word_count (bit_count b) - 1) (arr b)) \<longleftrightarrow>
      (\<exists>j<word_count (bit_count b) - 1. \<exists>k<64. bit (arr b ! j) k)"
    unfolding list_ex_length word_nonzero using len by (auto cong: conj_cong)
  moreover have "(arr b ! (word_count (bit_count b) - 1) AND last_word_mask (bit_count b) \<noteq> 0) \<longleftrightarrow>
      (\<exists>k<64. bit (last_word_mask (bit_count b)) k \<and> bit (arr b ! (word_count (bit_count b) - 1)) k)"
    unfolding word_nonzero by (auto simp: bit_and_iff)
  ultimately have "bl_any b \<longleftrightarrow> \<not> ((\<forall>j<word_count (bit_count b) - 1. \<forall>k<64. \<not> bit (arr b ! j) k) \<and>
      (\<forall>k<64. bit (last_word_mask (bit_count b)) k \<longrightarrow> \<not> bit (arr b ! (word_count (bit_count b) - 1)) k))"
    using False by (auto simp: bl_any_def Let_def)
  also have "\<dots> \<longleftrightarrow> \<not> (\<forall>i<bit_count b. \<not> get_bit b i)"
    unfolding get_bit_bit positions_split [OF n, of "\<lambda>j k. \<not> bit (arr b ! j) k", symmetric] by simp
  finally show ?thesis by blast
qed (simp add: bl_any_def)

lemma clean_bit:
  assumes "0 < bit_count b"
  shows "clean b \<longleftrightarrow> (\<forall>k<64. bit (arr b ! (word_count (bit_count b) - 1)) k \<longrightarrow>
    bit (last_word_mask (bit_count b)) k)"
  using assms word_nonzero [of "arr b ! (word_count (bit_count b) - 1) AND NOT (last_word_mask (bit_count b))"]
  by (auto simp: clean_def bit_simps)

lemma bl_eq_iff:
  assumes wf: "wf_bitset l" "wf_bitset r" and cnt: "bit_count r = bit_count l"
    and cl: "clean l" "clean r"
  shows "bl_eq l r \<longleftrightarrow> (\<forall>i<bit_count l. get_bit l i = get_bit r i)"
proof (cases "bit_count l = 0")
  case False
  then have n: "0 < bit_count l" by simp
  let ?wc = "word_count (bit_count l)" and ?m = "last_word_mask (bit_count l)"
  have len: "length (arr l) = ?wc" "length (arr r) = ?wc" "0 < ?wc"
    using wf_take [OF wf(1) n] wf_take [OF wf(2)] n cnt by auto
  have full: "arr l ! j = arr r ! j \<longleftrightarrow> (\<forall>k<64. bit (arr l ! j) k = bit (arr r ! j) k)" for j
    by (auto intro: bit_word_eqI)
  have last: "(\<forall>k<64. bit ?m k \<longrightarrow> bit (arr l ! (?wc - 1)) k = bit (arr r ! (?wc - 1)) k) \<longleftrightarrow>
      arr l ! (?wc - 1) = arr r ! (?wc - 1)"
    unfolding full using cl clean_bit [OF n] clean_bit [of r] n cnt by auto
  have "bl_eq l r \<longleftrightarrow> (\<forall>j<?wc. arr l ! j = arr r ! j)"
    using len by (simp add: bl_eq_def Let_def list_eq_iff_nth_eq)
  also have "\<dots> \<longleftrightarrow> (\<forall>j<?wc - 1. arr l ! j = arr r ! j) \<and> arr l ! (?wc - 1) = arr r ! (?wc - 1)"
    using len(3) by (metis (no_types, lifting) Suc_pred' less_Suc_eq)
  also have "\<dots> \<longleftrightarrow> (\<forall>i<bit_count l. get_bit l i = get_bit r i)"
    unfolding get_bit_bit positions_split [OF n, of "\<lambda>j k. bit (arr l ! j) k = bit (arr r ! j) k"]
      full [symmetric] last by (simp add: full)
  finally show ?thesis .
qed (simp add: bl_eq_def word_count_def)

section \<open>Cleanliness\<close>

lemma clean_full_words: "bit_count b mod 64 = 0 \<Longrightarrow> clean b"
  by (simp add: clean_def last_word_mask_def last_word_bits_def word_bits_def all_ones_word_def)

lemma clean_empty [simp, intro]: "clean (bl_empty n)"
  by (auto simp: clean_def bl_empty_def)

lemma clean_set_nothrow:
  assumes "wf_bitset b" "clean b" "pos < bit_count b"
  shows "clean (set_nothrow b pos v)"
proof -
  have n: "0 < bit_count b" using assms(3) by simp
  let ?last = "word_count (bit_count b) - 1"
  have len: "?last < length (arr b)" using wf_take [OF assms(1) n] by simp
  have sig: "bit (last_word_mask (bit_count b)) (pos mod 64)" if "pos div 64 = ?last"
  proof -
    have "?last * 64 + pos mod 64 = pos" using that by (metis div_mult_mod_eq)
    then show ?thesis using bit_last_word_mask [OF n, of "pos mod 64"] assms(3) by simp
  qed
  have old: "bit (last_word_mask (bit_count b)) k" if "k < 64" "bit (arr b ! ?last) k" for k
    using assms(2) that clean_bit [OF n] by blast
  show ?thesis
  proof (cases "pos div 64 = ?last")
    case False
    then show ?thesis using old n
      by (simp add: clean_bit set_nothrow_def Let_def word_bits_def)
  next
    case True
    have sig': "bit (last_word_mask (bit_count b)) (pos mod 64)" by (rule sig [OF True])
    show ?thesis using old n True len sig'
      by (auto simp: clean_bit set_nothrow_def Let_def word_bits_def bit_simps)
  qed
qed

lemma word_op_last:
  assumes "wf_bitset l" "wf_bitset r" "bit_count r = bit_count l" "0 < bit_count l"
  shows "arr (word_op_assign f l r) ! (word_count (bit_count l) - 1) =
    f (arr l ! (word_count (bit_count l) - 1)) (arr r ! (word_count (bit_count l) - 1))"
  using wf_take [OF assms(1,4)] wf_take [OF assms(2)] assms(3,4)
  by (simp add: word_op_assign_def Let_def nth_append)

lemma clean_assign:
  assumes "wf_bitset l" "wf_bitset r" "bit_count r = bit_count l" "clean l" "clean r"
  shows "clean (bl_or_assign l r)" "clean (bl_and_assign l r)" "clean (bl_xor_assign l r)"
proof -
  have "clean (word_op_assign f l r)"
    if f: "\<And>a b k. bit (f a b) k \<Longrightarrow> bit a k \<or> bit b k" for f
  proof (cases "bit_count l = 0")
    case True
    then show ?thesis by (simp add: clean_def)
  next
    case False
    then have n: "0 < bit_count l" by simp
    show ?thesis using assms(4,5) clean_bit [OF n] clean_bit [of r] n assms(3)
        word_op_last [OF assms(1-3) n, of f] clean_bit [of "word_op_assign f l r"] f
      by fastforce
  qed
  from this [of "(OR)"] this [of "(AND)"] this [of "(XOR)"]
  show "clean (bl_or_assign l r)" "clean (bl_and_assign l r)" "clean (bl_xor_assign l r)"
    by (auto simp: bl_or_assign_def bl_and_assign_def bl_xor_assign_def bit_simps)
qed

lemma clean_of_word [simp, intro]: "clean (bl_of_word n v)"
proof (cases "0 < n \<and> n \<le> 64")
  case True
  then have "word_count n = 1" by (auto simp: word_count_Suc div_eq_0_iff)
  with True show ?thesis
    by (simp add: clean_def bl_of_word_def Let_def retain_mask_needed_def word_bits_def bl_empty_def
        and.assoc flip: One_nat_def)
next
  case False
  then consider "n = 0" | "64 < n" by linarith
  then show ?thesis
  proof cases
    case 2
    then have "word_count n - 1 \<noteq> 0" "0 < n" by (auto simp: word_count_Suc div_eq_0_iff)
    with 2 show ?thesis
      by (simp add: clean_def bl_of_word_def Let_def retain_mask_needed_def word_bits_def bl_empty_def
          nth_list_update)
  qed (simp add: clean_def)
qed

lemma clean_reset_all: "wf_bitset b \<Longrightarrow> clean (bl_reset_all b)"
  by (cases "bit_count b = 0")
    (simp_all add: clean_def bl_reset_all_def Let_def nth_append word_count_Suc del: replicate_Suc)

lemmas bitset_reads =
  get_bit_or get_bit_and get_bit_xor get_bit_not get_bit_set_all get_bit_reset_all
  get_bit_set_nothrow get_bit_of_word

section \<open>Properties\<close>

text \<open>C5: the word-parallel operations of BitsetLite implement the set operations on positions: each
  compound assignment is the union, intersection or symmetric difference of the operands' positions,
  and \<open>operator~\<close>, \<open>set()\<close> and \<open>reset()\<close> are the complement below BitCount, everything and nothing.\<close>

theorem bitset_refines_set:
  assumes "wf_bitset l" "wf_bitset r" "bit_count r = bit_count l"
  shows "bits (bl_or_assign l r) = bits l \<union> bits r \<and>
    bits (bl_and_assign l r) = bits l \<inter> bits r \<and>
    bits (bl_xor_assign l r) = (bits l - bits r) \<union> (bits r - bits l) \<and>
    bits (bl_not l) = {..<bit_count l} - bits l \<and>
    bits (bl_set_all l) = {..<bit_count l} \<and>
    bits (bl_reset_all l) = {}"
  using assms by (intro conjI) (auto simp: bits_def bitset_reads)

theorem bitset_refines_set_witness:
  "bits (bl_or_assign (bl_of_word 70 5) (bl_of_word 70 2)) = bits (bl_of_word 70 5) \<union> bits (bl_of_word 70 2)"
  using bitset_refines_set [of "bl_of_word 70 5" "bl_of_word 70 2"] by simp

text \<open>The checked single-bit operations: a position at or past BitCount throws out_of_range and
  changes nothing; a position in range sets, resets or reads exactly that bit and leaves the others.\<close>

theorem bitset_checked_ops:
  assumes "wf_bitset b"
  shows "if bit_count b \<le> pos
    then bl_set b pos v = Inl OutOfRange \<and> bl_reset b pos = Inl OutOfRange \<and> bl_test b pos = Inl OutOfRange
    else (\<exists>b1 b2. bl_set b pos v = Inr b1 \<and> wf_bitset b1 \<and> bit_count b1 = bit_count b \<and>
        bits b1 = (if v then insert pos (bits b) else bits b - {pos}) \<and>
        bl_reset b pos = Inr b2 \<and> bits b2 = bits b - {pos} \<and>
        bl_test b pos = Inr (pos \<in> bits b))"
  using assms
  by (auto simp: bl_set_def bl_reset_def bl_test_def bits_def get_bit_set_nothrow split: if_splits)

theorem bitset_checked_ops_witness:
  "bl_test (bl_of_word 10 4) 2 = Inr (2 \<in> bits (bl_of_word 10 4)) \<and>
   bl_set (bl_of_word 10 4) 10 True = Inl OutOfRange"
  using bitset_checked_ops [of "bl_of_word 10 4" 2 True] bitset_checked_ops [of "bl_of_word 10 4" 10 True]
  by auto

text \<open>\<open>all()\<close>, \<open>any()\<close> and \<open>none()\<close> answer for the BitCount positions only, whatever the unused
  high bits of the last word hold.\<close>

theorem bitset_quantifiers:
  assumes "wf_bitset b"
  shows "(bl_all b \<longleftrightarrow> bits b = {..<bit_count b}) \<and> (bl_any b \<longleftrightarrow> bits b \<noteq> {}) \<and>
    (bl_none b \<longleftrightarrow> bits b = {})"
  using bl_all_iff [OF assms] bl_any_iff [OF assms] by (auto simp: bl_none_def bits_def)

theorem bitset_quantifiers_witness:
  "bl_all (bl_set_all (bl_empty 10)) \<longleftrightarrow> bits (bl_set_all (bl_empty 10)) = {..<bit_count (bl_set_all (bl_empty 10))}"
  using bitset_quantifiers [of "bl_set_all (bl_empty 10)"] by simp

text \<open>on bit sets whose unused bits are clear, \<open>operator==\<close> is equality of the sets of positions;
  the value constructor and the compound assignments keep the unused bits clear, and when BitCount is a
  multiple of the word size there are none.\<close>

theorem bitset_equality:
  assumes "wf_bitset l" "wf_bitset r" "bit_count r = bit_count l" "clean l" "clean r"
  shows "(bl_eq l r \<longleftrightarrow> bits l = bits r) \<and> clean (bl_or_assign l r) \<and> clean (bl_and_assign l r) \<and> clean (bl_xor_assign l r)"
  using bl_eq_iff [OF assms] clean_assign [OF assms] assms(3) by (auto simp: bits_def)

text \<open>\<open>set()\<close> fills the unused bits of the last word and \<open>operator==\<close> compares whole words, so two
  ten-bit sets that hold the same ten positions (and that \<open>all()\<close> both accepts) compare unequal.\<close>

theorem bitset_equality_sees_unused_bits:
  "bits (bl_set_all (bl_empty 10)) = bits (bl_of_word 10 1023) \<and>
   bl_all (bl_set_all (bl_empty 10)) \<and> bl_all (bl_of_word 10 1023) \<and>
   \<not> bl_eq (bl_set_all (bl_empty 10)) (bl_of_word 10 1023)"
proof -
  have ne: "\<not> bl_eq (bl_set_all (bl_empty 10)) (bl_of_word 10 1023)"
    by (simp add: bl_eq_def bl_set_all_def bl_of_word_def bl_empty_def word_count_def word_bits_def
        retain_mask_needed_def last_word_mask_def last_word_bits_def all_ones_word_def Let_def)
  have full: "bl_all (bl_of_word 10 1023)"
    by (simp add: bl_all_def bl_of_word_def bl_empty_def word_count_def word_bits_def
        retain_mask_needed_def last_word_mask_def last_word_bits_def all_ones_word_def Let_def)
  have wf: "wf_bitset (bl_of_word 10 1023)" "wf_bitset (bl_set_all (bl_empty 10))" by auto
  from full have "bits (bl_of_word 10 1023) = {..<10}"
    using bl_all_iff [OF wf(1)] by (auto simp: bits_def)
  moreover have "bits (bl_set_all (bl_empty 10)) = {..<10}"
    by (auto simp: bits_def get_bit_set_all)
  moreover have "bl_all (bl_set_all (bl_empty 10))"
    using bl_all_iff [OF wf(2)] by (simp add: get_bit_set_all)
  ultimately show ?thesis using ne full by simp
qed

end
