(* ===== verification/Flags.thy ===== *)
theory Flags
  imports Bitset
begin

text \<open>
  \<open>include/aniparse/detail/StrongBitset.hpp\<close>, \<open>utility/FlagsBitfield.hpp\<close> and
  \<open>types/Flags.hpp\<close>: the strongly typed flag word and the capability vocabulary. A capability is a
  constructor of \<open>capability\<close>, its position is \<open>capability_bit\<close>, and a descriptor's flags are a
  \<open>FlagsBitfield<64>\<close> built with \<open>operator|\<close>.
\<close>

section \<open>StrongBitset\<close>

datatype strong_bitset = StrongBitset (storage: bitset)

text \<open>A constructor may throw; \<open>make_bit\<close> is \<open>noexcept\<close>, so there the exception terminates.\<close>

datatype flag_error = Throw bitset_error | Terminate

definition sb_empty :: "nat \<Rightarrow> strong_bitset" where
  "sb_empty n = StrongBitset (bl_empty n)"

definition sb_of_bit :: "nat \<Rightarrow> nat \<Rightarrow> flag_error + strong_bitset" where
  "sb_of_bit n pos =
     (case bl_set (bl_empty n) pos True of Inl e \<Rightarrow> Inl (Throw e) | Inr b \<Rightarrow> Inr (StrongBitset b))"

definition make_bit :: "nat \<Rightarrow> nat \<Rightarrow> flag_error + strong_bitset" where
  "make_bit n pos = (case sb_of_bit n pos of Inl _ \<Rightarrow> Inl Terminate | Inr b \<Rightarrow> Inr b)"

definition sb_index :: "strong_bitset \<Rightarrow> nat \<Rightarrow> bool" where
  "sb_index s pos = get_bit (storage s) pos"

definition sb_all :: "strong_bitset \<Rightarrow> bool" where "sb_all s = bl_all (storage s)"
definition sb_any :: "strong_bitset \<Rightarrow> bool" where "sb_any s = bl_any (storage s)"
definition sb_none :: "strong_bitset \<Rightarrow> bool" where "sb_none s = bl_none (storage s)"

definition sb_eq :: "strong_bitset \<Rightarrow> strong_bitset \<Rightarrow> bool" where
  "sb_eq l r = bl_eq (storage l) (storage r)"

definition sb_or_assign :: "strong_bitset \<Rightarrow> strong_bitset \<Rightarrow> strong_bitset" where
  "sb_or_assign s other = StrongBitset (bl_or_assign (storage s) (storage other))"

definition sb_and_assign :: "strong_bitset \<Rightarrow> strong_bitset \<Rightarrow> strong_bitset" where
  "sb_and_assign s other = StrongBitset (bl_and_assign (storage s) (storage other))"

definition sb_xor_assign :: "strong_bitset \<Rightarrow> strong_bitset \<Rightarrow> strong_bitset" where
  "sb_xor_assign s other = StrongBitset (bl_xor_assign (storage s) (storage other))"

definition sb_not :: "strong_bitset \<Rightarrow> strong_bitset" where
  "sb_not s = StrongBitset (bl_not (storage s))"

text \<open>
  \<open>operator|\<close> and friends come in three overloads: a temporary on the left is updated in place, a
  temporary on the right is moved to the left of that overload, two named operands copy the left
  one. (Two temporaries match two of them equally well, so that call does not compile.)
\<close>

datatype sb_operands = LeftTemporary | RightTemporary | BothNamed

fun sb_overload ::
  "(strong_bitset \<Rightarrow> strong_bitset \<Rightarrow> strong_bitset) \<Rightarrow> sb_operands \<Rightarrow>
   strong_bitset \<Rightarrow> strong_bitset \<Rightarrow> strong_bitset" where
  "sb_overload assign LeftTemporary left right = assign left right"
| "sb_overload assign RightTemporary left right = assign right left"
| "sb_overload assign BothNamed left right = (let tmp = left in assign tmp right)"

definition sb_or :: "sb_operands \<Rightarrow> strong_bitset \<Rightarrow> strong_bitset \<Rightarrow> strong_bitset" where
  "sb_or = sb_overload sb_or_assign"

definition sb_and :: "sb_operands \<Rightarrow> strong_bitset \<Rightarrow> strong_bitset \<Rightarrow> strong_bitset" where
  "sb_and = sb_overload sb_and_assign"

definition sb_xor :: "sb_operands \<Rightarrow> strong_bitset \<Rightarrow> strong_bitset \<Rightarrow> strong_bitset" where
  "sb_xor = sb_overload sb_xor_assign"

definition sb_has :: "strong_bitset \<Rightarrow> strong_bitset \<Rightarrow> bool" where
  "sb_has s values = sb_eq (sb_and BothNamed s values) values"

definition sb_set :: "strong_bitset \<Rightarrow> strong_bitset" where
  "sb_set s = StrongBitset (bl_set_all (storage s))"

definition sb_reset :: "strong_bitset \<Rightarrow> strong_bitset" where
  "sb_reset s = StrongBitset (bl_reset_all (storage s))"

abbreviation sb_bits :: "strong_bitset \<Rightarrow> nat set" where
  "sb_bits s \<equiv> bits (storage s)"

definition wf_sb :: "nat \<Rightarrow> strong_bitset \<Rightarrow> bool" where
  "wf_sb n s \<longleftrightarrow> wf_bitset (storage s) \<and> bit_count (storage s) = n"

text \<open>Every overload of a binary operator computes the same set of positions.\<close>

lemma sb_or_bits:
  assumes "wf_sb n l" "wf_sb n r"
  shows "wf_sb n (sb_or c l r) \<and> sb_bits (sb_or c l r) = sb_bits l \<union> sb_bits r"
  using assms bitset_reads
  by (cases c)
    (auto simp: wf_sb_def sb_or_def sb_or_assign_def bits_def get_bit_or)

lemma sb_and_bits:
  assumes "wf_sb n l" "wf_sb n r"
  shows "wf_sb n (sb_and c l r) \<and> sb_bits (sb_and c l r) = sb_bits l \<inter> sb_bits r"
  using assms
  by (cases c)
    (auto simp: wf_sb_def sb_and_def sb_and_assign_def bits_def get_bit_and)

lemma sb_xor_bits:
  assumes "wf_sb n l" "wf_sb n r"
  shows "wf_sb n (sb_xor c l r) \<and>
    sb_bits (sb_xor c l r) = (sb_bits l - sb_bits r) \<union> (sb_bits r - sb_bits l)"
  using assms
  by (cases c)
    (auto simp: wf_sb_def sb_xor_def sb_xor_assign_def bits_def get_bit_xor)

lemma sb_eq_bits:
  assumes "wf_sb n l" "wf_sb n r" "n mod 64 = 0"
  shows "sb_eq l r \<longleftrightarrow> sb_bits l = sb_bits r"
  using bl_eq_iff [of "storage l" "storage r"] assms clean_full_words
  by (auto simp: sb_eq_def wf_sb_def bits_def)

section \<open>The capability vocabulary\<close>

datatype capability =
    supports_inplace_get | supports_images_store | supports_anime_store | supports_manga_store
  | supports_reading | supports_watching | supports_video_store | using_custom_store | adult_source
  | supports_images_search | supports_registration | supports_voting | supports_commenting
  | supports_online_lists | supports_suggestions | supports_tracks | supports_pagination_uniqueness
  | unsupported_feature

fun capability_bit :: "capability \<Rightarrow> nat" where
  "capability_bit supports_inplace_get = 0"
| "capability_bit supports_images_store = 1"
| "capability_bit supports_anime_store = 2"
| "capability_bit supports_manga_store = 3"
| "capability_bit supports_reading = 16"
| "capability_bit supports_watching = 17"
| "capability_bit supports_video_store = 4"
| "capability_bit using_custom_store = 5"
| "capability_bit adult_source = 6"
| "capability_bit supports_images_search = 7"
| "capability_bit supports_registration = 8"
| "capability_bit supports_voting = 9"
| "capability_bit supports_commenting = 10"
| "capability_bit supports_online_lists = 11"
| "capability_bit supports_suggestions = 14"
| "capability_bit supports_tracks = 15"
| "capability_bit supports_pagination_uniqueness = 12"
| "capability_bit unsupported_feature = 13"

text \<open>\<open>CompatibilitiesFlags\<close> is \<open>FlagsBitfield<64>\<close>.\<close>

definition flags_width :: nat where
  "flags_width = 64"

definition default_flags :: strong_bitset where
  "default_flags = sb_empty flags_width"

definition flag :: "capability \<Rightarrow> flag_error + strong_bitset" where
  "flag c = make_bit flags_width (capability_bit c)"

record parser_compatibilities =
  flags :: strong_bitset

text \<open>A descriptor's flag word: its capabilities joined with \<open>|\<close>, left to right.\<close>

fun join_flags :: "strong_bitset \<Rightarrow> capability list \<Rightarrow> flag_error + strong_bitset" where
  "join_flags acc [] = Inr acc"
| "join_flags acc (c # cs) =
     (case flag c of Inl e \<Rightarrow> Inl e | Inr f \<Rightarrow> join_flags (sb_or LeftTemporary acc f) cs)"

lemma capability_bit_inj: "capability_bit a = capability_bit b \<longleftrightarrow> a = b"
  by (cases a; cases b) simp_all

lemma capability_bit_less: "capability_bit c < flags_width"
  by (cases c) (simp_all add: flags_width_def)

lemma make_bit_ok:
  assumes "pos < n"
  shows "\<exists>f. make_bit n pos = Inr f \<and> wf_sb n f \<and> sb_bits f = {pos}"
  using assms
  by (auto simp: make_bit_def sb_of_bit_def bl_set_def wf_sb_def bits_def get_bit_set_nothrow
      split: if_splits)

lemma make_bit_outside: "n \<le> pos \<Longrightarrow> make_bit n pos = Inl Terminate"
  by (simp add: make_bit_def sb_of_bit_def bl_set_def)

lemma flag_ok: "\<exists>f. flag c = Inr f \<and> wf_sb flags_width f \<and> sb_bits f = {capability_bit c}"
  unfolding flag_def by (rule make_bit_ok) (rule capability_bit_less)

lemma default_flags_wf: "wf_sb flags_width default_flags \<and> sb_bits default_flags = {}"
proof
  show "wf_sb flags_width default_flags" by (simp add: default_flags_def sb_empty_def wf_sb_def)
  show "sb_bits default_flags = {}" by (simp add: default_flags_def sb_empty_def)
qed

lemma join_flags_bits:
  "wf_sb flags_width acc \<Longrightarrow> \<exists>f. join_flags acc cs = Inr f \<and> wf_sb flags_width f \<and>
     sb_bits f = sb_bits acc \<union> capability_bit ` set cs"
proof (induction cs arbitrary: acc)
  case (Cons c cs)
  obtain f where f: "flag c = Inr f" "wf_sb flags_width f" "sb_bits f = {capability_bit c}"
    using flag_ok by blast
  note or = sb_or_bits [OF Cons.prems f(2), of LeftTemporary]
  from Cons.IH [of "sb_or LeftTemporary acc f"] or f show ?case by auto
qed simp

lemma sb_has_bits:
  assumes "wf_sb n s" "wf_sb n v" "n mod 64 = 0"
  shows "sb_has s v \<longleftrightarrow> sb_bits v \<subseteq> sb_bits s"
proof -
  note a = sb_and_bits [OF assms(1,2), of BothNamed]
  have "sb_has s v \<longleftrightarrow> sb_bits (sb_and BothNamed s v) = sb_bits v"
    unfolding sb_has_def by (rule sb_eq_bits [OF conjunct1 [OF a] assms(2,3)])
  then show ?thesis unfolding conjunct2 [OF a] by (auto simp: set_eq_iff)
qed

section \<open>Properties\<close>

text \<open>\<open>has(values)\<close> on a flag word whose width fills its machine words (as FlagsBitfield of 64 does)
  holds exactly when every flag of the mask is set: inclusion of the position sets.\<close>

theorem has_is_inclusion:
  assumes "wf_sb n s" "wf_sb n v" "n mod 64 = 0"
  shows "sb_has s v \<longleftrightarrow> sb_bits v \<subseteq> sb_bits s"
  using assms by (rule sb_has_bits)

text \<open>Joining capability flags with \<open>|\<close> never fails, and the resulting descriptor has a capability
  exactly when it was listed: no two capabilities share a bit, and the default descriptor has none.\<close>

theorem join_flags_has:
  "\<exists>f. join_flags default_flags cs = Inr f \<and>
     (\<forall>c. \<exists>m. flag c = Inr m \<and> (sb_has f m \<longleftrightarrow> c \<in> set cs) \<and> \<not> sb_has default_flags m)"
proof -
  obtain f where f: "join_flags default_flags cs = Inr f" "wf_sb flags_width f"
    "sb_bits f = capability_bit ` set cs"
    using join_flags_bits [of default_flags cs] default_flags_wf by auto
  have full: "flags_width mod 64 = 0" by (simp add: flags_width_def)
  have "\<exists>m. flag c = Inr m \<and> (sb_has f m \<longleftrightarrow> c \<in> set cs) \<and> \<not> sb_has default_flags m" for c
  proof -
    obtain m where m: "flag c = Inr m" "wf_sb flags_width m" "sb_bits m = {capability_bit c}"
      using flag_ok by blast
    have "sb_has f m \<longleftrightarrow> c \<in> set cs"
      using sb_has_bits [OF f(2) m(2) full] f(3) m(3) capability_bit_inj by auto
    moreover have "\<not> sb_has default_flags m"
      using sb_has_bits [OF _ m(2) full] default_flags_wf m(3) by auto
    ultimately show ?thesis using m(1) by blast
  qed
  then show ?thesis using f(1) by blast
qed

end
