(* ===== verification/Headers.thy ===== *)
theory Headers
  imports Prelude "HOL-Library.List_Lexorder"
begin

text \<open>
  \<open>include/aniparse/types/Headers.hpp\<close> and \<open>src/types/Headers.cpp\<close>: the insertion-ordered header
  list, its by-name operations, and the conversions to and from wire lines. A \<open>Headers\<close> object is
  its \<open>entries_\<close> vector.
\<close>

type_synonym header = "bytes \<times> bytes"
type_synonym headers = "header list"

datatype headers_error = NoSuchHeader bytes

section \<open>Name comparison\<close>

text \<open>\<open>char\<close> is signed, so bytes from 128 up compare below the ASCII range.\<close>

definition schar :: "char \<Rightarrow> int" where
  "schar c = (if code c < 128 then int (code c) else int (code c) - 256)"

fun ci_less :: "bytes \<Rightarrow> bytes \<Rightarrow> bool" where
  "ci_less [] [] = False"
| "ci_less [] (r # rs) = True"
| "ci_less (l # ls) [] = False"
| "ci_less (l # ls) (r # rs) =
     (if schar (to_lower l) < schar (to_lower r) then True
      else if schar (to_lower r) < schar (to_lower l) then False
      else ci_less ls rs)"

definition iequal :: "bytes \<Rightarrow> bytes \<Rightarrow> bool" where
  "iequal left right =
     (if length left \<noteq> length right then False
      else list_all (\<lambda>i. to_lower (left ! i) = to_lower (right ! i)) [0..<length left])"

lemma iequal_iff: "iequal l r \<longleftrightarrow> lower l = lower r"
  unfolding iequal_def lower_def map_equality_iff list_all_iff by auto

lemma iequal_refl [simp]: "iequal n n"
  by (simp add: iequal_iff)

lemma iequal_sym: "iequal a b = iequal b a"
  by (auto simp: iequal_iff)

lemma schar_inj [simp]: "schar a = schar b \<longleftrightarrow> a = b"
proof -
  have "schar a = schar b \<longleftrightarrow> code a = code b"
    by (auto simp: schar_def split: if_splits)
      (use code_less_256 [of a] code_less_256 [of b] in linarith)+
  then show ?thesis by simp
qed

definition ci_key :: "bytes \<Rightarrow> int list" where
  "ci_key s = map (\<lambda>c. schar (to_lower c)) s"

lemma ci_less_key: "ci_less l r \<longleftrightarrow> ci_key l < ci_key r"
  by (induction l r rule: ci_less.induct) (auto simp: ci_key_def)

lemma ci_key_eq: "ci_key l = ci_key r \<longleftrightarrow> iequal l r"
proof -
  have "map (\<lambda>c. schar (to_lower c)) l = map (\<lambda>c. schar (to_lower c)) r \<longleftrightarrow> map to_lower l = map to_lower r"
    by (auto simp: list_eq_iff_nth_eq)
  then show ?thesis by (simp add: ci_key_def iequal_iff lower_def)
qed

text \<open>
  Header names under \<open>CaseInsensitiveLess\<close> are a preorder, so the order lemmas of the library apply.
\<close>

datatype header_name = HeaderName (name_bytes: bytes)

instantiation header_name :: preorder
begin

definition less_header_name :: "header_name \<Rightarrow> header_name \<Rightarrow> bool" where
  "less_header_name a b = ci_less (name_bytes a) (name_bytes b)"

definition less_eq_header_name :: "header_name \<Rightarrow> header_name \<Rightarrow> bool" where
  "less_eq_header_name a b = (\<not> ci_less (name_bytes b) (name_bytes a))"

instance
  by standard
    (auto simp: less_header_name_def less_eq_header_name_def ci_less_key)

end

section \<open>The container\<close>

fun headers_append :: "headers \<Rightarrow> bytes \<Rightarrow> bytes \<Rightarrow> headers" where
  "headers_append es name value = es @ [(name, value)]"

fun headers_of_list :: "headers \<Rightarrow> header list \<Rightarrow> headers" where
  "headers_of_list es [] = es"
| "headers_of_list es (e # rest) = headers_of_list (headers_append es (fst e) (snd e)) rest"

fun find_index_from :: "nat \<Rightarrow> headers \<Rightarrow> bytes \<Rightarrow> nat option" where
  "find_index_from i [] name = None"
| "find_index_from i (e # es) name =
     (if iequal (fst e) name then Some i else find_index_from (Suc i) es name)"

definition find_index :: "headers \<Rightarrow> bytes \<Rightarrow> nat option" where
  "find_index es name = find_index_from 0 es name"

definition headers_contains :: "headers \<Rightarrow> bytes \<Rightarrow> bool" where
  "headers_contains es name = (find_index es name \<noteq> None)"

definition headers_get :: "headers \<Rightarrow> bytes \<Rightarrow> bytes" where
  "headers_get es name = (case find_index es name of None \<Rightarrow> [] | Some i \<Rightarrow> snd (es ! i))"

definition headers_at :: "headers \<Rightarrow> bytes \<Rightarrow> headers_error + bytes" where
  "headers_at es name =
     (case find_index es name of None \<Rightarrow> Inl (NoSuchHeader name) | Some i \<Rightarrow> Inr (snd (es ! i)))"

fun headers_get_all :: "headers \<Rightarrow> bytes \<Rightarrow> bytes list" where
  "headers_get_all [] name = []"
| "headers_get_all (e # es) name =
     (if iequal (fst e) name then snd e # headers_get_all es name else headers_get_all es name)"

definition headers_erase :: "headers \<Rightarrow> bytes \<Rightarrow> nat \<times> headers" where
  "headers_erase es name =
     (let es' = filter (\<lambda>e. \<not> iequal (fst e) name) es in (length es - length es', es'))"

definition headers_set :: "headers \<Rightarrow> bytes \<Rightarrow> bytes \<Rightarrow> headers" where
  "headers_set es name value = snd (headers_erase es name) @ [(name, value)]"

fun merge_loop :: "nat \<Rightarrow> headers \<Rightarrow> header list \<Rightarrow> headers" where
  "merge_loop original es [] = es"
| "merge_loop original es (e # other) =
     (if list_ex (\<lambda>i. iequal (fst (es ! i)) (fst e)) [0..<original]
      then merge_loop original es other
      else merge_loop original (headers_append es (fst e) (snd e)) other)"

definition merge_missing :: "headers \<Rightarrow> headers \<Rightarrow> headers" where
  "merge_missing es other = merge_loop (length es) es other"

fun headers_eq :: "headers \<Rightarrow> headers \<Rightarrow> bool" where
  "headers_eq [] [] = True"
| "headers_eq (a # as) (b # bs) = (iequal (fst a) (fst b) \<and> snd a = snd b \<and> headers_eq as bs)"
| "headers_eq _ _ = False"

section \<open>Wire form\<close>

definition header_line :: "header \<Rightarrow> bytes" where
  "header_line e = fst e @ '': '' @ snd e"

definition to_header_lines :: "headers \<Rightarrow> bytes list" where
  "to_header_lines es = map header_line es"

definition is_ows :: "char \<Rightarrow> bool" where
  "is_ows c \<longleftrightarrow> c = CHR '' '' \<or> c = chr_tab"

definition strip_cr :: "bytes \<Rightarrow> bytes" where
  "strip_cr line = (if line \<noteq> [] \<and> last line = chr_cr then butlast line else line)"

text \<open>The body of the line loop: \<open>None\<close> where the code skips the line.\<close>

definition parse_header_line :: "bytes \<Rightarrow> header option" where
  "parse_header_line raw =
     (let line = strip_cr raw in
      case split_first CHR '':'' line of
        None \<Rightarrow> None
      | Some (name, value) \<Rightarrow> if name = [] then None else Some (name, trim_by is_ows value))"

function parse_block_from :: "headers \<Rightarrow> bytes \<Rightarrow> headers" where
  "parse_block_from acc block =
     (if block = [] then acc
      else let (line, rest) = (case split_first chr_lf block of None \<Rightarrow> (block, []) | Some p \<Rightarrow> p);
               acc' = (case parse_header_line line of None \<Rightarrow> acc | Some (n, v) \<Rightarrow> headers_append acc n v)
           in parse_block_from acc' rest)"
  by pat_completeness auto
termination
  by (relation "measure (\<lambda>(acc, block). length block)")
    (auto split: option.splits dest: split_first_shorter)

definition parse_header_block :: "bytes \<Rightarrow> headers" where
  "parse_header_block block = parse_block_from [] block"

declare parse_block_from.simps [simp del]

section \<open>Lemmas\<close>

lemma find_index_from_Some:
  "find_index_from k es name = Some i \<Longrightarrow>
     k \<le> i \<and> i - k < length es \<and> iequal (fst (es ! (i - k))) name \<and>
     (\<exists>rest. headers_get_all es name = snd (es ! (i - k)) # rest)"
proof (induction es arbitrary: k)
  case (Cons e es)
  show ?case
  proof (cases "iequal (fst e) name")
    case True
    with Cons.prems show ?thesis by simp
  next
    case False
    with Cons.prems have "find_index_from (Suc k) es name = Some i" by simp
    from Cons.IH [OF this] False show ?thesis by (auto simp: Suc_diff_le nth_Cons' Suc_le_eq)
  qed
qed simp

lemma find_index_from_None:
  "find_index_from k es name = None \<longleftrightarrow> headers_get_all es name = []"
  by (induction es arbitrary: k) auto

lemma headers_get_all_conv:
  "headers_get_all es name = map snd (filter (\<lambda>e. iequal (fst e) name) es)"
  by (induction es) auto

lemma headers_get_all_append [simp]:
  "headers_get_all (xs @ ys) name = headers_get_all xs name @ headers_get_all ys name"
  by (simp add: headers_get_all_conv)

lemma headers_contains_iff: "headers_contains es name \<longleftrightarrow> headers_get_all es name \<noteq> []"
  by (simp add: headers_contains_def find_index_def find_index_from_None)

lemma headers_get_hd:
  "headers_get es name = (case headers_get_all es name of [] \<Rightarrow> [] | v # _ \<Rightarrow> v)"
  "headers_at es name =
     (case headers_get_all es name of [] \<Rightarrow> Inl (NoSuchHeader name) | v # _ \<Rightarrow> Inr v)"
  using find_index_from_Some [of 0 es name] find_index_from_None [of 0 es name]
  by (auto simp: headers_get_def headers_at_def find_index_def split: option.splits)

lemma headers_erase_get_all:
  "headers_get_all (snd (headers_erase es name)) m = (if iequal m name then [] else headers_get_all es m)"
  by (auto simp: headers_erase_def Let_def headers_get_all_conv iequal_iff filter_empty_conv
      intro!: arg_cong [where f = "map snd"] filter_cong)

lemma headers_set_get_all:
  "headers_get_all (headers_set es name v) m = (if iequal m name then [v] else headers_get_all es m)"
  by (auto simp: headers_set_def headers_erase_get_all iequal_iff)

lemma headers_erase_count: "fst (headers_erase es name) = length (headers_get_all es name)"
proof -
  have "length es = length (filter (\<lambda>e. iequal (fst e) name) es) + length (filter (\<lambda>e. \<not> iequal (fst e) name) es)"
    by (rule sum_length_filter_compl [symmetric])
  then show ?thesis by (simp add: headers_erase_def Let_def headers_get_all_conv)
qed

lemma merge_loop_eq:
  "merge_loop (length es) (es @ added) other =
     es @ added @ filter (\<lambda>e. \<not> headers_contains es (fst e)) other"
proof (induction other arbitrary: added)
  case (Cons e other)
  have "list_ex (\<lambda>i. iequal (fst ((es @ added) ! i)) (fst e)) [0..<length es] \<longleftrightarrow>
      (\<exists>i < length es. iequal (fst (es ! i)) (fst e))"
    by (auto simp: list_ex_iff nth_append)
  also have "\<dots> \<longleftrightarrow> (\<exists>x \<in> set es. iequal (fst x) (fst e))"
    by (metis in_set_conv_nth)
  also have "\<dots> \<longleftrightarrow> headers_contains es (fst e)"
    by (auto simp: headers_contains_iff headers_get_all_conv filter_empty_conv)
  finally show ?case using Cons.IH [of added] Cons.IH [of "added @ [e]"] by simp
qed simp

lemma merge_missing_eq:
  "merge_missing es other = es @ filter (\<lambda>e. \<not> headers_contains es (fst e)) other"
  using merge_loop_eq [of es "[]" other] by (simp add: merge_missing_def)

lemma merge_missing_get_all:
  "headers_get_all (merge_missing es other) name =
     (if headers_contains es name then headers_get_all es name else headers_get_all other name)"
proof -
  have same: "headers_contains es (fst e) = headers_contains es name" if "iequal (fst e) name" for e
    using that by (simp add: headers_contains_iff headers_get_all_conv iequal_iff)
  have "filter (\<lambda>e. iequal (fst e) name) (filter (\<lambda>e. \<not> headers_contains es (fst e)) other) =
      (if headers_contains es name then [] else filter (\<lambda>e. iequal (fst e) name) other)"
    using same by (auto simp: filter_empty_conv intro!: filter_cong)
  then show ?thesis
    by (auto simp: merge_missing_eq headers_get_all_conv headers_contains_iff)
qed

subsection \<open>Lines\<close>

definition wire_header :: "header \<Rightarrow> bool" where
  "wire_header e \<longleftrightarrow> fst e \<noteq> [] \<and> CHR '':'' \<notin> set (fst e) \<and> chr_lf \<notin> set (fst e) \<and>
     chr_lf \<notin> set (snd e) \<and> (snd e = [] \<or> \<not> is_ows (hd (snd e)) \<and> \<not> is_ows (last (snd e)))"

definition wire_line :: "header \<Rightarrow> bytes" where
  "wire_line e = header_line e @ [chr_cr]"

lemma strip_cr_snoc [simp]: "strip_cr (line @ [chr_cr]) = line"
  by (simp add: strip_cr_def)

lemma trim_leading_space: "is_ows c \<Longrightarrow> trim_by is_ows (c # v) = trim_by is_ows v"
  by (simp add: trim_by_def)

lemma parse_wire_line:
  assumes "wire_header e"
  shows "parse_header_line (wire_line e) = Some e"
proof -
  have c: "CHR '':'' \<notin> set (fst e)" and ne: "fst e \<noteq> []" using assms by (auto simp: wire_header_def)
  have "strip_cr (wire_line e) = fst e @ CHR '':'' # (CHR '' '' # snd e)"
    unfolding wire_line_def strip_cr_snoc by (simp add: header_line_def)
  moreover have "trim_by is_ows (CHR '' '' # snd e) = snd e"
    using assms by (auto simp: trim_leading_space is_ows_def wire_header_def intro!: trim_by_id)
  ultimately show ?thesis using ne
    by (simp add: parse_header_line_def split_first_append [OF c])
qed

interpretation header_codec: codec wire_line parse_header_line wire_header
  by unfold_locales (rule parse_wire_line)

lemma parse_block_line:
  assumes "chr_lf \<notin> set line"
  shows "parse_block_from acc (line @ chr_lf # rest) =
    parse_block_from (case parse_header_line line of None \<Rightarrow> acc | Some (n, v) \<Rightarrow> headers_append acc n v) rest"
  by (subst parse_block_from.simps) (simp add: split_first_append [OF assms])

lemma parse_block_lines:
  "\<forall>line \<in> set ls. chr_lf \<notin> set line \<Longrightarrow>
   parse_block_from acc (concat (map (\<lambda>l. l @ [chr_lf]) ls)) = acc @ decode_all parse_header_line ls"
proof (induction ls arbitrary: acc)
  case Nil
  then show ?case by (simp add: parse_block_from.simps)
next
  case (Cons l ls)
  then show ?case
    by (simp add: parse_block_line split: option.splits prod.splits)
qed

lemma wire_line_no_lf: "wire_header e \<Longrightarrow> chr_lf \<notin> set (wire_line e)"
  by (auto simp: wire_header_def wire_line_def header_line_def)

section \<open>Properties\<close>

text \<open>By-name semantics of the header list, for names compared without ASCII case: \<open>set\<close> leaves
  exactly the new value under the name, \<open>append\<close> adds one after those already there, \<open>erase\<close> removes
  and counts every entry of the name, all three leave other names alone, and \<open>get\<close>, \<open>at\<close> and
  \<open>contains\<close> read the first of \<open>get_all\<close> or report that there is none.\<close>

theorem headers_by_name:
  "headers_get_all (headers_set es name v) m = (if iequal m name then [v] else headers_get_all es m) \<and>
   headers_get_all (headers_append es name v) m =
     headers_get_all es m @ (if iequal m name then [v] else []) \<and>
   headers_get_all (snd (headers_erase es name)) m = (if iequal m name then [] else headers_get_all es m) \<and>
   fst (headers_erase es name) = length (headers_get_all es name) \<and>
   headers_contains es m = (headers_get_all es m \<noteq> []) \<and>
   headers_get es m = (case headers_get_all es m of [] \<Rightarrow> [] | w # _ \<Rightarrow> w) \<and>
   headers_at es m = (case headers_get_all es m of [] \<Rightarrow> Inl (NoSuchHeader m) | w # _ \<Rightarrow> Inr w)"
  by (simp add: headers_set_get_all headers_erase_get_all headers_erase_count headers_contains_iff
      headers_get_hd iequal_sym)

text \<open>\<open>merge_missing\<close> keeps every entry already present in place and in front; under a name that was
  present the incoming entries are ignored, under any other name all of them arrive, duplicates
  included and in order.\<close>

theorem merge_missing_precedence:
  "take (length es) (merge_missing es other) = es \<and>
   headers_get_all (merge_missing es other) name =
     (if headers_contains es name then headers_get_all es name else headers_get_all other name)"
  by (simp add: merge_missing_get_all) (simp add: merge_missing_eq)

text \<open>C4: parsing a CRLF-terminated block of the lines \<open>to_header_lines\<close> emits gives back the header
  list, order, case and duplicates included, when names are non-empty and free of colon and line feed,
  and values are free of line feed and of surrounding blanks.\<close>

theorem header_block_roundtrip:
  assumes "\<forall>e \<in> set es. wire_header e"
  shows "parse_header_block (concat (map (\<lambda>l. l @ [chr_cr, chr_lf]) (to_header_lines es))) = es"
proof -
  have "concat (map (\<lambda>l. l @ [chr_cr, chr_lf]) (to_header_lines es)) =
      concat (map (\<lambda>l. l @ [chr_lf]) (map wire_line es))"
    by (simp add: to_header_lines_def wire_line_def comp_def)
  moreover have "\<forall>line \<in> set (map wire_line es). chr_lf \<notin> set line"
    using assms wire_line_no_lf by auto
  ultimately show ?thesis
    using parse_block_lines [of "map wire_line es" "[]"] header_codec.decode_all_map [OF assms]
    by (simp add: parse_header_block_def)
qed

theorem header_block_roundtrip_witness:
  "parse_header_block (concat (map (\<lambda>l. l @ [chr_cr, chr_lf])
     (to_header_lines [(''Set-Cookie'', ''a=1''), (''Set-Cookie'', ''b=2''), (''X'', [])]))) =
   [(''Set-Cookie'', ''a=1''), (''Set-Cookie'', ''b=2''), (''X'', [])]"
  by (rule header_block_roundtrip) (simp add: wire_header_def is_ows_def)

text \<open>\<open>CaseInsensitiveLess\<close> is a strict weak order (it compares a key of each name linearly) whose
  equivalence, neither name less than the other, is the equality \<open>iequal\<close> the header list searches with.\<close>

theorem ci_less_weak_order:
  "\<exists>key :: bytes \<Rightarrow> int list. \<forall>a b. ci_less a b = (key a < key b) \<and> iequal a b = (key a = key b) \<and>
     (\<not> ci_less a b \<and> \<not> ci_less b a) = iequal a b"
  by (rule exI [of _ ci_key]) (auto simp: ci_less_key ci_key_eq [symmetric])

end
