(* ===== verification/Decimal.thy ===== *)
theory Decimal
  imports Prelude
begin

text \<open>
  Decimal text as the standard library reads and writes it: \<open>std::to_string\<close> on integers,
  \<open>std::from_chars\<close> on a bounded signed type, and the digit accumulation loops of the sources.
\<close>

section \<open>Writing\<close>

definition digit_char :: "nat \<Rightarrow> char" where
  "digit_char d = char_of (48 + d)"

fun nat_to_dec :: "nat \<Rightarrow> bytes" where
  "nat_to_dec n = (if n < 10 then [digit_char n] else nat_to_dec (n div 10) @ [digit_char (n mod 10)])"

declare nat_to_dec.simps [simp del]

definition int_to_dec :: "int \<Rightarrow> bytes" where
  "int_to_dec i = (if i < 0 then CHR ''-'' # nat_to_dec (nat (- i)) else nat_to_dec (nat i))"

section \<open>Reading\<close>

definition dec_value :: "bytes \<Rightarrow> nat" where
  "dec_value ds = foldl (\<lambda>v c. v * 10 + digit_val c) 0 ds"

text \<open>
  \<open>std::from_chars\<close> for a signed type with the given least and greatest value: an optional minus
  sign and the longest run of digits. \<open>Parsed\<close> carries the value and the unread rest.
\<close>

datatype from_chars_result = Parsed int bytes | InvalidArgument | ResultOutOfRange bytes

definition from_chars :: "int \<Rightarrow> int \<Rightarrow> bytes \<Rightarrow> from_chars_result" where
  "from_chars lo hi s =
     (let neg = (s \<noteq> [] \<and> hd s = CHR ''-'');
          t = (if neg then tl s else s);
          ds = takeWhile is_digit t;
          rest = dropWhile is_digit t;
          v = (if neg then - int (dec_value ds) else int (dec_value ds))
      in if ds = [] then InvalidArgument
         else if v < lo \<or> hi < v then ResultOutOfRange rest
         else Parsed v rest)"

definition int64_min :: int where "int64_min = - (2 ^ 63)"
definition int64_max :: int where "int64_max = 2 ^ 63 - 1"

definition in_int64 :: "int \<Rightarrow> bool" where
  "in_int64 i \<longleftrightarrow> int64_min \<le> i \<and> i \<le> int64_max"

text \<open>Two's complement wrap-around of a 64-bit signed result.\<close>

definition wrap64 :: "int \<Rightarrow> int" where
  "wrap64 i = (i + 2 ^ 63) mod 2 ^ 64 - 2 ^ 63"

lemma wrap64_id: "in_int64 i \<Longrightarrow> wrap64 i = i"
  by (simp add: in_int64_def int64_min_def int64_max_def wrap64_def)

lemma wrap64_in: "in_int64 (wrap64 i)"
  using pos_mod_bound [of "2 ^ 64" "i + 2 ^ 63"] pos_mod_sign [of "2 ^ 64" "i + 2 ^ 63"]
  by (simp add: in_int64_def int64_min_def int64_max_def wrap64_def)

lemma mod_times10: "(x * 10 + c) mod m = ((x mod m) * 10 + c) mod (m :: int)"
  by (metis mod_add_left_eq mod_mult_left_eq)

lemma wrap64_step: "wrap64 (wrap64 a * 10 + b) = wrap64 (a * 10 + b)"
proof -
  have "((a + 2 ^ 63) mod 2 ^ 64 - 2 ^ 63) mod 2 ^ 64 = a mod (2 ^ 64 :: int)"
    by (simp add: mod_diff_left_eq)
  then have w: "wrap64 a mod 2 ^ 64 = a mod 2 ^ 64" by (simp add: wrap64_def)
  have "(wrap64 a * 10 + (b + 2 ^ 63)) mod 2 ^ 64 = (a * 10 + (b + 2 ^ 63)) mod 2 ^ 64"
    using mod_times10 [of "wrap64 a" "b + 2 ^ 63" "2 ^ 64"] mod_times10 [of a "b + 2 ^ 63" "2 ^ 64"]
    unfolding w by (rule trans [OF _ sym])
  then show ?thesis unfolding wrap64_def [of "_ * 10 + b"] by (simp only: add.assoc)
qed

section \<open>Lemmas\<close>

lemma sint_cases: "sint w = (if uint w < 2 ^ 63 then uint w else uint w - 2 ^ 64)" for w :: "64 word"
proof -
  have s: "sint w = take_bit 64 (uint w + 2 ^ 63) - 2 ^ 63"
    by (simp add: sint_uint signed_take_bit_eq_take_bit_shift)
  have b: "0 \<le> uint w" "uint w < 2 ^ 64" using uint_lt2p [of w] by simp_all
  show ?thesis
  proof (cases "uint w < 2 ^ 63")
    case True
    then show ?thesis using b by (simp add: s take_bit_eq_mod)
  next
    case False
    have "uint w + 2 ^ 63 = (uint w - 2 ^ 63) + 2 ^ 64" by simp
    then have "(uint w + 2 ^ 63) mod 2 ^ 64 = (uint w - 2 ^ 63) mod 2 ^ 64" by (metis mod_add_self2)
    also have "\<dots> = uint w - 2 ^ 63" using False b by (intro mod_pos_pos_trivial) simp_all
    finally have "(uint w + 2 ^ 63) mod 2 ^ 64 = uint w - 2 ^ 63" .
    then show ?thesis using False by (simp add: s take_bit_eq_mod)
  qed
qed

lemma code_digit_char: "d < 10 \<Longrightarrow> code (digit_char d) = 48 + d"
  by (simp add: digit_char_def code_def)

lemma is_digit_digit_char [simp]: "d < 10 \<Longrightarrow> is_digit (digit_char d)"
  by (simp add: is_digit_def code_digit_char)

lemma digit_val_char [simp]: "d < 10 \<Longrightarrow> digit_val (digit_char d) = d"
  by (simp add: digit_val_def code_digit_char)

lemma nat_to_dec_digits: "\<forall>c \<in> set (nat_to_dec n). is_digit c"
proof (induction n rule: nat_to_dec.induct)
  case (1 n)
  then show ?case by (subst nat_to_dec.simps) auto
qed

lemma nat_to_dec_digit [simp]: "c \<in> set (nat_to_dec n) \<Longrightarrow> is_digit c"
  using nat_to_dec_digits by blast

lemma nat_to_dec_ne [simp]: "nat_to_dec n \<noteq> []"
  by (subst nat_to_dec.simps) simp

lemma dec_value_snoc [simp]: "dec_value (ds @ [c]) = dec_value ds * 10 + digit_val c"
  by (simp add: dec_value_def)

lemma dec_value_Nil [simp]: "dec_value [] = 0"
  by (simp add: dec_value_def)

lemma dec_value_nat_to_dec [simp]: "dec_value (nat_to_dec n) = n"
proof (induction n rule: nat_to_dec.induct)
  case (1 n)
  show ?case
  proof (cases "n < 10")
    case True
    then have "nat_to_dec n = [] @ [digit_char n]" by (subst nat_to_dec.simps) simp
    then show ?thesis using True by (simp only: dec_value_snoc) simp
  next
    case False
    then have "nat_to_dec n = nat_to_dec (n div 10) @ [digit_char (n mod 10)]"
      by (subst nat_to_dec.simps) simp
    then show ?thesis using 1 False by simp
  qed
qed

lemma minus_not_digit [simp]: "\<not> is_digit CHR ''-''"
  by (simp add: is_digit_def code_def)

lemma takeWhile_digits [simp]:
  "takeWhile is_digit (nat_to_dec n) = nat_to_dec n" "dropWhile is_digit (nat_to_dec n) = []"
  using nat_to_dec_digits [of n] by (simp_all add: takeWhile_eq_all_conv dropWhile_eq_Nil_conv)

lemma nat_to_dec_hd [simp]: "hd (nat_to_dec n) \<noteq> CHR ''-''"
  by (metis hd_in_set minus_not_digit nat_to_dec_digit nat_to_dec_ne)

lemma from_chars_int_to_dec:
  assumes "lo \<le> i" "i \<le> hi"
  shows "from_chars lo hi (int_to_dec i) = Parsed i []"
  using assms by (auto simp: from_chars_def int_to_dec_def Let_def)

lemma int_to_dec_ne [simp]: "int_to_dec i \<noteq> []"
  by (simp add: int_to_dec_def)

lemma set_int_to_dec: "c \<in> set (int_to_dec i) \<Longrightarrow> is_digit c \<or> c = CHR ''-''"
  using nat_to_dec_digits by (auto simp: int_to_dec_def split: if_splits)

interpretation decimal_codec: codec int_to_dec
  "\<lambda>s. case from_chars int64_min int64_max s of Parsed v rest \<Rightarrow> if rest = [] then Some v else None | _ \<Rightarrow> None"
  in_int64
  by unfold_locales (simp add: in_int64_def from_chars_int_to_dec)

end
