(* ===== verification/Url_Codec.thy ===== *)
theory Url_Codec
  imports Decimal
begin

text \<open>
  \<open>include/aniparse/utility/UrlEncode.hpp\<close> and \<open>include/aniparse/utility/UrlPath.hpp\<close>:
  percent-encoding of components and of whole URIs, percent-decoding, and the scanners that read a
  slug or a number out of a URL.
\<close>

section \<open>Percent-encoding\<close>

definition hex_upper :: bytes where
  "hex_upper = ''0123456789ABCDEF''"

definition is_unreserved :: "char \<Rightarrow> bool" where
  "is_unreserved c \<longleftrightarrow> is_upper c \<or> is_lower c \<or> is_digit c \<or> c \<in> set ''-._~''"

definition escape_byte :: "char \<Rightarrow> bytes" where
  "escape_byte c = [CHR ''%'', hex_upper ! (code c div 16), hex_upper ! (code c mod 16)]"

fun url_encode :: "bytes \<Rightarrow> bytes" where
  "url_encode [] = []"
| "url_encode (c # value) = (if is_unreserved c then [c] else escape_byte c) @ url_encode value"

definition is_uri_character :: "char \<Rightarrow> bool" where
  "is_uri_character c \<longleftrightarrow>
     (let unreserved = is_unreserved c;
          reserved = c \<in> set '':/?#[]@!$&()*+,;=%'' \<or> c = chr_quote
      in unreserved \<or> reserved)"

fun url_encode_uri :: "bytes \<Rightarrow> bytes" where
  "url_encode_uri [] = []"
| "url_encode_uri (c # value) = (if is_uri_character c then [c] else escape_byte c) @ url_encode_uri value"

definition hex_digit :: "char \<Rightarrow> int" where
  "hex_digit c =
     (if 48 \<le> code c \<and> code c \<le> 57 then int (code c) - 48
      else if 65 \<le> code c \<and> code c \<le> 70 then int (code c) - 65 + 10
      else if 97 \<le> code c \<and> code c \<le> 102 then int (code c) - 97 + 10
      else -1)"

fun url_decode :: "bytes \<Rightarrow> bytes" where
  "url_decode (c # a # b # rest) =
     (if c = CHR ''%'' \<and> 0 \<le> hex_digit a \<and> 0 \<le> hex_digit b
      then char_of (nat (hex_digit a * 16 + hex_digit b)) # url_decode rest
      else c # url_decode (a # b # rest))"
| "url_decode (c # rest) = c # url_decode rest"
| "url_decode [] = []"

section \<open>Path scanners\<close>

definition all_digits :: "bytes \<Rightarrow> bool" where
  "all_digits view = (if view = [] then False else list_all is_digit view)"

definition segment_after :: "bytes \<Rightarrow> bytes \<Rightarrow> bytes \<Rightarrow> bytes option" where
  "segment_after view marker delims =
     (case find_from marker view 0 of
        None \<Rightarrow> None
      | Some pos \<Rightarrow>
          let segment = takeWhile (\<lambda>c. c \<notin> set delims) (drop (pos + length marker) view)
          in if segment = [] then None else Some segment)"

text \<open>The accumulation is 64-bit signed; past the range it wraps as the compiled code does.\<close>

definition digits_value :: "bytes \<Rightarrow> int" where
  "digits_value ds = foldl (\<lambda>v c. wrap64 (v * 10 + int (digit_val c))) 0 ds"

text \<open>The body of the scan at one occurrence: the number, if the occurrence qualifies.\<close>

definition number_at :: "bytes \<Rightarrow> bytes \<Rightarrow> bool \<Rightarrow> nat \<Rightarrow> int option" where
  "number_at view marker require_boundary pos =
     (let ok_boundary = (\<not> require_boundary \<or> pos = 0 \<or> view ! (pos - 1) \<in> set ''&?'');
          digits = takeWhile is_digit (drop (pos + length marker) view)
      in if ok_boundary \<and> digits \<noteq> [] then Some (digits_value digits) else None)"

partial_function (option) numeric_from ::
  "bytes \<Rightarrow> bytes \<Rightarrow> bool \<Rightarrow> nat option \<Rightarrow> int option option" where
  "numeric_from view marker require_boundary pos =
     (if pos = None then Some None
      else if number_at view marker require_boundary (the pos) \<noteq> None
      then Some (number_at view marker require_boundary (the pos))
      else numeric_from view marker require_boundary (find_from marker view (the pos + length marker)))"

text \<open>\<open>None\<close> is a scan that does not return; \<open>Some None\<close> is \<open>nullopt\<close>.\<close>

definition numeric_after :: "bytes \<Rightarrow> bytes \<Rightarrow> bool \<Rightarrow> int option option" where
  "numeric_after view marker require_boundary =
     numeric_from view marker require_boundary (find_from marker view 0)"

section \<open>Lemmas\<close>

lemma hex_digit_table: "list_all (\<lambda>n. hex_digit (hex_upper ! n) = int n \<and> is_unreserved (hex_upper ! n)) [0..<16]"
  by code_simp

lemma hex_digit_upper: "n < 16 \<Longrightarrow> hex_digit (hex_upper ! n) = int n"
  using hex_digit_table by (simp add: list_all_iff)

lemma hex_upper_unreserved: "n < 16 \<Longrightarrow> is_unreserved (hex_upper ! n)"
  using hex_digit_table by (simp add: list_all_iff)

lemma code_div16: "code c div 16 < 16" "code c mod 16 < 16"
  by (rule less_mult_imp_div_less) simp_all

lemma percent_reserved [simp]: "\<not> is_unreserved CHR ''%''"
  by (simp add: is_unreserved_def is_digit_def is_upper_def is_lower_def code_def)

lemma url_decode_escape: "url_decode (escape_byte c @ rest) = c # url_decode rest"
proof -
  have "nat (int (code c div 16) * 16 + int (code c mod 16)) = code c"
    by (metis div_mult_mod_eq nat_int of_nat_add of_nat_mult of_nat_numeral)
  then show ?thesis
    by (simp add: escape_byte_def hex_digit_upper code_div16) (simp add: code_def)
qed

lemma url_decode_plain: "c \<noteq> CHR ''%'' \<Longrightarrow> url_decode (c # rest) = c # url_decode rest"
proof (cases rest)
  case (Cons a r)
  assume "c \<noteq> CHR ''%''"
  with Cons show ?thesis by (cases r) simp_all
qed simp

lemma url_encode_map: "url_encode s = concat (map (\<lambda>c. if is_unreserved c then [c] else escape_byte c) s)"
  by (induction s) auto

lemma url_encode_uri_map:
  "url_encode_uri s = concat (map (\<lambda>c. if is_uri_character c then [c] else escape_byte c) s)"
  by (induction s) auto

lemma url_roundtrip: "url_decode (url_encode s) = s"
proof (induction s)
  case (Cons c s)
  show ?case
  proof (cases "is_unreserved c")
    case True
    then have "c \<noteq> CHR ''%''" by auto
    with True Cons show ?thesis by (simp add: url_decode_plain)
  next
    case False
    with Cons show ?thesis by (simp add: url_decode_escape)
  qed
qed simp

interpretation url_codec: codec url_encode "\<lambda>s. Some (url_decode s)" "\<lambda>_. True"
  by unfold_locales (simp add: url_roundtrip)

lemma escape_byte_alphabet: "x \<in> set (escape_byte c) \<Longrightarrow> x = CHR ''%'' \<or> is_unreserved x"
  by (auto simp: escape_byte_def hex_upper_unreserved code_div16)

lemma url_encode_alphabet: "x \<in> set (url_encode s) \<Longrightarrow> x = CHR ''%'' \<or> is_unreserved x"
  by (induction s) (auto dest: escape_byte_alphabet split: if_splits)

lemma escape_uri: "x \<in> set (escape_byte c) \<Longrightarrow> is_uri_character x"
  by (drule escape_byte_alphabet) (auto simp: is_uri_character_def)

lemma url_encode_uri_id: "\<forall>c \<in> set s. is_uri_character c \<Longrightarrow> url_encode_uri s = s"
  by (induction s) auto

lemma url_encode_uri_alphabet: "x \<in> set (url_encode_uri s) \<Longrightarrow> is_uri_character x"
  by (induction s) (auto dest: escape_uri split: if_splits)

lemma url_uri_decode: "CHR ''%'' \<notin> set s \<Longrightarrow> url_decode (url_encode_uri s) = s"
proof (induction s)
  case (Cons c s)
  then show ?case by (cases "is_uri_character c") (auto simp: url_decode_plain url_decode_escape)
qed simp

lemma digits_value_wrap: "digits_value ds = wrap64 (int (dec_value ds))"
proof (induction ds rule: rev_induct)
  case Nil
  then show ?case by (simp add: digits_value_def wrap64_def)
next
  case (snoc c ds)
  have "digits_value (ds @ [c]) = wrap64 (digits_value ds * 10 + int (digit_val c))"
    by (simp add: digits_value_def)
  also have "\<dots> = wrap64 (int (dec_value ds) * 10 + int (digit_val c))"
    unfolding snoc by (rule wrap64_step)
  finally show ?case by simp
qed

lemma numeric_from_None [simp]: "numeric_from t m b None = Some None"
  by (simp add: numeric_from.simps)

lemma find_from_advances:
  assumes "marker \<noteq> []" and "find_from marker view k = Some p"
  shows "Suc (length view) - (p + length marker) < Suc (length view) - k"
proof -
  have "k \<le> p" "p \<le> length view" "0 < length marker"
    using assms by (auto simp: find_from_Some)
  then show ?thesis by linarith
qed

text \<open>Reference: the occurrences of the marker, each search starting behind the one before.\<close>

function occurrences :: "bytes \<Rightarrow> bytes \<Rightarrow> nat \<Rightarrow> nat list" where
  "occurrences marker view k =
     (if marker = [] then []
      else case find_from marker view k of None \<Rightarrow> [] | Some p \<Rightarrow> p # occurrences marker view (p + length marker))"
  by pat_completeness auto

termination
  by (relation "measure (\<lambda>(marker, view, k). Suc (length view) - k)")
    (simp_all add: find_from_advances)

declare occurrences.simps [simp del]

lemma occurrences_found: "p \<in> set (occurrences marker view k) \<Longrightarrow> k \<le> p \<and> starts_with (drop p view) marker"
proof (induction marker view k rule: occurrences.induct)
  case (1 marker t k)
  from "1.prems" obtain q where ne: "marker \<noteq> []" and q: "find_from marker t k = Some q"
    and p: "p = q \<or> p \<in> set (occurrences marker t (q + length marker))"
    unfolding occurrences.simps [of marker t k]
    by (cases "find_from marker t k") (auto split: if_splits)
  from q have q': "k \<le> q" "starts_with (drop q t) marker" by (simp_all add: find_from_Some)
  from p show ?case
  proof
    assume "p \<in> set (occurrences marker t (q + length marker))"
    from "1.IH" [OF ne q this] q' show ?thesis by simp
  qed (use q' in simp)
qed

lemma numeric_from_reference:
  "marker \<noteq> [] \<Longrightarrow> numeric_from view marker b (find_from marker view k) =
     Some (case decode_all (number_at view marker b) (occurrences marker view k) of [] \<Rightarrow> None | v # _ \<Rightarrow> Some v)"
proof (induction marker view k rule: occurrences.induct)
  case (1 marker t k)
  show ?case
  proof (cases "find_from marker t k")
    case None
    then show ?thesis using "1.prems" by (simp add: occurrences.simps)
  next
    case (Some p)
    have o: "occurrences marker t k = p # occurrences marker t (p + length marker)"
      using "1.prems" Some by (subst occurrences.simps) simp
    show ?thesis using "1.IH" [OF "1.prems" Some "1.prems"]
      unfolding Some o by (subst numeric_from.simps) (auto split: option.split)
  qed
qed

text \<open>With an empty marker the next occurrence is the same one, so a scan that fails there repeats.\<close>

lemma find_from_empty: "find_from [] view 0 = Some 0"
  by (simp add: find_from_Some starts_with_def)

lemma numeric_empty_marker_diverges:
  assumes "number_at view [] False 0 = None"
  shows "numeric_from view [] False (Some 0) = None"
proof (rule ccontr)
  assume "numeric_from view [] False (Some 0) \<noteq> None"
  then obtain r where ret: "numeric_from view [] False (Some 0) = Some r" by auto
  have "\<not> (view = view \<and> [] = ([] :: bytes) \<and> \<not> False \<and> Some 0 = Some (0 :: nat) \<and>
      number_at view [] False 0 = None)"
  proof (rule numeric_from.raw_induct [where P = "\<lambda>t m b pos r. \<not> (t = view \<and> m = [] \<and> \<not> b \<and>
      pos = Some 0 \<and> number_at view [] False 0 = None)", OF _ ret])
    fix f :: "bytes \<Rightarrow> bytes \<Rightarrow> bool \<Rightarrow> nat option \<Rightarrow> int option option" and t m b pos r
    assume IH: "\<And>t m b pos r. f t m b pos = Some r \<Longrightarrow>
        \<not> (t = view \<and> m = [] \<and> \<not> b \<and> pos = Some 0 \<and> number_at view [] False 0 = None)"
      and eq: "(if pos = None then Some None
        else if number_at t m b (the pos) \<noteq> None then Some (number_at t m b (the pos))
        else f t m b (find_from m t (the pos + length m))) = Some r"
    show "\<not> (t = view \<and> m = [] \<and> \<not> b \<and> pos = Some 0 \<and> number_at view [] False 0 = None)"
    proof
      assume h: "t = view \<and> m = [] \<and> \<not> b \<and> pos = Some 0 \<and> number_at view [] False 0 = None"
      with eq have "f view [] False (Some 0) = Some r" by (simp add: find_from_empty)
      from IH [OF this] h show False by simp
    qed
  qed
  then show False using assms by simp
qed

lemma segment_after_Some:
  "segment_after view marker delims = Some seg \<longleftrightarrow>
     seg \<noteq> [] \<and> (\<exists>pre rest. view = pre @ marker @ seg @ rest \<and> find_from marker view 0 = Some (length pre) \<and>
       (\<forall>c \<in> set seg. c \<notin> set delims) \<and> (rest = [] \<or> hd rest \<in> set delims))"
  (is "?L \<longleftrightarrow> ?R")
proof
  assume ?L
  then obtain pos where pos: "find_from marker view 0 = Some pos"
    and seg: "seg = takeWhile (\<lambda>c. c \<notin> set delims) (drop (pos + length marker) view)" "seg \<noteq> []"
    by (auto simp: segment_after_def Let_def split: option.splits if_splits)
  let ?rest = "dropWhile (\<lambda>c. c \<notin> set delims) (drop (pos + length marker) view)"
  have "take (length marker) (drop pos view) = marker"
    using pos by (simp add: find_from_Some starts_with_def)
  then have "view = take pos view @ marker @ drop (pos + length marker) view"
    by (metis add.commute append_take_drop_id drop_drop)
  then have "view = take pos view @ marker @ seg @ ?rest" using seg by simp
  moreover have "length (take pos view) = pos" using pos by (simp add: find_from_Some)
  moreover have "\<forall>c \<in> set seg. c \<notin> set delims" using seg by (auto dest: set_takeWhileD)
  moreover have "?rest = [] \<or> hd ?rest \<in> set delims" using hd_dropWhile by blast
  ultimately show ?R using pos seg(2) by metis
next
  assume ?R
  then obtain pre rest where t: "view = pre @ marker @ seg @ rest"
    and f: "find_from marker view 0 = Some (length pre)" and "seg \<noteq> []"
    and d: "\<forall>c \<in> set seg. c \<notin> set delims" "rest = [] \<or> hd rest \<in> set delims" by blast
  have "drop (length pre + length marker) view = seg @ rest" by (simp add: t)
  moreover have "takeWhile (\<lambda>c. c \<notin> set delims) (seg @ rest) = seg"
    using d by (cases rest) (simp_all add: takeWhile_append)
  ultimately show ?L using f \<open>seg \<noteq> []\<close> by (simp add: segment_after_def)
qed

section \<open>Properties\<close>

text \<open>Percent-decoding inverts percent-encoding on every byte string, and the encoded text consists of
  unreserved characters and percent signs only.\<close>

theorem url_encode_roundtrip:
  "url_decode (url_encode s) = s \<and> {x \<in> set (url_encode s). x \<noteq> CHR ''%'' \<and> \<not> is_unreserved x} = {}"
  using url_roundtrip url_encode_alphabet by blast

text \<open>Encoding a whole URI emits URI characters only, leaves a text of URI characters unchanged (so
  existing escapes and delimiters survive and encoding twice is encoding once), and on text without a
  percent sign it is undone by decoding.\<close>

theorem url_encode_uri_stable:
  assumes "CHR ''%'' \<notin> set s"
  shows "set (url_encode_uri s) \<subseteq> {c. is_uri_character c} \<and>
    url_encode_uri (url_encode_uri t) = url_encode_uri t \<and> url_decode (url_encode_uri s) = s"
  using url_encode_uri_alphabet url_uri_decode [OF assms]
  by (auto intro!: url_encode_uri_id)

theorem url_encode_uri_stable_witness:
  "url_decode (url_encode_uri ''/a b?q=1'') = ''/a b?q=1''"
  using url_encode_uri_stable [of "''/a b?q=1''"] by simp

text \<open>\<open>numeric_after\<close> with a non-empty marker always returns, and returns the number at the first
  occurrence of the marker (searching on behind each one) that meets the boundary condition and is
  followed by digits; the number is the decimal value, exact as long as it fits 64 bits signed.\<close>

theorem numeric_after_first:
  assumes "marker \<noteq> []"
  shows "numeric_after view marker b =
      Some (case decode_all (number_at view marker b) (occurrences marker view 0) of [] \<Rightarrow> None | v # _ \<Rightarrow> Some v) \<and>
    (\<forall>ds. digits_value ds = wrap64 (int (dec_value ds)))"
  using numeric_from_reference [OF assms, of "view" b 0] by (simp add: numeric_after_def digits_value_wrap)

theorem numeric_after_first_witness:
  "numeric_after ''pool_id=7&id=42'' ''id='' True = Some (Some 42)"
proof -
  have "occurrences ''id='' ''pool_id=7&id=42'' 0 = [5, 10]"
    by code_simp
  moreover have "number_at ''pool_id=7&id=42'' ''id='' True 5 = None"
    "number_at ''pool_id=7&id=42'' ''id='' True 10 = Some 42"
    by code_simp+
  ultimately show ?thesis
    using numeric_after_first [of "''id=''" "''pool_id=7&id=42''" True] by simp
qed

text \<open>\<open>numeric_after\<close> does not return when the marker is empty and the text does not start with a digit:
  the next occurrence of the empty marker is the same position again.\<close>

theorem numeric_after_empty_marker:
  assumes "view = [] \<or> \<not> is_digit (hd view)"
  shows "numeric_after view [] False = None"
proof -
  have "takeWhile is_digit view = []" using assms by (cases view) auto
  then have "number_at view [] False 0 = None" by (simp add: number_at_def)
  then show ?thesis
    by (simp add: numeric_after_def find_from_empty numeric_empty_marker_diverges)
qed

text \<open>\<open>segment_after\<close> returns exactly the longest non-empty delimiter-free segment behind the first
  occurrence of the marker, and nullopt in every other case.\<close>

theorem segment_after_spec:
  "segment_after view marker delims = Some seg \<longleftrightarrow>
     seg \<noteq> [] \<and> (\<exists>pre rest. view = pre @ marker @ seg @ rest \<and> find_from marker view 0 = Some (length pre) \<and>
       set seg \<inter> set delims = {} \<and> (rest = [] \<or> hd rest \<in> set delims))"
proof -
  have d: "(\<forall>c \<in> set seg. c \<notin> set delims) = (set seg \<inter> set delims = {})" by blast
  show ?thesis unfolding segment_after_Some d ..
qed

end
