(* ===== verification/Cookies.thy ===== *)
theory Cookies
  imports Decimal "HOL-Library.Signed_Division"
begin

text \<open>
  \<open>include/aniparse/net/CookieJar.hpp\<close>, \<open>include/aniparse/net/CookieStore.hpp\<close> and
  \<open>src/net/CookieStore.cpp\<close>: the neutral cookie, its Netscape line, the matching rules and the store.
  A time point is a count of ticks of the system clock; \<open>tps\<close>, the ticks per second, is a parameter
  (\<open>10 ^ 9\<close> with libstdc++). The mutex makes each store operation one step.
\<close>

section \<open>The cookie\<close>

record cookie =
  ck_name :: bytes
  ck_value :: bytes
  ck_domain :: bytes
  ck_path :: bytes
  ck_expires :: "int option"
  ck_secure :: bool
  ck_http_only :: bool
  ck_include_subdomains :: bool

definition httponly_prefix :: bytes where
  "httponly_prefix = ''#HttpOnly_''"

definition equals_ignore_case :: "bytes \<Rightarrow> bytes \<Rightarrow> bool" where
  "equals_ignore_case left right = list_all2 (\<lambda>a b. to_lower a = to_lower b) left right"

definition ends_with_ignore_case :: "bytes \<Rightarrow> bytes \<Rightarrow> bool" where
  "ends_with_ignore_case s suffix \<longleftrightarrow>
     length suffix \<le> length s \<and> equals_ignore_case (drop (length s - length suffix) s) suffix"

definition is_expired :: "cookie \<Rightarrow> int \<Rightarrow> bool" where
  "is_expired c now = (case ck_expires c of None \<Rightarrow> False | Some t \<Rightarrow> t \<le> now)"

definition same_identity :: "cookie \<Rightarrow> cookie \<Rightarrow> bool" where
  "same_identity l r \<longleftrightarrow> ck_name l = ck_name r \<and> ck_domain l = ck_domain r \<and> ck_path l = ck_path r"

section \<open>Matching\<close>

definition cookie_domain_matches :: "cookie \<Rightarrow> bytes \<Rightarrow> bool" where
  "cookie_domain_matches c host =
     (let dotted = starts_with (ck_domain c) ''.'';
          domain = (if dotted then drop 1 (ck_domain c) else ck_domain c);
          include_subdomains = (if dotted then True else ck_include_subdomains c)
      in if domain = [] then False
         else if equals_ignore_case host domain then True
         else include_subdomains \<and> length domain < length host \<and> ends_with_ignore_case host domain \<and>
              host ! (length host - length domain - 1) = CHR ''.'')"

definition cookie_path_matches :: "cookie \<Rightarrow> bytes \<Rightarrow> bool" where
  "cookie_path_matches c path0 =
     (let scope = ck_path c in
      if scope = [] \<or> scope = ''/'' then True
      else let path = (if path0 = [] then ''/'' else path0) in
           if \<not> starts_with path scope then False
           else length path = length scope \<or> last scope = CHR ''/'' \<or> path ! length scope = CHR ''/'')"

section \<open>The Netscape line\<close>

fun split_fields :: "nat \<Rightarrow> bytes \<Rightarrow> bytes list" where
  "split_fields (Suc (Suc n)) line =
     (case split_first chr_tab line of
        None \<Rightarrow> [line]
      | Some (field, rest) \<Rightarrow> field # split_fields (Suc n) rest)"
| "split_fields n line = [line]"

text \<open>\<open>from_chars\<close> leaves its output untouched on any error, so the expiry stays 0.\<close>

definition parse_expires_unix :: "bytes \<Rightarrow> int" where
  "parse_expires_unix field =
     (case from_chars int64_min int64_max field of Parsed v _ \<Rightarrow> v | _ \<Rightarrow> 0)"

text \<open>Seconds to ticks: the product is a 64-bit signed count and wraps past its range.\<close>

definition time_of_unix :: "int \<Rightarrow> int \<Rightarrow> int" where
  "time_of_unix tps s = wrap64 (s * tps)"

definition unix_of_time :: "int \<Rightarrow> int \<Rightarrow> int" where
  "unix_of_time tps t = t sdiv tps"

definition parse_netscape_line :: "int \<Rightarrow> bytes \<Rightarrow> cookie option" where
  "parse_netscape_line tps line =
     (case split_fields 7 line of
        [f0, f1, f2, f3, f4, f5, f6] \<Rightarrow>
          (let http_only = starts_with f0 httponly_prefix;
               domain = (if http_only then drop (length httponly_prefix) f0 else f0);
               expires_unix = parse_expires_unix f4
           in Some \<lparr>ck_name = f5, ck_value = f6, ck_domain = domain, ck_path = f2,
                ck_expires = (if expires_unix \<noteq> 0 then Some (time_of_unix tps expires_unix) else None),
                ck_secure = (f3 = ''TRUE''), ck_http_only = http_only,
                ck_include_subdomains = (f1 = ''TRUE'')\<rparr>)
      | _ \<Rightarrow> None)"

definition bool_field :: "bool \<Rightarrow> bytes" where
  "bool_field b = (if b then ''TRUE'' else ''FALSE'')"

definition to_netscape_line :: "int \<Rightarrow> cookie \<Rightarrow> bytes" where
  "to_netscape_line tps c =
     (let expires_unix = (case ck_expires c of Some t \<Rightarrow> unix_of_time tps t | None \<Rightarrow> 0)
      in (if ck_http_only c then httponly_prefix else []) @ ck_domain c @ [chr_tab] @
         bool_field (ck_include_subdomains c) @ [chr_tab] @ ck_path c @ [chr_tab] @
         bool_field (ck_secure c) @ [chr_tab] @ int_to_dec expires_unix @ [chr_tab] @
         ck_name c @ [chr_tab] @ ck_value c)"

section \<open>The store\<close>

type_synonym cookie_store = "cookie list"

definition store_find :: "cookie_store \<Rightarrow> bytes \<Rightarrow> cookie option" where
  "store_find cookies name = List.find (\<lambda>c. ck_name c = name) cookies"

definition store_all :: "cookie_store \<Rightarrow> cookie list" where
  "store_all cookies = cookies"

definition cookies_for :: "int \<Rightarrow> cookie_store \<Rightarrow> bytes \<Rightarrow> bytes \<Rightarrow> bool \<Rightarrow> cookie list \<times> cookie_store" where
  "cookies_for now cookies host path secure_transport =
     (let live = filter (\<lambda>c. \<not> is_expired c now) cookies;
          matching = filter (\<lambda>c. if ck_secure c \<and> \<not> secure_transport then False
                                else cookie_domain_matches c host \<and> cookie_path_matches c path) live
      in (matching, live))"

fun store_set :: "cookie_store \<Rightarrow> cookie \<Rightarrow> cookie_store" where
  "store_set [] c = [c]"
| "store_set (stored # cookies) c =
     (if same_identity stored c then c # cookies else stored # store_set cookies c)"

definition store_clear :: "cookie_store \<Rightarrow> cookie_store" where
  "store_clear cookies = []"

definition store_serialize :: "int \<Rightarrow> cookie_store \<Rightarrow> bytes list" where
  "store_serialize tps cookies = map (to_netscape_line tps) cookies"

definition store_deserialize :: "int \<Rightarrow> cookie_store \<Rightarrow> bytes list \<Rightarrow> cookie_store" where
  "store_deserialize tps cookies lines = decode_all (parse_netscape_line tps) lines"

text \<open>\<open>MemoryCookieJar\<close> forwards the \<open>CookieJar\<close> interface to its store.\<close>

record memory_jar =
  store_ref :: cookie_store

definition jar_find_cookie :: "memory_jar \<Rightarrow> bytes \<Rightarrow> cookie option" where
  "jar_find_cookie j name = store_find (store_ref j) name"

definition jar_cookies :: "memory_jar \<Rightarrow> cookie list" where
  "jar_cookies j = store_all (store_ref j)"

definition jar_set_cookie :: "memory_jar \<Rightarrow> cookie \<Rightarrow> memory_jar" where
  "jar_set_cookie j c = j\<lparr>store_ref := store_set (store_ref j) c\<rparr>"

definition jar_clear :: "memory_jar \<Rightarrow> memory_jar" where
  "jar_clear j = j\<lparr>store_ref := store_clear (store_ref j)\<rparr>"

definition jar_serialize :: "int \<Rightarrow> memory_jar \<Rightarrow> bytes list" where
  "jar_serialize tps j = store_serialize tps (store_ref j)"

definition jar_deserialize :: "int \<Rightarrow> memory_jar \<Rightarrow> bytes list \<Rightarrow> memory_jar" where
  "jar_deserialize tps j lines = j\<lparr>store_ref := store_deserialize tps (store_ref j) lines\<rparr>"

section \<open>Matching lemmas\<close>

lemma equals_ignore_case_iff: "equals_ignore_case l r \<longleftrightarrow> lower l = lower r"
  unfolding equals_ignore_case_def lower_def map_equality_iff list_all2_conv_all_nth by auto

text \<open>Reference: the host is the domain itself or, for a subdomain cookie, ends in a dot and the domain.\<close>

definition bare_domain :: "cookie \<Rightarrow> bytes" where
  "bare_domain c = (if starts_with (ck_domain c) ''.'' then drop 1 (ck_domain c) else ck_domain c)"

definition covers_subdomains :: "cookie \<Rightarrow> bool" where
  "covers_subdomains c \<longleftrightarrow> starts_with (ck_domain c) ''.'' \<or> ck_include_subdomains c"

lemma dot_suffix_iff:
  "(length d < length h \<and> ends_with_ignore_case h d \<and> h ! (length h - length d - 1) = CHR ''.'') \<longleftrightarrow>
   (\<exists>sub. lower h = sub @ CHR ''.'' # lower d)"
proof
  assume L: "length d < length h \<and> ends_with_ignore_case h d \<and> h ! (length h - length d - 1) = CHR ''.''"
  let ?k = "length h - length d - 1"
  have k: "?k < length h" "Suc ?k = length h - length d" using L by auto
  have "h = take ?k h @ h ! ?k # drop (Suc ?k) h" by (rule id_take_nth_drop [OF k(1)])
  then have "lower h = lower (take ?k h) @ lower [h ! ?k] @ lower (drop (Suc ?k) h)"
    by (metis append_Cons append_Nil lower_append)
  moreover have "lower (drop (Suc ?k) h) = lower d"
    using L k(2) by (simp add: ends_with_ignore_case_def equals_ignore_case_iff)
  moreover have "lower [h ! ?k] = ''.''"
  proof -
    have "to_lower CHR ''.'' = CHR ''.''" by simp
    then show ?thesis using L by (simp add: lower_def)
  qed
  ultimately show "\<exists>sub. lower h = sub @ CHR ''.'' # lower d" by auto
next
  assume "\<exists>sub. lower h = sub @ CHR ''.'' # lower d"
  then obtain sub where s: "lower h = sub @ CHR ''.'' # lower d" ..
  then have len: "length h = length sub + 1 + length d"
    by (metis lower_length length_append length_Cons add.assoc plus_1_eq_Suc)
  have "lower (drop (length h - length d) h) = drop (length h - length d) (lower h)"
    by (simp add: lower_def drop_map)
  also have "\<dots> = lower d" using len by (simp add: s)
  finally have e: "ends_with_ignore_case h d"
    using len by (simp add: ends_with_ignore_case_def equals_ignore_case_iff)
  have i: "length h - length d - 1 = length sub" using len by simp
  have "to_lower (h ! length sub) = lower h ! length sub" using len by (simp add: lower_def)
  also have "\<dots> = CHR ''.''" by (simp add: s)
  finally have "h ! (length h - length d - 1) = CHR ''.''" unfolding i by simp
  with e len show "length d < length h \<and> ends_with_ignore_case h d \<and> h ! (length h - length d - 1) = CHR ''.''"
    by simp
qed

lemma domain_matches_iff:
  "cookie_domain_matches c host \<longleftrightarrow> bare_domain c \<noteq> [] \<and>
     (lower host = lower (bare_domain c) \<or>
      covers_subdomains c \<and> (\<exists>sub. lower host = sub @ CHR ''.'' # lower (bare_domain c)))"
  using dot_suffix_iff [of "bare_domain c" host]
  by (auto simp: cookie_domain_matches_def bare_domain_def covers_subdomains_def Let_def
      equals_ignore_case_iff)

text \<open>Reference: the path-match rule of RFC 6265, section 5.1.4.\<close>

definition rfc6265_path_match :: "bytes \<Rightarrow> bytes \<Rightarrow> bool" where
  "rfc6265_path_match cookie_path request_path \<longleftrightarrow>
     cookie_path = request_path \<or>
     (\<exists>rest. request_path = cookie_path @ rest \<and>
        (cookie_path \<noteq> [] \<and> last cookie_path = CHR ''/'' \<or> rest \<noteq> [] \<and> hd rest = CHR ''/''))"

lemma rfc6265_path_match_alt:
  assumes "scope \<noteq> []"
  shows "starts_with q scope \<and> (length q = length scope \<or> last scope = CHR ''/'' \<or> q ! length scope = CHR ''/'') \<longleftrightarrow>
    rfc6265_path_match scope q"
proof
  assume "starts_with q scope \<and> (length q = length scope \<or> last scope = CHR ''/'' \<or> q ! length scope = CHR ''/'')"
  then obtain r where "q = scope @ r" and
    "length q = length scope \<or> last scope = CHR ''/'' \<or> q ! length scope = CHR ''/''"
    by (auto simp: starts_with_iff)
  then show "rfc6265_path_match scope q"
    using assms by (cases r) (auto simp: rfc6265_path_match_def)
next
  assume "rfc6265_path_match scope q"
  then obtain r where "q = scope @ r" and "r = [] \<or> last scope = CHR ''/'' \<or> hd r = CHR ''/''"
    by (auto simp: rfc6265_path_match_def)
  then show "starts_with q scope \<and> (length q = length scope \<or> last scope = CHR ''/'' \<or> q ! length scope = CHR ''/'')"
    by (cases r) (auto simp: starts_with_iff)
qed

lemma path_matches_iff:
  assumes "ck_path c \<noteq> []" "ck_path c \<noteq> ''/''"
  shows "cookie_path_matches c p \<longleftrightarrow> rfc6265_path_match (ck_path c) (if p = [] then ''/'' else p)"
  using assms rfc6265_path_match_alt [OF assms(1), of "if p = [] then ''/'' else p"]
  by (cases "p = []") (auto simp: cookie_path_matches_def Let_def)

section \<open>Line lemmas\<close>

definition storable :: "int \<Rightarrow> cookie \<Rightarrow> bool" where
  "storable tps c \<longleftrightarrow> chr_tab \<notin> set (ck_domain c) \<and> chr_tab \<notin> set (ck_path c) \<and> chr_tab \<notin> set (ck_name c) \<and>
     (ck_http_only c \<or> \<not> starts_with (ck_domain c) httponly_prefix) \<and>
     (case ck_expires c of None \<Rightarrow> True
      | Some t \<Rightarrow> in_int64 t \<and> tps dvd t \<and> t \<noteq> 0)"

lemma seven_fields: "(7::nat) = Suc (Suc (Suc 4))" "(4::nat) = Suc (Suc (Suc (Suc 0)))"
  by simp_all

lemma split_fields_step:
  "chr_tab \<notin> set a \<Longrightarrow> split_fields (Suc (Suc n)) (a @ chr_tab # rest) = a # split_fields (Suc n) rest"
  by (simp add: split_first_append)

lemma no_tab_bool [simp]: "chr_tab \<notin> set (bool_field b)"
  by (simp add: bool_field_def)

lemma bool_field_TRUE [simp]: "bool_field b = ''TRUE'' \<longleftrightarrow> b"
  by (simp add: bool_field_def)

lemma no_tab_dec [simp]: "chr_tab \<notin> set (int_to_dec i)"
  by (auto dest: set_int_to_dec simp: is_digit_def code_def)

lemma no_tab_prefix [simp]: "chr_tab \<notin> set httponly_prefix"
  by (simp add: httponly_prefix_def)

lemma line_fields:
  assumes "chr_tab \<notin> set (ck_domain c)" "chr_tab \<notin> set (ck_path c)" "chr_tab \<notin> set (ck_name c)"
  shows "split_fields 7 (to_netscape_line tps c) =
    [(if ck_http_only c then httponly_prefix else []) @ ck_domain c, bool_field (ck_include_subdomains c),
     ck_path c, bool_field (ck_secure c),
     int_to_dec (case ck_expires c of Some t \<Rightarrow> unix_of_time tps t | None \<Rightarrow> 0), ck_name c, ck_value c]"
proof -
  let ?f0 = "(if ck_http_only c then httponly_prefix else []) @ ck_domain c"
  let ?f4 = "int_to_dec (case ck_expires c of Some t \<Rightarrow> unix_of_time tps t | None \<Rightarrow> 0)"
  have line: "to_netscape_line tps c = ?f0 @ chr_tab # bool_field (ck_include_subdomains c) @ chr_tab #
      ck_path c @ chr_tab # bool_field (ck_secure c) @ chr_tab # ?f4 @ chr_tab # ck_name c @ chr_tab # ck_value c"
    by (simp add: to_netscape_line_def Let_def)
  have t0: "chr_tab \<notin> set ?f0" using assms(1) by simp
  show ?thesis
    unfolding line seven_fields split_fields_step [OF t0] split_fields_step [OF no_tab_bool]
      split_fields_step [OF assms(2)] split_fields_step [OF no_tab_dec] split_fields_step [OF assms(3)]
    by simp
qed

lemma unix_of_time_exact:
  assumes "0 < tps" "tps dvd t" "in_int64 t"
  shows "unix_of_time tps t = t div tps" "in_int64 (t div tps)" "time_of_unix tps (t div tps) = t"
proof -
  from assms(2) obtain s where s: "t = tps * s" by (elim dvdE)
  have q: "t div tps = s" using s assms(1) by simp
  have "\<bar>t\<bar> div tps = \<bar>s\<bar>" using s assms(1) by (simp add: abs_mult)
  then show "unix_of_time tps t = t div tps"
    using s assms(1) q by (simp add: unix_of_time_def signed_divide_int_def sgn_mult sgn_mult_abs)
  have "(0 \<le> s \<longrightarrow> s \<le> t) \<and> (s < 0 \<longrightarrow> t \<le> s)"
    using s assms(1) mult_right_mono [of 1 tps s] mult_right_mono_neg [of 1 tps s] by auto
  then show "in_int64 (t div tps)" using assms(3) q
    by (auto simp: in_int64_def int64_min_def int64_max_def)
  show "time_of_unix tps (t div tps) = t"
    using assms(3) s q by (simp add: time_of_unix_def mult.commute wrap64_id)
qed

lemma parse_expires_to_dec: "in_int64 i \<Longrightarrow> parse_expires_unix (int_to_dec i) = i"
  by (simp add: parse_expires_unix_def in_int64_def from_chars_int_to_dec)

lemma starts_with_append [simp]: "starts_with (p @ r) p"
  by (simp add: starts_with_def)

text \<open>What a written line reads back as: every field but the expiry is recovered in any case.\<close>

lemma parse_line:
  assumes "chr_tab \<notin> set (ck_domain c)" "chr_tab \<notin> set (ck_path c)" "chr_tab \<notin> set (ck_name c)"
    and "ck_http_only c \<or> \<not> starts_with (ck_domain c) httponly_prefix"
  shows "parse_netscape_line tps (to_netscape_line tps c) =
    Some (c\<lparr>ck_expires :=
      (let s = parse_expires_unix (int_to_dec (case ck_expires c of Some t \<Rightarrow> unix_of_time tps t | None \<Rightarrow> 0))
       in if s \<noteq> 0 then Some (time_of_unix tps s) else None)\<rparr>)"
  using assms(4)
  by (auto simp: parse_netscape_line_def line_fields [OF assms(1-3)] Let_def)

lemma parse_storable:
  assumes "0 < tps" "storable tps c"
  shows "parse_netscape_line tps (to_netscape_line tps c) = Some c"
proof (cases "ck_expires c")
  case None
  then show ?thesis using parse_line [of c tps] assms(2)
    by (simp add: storable_def parse_expires_to_dec in_int64_def int64_min_def int64_max_def Let_def)
next
  case (Some t)
  then have t: "tps dvd t" "in_int64 t" "t \<noteq> 0" using assms(2) by (auto simp: storable_def)
  note x = unix_of_time_exact [OF assms(1) t(1,2)]
  have "t div tps \<noteq> 0" using t(1,3) by auto
  then show ?thesis using parse_line [of c tps] assms(2) Some
    by (simp add: storable_def x parse_expires_to_dec Let_def)
qed

section \<open>Store lemmas\<close>

definition identity :: "cookie \<Rightarrow> bytes \<times> bytes \<times> bytes" where
  "identity c = (ck_name c, ck_domain c, ck_path c)"

definition distinct_ids :: "cookie_store \<Rightarrow> bool" where
  "distinct_ids cookies \<longleftrightarrow> distinct (map identity cookies)"

lemma same_identity_iff: "same_identity a b \<longleftrightarrow> identity a = identity b"
  by (simp add: same_identity_def identity_def)

lemma set_store_set:
  "distinct_ids cs \<Longrightarrow> set (store_set cs c) = insert c {d \<in> set cs. \<not> same_identity d c}"
  by (induction cs c rule: store_set.induct)
    (auto simp: distinct_ids_def same_identity_iff image_iff)

lemma identities_store_set:
  "identity ` set (store_set cs c) = insert (identity c) (identity ` set cs)"
  by (induction cs c rule: store_set.induct) (auto simp: same_identity_iff)

lemma distinct_store_set: "distinct_ids cs \<Longrightarrow> distinct_ids (store_set cs c)"
proof (induction cs c rule: store_set.induct)
  case (2 stored cs c)
  then show ?case
    using identities_store_set [of cs c] by (auto simp: distinct_ids_def same_identity_iff)
qed (simp add: distinct_ids_def)

lemma distinct_filter: "distinct_ids cs \<Longrightarrow> distinct_ids (filter P cs)"
  by (simp add: distinct_ids_def distinct_map_filter)

lemma restore_serialized:
  assumes "0 < tps" "\<forall>c \<in> set cs. storable tps c"
  shows "store_deserialize tps old (store_serialize tps cs) = cs"
proof -
  have "decode_all (parse_netscape_line tps) (map (to_netscape_line tps) cs) = cs"
    using assms(2) by (induction cs) (simp_all add: parse_storable [OF assms(1)])
  then show ?thesis by (simp add: store_deserialize_def store_serialize_def)
qed

section \<open>The CookieJar interface\<close>

text \<open>What the clients of a jar (requests, login export and import) rely on.\<close>

locale cookie_jar =
  fixes find_cookie :: "'j \<Rightarrow> bytes \<Rightarrow> cookie option"
    and cookies :: "'j \<Rightarrow> cookie list"
    and set_cookie :: "'j \<Rightarrow> cookie \<Rightarrow> 'j"
    and clear :: "'j \<Rightarrow> 'j"
    and serialize :: "'j \<Rightarrow> bytes list"
    and deserialize :: "'j \<Rightarrow> bytes list \<Rightarrow> 'j"
    and invar :: "'j \<Rightarrow> bool"
    and ok :: "cookie \<Rightarrow> bool"
  assumes find_spec: "find_cookie j n = List.find (\<lambda>c. ck_name c = n) (cookies j)"
    and set_spec: "invar j \<Longrightarrow> set (cookies (set_cookie j c)) = insert c {d \<in> set (cookies j). \<not> same_identity d c}"
    and clear_spec: "cookies (clear j) = []"
    and restore_spec: "\<forall>c \<in> set (cookies j). ok c \<Longrightarrow> cookies (deserialize j' (serialize j)) = cookies j"
    and invar_set: "invar j \<Longrightarrow> invar (set_cookie j c)"
    and invar_clear: "invar (clear j)"
    and invar_restore: "invar j \<Longrightarrow> \<forall>c \<in> set (cookies j). ok c \<Longrightarrow> invar (deserialize j' (serialize j))"
begin

definition set_cookies :: "'j \<Rightarrow> cookie list \<Rightarrow> 'j" where
  "set_cookies j cs = foldl set_cookie j cs"

lemma find_clear: "find_cookie (clear j) n = None"
  by (simp add: find_spec clear_spec)

lemma find_set: "invar j \<Longrightarrow> \<exists>d. find_cookie (set_cookie j c) (ck_name c) = Some d \<and> ck_name d = ck_name c"
proof -
  assume "invar j"
  then have "c \<in> set (cookies (set_cookie j c))" by (simp add: set_spec)
  then have "find_cookie (set_cookie j c) (ck_name c) \<noteq> None"
    by (auto simp: find_spec find_None_iff)
  then show ?thesis by (auto simp: find_spec find_Some_iff)
qed

lemma set_overwrites:
  "invar j \<Longrightarrow> same_identity c d \<Longrightarrow>
   set (cookies (set_cookie (set_cookie j c) d)) = set (cookies (set_cookie j d))"
  by (auto simp: set_spec invar_set same_identity_def)

lemma invar_set_cookies: "invar j \<Longrightarrow> invar (set_cookies j cs)"
  unfolding set_cookies_def by (induction cs arbitrary: j) (auto intro: invar_set)

lemma set_cookies_keeps:
  "invar j \<Longrightarrow> c \<in> set (cookies j) \<Longrightarrow> \<forall>d \<in> set cs. \<not> same_identity c d \<Longrightarrow>
   c \<in> set (cookies (set_cookies j cs))"
  unfolding set_cookies_def
  by (induction cs arbitrary: j) (auto simp: set_spec invar_set)

lemma set_cookies_stores:
  assumes "invar j" "distinct (map identity cs)" "c \<in> set cs"
  shows "c \<in> set (cookies (set_cookies j cs))"
  using assms
proof (induction cs arbitrary: j)
  case (Cons d cs)
  show ?case
  proof (cases "c = d")
    case True
    have "c \<in> set (cookies (set_cookie j d))" using Cons.prems True by (simp add: set_spec)
    moreover have "\<forall>e \<in> set cs. \<not> same_identity c e"
      using Cons.prems True by (auto simp: same_identity_iff)
    ultimately show ?thesis
      using set_cookies_keeps [of "set_cookie j d" c cs] Cons.prems(1)
      by (simp add: invar_set set_cookies_def)
  next
    case False
    then show ?thesis using Cons.IH [of "set_cookie j d"] Cons.prems
      by (simp add: invar_set set_cookies_def)
  qed
qed simp

end

text \<open>\<open>std::chrono::system_clock\<close> of libstdc++ counts nanoseconds.\<close>

definition ns_per_s :: int where
  "ns_per_s = 10 ^ 9"

definition jar_invar :: "memory_jar \<Rightarrow> bool" where
  "jar_invar j \<longleftrightarrow> distinct_ids (store_ref j)"

lemma ns_pos [simp]: "0 < ns_per_s"
  by (simp add: ns_per_s_def)

interpretation mjar: cookie_jar jar_find_cookie jar_cookies jar_set_cookie jar_clear
  "jar_serialize ns_per_s" "jar_deserialize ns_per_s" jar_invar "storable ns_per_s"
  by unfold_locales
    (simp_all add: jar_find_cookie_def jar_cookies_def jar_set_cookie_def jar_clear_def jar_serialize_def
      jar_deserialize_def jar_invar_def store_find_def store_all_def store_clear_def set_store_set
      restore_serialized distinct_store_set, simp add: distinct_ids_def)

interpretation cookie_codec: codec "to_netscape_line ns_per_s" "parse_netscape_line ns_per_s" "storable ns_per_s"
  by unfold_locales (rule parse_storable [OF ns_pos])

section \<open>Runs of a jar\<close>

text \<open>
  Every way a jar changes: storing a cookie, clearing it, answering a request at some time (which
  drops the expired cookies), and being restored from what a jar in use serialized.
\<close>

inductive jar_reachable :: "memory_jar \<Rightarrow> bool" where
  fresh: "jar_reachable \<lparr>store_ref = []\<rparr>"
| setting: "jar_reachable j \<Longrightarrow> jar_reachable (jar_set_cookie j c)"
| clearing: "jar_reachable j \<Longrightarrow> jar_reachable (jar_clear j)"
| querying: "jar_reachable j \<Longrightarrow>
    jar_reachable (j\<lparr>store_ref := snd (cookies_for now (store_ref j) host path secure)\<rparr>)"
| restoring: "jar_reachable j \<Longrightarrow> jar_reachable old \<Longrightarrow> \<forall>c \<in> set (jar_cookies j). storable ns_per_s c \<Longrightarrow>
    jar_reachable (jar_deserialize ns_per_s old (jar_serialize ns_per_s j))"

lemma jar_reachable_invar: "jar_reachable j \<Longrightarrow> jar_invar j"
proof (induction rule: jar_reachable.induct)
  case fresh
  show ?case by (simp add: jar_invar_def distinct_ids_def)
next
  case (setting j c)
  from setting.IH show ?case by (rule mjar.invar_set)
next
  case (clearing j)
  show ?case by (rule mjar.invar_clear)
next
  case (querying j now host path secure)
  then show ?case by (simp add: jar_invar_def cookies_for_def Let_def distinct_filter)
next
  case (restoring j old)
  then show ?case by (intro mjar.invar_restore)
qed

section \<open>Properties\<close>

text \<open>A cookie reaches exactly the hosts its domain covers: the host equals the domain (without a leading
  dot, ASCII case ignored), or the cookie opts into subdomains, by flag or by leading dot, and the host
  ends in a dot followed by the domain. A cookie with an empty domain reaches no host.\<close>

theorem domain_match_spec:
  "cookie_domain_matches c host \<longleftrightarrow> bare_domain c \<noteq> [] \<and>
     (lower host = lower (bare_domain c) \<or>
      covers_subdomains c \<and> (\<exists>sub. lower host = sub @ CHR ''.'' # lower (bare_domain c)))"
  by (rule domain_matches_iff)

text \<open>For a cookie path other than empty and root, the path rule is the path-match of RFC 6265 (an empty
  request path standing for the root); the empty and the root path cover every request.\<close>

theorem path_match_rfc6265:
  "cookie_path_matches c p =
     (if ck_path c = [] \<or> ck_path c = ''/'' then True
      else rfc6265_path_match (ck_path c) (if p = [] then ''/'' else p))"
  using path_matches_iff [of c p] by (auto simp: cookie_path_matches_def)

text \<open>C3: a jar serialized and restored holds the same cookies in the same order, whatever the restoring jar
  held before, when names, domains and paths are free of tabs and every expiry is a whole, non-zero
  number of seconds within the clock's 64-bit range; values may hold anything.\<close>

theorem jar_session_roundtrip:
  assumes "0 < tps" "\<forall>c \<in> set (store_ref j). storable tps c"
  shows "jar_cookies (jar_deserialize tps old (jar_serialize tps j)) = jar_cookies j"
  using restore_serialized [OF assms]
  by (simp add: jar_cookies_def jar_deserialize_def jar_serialize_def store_all_def)

definition sample_cookie :: cookie where
  "sample_cookie = \<lparr>ck_name = ''sid'', ck_value = [CHR ''a'', chr_tab, CHR ''b''], ck_domain = ''.site.tv'',
     ck_path = ''/'', ck_expires = Some (1700000000 * ns_per_s), ck_secure = True, ck_http_only = True,
     ck_include_subdomains = True\<rparr>"

theorem jar_session_roundtrip_witness:
  "jar_cookies (jar_deserialize ns_per_s \<lparr>store_ref = []\<rparr> (jar_serialize ns_per_s \<lparr>store_ref = [sample_cookie]\<rparr>)) =
     jar_cookies \<lparr>store_ref = [sample_cookie]\<rparr>"
  by (rule jar_session_roundtrip)
    (simp_all add: storable_def sample_cookie_def in_int64_def int64_min_def int64_max_def ns_per_s_def)

text \<open>a cookie whose expiry lies within the first second of the epoch, the customary way to delete one,
  is written with expiry 0 and comes back as a session cookie: expired before at any later time, it
  never expires afterwards.\<close>

theorem epoch_expiry_revived:
  assumes "ck_expires c = Some t" "0 \<le> t" "t < tps" "t \<le> now"
    and "chr_tab \<notin> set (ck_domain c @ ck_path c @ ck_name c)" "\<not> starts_with (ck_domain c) httponly_prefix"
  shows "is_expired c now \<and>
    (\<exists>c'. parse_netscape_line tps (to_netscape_line tps c) = Some c' \<and> ck_expires c' = None \<and>
       \<not> is_expired c' later)"
proof -
  have "unix_of_time tps t = 0" using assms(2,3)
    by (simp add: unix_of_time_def signed_divide_int_def)
  then show ?thesis
    using parse_line [of c tps] assms
    by (simp add: is_expired_def Let_def parse_expires_to_dec in_int64_def int64_min_def int64_max_def)
qed

theorem epoch_expiry_revived_witness:
  "is_expired (sample_cookie\<lparr>ck_expires := Some 0\<rparr>) 1 \<and>
   (\<exists>c'. parse_netscape_line ns_per_s (to_netscape_line ns_per_s (sample_cookie\<lparr>ck_expires := Some 0\<rparr>)) = Some c' \<and>
      ck_expires c' = None \<and> \<not> is_expired c' 2)"
  by (rule epoch_expiry_revived [where t = 0])
    (simp_all add: sample_cookie_def ns_per_s_def starts_with_def httponly_prefix_def)

text \<open>with a nanosecond clock a stored expiry of 31 December 9999 overflows the 64-bit tick count: the
  line parses, but to a time before the epoch, so the cookie is expired at every time from the epoch on.\<close>

theorem far_expiry_overflows:
  "\<exists>c. parse_netscape_line ns_per_s
      (''site.tv'' @ [chr_tab] @ ''FALSE'' @ [chr_tab] @ ''/'' @ [chr_tab] @ ''FALSE'' @ [chr_tab] @
       ''253402300799'' @ [chr_tab] @ ''sid'' @ [chr_tab] @ ''v'') = Some c \<and>
     ck_expires c = Some (-4852116232933722624) \<and> (\<forall>now. is_expired c \<bar>now\<bar>)"
proof -
  have e: "parse_expires_unix ''253402300799'' = 253402300799"
    by (simp add: parse_expires_unix_def from_chars_def is_digit_def code_def dec_value_def digit_val_def
        int64_min_def int64_max_def)
  have t: "time_of_unix ns_per_s 253402300799 = -4852116232933722624"
    by (simp add: time_of_unix_def wrap64_def ns_per_s_def)
  have past: "- 4852116232933722624 \<le> \<bar>now\<bar>" for now :: int
    by (rule order_trans [OF _ abs_ge_zero]) simp
  show ?thesis
    unfolding parse_netscape_line_def seven_fields
    by (simp add: split_first_def e t Let_def is_expired_def past)
qed

text \<open>\<open>set\<close> on a store without duplicates replaces the cookie of the same name, domain and path, or adds
  the new one, and touches no other; a query returns exactly the unexpired cookies that match host, path
  and transport, in stored order, and leaves exactly the unexpired ones stored.\<close>

theorem store_set_and_query:
  assumes "distinct_ids cs"
  shows "set (store_set cs c) = insert c {d \<in> set cs. \<not> same_identity d c} \<and> distinct_ids (store_set cs c) \<and>
    cookies_for now cs host path tls =
      (filter (\<lambda>d. \<not> is_expired d now \<and> (ck_secure d \<le> tls) \<and> cookie_domain_matches d host \<and>
           cookie_path_matches d path) cs,
       filter (\<lambda>d. \<not> is_expired d now) cs)"
  using set_store_set [OF assms] distinct_store_set [OF assms]
  by (auto simp: cookies_for_def Let_def intro!: filter_cong)

theorem store_set_and_query_witness:
  "set (store_set [sample_cookie] sample_cookie) = insert sample_cookie {d \<in> set [sample_cookie]. \<not> same_identity d sample_cookie}"
  using store_set_and_query [of "[sample_cookie]" sample_cookie 0 "[]" "[]" True]
  by (simp add: distinct_ids_def)

text \<open>In every jar reached from an empty one by storing, clearing, querying and restoring a serialized
  session, no two cookies share name, domain and path, so a cookie just stored is found under its name.\<close>

theorem reachable_jar_distinct:
  assumes "jar_reachable j"
  shows "distinct (map identity (jar_cookies j)) \<and>
    c \<in> set (jar_cookies (jar_set_cookie j c)) \<and>
    (\<exists>d. jar_find_cookie (jar_set_cookie j c) (ck_name c) = Some d \<and> ck_name d = ck_name c)"
proof -
  have inv: "jar_invar j" using assms by (rule jar_reachable_invar)
  then have "distinct (map identity (jar_cookies j))"
    by (simp add: jar_invar_def distinct_ids_def jar_cookies_def store_all_def)
  moreover have "c \<in> set (jar_cookies (jar_set_cookie j c))"
    by (simp add: mjar.set_spec [OF inv])
  ultimately show ?thesis using mjar.find_set [OF inv] by blast
qed

theorem reachable_jar_distinct_witness:
  "distinct (map identity (jar_cookies (jar_set_cookie \<lparr>store_ref = []\<rparr> sample_cookie)))"
  using reachable_jar_distinct [OF jar_reachable.setting [OF jar_reachable.fresh]] by blast

end
