(* ===== verification/Domain_Trie.thy ===== *)
theory Domain_Trie
  imports Prelude "HOL-Library.Sublist"
begin

text \<open>
  \<open>include/aniparse/detail/DomainScanner.hpp\<close> and the label splitting of
  \<open>include/aniparse/detail/DomainStore.hpp\<close>: a tree of domain labels, top-level label first, with
  the parsers registered at each node. The parent pointers of the code are the chain of nodes a
  search has walked through.
\<close>

section \<open>The tree\<close>

datatype 'p node = Node (node_parsers: "'p list") (node_children: "bytes \<Rightarrow> 'p node option")

definition empty_node :: "'p node" where
  "empty_node = Node [] (\<lambda>_. None)"

definition node_find :: "'p node \<Rightarrow> bytes \<Rightarrow> 'p node option" where
  "node_find n name = node_children n name"

definition node_child :: "'p node \<Rightarrow> bytes \<Rightarrow> 'p node" where
  "node_child n name = (case node_find n name of None \<Rightarrow> empty_node | Some c \<Rightarrow> c)"

text \<open>\<open>f\<close> applied to the node that \<open>find_or_create_node\<close> reaches.\<close>

fun at_created_node :: "bytes list \<Rightarrow> ('p node \<Rightarrow> 'p node) \<Rightarrow> 'p node \<Rightarrow> 'p node" where
  "at_created_node [] f n = f n"
| "at_created_node (label # labels) f n =
     Node (node_parsers n) ((node_children n)(label \<mapsto> at_created_node labels f (node_child n label)))"

definition add_domain_parser :: "bytes list \<Rightarrow> 'p \<Rightarrow> 'p node \<Rightarrow> 'p node" where
  "add_domain_parser labels p root =
     at_created_node labels (\<lambda>n. Node (node_parsers n @ [p]) (node_children n)) root"

fun find_node :: "bytes list \<Rightarrow> 'p node \<Rightarrow> 'p node option" where
  "find_node [] n = Some n"
| "find_node (label # labels) n =
     (case node_find n label of None \<Rightarrow> None | Some c \<Rightarrow> find_node labels c)"

text \<open>\<open>f\<close> applied to the node that \<open>find_node\<close> reaches, if it reaches one.\<close>

fun at_found_node :: "bytes list \<Rightarrow> ('p node \<Rightarrow> 'p node) \<Rightarrow> 'p node \<Rightarrow> 'p node" where
  "at_found_node [] f n = f n"
| "at_found_node (label # labels) f n =
     (case node_find n label of
        None \<Rightarrow> n
      | Some c \<Rightarrow> Node (node_parsers n) ((node_children n)(label \<mapsto> at_found_node labels f c)))"

definition remove_domain_parser :: "bytes list \<Rightarrow> 'p \<Rightarrow> 'p node \<Rightarrow> 'p node" where
  "remove_domain_parser labels p root =
     at_found_node labels (\<lambda>n. Node (filter (\<lambda>q. q \<noteq> p) (node_parsers n)) (node_children n)) root"

text \<open>The deepest node on the way of the labels, with its parents up to the root behind it.\<close>

fun find_deepest_node :: "'p node list \<Rightarrow> bytes list \<Rightarrow> 'p node \<Rightarrow> 'p node list" where
  "find_deepest_node parents [] n = n # parents"
| "find_deepest_node parents (label # labels) n =
     (case node_find n label of
        None \<Rightarrow> n # parents
      | Some c \<Rightarrow> find_deepest_node (n # parents) labels c)"

definition find_parser_by_pred :: "'p node \<Rightarrow> ('p \<Rightarrow> bool) \<Rightarrow> 'p option" where
  "find_parser_by_pred n pred = List.find pred (node_parsers n)"

definition search :: "bytes list \<Rightarrow> ('p \<Rightarrow> bool) \<Rightarrow> 'p node \<Rightarrow> 'p option" where
  "search labels pred root =
     (case find_node labels root of None \<Rightarrow> None | Some n \<Rightarrow> find_parser_by_pred n pred)"

fun search_up :: "'p node list \<Rightarrow> ('p \<Rightarrow> bool) \<Rightarrow> 'p option" where
  "search_up [] pred = None"
| "search_up (n # parents) pred =
     (case find_parser_by_pred n pred of Some p \<Rightarrow> Some p | None \<Rightarrow> search_up parents pred)"

definition search_all :: "bytes list \<Rightarrow> ('p \<Rightarrow> bool) \<Rightarrow> 'p node \<Rightarrow> 'p option" where
  "search_all labels pred root = search_up (find_deepest_node [] labels root) pred"

section \<open>Splitting a domain into labels\<close>

function split_dots :: "bytes \<Rightarrow> bytes list" where
  "split_dots s = (case split_first CHR ''.'' s of None \<Rightarrow> [s] | Some (a, b) \<Rightarrow> a # split_dots b)"
  by pat_completeness auto
termination
  by (relation "measure length") (simp, metis in_measure split_first_shorter)

declare split_dots.simps [simp del]

text \<open>
  \<open>reverse | split('.') | transform(reverse)\<close>: the labels from the last to the first. Splitting an
  empty range yields no label at all.
\<close>

definition split_domains :: "bytes \<Rightarrow> bytes list" where
  "split_domains host = (if host = [] then [] else map rev (split_dots (rev host)))"

lemma find_append:
  "List.find P (xs @ ys) = (case List.find P xs of None \<Rightarrow> List.find P ys | Some x \<Rightarrow> Some x)"
  by (induction xs) auto

section \<open>The interface of a domain index\<close>

text \<open>
  What the domain store relies on: an index of values by label path, grown by \<open>add\<close>, and a search
  that tries the paths of the labels' prefixes from the longest to the empty one.
\<close>

locale domain_index =
  fixes empty_index :: "'t"
    and add :: "bytes list \<Rightarrow> 'p \<Rightarrow> 't \<Rightarrow> 't"
    and search_longest :: "bytes list \<Rightarrow> ('p \<Rightarrow> bool) \<Rightarrow> 't \<Rightarrow> 'p option"
    and registered_at :: "'t \<Rightarrow> bytes list \<Rightarrow> 'p list"
  assumes at_empty: "registered_at empty_index path = []"
    and at_add: "registered_at (add path p t) path' = registered_at t path' @ (if path' = path then [p] else [])"
    and search_prefixes: "search_longest labels pred t =
      List.find pred (concat (map (registered_at t) (rev (prefixes labels))))"
begin

definition build :: "(bytes list \<times> 'p) list \<Rightarrow> 't" where
  "build regs = foldl (\<lambda>t r. add (fst r) (snd r) t) empty_index regs"

lemma at_foldl:
  "registered_at (foldl (\<lambda>t r. add (fst r) (snd r) t) t regs) path =
     registered_at t path @ map snd (filter (\<lambda>r. fst r = path) regs)"
  by (induction regs arbitrary: t) (auto simp: at_add)

lemma at_build: "registered_at (build regs) path = map snd (filter (\<lambda>r. fst r = path) regs)"
  by (simp add: build_def at_foldl at_empty)

lemma search_None_iff:
  "search_longest labels pred (build regs) = None \<longleftrightarrow>
     (\<forall>(path, p) \<in> set regs. prefix path labels \<longrightarrow> \<not> pred p)"
  unfolding search_prefixes find_None_iff by (fastforce simp: at_build)

lemma find_longest_first:
  assumes "List.find pred (concat (map f (rev (prefixes labels)))) = Some p"
  shows "\<exists>path. prefix path labels \<and> p \<in> set (f path) \<and> pred p \<and>
    (\<forall>path' q. prefix path' labels \<longrightarrow> q \<in> set (f path') \<longrightarrow> pred q \<longrightarrow> length path' \<le> length path)"
  using assms
proof (induction labels rule: rev_induct)
  case Nil
  then show ?case by (auto simp: find_Some_iff)
next
  case (snoc l labels)
  show ?case
  proof (cases "List.find pred (f (labels @ [l]))")
    case (Some q)
    then have "p = q" using snoc.prems by (simp add: find_append)
    moreover have "q \<in> set (f (labels @ [l]))" "pred q" using Some by (auto simp: find_Some_iff)
    moreover have "length path' \<le> length (labels @ [l])" if "prefix path' (labels @ [l])" for path'
      using that by (rule prefix_length_le)
    ultimately show ?thesis by blast
  next
    case None
    then have "List.find pred (concat (map f (rev (prefixes labels)))) = Some p"
      using snoc.prems by (simp add: find_append)
    from snoc.IH [OF this] obtain path where path: "prefix path labels" "p \<in> set (f path)" "pred p"
      "\<forall>path' q. prefix path' labels \<longrightarrow> q \<in> set (f path') \<longrightarrow> pred q \<longrightarrow> length path' \<le> length path"
      by blast
    have "length path' \<le> length path"
      if "prefix path' (labels @ [l])" "q \<in> set (f path')" "pred q" for path' q
      using that None path(4) by (auto simp: find_None_iff prefix_snoc)
    moreover have "prefix path (labels @ [l])" using path(1) by simp
    ultimately show ?thesis using path(2,3) by blast
  qed
qed

lemma search_Some_longest:
  assumes "search_longest labels pred (build regs) = Some p"
  shows "\<exists>path. (path, p) \<in> set regs \<and> prefix path labels \<and> pred p \<and>
    (\<forall>(path', q) \<in> set regs. prefix path' labels \<longrightarrow> pred q \<longrightarrow> length path' \<le> length path)"
proof -
  from find_longest_first [of pred "registered_at (build regs)" labels p] assms
  obtain path where path: "prefix path labels" "p \<in> set (registered_at (build regs) path)" "pred p"
    "\<forall>path' q. prefix path' labels \<longrightarrow> q \<in> set (registered_at (build regs) path') \<longrightarrow> pred q \<longrightarrow>
       length path' \<le> length path"
    by (auto simp: search_prefixes)
  have "(path, p) \<in> set regs" using path(2) by (auto simp: at_build)
  moreover have "\<forall>(path', q) \<in> set regs. prefix path' labels \<longrightarrow> pred q \<longrightarrow> length path' \<le> length path"
  proof (clarify)
    fix path' q assume h: "(path', q) \<in> set regs" "prefix path' labels" "pred q"
    then have "q \<in> set (registered_at (build regs) path')" by (force simp: at_build)
    then show "length path' \<le> length path" using path(4) h by blast
  qed
  ultimately show ?thesis using path by blast
qed

end

section \<open>The tree is a domain index\<close>

definition parsers_at :: "'p node \<Rightarrow> bytes list \<Rightarrow> 'p list" where
  "parsers_at root path = (case find_node path root of None \<Rightarrow> [] | Some n \<Rightarrow> node_parsers n)"

lemma parsers_at_Nil [simp]: "parsers_at n [] = node_parsers n"
  by (simp add: parsers_at_def)

lemma parsers_at_Cons [simp]:
  "parsers_at n (l # ls) = (case node_find n l of None \<Rightarrow> [] | Some c \<Rightarrow> parsers_at c ls)"
  by (simp add: parsers_at_def split: option.splits)

lemma parsers_at_empty: "parsers_at empty_node path = []"
  by (cases path) (simp_all add: node_find_def empty_node_def)

lemma parsers_at_add:
  "parsers_at (add_domain_parser path p n) path' = parsers_at n path' @ (if path' = path then [p] else [])"
proof (induction path arbitrary: n path')
  case Nil
  then show ?case by (cases path') (simp_all add: add_domain_parser_def node_find_def)
next
  case (Cons l ls)
  show ?case
  proof (cases path')
    case Nil
    then show ?thesis by (simp add: add_domain_parser_def)
  next
    case (Cons m ms)
    have "parsers_at (node_child n l) ms = (case node_find n l of None \<Rightarrow> [] | Some c \<Rightarrow> parsers_at c ms)"
      by (simp add: node_child_def parsers_at_empty split: option.split)
    then show ?thesis using Cons Cons.IH [of "node_child n l" ms]
      by (cases "m = l") (auto simp: add_domain_parser_def node_find_def)
  qed
qed

lemma parsers_at_remove:
  "parsers_at (remove_domain_parser path p n) path' =
     (if path' = path then filter (\<lambda>q. q \<noteq> p) (parsers_at n path') else parsers_at n path')"
proof (induction path arbitrary: n path')
  case Nil
  then show ?case by (cases path') (simp_all add: remove_domain_parser_def node_find_def)
next
  case (Cons l ls)
  show ?case
  proof (cases path')
    case Nil
    then show ?thesis by (auto simp: remove_domain_parser_def split: option.splits)
  next
    case (Cons m ms)
    then show ?thesis using Cons.IH
      by (auto simp: remove_domain_parser_def node_find_def split: option.splits)
  qed
qed

lemma search_up_append:
  "search_up (ns @ ms) pred = (case search_up ns pred of None \<Rightarrow> search_up ms pred | Some p \<Rightarrow> Some p)"
  by (induction ns) (auto split: option.splits)

lemma search_up_deepest:
  "search_up (find_deepest_node parents labels n) pred =
     (case List.find pred (concat (map (parsers_at n) (rev (prefixes labels)))) of
        None \<Rightarrow> search_up parents pred | Some p \<Rightarrow> Some p)"
proof (induction labels arbitrary: n parents)
  case Nil
  then show ?case by (simp add: find_parser_by_pred_def)
next
  case (Cons l ls)
  show ?case
  proof (cases "node_find n l")
    case None
    have "concat (map (parsers_at n) (rev (map ((#) l) (prefixes ls)))) = []"
      using None by (auto simp: rev_map)
    then show ?thesis using None
      by (simp add: find_parser_by_pred_def find_append del: concat_eq_Nil_conv)
  next
    case (Some c)
    have "parsers_at n \<circ> (#) l = parsers_at c"
      using Some by (simp add: fun_eq_iff)
    then show ?thesis using Some Cons.IH [of "n # parents" c]
      by (simp add: find_parser_by_pred_def find_append rev_map split: option.splits)
  qed
qed

lemma search_all_prefixes:
  "search_all labels pred root = List.find pred (concat (map (parsers_at root) (rev (prefixes labels))))"
  unfolding search_all_def search_up_deepest by (simp split: option.split)

interpretation scanner: domain_index empty_node add_domain_parser search_all parsers_at
  by unfold_locales (rule parsers_at_empty parsers_at_add search_all_prefixes)+

section \<open>Labels and domains\<close>

lemma split_dots_ne [simp]: "split_dots s \<noteq> []"
  by (subst split_dots.simps) (simp split: option.split)

lemma split_dots_plain: "CHR ''.'' \<notin> set s \<Longrightarrow> split_dots s = [s]"
  by (subst split_dots.simps) (simp add: split_first_absent)

lemma split_dots_dot: "split_dots (a @ CHR ''.'' # b) = split_dots a @ split_dots b"
proof (induction a rule: split_dots.induct)
  case (1 a)
  show ?case
  proof (cases "split_first CHR ''.'' a")
    case None
    then have plain: "CHR ''.'' \<notin> set a" by (auto simp: split_first_def split: if_splits)
    then have "split_dots (a @ CHR ''.'' # b) = a # split_dots b"
      by (subst split_dots.simps) (simp add: split_first_append)
    then show ?thesis using plain by (simp add: split_dots_plain)
  next
    case (Some p)
    obtain x y where xy: "p = (x, y)" by (cases p)
    with Some have a: "a = x @ CHR ''.'' # y" "CHR ''.'' \<notin> set x" by (auto simp: split_first_Some)
    have "split_dots (a @ CHR ''.'' # b) = x # split_dots (y @ CHR ''.'' # b)"
      using a by (subst split_dots.simps) (simp add: split_first_append)
    moreover have "split_dots (y @ CHR ''.'' # b) = split_dots y @ split_dots b" using "1.IH" [OF Some xy [symmetric]] by simp
    moreover have "split_dots a = x # split_dots y"
      using a by (subst split_dots.simps) (simp add: split_first_append)
    ultimately show ?thesis by simp
  qed
qed

text \<open>Joining the labels with dots gives the domain back, so the labels determine it.\<close>

fun join_dots :: "bytes list \<Rightarrow> bytes" where
  "join_dots [] = []"
| "join_dots [l] = l"
| "join_dots (l # ls) = l @ CHR ''.'' # join_dots ls"

lemma join_dots_Cons: "ls \<noteq> [] \<Longrightarrow> join_dots (l # ls) = l @ CHR ''.'' # join_dots ls"
  by (cases ls) simp_all

lemma join_split_dots [simp]: "join_dots (split_dots s) = s"
proof (induction s rule: split_dots.induct)
  case (1 s)
  show ?case
  proof (cases "split_first CHR ''.'' s")
    case None
    then show ?thesis by (subst split_dots.simps) simp
  next
    case (Some p)
    obtain x y where xy: "p = (x, y)" by (cases p)
    then have "split_dots s = x # split_dots y" using Some by (subst split_dots.simps) simp
    then show ?thesis using "1.IH" [OF Some xy [symmetric]] Some xy
      by (simp add: join_dots_Cons split_first_Some)
  qed
qed

lemma join_dots_append:
  "ls \<noteq> [] \<Longrightarrow> ms \<noteq> [] \<Longrightarrow> join_dots (ls @ ms) = join_dots ls @ CHR ''.'' # join_dots ms"
proof (induction ls)
  case (Cons l ls)
  then show ?case by (cases "ls = []") (simp_all add: join_dots_Cons)
qed simp

text \<open>A host lies under a domain when it is that domain or ends in a dot and the domain.\<close>

definition under_domain :: "bytes \<Rightarrow> bytes \<Rightarrow> bool" where
  "under_domain host domain \<longleftrightarrow> domain = [] \<or> host = domain \<or> (\<exists>sub. host = sub @ CHR ''.'' # domain)"

lemma split_prefix_iff:
  "prefix (split_dots d) (split_dots h) \<longleftrightarrow> h = d \<or> (\<exists>r. h = d @ CHR ''.'' # r)"
proof
  assume "prefix (split_dots d) (split_dots h)"
  then obtain ls where ls: "split_dots h = split_dots d @ ls" by (auto elim: prefixE)
  show "h = d \<or> (\<exists>r. h = d @ CHR ''.'' # r)"
  proof (cases "ls = []")
    case True
    then show ?thesis using ls join_split_dots by (metis append_Nil2)
  next
    case False
    then have "h = d @ CHR ''.'' # join_dots ls"
      using ls join_dots_append [of "split_dots d" ls] join_split_dots [of h] by simp
    then show ?thesis by blast
  qed
next
  assume "h = d \<or> (\<exists>r. h = d @ CHR ''.'' # r)"
  then show "prefix (split_dots d) (split_dots h)" by (auto simp: split_dots_dot)
qed

lemma prefix_map_rev: "prefix (map rev xs) (map rev ys) \<longleftrightarrow> prefix xs ys"
proof
  assume "prefix (map rev xs) (map rev ys)"
  then have "prefix (map rev (map rev xs)) (map rev (map rev ys))" by (rule map_mono_prefix)
  then show "prefix xs ys" by (simp add: comp_def)
qed (rule map_mono_prefix)

lemma labels_prefix_iff: "prefix (split_domains d) (split_domains h) \<longleftrightarrow> under_domain h d"
proof (cases "d = [] \<or> h = []")
  case True
  then show ?thesis by (auto simp: split_domains_def under_domain_def)
next
  case False
  then have "prefix (split_domains d) (split_domains h) \<longleftrightarrow> prefix (split_dots (rev d)) (split_dots (rev h))"
    by (simp add: split_domains_def prefix_map_rev)
  also have "\<dots> \<longleftrightarrow> rev h = rev d \<or> (\<exists>r. rev h = rev d @ CHR ''.'' # r)" by (rule split_prefix_iff)
  also have "\<dots> \<longleftrightarrow> h = d \<or> (\<exists>sub. h = sub @ CHR ''.'' # d)"
  proof -
    have "(\<exists>r. rev h = rev d @ CHR ''.'' # r) \<longleftrightarrow> (\<exists>sub. h = sub @ CHR ''.'' # d)"
    proof
      assume "\<exists>r. rev h = rev d @ CHR ''.'' # r"
      then obtain r where "rev h = rev d @ CHR ''.'' # r" ..
      then have "h = rev r @ CHR ''.'' # d" by (simp add: rev_swap)
      then show "\<exists>sub. h = sub @ CHR ''.'' # d" by blast
    next
      assume "\<exists>sub. h = sub @ CHR ''.'' # d"
      then obtain sub where "h = sub @ CHR ''.'' # d" ..
      then have "rev h = rev d @ CHR ''.'' # rev sub" by simp
      then show "\<exists>r. rev h = rev d @ CHR ''.'' # r" by blast
    qed
    then show ?thesis by simp
  qed
  finally show ?thesis using False by (simp add: under_domain_def)
qed

lemma label_count_mono:
  assumes "prefix (split_domains d) (split_domains h)" "prefix (split_domains e) (split_domains h)"
    and "length (split_domains d) \<le> length (split_domains e)"
  shows "length d \<le> length e"
proof -
  have "prefix (split_domains d) (split_domains e)"
    using assms by (meson prefix_length_prefix)
  then have "under_domain e d" by (simp add: labels_prefix_iff)
  then show ?thesis by (auto simp: under_domain_def)
qed

end
