(* ===== verification/Ordered_Map.thy ===== *)
theory Ordered_Map
  imports Prelude "HOL-Library.Char_ord" "HOL-Library.List_Lexorder"
begin

text \<open>
  \<open>std::map<std::string, V, std::less<>>\<close> as an association list in key order (bytes compare
  unsigned, as \<open>std::string\<close> does), for the maps whose iteration order the code depends on.
\<close>

fun om_emplace :: "'k::linorder \<Rightarrow> 'v \<Rightarrow> ('k \<times> 'v) list \<Rightarrow> ('k \<times> 'v) list" where
  "om_emplace k v [] = [(k, v)]"
| "om_emplace k v ((a, w) # m) =
     (if k < a then (k, v) # (a, w) # m
      else if k = a then (a, w) # m
      else (a, w) # om_emplace k v m)"

fun om_put :: "'k::linorder \<Rightarrow> 'v \<Rightarrow> ('k \<times> 'v) list \<Rightarrow> ('k \<times> 'v) list" where
  "om_put k v [] = [(k, v)]"
| "om_put k v ((a, w) # m) =
     (if k < a then (k, v) # (a, w) # m
      else if k = a then (k, v) # m
      else (a, w) # om_put k v m)"

definition om_erase :: "'k \<Rightarrow> ('k \<times> 'v) list \<Rightarrow> ('k \<times> 'v) list" where
  "om_erase k m = filter (\<lambda>e. fst e \<noteq> k) m"

definition om_contains :: "('k \<times> 'v) list \<Rightarrow> 'k \<Rightarrow> bool" where
  "om_contains m k = (lookup m k \<noteq> None)"

definition om_wf :: "('k::linorder \<times> 'v) list \<Rightarrow> bool" where
  "om_wf m \<longleftrightarrow> sorted_wrt (<) (map fst m)"

lemma om_wf_Nil [simp]: "om_wf []"
  by (simp add: om_wf_def)

lemma om_wf_Cons: "om_wf ((k, v) # m) \<longleftrightarrow> (\<forall>j \<in> set (map fst m). k < j) \<and> om_wf m"
  by (simp add: om_wf_def)

lemma om_wf_wf_assoc: "om_wf m \<Longrightarrow> wf_assoc m"
  by (induction m) (auto simp: om_wf_def wf_assoc_def)

lemma keys_om_emplace: "set (map fst (om_emplace k v m)) = insert k (set (map fst m))"
  by (induction k v m rule: om_emplace.induct) auto

lemma keys_om_put: "set (map fst (om_put k v m)) = insert k (set (map fst m))"
  by (induction k v m rule: om_put.induct) auto

lemma om_wf_emplace [simp, intro]: "om_wf m \<Longrightarrow> om_wf (om_emplace k v m)"
proof (induction k v m rule: om_emplace.induct)
  case (2 k v a w m)
  then show ?case using keys_om_emplace [of k v m]
    by (auto simp: om_wf_Cons simp del: set_map)
qed (simp add: om_wf_def)

lemma om_wf_put [simp, intro]: "om_wf m \<Longrightarrow> om_wf (om_put k v m)"
proof (induction k v m rule: om_put.induct)
  case (2 k v a w m)
  then show ?case using keys_om_put [of k v m]
    by (auto simp: om_wf_Cons simp del: set_map)
qed (simp add: om_wf_def)

lemma om_wf_erase [simp, intro]: "om_wf m \<Longrightarrow> om_wf (om_erase k m)"
  by (induction m) (auto simp: om_wf_def om_erase_def)

lemma lookup_below: "om_wf ((a, w) # m) \<Longrightarrow> k < a \<Longrightarrow> lookup m k = None"
  by (auto simp: lookup_None om_wf_Cons)

lemma lookup_om_emplace:
  "om_wf m \<Longrightarrow> lookup (om_emplace k v m) j =
     (if j = k then (case lookup m k of None \<Rightarrow> Some v | Some w \<Rightarrow> Some w) else lookup m j)"
proof (induction k v m rule: om_emplace.induct)
  case (2 k v a w m)
  then show ?case using lookup_below [of a w m k] by (auto simp: om_wf_Cons)
qed simp

lemma lookup_om_put [simp]: "om_wf m \<Longrightarrow> lookup (om_put k v m) j = (if j = k then Some v else lookup m j)"
proof (induction k v m rule: om_put.induct)
  case (2 k v a w m)
  then show ?case by (auto simp: om_wf_Cons)
qed simp

lemma lookup_om_erase [simp]: "lookup (om_erase k m) j = (if j = k then None else lookup m j)"
  unfolding om_erase_def by (induction m) auto

lemma om_in_lookup: "om_wf m \<Longrightarrow> (k, v) \<in> set m \<longleftrightarrow> lookup m k = Some v"
  using in_lookup lookup_in om_wf_wf_assoc by metis

end
