(* ===== verification/Domain_Store.thy ===== *)
theory Domain_Store
  imports Domain_Trie Ordered_Map
begin

text \<open>
  \<open>include/aniparse/detail/DomainStore.hpp\<close>: the registry that publishes complete snapshots. A
  reader uses one snapshot; a writer works on an edit and commits it, and the commit is rejected
  when another one came in between. The address of the live snapshot is the number \<open>live_id\<close>: each
  commit allocates a new one, and an edit keeps its base alive, so an address is never reused while
  it can be compared. \<open>emit\<close> stands for the domain emitter, the domains a value declares itself.
\<close>

section \<open>State\<close>

record 'v snapshot =
  snap_entries :: "'v smap"
  snap_volatile :: "bytes list smap"
  snap_scanner :: "'v node"

record 'v store =
  live :: "'v snapshot"
  live_id :: nat

record 'v edit =
  attached :: bool
  base :: "'v snapshot"
  base_id :: nat
  ed_entries :: "'v smap"
  ed_volatile :: "bytes list smap"

datatype store_error = StaleEdit | AlreadyCommitted

section \<open>Snapshots\<close>

definition add_domains :: "bytes list \<Rightarrow> 'v \<Rightarrow> 'v node \<Rightarrow> 'v node" where
  "add_domains domains v t = foldl (\<lambda>t d. add_domain_parser (split_domains d) v t) t domains"

definition add_entry :: "('v \<Rightarrow> bytes list) \<Rightarrow> bytes list smap \<Rightarrow> 'v node \<Rightarrow> bytes \<times> 'v \<Rightarrow> 'v node" where
  "add_entry emit vol t entry =
     (let t' = add_domains (emit (snd entry)) (snd entry) t
      in case lookup vol (fst entry) of None \<Rightarrow> t' | Some ds \<Rightarrow> add_domains ds (snd entry) t')"

definition make_snapshot :: "('v \<Rightarrow> bytes list) \<Rightarrow> 'v smap \<Rightarrow> bytes list smap \<Rightarrow> 'v snapshot" where
  "make_snapshot emit es vol =
     \<lparr>snap_entries = es, snap_volatile = vol, snap_scanner = foldl (add_entry emit vol) empty_node es\<rparr>"

definition new_store :: "('v \<Rightarrow> bytes list) \<Rightarrow> 'v store" where
  "new_store emit = \<lparr>live = make_snapshot emit [] [], live_id = 0\<rparr>"

section \<open>Readers\<close>

definition store_contains :: "'v store \<Rightarrow> bytes \<Rightarrow> bool" where
  "store_contains s identifier = om_contains (snap_entries (live s)) identifier"

definition find_by_key :: "'v store \<Rightarrow> bytes \<Rightarrow> 'v option" where
  "find_by_key s identifier = lookup (snap_entries (live s)) identifier"

definition store_values :: "'v store \<Rightarrow> 'v list" where
  "store_values s = map snd (snap_entries (live s))"

definition find_by_host :: "'v store \<Rightarrow> bytes \<Rightarrow> ('v \<Rightarrow> bool) \<Rightarrow> 'v option" where
  "find_by_host s host accepts = search_all (split_domains host) accepts (snap_scanner (live s))"

section \<open>Writers\<close>

definition begin_edit :: "'v store \<Rightarrow> 'v edit" where
  "begin_edit s = \<lparr>attached = True, base = live s, base_id = live_id s,
     ed_entries = snap_entries (live s), ed_volatile = snap_volatile (live s)\<rparr>"

definition edit_add :: "'v edit \<Rightarrow> bytes \<Rightarrow> 'v \<Rightarrow> 'v option \<times> 'v edit" where
  "edit_add e identifier v =
     (if om_contains (ed_entries e) identifier then (None, e)
      else (Some v, e\<lparr>ed_entries := om_emplace identifier v (ed_entries e)\<rparr>))"

definition edit_contains :: "'v edit \<Rightarrow> bytes \<Rightarrow> bool" where
  "edit_contains e identifier = om_contains (ed_entries e) identifier"

definition edit_remove :: "'v edit \<Rightarrow> bytes \<Rightarrow> bool \<times> 'v edit" where
  "edit_remove e identifier =
     (if \<not> om_contains (ed_entries e) identifier then (False, e)
      else (True, e\<lparr>ed_entries := om_erase identifier (ed_entries e)\<rparr>))"

definition set_volatile_domains :: "'v edit \<Rightarrow> bytes list smap \<Rightarrow> 'v edit" where
  "set_volatile_domains e vol = e\<lparr>ed_volatile := vol\<rparr>"

definition store_commit ::
  "('v \<Rightarrow> bytes list) \<Rightarrow> 'v store \<Rightarrow> nat \<Rightarrow> 'v smap \<Rightarrow> bytes list smap \<Rightarrow> store_error + 'v store" where
  "store_commit emit s base_addr es vol =
     (if live_id s \<noteq> base_addr then Inl StaleEdit
      else Inr (s\<lparr>live := make_snapshot emit es vol, live_id := Suc (live_id s)\<rparr>))"

text \<open>
  The edit's maps are moved into the store's commit before it decides, so a rejected edit is left
  attached and empty; only a successful one is detached.
\<close>

definition edit_commit :: "('v \<Rightarrow> bytes list) \<Rightarrow> 'v store \<Rightarrow> 'v edit \<Rightarrow> store_error option \<times> 'v store \<times> 'v edit" where
  "edit_commit emit s e =
     (if \<not> attached e then (Some AlreadyCommitted, s, e)
      else let moved = e\<lparr>ed_entries := [], ed_volatile := []\<rparr>
           in case store_commit emit s (base_id e) (ed_entries e) (ed_volatile e) of
                Inl err \<Rightarrow> (Some err, s, moved)
              | Inr s' \<Rightarrow> (None, s', moved\<lparr>attached := False\<rparr>))"

section \<open>Routing\<close>

definition domains_of :: "('v \<Rightarrow> bytes list) \<Rightarrow> bytes list smap \<Rightarrow> bytes \<Rightarrow> 'v \<Rightarrow> bytes list" where
  "domains_of emit vol identifier v =
     emit v @ (case lookup vol identifier of None \<Rightarrow> [] | Some ds \<Rightarrow> ds)"

definition registrations :: "('v \<Rightarrow> bytes list) \<Rightarrow> 'v smap \<Rightarrow> bytes list smap \<Rightarrow> (bytes list \<times> 'v) list" where
  "registrations emit es vol =
     concat (map (\<lambda>(k, v). map (\<lambda>d. (split_domains d, v)) (domains_of emit vol k v)) es)"

lemma add_domains_regs:
  "add_domains ds v t = foldl (\<lambda>t r. add_domain_parser (fst r) (snd r) t) t (map (\<lambda>d. (split_domains d, v)) ds)"
  unfolding add_domains_def by (induction ds arbitrary: t) simp_all

lemma add_entry_regs:
  "add_entry emit vol t (k, v) = foldl (\<lambda>t r. add_domain_parser (fst r) (snd r) t) t
     (map (\<lambda>d. (split_domains d, v)) (domains_of emit vol k v))"
  by (simp add: add_entry_def domains_of_def add_domains_regs Let_def split: option.split)

lemma foldl_add_entry:
  "foldl (add_entry emit vol) t es =
     foldl (\<lambda>t r. add_domain_parser (fst r) (snd r) t) t (registrations emit es vol)"
proof (induction es arbitrary: t)
  case (Cons e es)
  then show ?case by (cases e) (simp add: add_entry_regs registrations_def)
qed (simp add: registrations_def)

lemma snapshot_scanner:
  "snap_scanner (make_snapshot emit es vol) = scanner.build (registrations emit es vol)"
  by (simp add: make_snapshot_def foldl_add_entry scanner.build_def)

lemma in_registrations:
  "(path, v) \<in> set (registrations emit es vol) \<longleftrightarrow>
     (\<exists>k d. (k, v) \<in> set es \<and> d \<in> set (domains_of emit vol k v) \<and> path = split_domains d)"
  by (force simp: registrations_def)

text \<open>What a store must satisfy: its scanner is the one built from its entries.\<close>

definition consistent :: "('v \<Rightarrow> bytes list) \<Rightarrow> 'v store \<Rightarrow> bool" where
  "consistent emit s \<longleftrightarrow>
     om_wf (snap_entries (live s)) \<and>
     live s = make_snapshot emit (snap_entries (live s)) (snap_volatile (live s))"

text \<open>A value serves a host through a domain.\<close>

definition serves :: "('v \<Rightarrow> bytes list) \<Rightarrow> 'v store \<Rightarrow> bytes \<Rightarrow> 'v \<Rightarrow> bytes \<Rightarrow> bool" where
  "serves emit s host v d \<longleftrightarrow>
     (\<exists>k. find_by_key s k = Some v \<and> d \<in> set (domains_of emit (snap_volatile (live s)) k v)) \<and>
     under_domain host d"

lemma consistent_scanner:
  "consistent emit s \<Longrightarrow> snap_scanner (live s) =
     scanner.build (registrations emit (snap_entries (live s)) (snap_volatile (live s)))"
  using snapshot_scanner unfolding consistent_def by metis

lemma serves_iff:
  assumes "consistent emit s"
  shows "(\<exists>d. path = split_domains d \<and> serves emit s host v d) \<longleftrightarrow>
    (path, v) \<in> set (registrations emit (snap_entries (live s)) (snap_volatile (live s))) \<and>
    prefix path (split_domains host)"
  using assms unfolding serves_def in_registrations find_by_key_def consistent_def
  by (auto simp: om_in_lookup labels_prefix_iff)

lemma find_by_host_None:
  assumes "consistent emit s"
  shows "find_by_host s host accepts = None \<longleftrightarrow> (\<nexists>v d. serves emit s host v d \<and> accepts v)"
  unfolding find_by_host_def consistent_scanner [OF assms] scanner.search_None_iff
  using serves_iff [OF assms] by fast

lemma find_by_host_Some:
  assumes "consistent emit s" "find_by_host s host accepts = Some v"
  shows "accepts v \<and> (\<exists>d. serves emit s host v d \<and>
    (\<forall>v' d'. serves emit s host v' d' \<and> accepts v' \<longrightarrow> length d' \<le> length d))"
proof -
  from assms(2) have "search_all (split_domains host) accepts (scanner.build
      (registrations emit (snap_entries (live s)) (snap_volatile (live s)))) = Some v"
    by (simp add: find_by_host_def consistent_scanner [OF assms(1)])
  from scanner.search_Some_longest [OF this] obtain path where
    path: "(path, v) \<in> set (registrations emit (snap_entries (live s)) (snap_volatile (live s)))"
      "prefix path (split_domains host)" "accepts v" and
    longest: "\<forall>(path', q) \<in> set (registrations emit (snap_entries (live s)) (snap_volatile (live s))).
      prefix path' (split_domains host) \<longrightarrow> accepts q \<longrightarrow> length path' \<le> length path" by blast
  from path(1,2) serves_iff [OF assms(1)] obtain d where d: "path = split_domains d" "serves emit s host v d"
    by blast
  have "length d' \<le> length d" if "serves emit s host v' d'" "accepts v'" for v' d'
  proof -
    have reg: "(split_domains d', v') \<in> set (registrations emit (snap_entries (live s)) (snap_volatile (live s)))"
      "prefix (split_domains d') (split_domains host)"
      using serves_iff [OF assms(1)] that(1) by blast+
    then have "length (split_domains d') \<le> length (split_domains d)" using longest that(2) d(1) by blast
    then show ?thesis using label_count_mono [OF reg(2)] path(2) d(1) by blast
  qed
  then show ?thesis using path(3) d(2) by blast
qed

lemma make_snapshot_fields [simp]:
  "snap_entries (make_snapshot emit es vol) = es"
  "snap_volatile (make_snapshot emit es vol) = vol"
  by (simp_all add: make_snapshot_def)

section \<open>Several writers\<close>

text \<open>
  A run of the store: any number of edits are begun, changed and committed in any order. Each step
  is one call on the store or on one of the edits; the writer lock makes a commit one step.
\<close>

record 'v system =
  sys_store :: "'v store"
  sys_edits :: "'v edit list"

inductive store_step :: "('v \<Rightarrow> bytes list) \<Rightarrow> 'v system \<Rightarrow> 'v system \<Rightarrow> bool" for emit where
  step_begin: "store_step emit \<sigma> (\<sigma>\<lparr>sys_edits := sys_edits \<sigma> @ [begin_edit (sys_store \<sigma>)]\<rparr>)"
| step_add: "i < length (sys_edits \<sigma>) \<Longrightarrow>
    store_step emit \<sigma> (\<sigma>\<lparr>sys_edits := (sys_edits \<sigma>)[i := snd (edit_add (sys_edits \<sigma> ! i) k v)]\<rparr>)"
| step_remove: "i < length (sys_edits \<sigma>) \<Longrightarrow>
    store_step emit \<sigma> (\<sigma>\<lparr>sys_edits := (sys_edits \<sigma>)[i := snd (edit_remove (sys_edits \<sigma> ! i) k)]\<rparr>)"
| step_volatile: "i < length (sys_edits \<sigma>) \<Longrightarrow>
    store_step emit \<sigma> (\<sigma>\<lparr>sys_edits := (sys_edits \<sigma>)[i := set_volatile_domains (sys_edits \<sigma> ! i) vol]\<rparr>)"
| step_commit: "i < length (sys_edits \<sigma>) \<Longrightarrow>
    edit_commit emit (sys_store \<sigma>) (sys_edits \<sigma> ! i) = (err, s', e') \<Longrightarrow>
    store_step emit \<sigma> (\<sigma>\<lparr>sys_store := s', sys_edits := (sys_edits \<sigma>)[i := e']\<rparr>)"

inductive_cases store_step_elim: "store_step emit \<sigma> \<tau>"

inductive store_reachable :: "('v \<Rightarrow> bytes list) \<Rightarrow> 'v system \<Rightarrow> bool" for emit where
  reach_new: "store_reachable emit \<lparr>sys_store = new_store emit, sys_edits = []\<rparr>"
| reach_step: "store_reachable emit \<sigma> \<Longrightarrow> store_step emit \<sigma> \<tau> \<Longrightarrow> store_reachable emit \<tau>"

definition edit_ok :: "'v store \<Rightarrow> 'v edit \<Rightarrow> bool" where
  "edit_ok s e \<longleftrightarrow> om_wf (ed_entries e) \<and> base_id e \<le> live_id s \<and>
     (base_id e = live_id s \<longrightarrow> base e = live s)"

definition system_ok :: "('v \<Rightarrow> bytes list) \<Rightarrow> 'v system \<Rightarrow> bool" where
  "system_ok emit \<sigma> \<longleftrightarrow> consistent emit (sys_store \<sigma>) \<and> (\<forall>e \<in> set (sys_edits \<sigma>). edit_ok (sys_store \<sigma>) e)"

lemma consistent_new: "consistent emit (new_store emit)"
  by (simp add: consistent_def new_store_def)

lemma consistent_commit:
  "om_wf es \<Longrightarrow> store_commit emit s b es vol = Inr s' \<Longrightarrow> consistent emit s'"
  by (auto simp: store_commit_def consistent_def split: if_splits)

lemma edit_ok_ops:
  assumes "edit_ok s e"
  shows "edit_ok s (snd (edit_add e k v))" "edit_ok s (snd (edit_remove e k))"
    "edit_ok s (set_volatile_domains e vol)"
  using assms by (auto simp: edit_ok_def edit_add_def edit_remove_def set_volatile_domains_def)

lemma edit_ok_begin: "consistent emit s \<Longrightarrow> edit_ok s (begin_edit s)"
  by (simp add: edit_ok_def begin_edit_def consistent_def)

text \<open>The two outcomes of a commit, by whether another one was published since the edit began.\<close>

lemma edit_commit_cases:
  assumes "edit_commit emit s e = (err, s', e')" and "edit_ok s e"
  obtains (detached) "\<not> attached e" "err = Some AlreadyCommitted" "s' = s" "e' = e"
  | (stale) "attached e" "base_id e \<noteq> live_id s" "err = Some StaleEdit" "s' = s"
      "e' = e\<lparr>ed_entries := [], ed_volatile := []\<rparr>"
  | (published) "attached e" "base_id e = live_id s" "base e = live s" "err = None"
      "s' = s\<lparr>live := make_snapshot emit (ed_entries e) (ed_volatile e), live_id := Suc (live_id s)\<rparr>"
      "e' = e\<lparr>ed_entries := [], ed_volatile := [], attached := False\<rparr>"
  using assms by (auto simp: edit_commit_def store_commit_def edit_ok_def Let_def split: if_splits)

lemma edit_ok_other:
  "edit_ok s e \<Longrightarrow> live_id s' = Suc (live_id s) \<Longrightarrow> edit_ok s' e"
  by (auto simp: edit_ok_def)

lemma set_update_ball: "\<forall>x \<in> set xs. P x \<Longrightarrow> P y \<Longrightarrow> \<forall>x \<in> set (xs[i := y]). P x"
  using set_update_subset_insert [of xs i y] by blast

lemma system_ok_nth: "system_ok emit \<sigma> \<Longrightarrow> i < length (sys_edits \<sigma>) \<Longrightarrow> edit_ok (sys_store \<sigma>) (sys_edits \<sigma> ! i)"
  by (simp add: system_ok_def)

lemma system_ok_update:
  "system_ok emit \<sigma> \<Longrightarrow> edit_ok (sys_store \<sigma>) e \<Longrightarrow> system_ok emit (\<sigma>\<lparr>sys_edits := (sys_edits \<sigma>)[i := e]\<rparr>)"
  using set_update_ball [of "sys_edits \<sigma>" "edit_ok (sys_store \<sigma>)" e i] by (simp add: system_ok_def)

lemma system_ok_step:
  assumes "store_step emit \<sigma> \<tau>" and "system_ok emit \<sigma>"
  shows "system_ok emit \<tau>"
  using assms(1)
proof cases
  case step_begin
  then show ?thesis using assms(2) by (auto simp: system_ok_def edit_ok_begin)
next
  case (step_add i k v)
  then show ?thesis using assms(2) by (simp only: system_ok_update system_ok_nth edit_ok_ops)
next
  case (step_remove i k)
  then show ?thesis using assms(2) by (simp only: system_ok_update system_ok_nth edit_ok_ops)
next
  case (step_volatile i vol)
  then show ?thesis using assms(2) by (simp only: system_ok_update system_ok_nth edit_ok_ops)
next
  case (step_commit i err s' e')
  let ?e = "sys_edits \<sigma> ! i"
  from assms(2) step_commit(2) have e: "edit_ok (sys_store \<sigma>) ?e" by (simp add: system_ok_def)
  have "consistent emit s' \<and> (\<forall>e \<in> set (sys_edits \<sigma>). edit_ok s' e) \<and> edit_ok s' e'"
    using step_commit(3) e
  proof (cases rule: edit_commit_cases)
    case published
    moreover have "consistent emit s'" using published e by (simp add: consistent_def edit_ok_def)
    moreover have "edit_ok s' e'" using published e by (simp add: edit_ok_def)
    ultimately show ?thesis using assms(2) edit_ok_other [of "sys_store \<sigma>" _ s'] by (simp add: system_ok_def)
  qed (use assms(2) e in \<open>auto simp: system_ok_def edit_ok_def\<close>)
  then show ?thesis using step_commit(1) set_update_ball [of "sys_edits \<sigma>" "edit_ok s'" e' i]
    by (simp add: system_ok_def)
qed

lemma reachable_ok: "store_reachable emit \<sigma> \<Longrightarrow> system_ok emit \<sigma>"
  by (induction rule: store_reachable.induct) (simp_all add: system_ok_step, simp add: system_ok_def consistent_new)

section \<open>Properties\<close>

text \<open>A concrete run used by the witnesses: two parsers, one domain each, one edit committed.\<close>

definition emit_self :: "bytes \<Rightarrow> bytes list" where
  "emit_self v = [v]"

definition sample_edit :: "bytes edit" where
  "sample_edit = snd (edit_add (snd (edit_add (begin_edit (new_store emit_self)) ''m'' ''m.org'')) ''x'' ''x.m.org'')"

definition sample_store :: "bytes store" where
  "sample_store = fst (snd (edit_commit emit_self (new_store emit_self) sample_edit))"

definition sample_edit_done :: "bytes edit" where
  "sample_edit_done = snd (snd (edit_commit emit_self (new_store emit_self) sample_edit))"

lemma sample_pending:
  "store_reachable emit_self \<lparr>sys_store = new_store emit_self, sys_edits = [sample_edit]\<rparr>"
proof -
  let ?e0 = "begin_edit (new_store emit_self)"
  let ?e1 = "snd (edit_add ?e0 ''m'' ''m.org'')"
  have r1: "store_reachable emit_self \<lparr>sys_store = new_store emit_self, sys_edits = [?e0]\<rparr>"
    using reach_step [OF reach_new step_begin] by simp
  have r2: "store_reachable emit_self \<lparr>sys_store = new_store emit_self, sys_edits = [?e1]\<rparr>"
    using reach_step [OF r1 step_add [of 0 _ emit_self "''m''" "''m.org''"]] by simp
  show ?thesis
    using reach_step [OF r2 step_add [of 0 _ emit_self "''x''" "''x.m.org''"]] by (simp add: sample_edit_def)
qed

lemma sample_reachable:
  "store_reachable emit_self \<lparr>sys_store = sample_store, sys_edits = [sample_edit_done]\<rparr>"
proof -
  have c: "edit_commit emit_self (sys_store \<lparr>sys_store = new_store emit_self, sys_edits = [sample_edit]\<rparr>)
      (sys_edits \<lparr>sys_store = new_store emit_self, sys_edits = [sample_edit]\<rparr> ! 0) =
      (fst (edit_commit emit_self (new_store emit_self) sample_edit), sample_store, sample_edit_done)"
    by (simp add: sample_store_def sample_edit_done_def)
  show ?thesis using reach_step [OF sample_pending step_commit [OF _ c]] by simp
qed

text \<open>C1: Routing a host through the store of any run. No value is found exactly when no
  registered value that the predicate accepts serves the host; otherwise the value found is
  accepted, serves the host, and no accepted value serves it through a longer domain.\<close>
theorem host_routing_longest:
  assumes "store_reachable emit \<sigma>"
  shows "case find_by_host (sys_store \<sigma>) host accepts of
      None \<Rightarrow> (\<nexists>v d. serves emit (sys_store \<sigma>) host v d \<and> accepts v)
    | Some v \<Rightarrow> accepts v \<and> (\<exists>d. serves emit (sys_store \<sigma>) host v d \<and>
        (\<forall>v' d'. serves emit (sys_store \<sigma>) host v' d' \<and> accepts v' \<longrightarrow> length d' \<le> length d))"
proof -
  have "consistent emit (sys_store \<sigma>)" using reachable_ok [OF assms] by (simp add: system_ok_def)
  then show ?thesis
    using find_by_host_None [of emit "sys_store \<sigma>" host accepts] find_by_host_Some [of emit "sys_store \<sigma>" host accepts]
    by (auto split: option.split)
qed

theorem host_routing_longest_witness:
  "case find_by_host sample_store ''a.x.m.org'' (\<lambda>_. True) of
      None \<Rightarrow> (\<nexists>v d. serves emit_self sample_store ''a.x.m.org'' v d \<and> True)
    | Some v \<Rightarrow> True \<and> (\<exists>d. serves emit_self sample_store ''a.x.m.org'' v d \<and>
        (\<forall>v' d'. serves emit_self sample_store ''a.x.m.org'' v' d' \<and> True \<longrightarrow> length d' \<le> length d))"
  using host_routing_longest [OF sample_reachable, of "''a.x.m.org''" "\<lambda>_. True"]
  by (simp split: option.splits)

text \<open>C2: No update is lost. In any run, a commit publishes the edit's entries exactly when the
  edit is attached and the live snapshot is still the one the edit began from; the commit then
  starts from the very entries the draft was copied from, and detaches the edit. Otherwise the
  store is unchanged and the error says which of the two failed.\<close>
theorem commit_no_lost_update:
  assumes "store_reachable emit \<sigma>" and "i < length (sys_edits \<sigma>)"
    and "edit_commit emit (sys_store \<sigma>) (sys_edits \<sigma> ! i) = (err, s', e')"
  shows "if attached (sys_edits \<sigma> ! i) \<and> base_id (sys_edits \<sigma> ! i) = live_id (sys_store \<sigma>)
    then err = None \<and> base (sys_edits \<sigma> ! i) = live (sys_store \<sigma>) \<and>
      snap_entries (live s') = ed_entries (sys_edits \<sigma> ! i) \<and>
      snap_volatile (live s') = ed_volatile (sys_edits \<sigma> ! i) \<and>
      live_id (sys_store \<sigma>) < live_id s' \<and> consistent emit s' \<and> \<not> attached e'
    else s' = sys_store \<sigma> \<and>
      err = Some (if attached (sys_edits \<sigma> ! i) then StaleEdit else AlreadyCommitted)"
proof -
  have ok: "edit_ok (sys_store \<sigma>) (sys_edits \<sigma> ! i)"
    using reachable_ok [OF assms(1)] assms(2) by (simp add: system_ok_def)
  from assms(3) ok show ?thesis
    by (cases rule: edit_commit_cases) (use ok in \<open>simp_all add: consistent_def edit_ok_def\<close>)
qed

theorem commit_no_lost_update_witness:
  "\<exists>s' e'. edit_commit emit_self (new_store emit_self) sample_edit = (None, s', e') \<and>
     snap_entries (live s') = [(''m'', ''m.org''), (''x'', ''x.m.org'')]"
proof -
  obtain err s' e' where c: "edit_commit emit_self (new_store emit_self) sample_edit = (err, s', e')"
    by (cases "edit_commit emit_self (new_store emit_self) sample_edit")
  have "ed_entries sample_edit = [(''m'', ''m.org''), (''x'', ''x.m.org'')]" by code_simp
  moreover have "attached sample_edit \<and> base_id sample_edit = live_id (new_store emit_self)" by code_simp
  ultimately show ?thesis
    using commit_no_lost_update [OF sample_pending, of 0 err s' e'] c by simp
qed

end
