(* ===== verification/Parsed_Url.thy ===== *)
theory Parsed_Url
  imports Prelude
begin

text \<open>
  \<open>src/types/ParsedUrl.cpp\<close>: a parsed URL is its serialization together with the positions of its
  components, kept as 32-bit offsets and lengths. The URL parser itself is the lexbor library: its
  calls are the fields of the record \<open>lexbor\<close>, over an abstract URL type. A serializer call returns
  the emitted bytes, or \<open>None\<close> when its status is not OK.
\<close>

section \<open>The library calls\<close>

record 'u lexbor =
  lx_init :: bool
  lx_parse :: "bytes \<Rightarrow> 'u option"
  lx_serialize :: "'u \<Rightarrow> bytes option"
  lx_serialize_scheme :: "'u \<Rightarrow> bytes option"
  lx_serialize_host :: "'u \<Rightarrow> bytes option"
  lx_serialize_path :: "'u \<Rightarrow> bytes option"
  lx_serialize_query :: "'u \<Rightarrow> bytes option"
  lx_serialize_fragment :: "'u \<Rightarrow> bytes option"
  lx_has_query :: "'u \<Rightarrow> bool"
  lx_has_fragment :: "'u \<Rightarrow> bool"
  lx_has_host :: "'u \<Rightarrow> bool"
  lx_username :: "'u \<Rightarrow> bytes"
  lx_password :: "'u \<Rightarrow> bytes"

section \<open>Components and views\<close>

record url_part =
  part_offset :: "32 word"
  part_length :: "32 word"

record parsed_url =
  url_href :: bytes
  scheme_part :: url_part
  host_part :: url_part
  path_part :: url_part
  query_part :: url_part
  fragment_part :: url_part

definition no_part :: url_part where
  "no_part = \<lparr>part_offset = 0, part_length = 0\<rparr>"

definition part_view :: "parsed_url \<Rightarrow> url_part \<Rightarrow> bytes" where
  "part_view u p = take (unat (part_length p)) (drop (unat (part_offset p)) (url_href u))"

definition href :: "parsed_url \<Rightarrow> bytes" where "href u = url_href u"
definition url_scheme :: "parsed_url \<Rightarrow> bytes" where "url_scheme u = part_view u (scheme_part u)"
definition url_host :: "parsed_url \<Rightarrow> bytes" where "url_host u = part_view u (host_part u)"
definition url_path :: "parsed_url \<Rightarrow> bytes" where "url_path u = part_view u (path_part u)"
definition url_query :: "parsed_url \<Rightarrow> bytes" where "url_query u = part_view u (query_part u)"
definition url_fragment :: "parsed_url \<Rightarrow> bytes" where "url_fragment u = part_view u (fragment_part u)"

section \<open>Parsing\<close>

definition serialized_length :: "bytes option \<Rightarrow> 32 word option" where
  "serialized_length emitted =
     (case emitted of
        None \<Rightarrow> None
      | Some s \<Rightarrow> if length s > 2 ^ 32 - 1 then None else Some (word_of_nat (length s)))"

text \<open>The offsets are computed in \<open>size_t\<close> and \<open>uint32_t\<close> arithmetic, with the conversions of the code.\<close>

definition flag_byte :: "bool \<Rightarrow> 'a::len word" where
  "flag_byte b = (if b then 1 else 0)"

definition path_offset :: "bytes \<Rightarrow> 32 word \<Rightarrow> 32 word \<Rightarrow> 32 word \<Rightarrow> bool \<Rightarrow> bool \<Rightarrow> 32 word" where
  "path_offset s path_length query_length fragment_length has_query has_fragment =
     ucast ((word_of_nat (length s) :: 64 word) - ucast path_length - ucast query_length
            - ucast fragment_length - flag_byte has_query - flag_byte has_fragment)"

definition host_offset :: "32 word \<Rightarrow> bytes \<Rightarrow> bytes \<Rightarrow> 32 word" where
  "host_offset scheme_length username password =
     (let at = scheme_length + 3 in
      if username \<noteq> [] \<or> password \<noteq> []
      then let at' = at + ucast (word_of_nat (length username) + word_of_nat (length password) + 1 :: 64 word)
           in if password \<noteq> [] then at' + 1 else at'
      else at)"

definition parts_of :: "'u lexbor \<Rightarrow> 'u \<Rightarrow> bytes \<Rightarrow> 32 word \<Rightarrow> 32 word \<Rightarrow> 32 word \<Rightarrow> 32 word \<Rightarrow> 32 word \<Rightarrow> parsed_url" where
  "parts_of lx u s scheme_length host_length path_length query_length fragment_length =
     (let p_off = path_offset s path_length query_length fragment_length (lx_has_query lx u) (lx_has_fragment lx u);
          q_off = p_off + path_length + flag_byte (lx_has_query lx u);
          f_off = q_off + query_length + flag_byte (lx_has_fragment lx u)
      in \<lparr>url_href = s,
          scheme_part = \<lparr>part_offset = 0, part_length = scheme_length\<rparr>,
          host_part = (if lx_has_host lx u
            then \<lparr>part_offset = host_offset scheme_length (lx_username lx u) (lx_password lx u),
                  part_length = host_length\<rparr>
            else no_part),
          path_part = \<lparr>part_offset = p_off, part_length = path_length\<rparr>,
          query_part = \<lparr>part_offset = q_off, part_length = query_length\<rparr>,
          fragment_part = \<lparr>part_offset = f_off, part_length = fragment_length\<rparr>\<rparr>)"

definition parse_url :: "'u lexbor \<Rightarrow> bytes \<Rightarrow> parsed_url option" where
  "parse_url lx text =
     (if \<not> lx_init lx then None
      else case lx_parse lx text of
        None \<Rightarrow> None
      | Some u \<Rightarrow>
          (case lx_serialize lx u of
             None \<Rightarrow> None
           | Some s \<Rightarrow>
               if length s > 2 ^ 32 - 1 then None
               else case (serialized_length (lx_serialize_scheme lx u), serialized_length (lx_serialize_host lx u),
                          serialized_length (lx_serialize_path lx u), serialized_length (lx_serialize_query lx u),
                          serialized_length (lx_serialize_fragment lx u)) of
                      (Some sl, Some hl, Some pl, Some ql, Some fl) \<Rightarrow> Some (parts_of lx u s sl hl pl ql fl)
                    | _ \<Rightarrow> None))"

section \<open>The documented serialization\<close>

text \<open>
  The URL standard's serializer: scheme and colon; for a URL with a host the double slash, the
  credentials and the host (then a port, if any); the path; the query behind a question mark and the
  fragment behind a number sign when they are not null.
\<close>

definition credentials :: "bytes \<Rightarrow> bytes \<Rightarrow> bytes" where
  "credentials username password =
     (if username = [] \<and> password = [] then []
      else username @ (if password = [] then [] else CHR '':'' # password) @ ''@'')"

definition whatwg_serialized ::
  "'u lexbor \<Rightarrow> 'u \<Rightarrow> bytes \<Rightarrow> bytes \<Rightarrow> bytes \<Rightarrow> bytes \<Rightarrow> bytes \<Rightarrow> bytes \<Rightarrow> bytes \<Rightarrow> bool" where
  "whatwg_serialized lx u s sch hst port pth q f \<longleftrightarrow>
     lx_serialize lx u = Some s \<and> lx_serialize_scheme lx u = Some sch \<and> lx_serialize_host lx u = Some hst \<and>
     lx_serialize_path lx u = Some pth \<and> lx_serialize_query lx u = Some q \<and> lx_serialize_fragment lx u = Some f \<and>
     (lx_has_host lx u \<or> hst = []) \<and> (lx_has_query lx u \<or> q = []) \<and> (lx_has_fragment lx u \<or> f = []) \<and>
     s = sch @ '':'' @
         (if lx_has_host lx u then ''//'' @ credentials (lx_username lx u) (lx_password lx u) @ hst else []) @ port @
         pth @ (if lx_has_query lx u then CHR ''?'' # q else []) @ (if lx_has_fragment lx u then CHR ''#'' # f else [])"

section \<open>Lemmas\<close>

lemma serialized_length_Some [simp]:
  "serialized_length (Some s) = (if length s > 2 ^ 32 - 1 then None else Some (word_of_nat (length s)))"
  by (simp add: serialized_length_def)

lemma unat_of_length: "length s \<le> 2 ^ 32 - 1 \<Longrightarrow> unat (word_of_nat (length s) :: 32 word) = length s"
  by (simp add: unat_of_nat take_bit_nat_eq_self)

lemma ucast_length: "n \<le> 2 ^ 32 - 1 \<Longrightarrow> (ucast (word_of_nat n :: 32 word) :: 64 word) = word_of_nat n"
  by (rule unsigned_word_eqI [where ?'a = nat]) (simp add: unat_of_nat unsigned_ucast_eq take_bit_nat_eq_self)

lemma path_offset_exact:
  assumes "length s \<le> 2 ^ 32 - 1"
    and "length s = n + p + q + f + (if hq then 1 else 0) + (if hf then 1 else 0)"
  shows "path_offset s (word_of_nat p) (word_of_nat q) (word_of_nat f) hq hf = word_of_nat n"
proof -
  have b: "p \<le> 2 ^ 32 - 1" "q \<le> 2 ^ 32 - 1" "f \<le> 2 ^ 32 - 1" "n \<le> 2 ^ 32 - 1" using assms by auto
  have "(word_of_nat (length s) :: 64 word) - word_of_nat p - word_of_nat q - word_of_nat f
      - flag_byte hq - flag_byte hf = word_of_nat n"
    unfolding assms(2) by (simp add: flag_byte_def algebra_simps)
  then have "path_offset s (word_of_nat p) (word_of_nat q) (word_of_nat f) hq hf = ucast (word_of_nat n :: 64 word)"
    using b by (simp add: path_offset_def ucast_length)
  also have "\<dots> = word_of_nat n"
    by (rule unsigned_word_eqI [where ?'a = nat]) (use b(4) in \<open>simp add: unat_of_nat unsigned_ucast_eq take_bit_nat_eq_self\<close>)
  finally show ?thesis .
qed

lemma ucast_of_nat32: "(ucast (word_of_nat n :: 64 word) :: 32 word) = word_of_nat n"
  by (rule unsigned_word_eqI [where ?'a = nat]) (simp add: unat_of_nat unsigned_ucast_eq take_bit_eq_mod mod_mod_cancel)

lemma host_offset_exact:
  "host_offset (word_of_nat n) u p = word_of_nat (n + 3 + length (credentials u p))"
proof -
  have "(word_of_nat (length u) + word_of_nat (length p) + 1 :: 64 word) = word_of_nat (length u + length p + 1)"
    by simp
  then show ?thesis
    by (simp only: host_offset_def credentials_def Let_def ucast_of_nat32)
      (auto simp: algebra_simps)
qed

lemma part_view_append:
  assumes "url_href u = a @ b @ c" "length (url_href u) \<le> 2 ^ 32 - 1"
    and "part_offset p = word_of_nat (length a)" "part_length p = word_of_nat (length b)"
  shows "part_view u p = b"
proof -
  have "length a \<le> 2 ^ 32 - 1" "length b \<le> 2 ^ 32 - 1" using assms(1,2) by auto
  then show ?thesis using assms by (simp add: part_view_def unat_of_length)
qed

section \<open>Properties\<close>

text \<open>C7: When the library serializes as the URL standard says and the text is below 4 GiB, parsing
  returns the URL, and its views cut exactly the scheme, host, path, query and fragment out of the
  serialization (no host, query or fragment reads as empty), credentials and port included in none.\<close>
theorem url_views_exact:
  assumes "lx_init lx" "lx_parse lx input = Some u" "length s \<le> 2 ^ 32 - 1"
    and "whatwg_serialized lx u s sch hst port pth q f"
  shows "\<exists>p. parse_url lx input = Some p \<and> href p = s \<and> url_scheme p = sch \<and> url_host p = hst \<and>
    url_path p = pth \<and> url_query p = q \<and> url_fragment p = f"
proof -
  define front where "front = sch @ '':'' @
    (if lx_has_host lx u then ''//'' @ credentials (lx_username lx u) (lx_password lx u) @ hst else []) @ port"
  define qm where "qm = (if lx_has_query lx u then ''?'' else [])"
  define hm where "hm = (if lx_has_fragment lx u then ''#'' else [])"
  note w = assms(4)[unfolded whatwg_serialized_def]
  have s: "s = front @ pth @ qm @ q @ hm @ f"
    using w by (auto simp: front_def qm_def hm_def)
  have marks: "flag_byte (lx_has_query lx u) = (word_of_nat (length qm) :: 32 word)"
    "flag_byte (lx_has_fragment lx u) = (word_of_nat (length hm) :: 32 word)"
    by (simp_all add: flag_byte_def qm_def hm_def)
  have fits: "length sch \<le> 2 ^ 32 - 1" "length hst \<le> 2 ^ 32 - 1" "length pth \<le> 2 ^ 32 - 1"
    "length q \<le> 2 ^ 32 - 1" "length f \<le> 2 ^ 32 - 1"
    using assms(3) w s by (auto simp: front_def split: if_splits)
  let ?p = "parts_of lx u s (word_of_nat (length sch)) (word_of_nat (length hst)) (word_of_nat (length pth))
    (word_of_nat (length q)) (word_of_nat (length f))"
  have parsed: "parse_url lx input = Some ?p"
    using w assms(1-3) fits by (simp add: parse_url_def not_less)
  have p_off: "path_offset s (word_of_nat (length pth)) (word_of_nat (length q)) (word_of_nat (length f))
      (lx_has_query lx u) (lx_has_fragment lx u) = word_of_nat (length front)"
    by (rule path_offset_exact [OF assms(3)]) (simp add: s qm_def hm_def)
  have short: "length (url_href ?p) \<le> 2 ^ 32 - 1" using assms(3) by (simp add: parts_of_def Let_def)
  have "url_scheme ?p = sch" unfolding url_scheme_def
    by (rule part_view_append [OF _ short, of "[]" sch "drop (length sch) s"])
      (simp_all add: parts_of_def Let_def s front_def)
  moreover have "url_path ?p = pth" unfolding url_path_def
    by (rule part_view_append [OF _ short, of front pth "qm @ q @ hm @ f"])
      (simp_all add: parts_of_def Let_def p_off, simp add: s)
  moreover have "url_query ?p = q" unfolding url_query_def
    by (rule part_view_append [OF _ short, of "front @ pth @ qm" q "hm @ f"])
      (simp_all add: parts_of_def Let_def p_off marks, simp add: s)
  moreover have "url_fragment ?p = f" unfolding url_fragment_def
    by (rule part_view_append [OF _ short, of "front @ pth @ qm @ q @ hm" f "[]"])
      (simp_all add: parts_of_def Let_def p_off marks algebra_simps, simp add: s)
  moreover have "url_host ?p = hst"
  proof (cases "lx_has_host lx u")
    case True
    let ?c = "credentials (lx_username lx u) (lx_password lx u)"
    show ?thesis unfolding url_host_def
      by (rule part_view_append [OF _ short, of "sch @ ''://'' @ ?c" hst "port @ pth @ qm @ q @ hm @ f"])
        (simp_all add: parts_of_def Let_def True host_offset_exact algebra_simps, simp add: s front_def True)
  next
    case False
    then show ?thesis using w by (simp add: parts_of_def Let_def url_host_def no_part_def part_view_def)
  qed
  moreover have "href ?p = s" by (simp add: href_def parts_of_def Let_def)
  ultimately show ?thesis using parsed by blast
qed

text \<open>A library that answers for one URL, with credentials, port, query and fragment.\<close>

definition sample_lexbor :: "unit lexbor" where
  "sample_lexbor = \<lparr>lx_init = True, lx_parse = (\<lambda>t. if t = ''https://u:p@a.b:8080/x?q#f'' then Some () else None),
     lx_serialize = (\<lambda>_. Some ''https://u:p@a.b:8080/x?q#f''), lx_serialize_scheme = (\<lambda>_. Some ''https''),
     lx_serialize_host = (\<lambda>_. Some ''a.b''), lx_serialize_path = (\<lambda>_. Some ''/x''),
     lx_serialize_query = (\<lambda>_. Some ''q''), lx_serialize_fragment = (\<lambda>_. Some ''f''),
     lx_has_query = (\<lambda>_. True), lx_has_fragment = (\<lambda>_. True), lx_has_host = (\<lambda>_. True),
     lx_username = (\<lambda>_. ''u''), lx_password = (\<lambda>_. ''p'')\<rparr>"

theorem url_views_exact_witness:
  "\<exists>p. parse_url sample_lexbor ''https://u:p@a.b:8080/x?q#f'' = Some p \<and> href p = ''https://u:p@a.b:8080/x?q#f'' \<and>
     url_scheme p = ''https'' \<and> url_host p = ''a.b'' \<and> url_path p = ''/x'' \<and> url_query p = ''q'' \<and> url_fragment p = ''f''"
  by (rule url_views_exact [where port = "'':8080''"])
    (simp_all add: sample_lexbor_def whatwg_serialized_def credentials_def)

end
