(* ===== verification/Parser_Store.thy ===== *)
theory Parser_Store
  imports Domain_Store Parsed_Url
begin

text \<open>
  \<open>src/ParserStore.cpp\<close> and the routing defaults of \<open>src/Parser.cpp\<close>: parsers registered under their
  identifier, found by key, by domain and by URL, and the route of a URL. A parser is a record of
  what its virtual functions answer; \<open>pr_valid_override\<close> is present when a parser overrides
  \<open>valid_for_url\<close>.
\<close>

section \<open>Parsers\<close>

datatype getter_type = Unknown | Anime | Images | Manga | Video

record parser =
  pr_identifier :: bytes
  pr_domains :: "bytes list"
  pr_suggest :: "parsed_url \<Rightarrow> getter_type"
  pr_valid_override :: "(parsed_url \<Rightarrow> bool) option"

definition suggest_getter :: "parser \<Rightarrow> parsed_url \<Rightarrow> getter_type" where
  "suggest_getter p u = pr_suggest p u"

definition valid_for_url :: "parser \<Rightarrow> parsed_url \<Rightarrow> bool" where
  "valid_for_url p u =
     (case pr_valid_override p of None \<Rightarrow> suggest_getter p u \<noteq> Unknown | Some valid \<Rightarrow> valid u)"

text \<open>The domain emitter: a parser's own declared domains.\<close>

definition emplace_domains :: "parser \<Rightarrow> bytes list" where
  "emplace_domains p = pr_domains p"

type_synonym parser_store = "parser store"

datatype parser_store_error = ConflictingName bytes | StoreFailed store_error

record route =
  route_parser :: parser
  route_type :: getter_type
  route_target :: parsed_url

text \<open>The identity a getter is saved as and restored from (\<open>types/Serialization.hpp\<close>).\<close>

record serialized_getter_data =
  sg_url :: bytes
  sg_params :: "bytes smap"

section \<open>Edits\<close>

definition new_parser_store :: parser_store where
  "new_parser_store = new_store emplace_domains"

definition parser_begin_edit :: "parser_store \<Rightarrow> parser edit" where
  "parser_begin_edit s = begin_edit s"

definition edit_add_parser :: "parser edit \<Rightarrow> parser \<Rightarrow> parser_store_error + (parser option \<times> parser edit)" where
  "edit_add_parser e p =
     (if edit_contains e (pr_identifier p) then Inl (ConflictingName (pr_identifier p))
      else Inr (edit_add e (pr_identifier p) p))"

definition edit_remove_parser :: "parser edit \<Rightarrow> bytes \<Rightarrow> bool \<times> parser edit" where
  "edit_remove_parser e identifier = edit_remove e identifier"

definition edit_refresh_domains :: "parser edit \<Rightarrow> bytes list smap \<Rightarrow> parser edit" where
  "edit_refresh_domains e vol = set_volatile_domains e vol"

definition parser_edit_commit :: "parser_store \<Rightarrow> parser edit \<Rightarrow> store_error option \<times> parser_store \<times> parser edit" where
  "parser_edit_commit s e = edit_commit emplace_domains s e"

definition commit_or_throw :: "parser_store \<Rightarrow> parser edit \<Rightarrow> parser_store_error + parser_store" where
  "commit_or_throw s e =
     (case parser_edit_commit s e of (Some err, _, _) \<Rightarrow> Inl (StoreFailed err) | (None, s', _) \<Rightarrow> Inr s')"

section \<open>Store operations\<close>

definition add_parser :: "parser_store \<Rightarrow> parser \<Rightarrow> parser_store_error + (parser option \<times> parser_store)" where
  "add_parser s p =
     (case edit_add_parser (parser_begin_edit s) p of
        Inl err \<Rightarrow> Inl err
      | Inr (added, e) \<Rightarrow>
          (case commit_or_throw s e of Inl err \<Rightarrow> Inl err | Inr s' \<Rightarrow> Inr (added, s')))"

definition refresh_domains :: "parser_store \<Rightarrow> bytes list smap \<Rightarrow> parser_store_error + parser_store" where
  "refresh_domains s vol = commit_or_throw s (edit_refresh_domains (parser_begin_edit s) vol)"

definition find_for_url :: "'u lexbor \<Rightarrow> parser_store \<Rightarrow> bytes \<Rightarrow> parser option" where
  "find_for_url lx s text =
     (case parse_url lx text of
        None \<Rightarrow> None
      | Some u \<Rightarrow> find_by_host s (url_host u) (\<lambda>p. valid_for_url p u))"

definition find_by_domain :: "'u lexbor \<Rightarrow> parser_store \<Rightarrow> bytes \<Rightarrow> parser option" where
  "find_by_domain lx s domain =
     (case parse_url lx (''https://'' @ domain) of
        None \<Rightarrow> None
      | Some u \<Rightarrow> find_by_host s (url_host u) (\<lambda>p. valid_for_url p u))"

definition route_url :: "'u lexbor \<Rightarrow> parser_store \<Rightarrow> bytes \<Rightarrow> route option" where
  "route_url lx s text =
     (case parse_url lx text of
        None \<Rightarrow> None
      | Some u \<Rightarrow>
          (case find_by_host s (url_host u) (\<lambda>p. valid_for_url p u) of
             None \<Rightarrow> None
           | Some p \<Rightarrow> Some \<lparr>route_parser = p, route_type = suggest_getter p u, route_target = u\<rparr>))"

definition find_parser_by_key :: "parser_store \<Rightarrow> bytes \<Rightarrow> parser option" where
  "find_parser_by_key s key = find_by_key s key"

definition parsers :: "parser_store \<Rightarrow> parser list" where
  "parsers s = store_values s"

section \<open>Reachable stores\<close>

definition keyed :: "parser smap \<Rightarrow> bool" where
  "keyed es \<longleftrightarrow> (\<forall>(k, p) \<in> set es. k = pr_identifier p)"

definition parser_store_ok :: "parser_store \<Rightarrow> bool" where
  "parser_store_ok s \<longleftrightarrow> consistent emplace_domains s \<and> keyed (snap_entries (live s))"

inductive draft_of :: "parser_store \<Rightarrow> parser edit \<Rightarrow> bool" for s where
  draft_begin: "draft_of s (parser_begin_edit s)"
| draft_add: "draft_of s e \<Longrightarrow> edit_add_parser e p = Inr (r, e') \<Longrightarrow> draft_of s e'"
| draft_remove: "draft_of s e \<Longrightarrow> draft_of s (snd (edit_remove_parser e k))"
| draft_refresh: "draft_of s e \<Longrightarrow> draft_of s (edit_refresh_domains e vol)"

inductive ps_reachable :: "parser_store \<Rightarrow> bool" where
  ps_new: "ps_reachable new_parser_store"
| ps_add: "ps_reachable s \<Longrightarrow> add_parser s p = Inr (r, s') \<Longrightarrow> ps_reachable s'"
| ps_refresh: "ps_reachable s \<Longrightarrow> refresh_domains s vol = Inr s' \<Longrightarrow> ps_reachable s'"
| ps_edit: "ps_reachable s \<Longrightarrow> draft_of s0 e \<Longrightarrow> ps_reachable s0 \<Longrightarrow> commit_or_throw s e = Inr s' \<Longrightarrow> ps_reachable s'"

lemma keyed_emplace: "keyed es \<Longrightarrow> om_wf es \<Longrightarrow> keyed (om_emplace (pr_identifier p) p es)"
proof -
  assume k: "keyed es" and wf: "om_wf es"
  have "(j, q) \<in> set es \<or> (j = pr_identifier p \<and> q = p)"
    if "(j, q) \<in> set (om_emplace (pr_identifier p) p es)" for j q
    using that om_in_lookup [of "om_emplace (pr_identifier p) p es" j q] wf
    by (auto simp: lookup_om_emplace om_in_lookup split: if_splits option.splits)
  then show ?thesis using k unfolding keyed_def by blast
qed

lemma keyed_erase: "keyed es \<Longrightarrow> keyed (om_erase k es)"
  by (auto simp: keyed_def om_erase_def)

definition draft_ok :: "parser edit \<Rightarrow> bool" where
  "draft_ok e \<longleftrightarrow> om_wf (ed_entries e) \<and> keyed (ed_entries e)"

lemma draft_of_ok: "draft_of s e \<Longrightarrow> parser_store_ok s \<Longrightarrow> draft_ok e"
proof (induction rule: draft_of.induct)
  case draft_begin
  then show ?case
    by (simp add: draft_ok_def parser_begin_edit_def begin_edit_def parser_store_ok_def consistent_def)
next
  case (draft_add e p r e')
  then show ?case
    by (auto simp: draft_ok_def edit_add_parser_def edit_add_def edit_contains_def keyed_emplace split: if_splits)
qed (auto simp: draft_ok_def edit_remove_parser_def edit_remove_def edit_refresh_domains_def
    set_volatile_domains_def keyed_erase)

lemma commit_or_throw_Inr:
  "commit_or_throw s e = Inr s' \<longleftrightarrow> attached e \<and> live_id s = base_id e \<and>
     s' = s\<lparr>live := make_snapshot emplace_domains (ed_entries e) (ed_volatile e), live_id := Suc (live_id s)\<rparr>"
  by (auto simp: commit_or_throw_def parser_edit_commit_def edit_commit_def store_commit_def Let_def)

lemma commit_ok: "draft_ok e \<Longrightarrow> commit_or_throw s e = Inr s' \<Longrightarrow> parser_store_ok s'"
  by (simp add: commit_or_throw_Inr parser_store_ok_def consistent_def draft_ok_def)

lemma draft_ok_begin: "parser_store_ok s \<Longrightarrow> draft_ok (parser_begin_edit s)"
  by (rule draft_of_ok [OF draft_begin])

lemma ps_reachable_ok: "ps_reachable s \<Longrightarrow> parser_store_ok s"
proof (induction rule: ps_reachable.induct)
  case ps_new
  then show ?case by (simp add: parser_store_ok_def new_parser_store_def consistent_new)
      (simp add: new_store_def keyed_def)
next
  case (ps_add s p r s')
  then obtain e where e: "edit_add_parser (parser_begin_edit s) p = Inr (r, e)" "commit_or_throw s e = Inr s'"
    by (auto simp: add_parser_def split: sum.splits prod.splits)
  then show ?case using commit_ok [OF draft_of_ok [OF draft_add [OF draft_begin e(1)] ps_add.IH]] by blast
next
  case (ps_refresh s vol s')
  then show ?case
    using commit_ok [OF draft_of_ok [OF draft_refresh [OF draft_begin] ps_refresh.IH]]
    by (simp add: refresh_domains_def)
next
  case (ps_edit s s0 e s')
  then show ?case using commit_ok draft_of_ok by blast
qed

section \<open>Properties\<close>

text \<open>A parser that serves a URL's host through a domain and accepts the URL.\<close>

definition serves_url :: "parser_store \<Rightarrow> parsed_url \<Rightarrow> parser \<Rightarrow> bytes \<Rightarrow> bool" where
  "serves_url s u p d \<longleftrightarrow> serves emplace_domains s (url_host u) p d \<and> valid_for_url p u"

lemma serves_keyed: "parser_store_ok s \<Longrightarrow> serves emplace_domains s h p d \<Longrightarrow> find_parser_by_key s (pr_identifier p) = Some p"
proof -
  assume ok: "parser_store_ok s" and "serves emplace_domains s h p d"
  then obtain k where k: "lookup (snap_entries (live s)) k = Some p"
    by (auto simp: serves_def find_by_key_def)
  then have "k = pr_identifier p" using ok lookup_in [OF k] by (auto simp: parser_store_ok_def keyed_def)
  then show ?thesis using k by (simp add: find_parser_by_key_def find_by_key_def)
qed

text \<open>C6: Routing a URL, in any reachable store: a route is found exactly when the URL parses and some
  registered parser serves its host and accepts it. The route carries the parsed URL, a parser
  registered under its own identifier that accepts the URL through a domain no accepting parser
  beats in length, and that parser's suggestion, which is never Unknown for a parser that keeps
  the default gate.\<close>
theorem route_url_sound_complete:
  assumes "ps_reachable s"
  shows "case route_url lx s input of
      None \<Rightarrow> (case parse_url lx input of None \<Rightarrow> True | Some u \<Rightarrow> (\<nexists>p d. serves_url s u p d))
    | Some r \<Rightarrow> parse_url lx input = Some (route_target r) \<and>
        find_parser_by_key s (pr_identifier (route_parser r)) = Some (route_parser r) \<and>
        (\<exists>d. serves_url s (route_target r) (route_parser r) d \<and>
          (\<forall>p' d'. serves_url s (route_target r) p' d' \<longrightarrow> length d' \<le> length d)) \<and>
        route_type r = suggest_getter (route_parser r) (route_target r) \<and>
        (pr_valid_override (route_parser r) = None \<longrightarrow> route_type r \<noteq> Unknown)"
proof (cases "parse_url lx input")
  case None
  then show ?thesis by (simp add: route_url_def)
next
  case (Some u)
  note ok = ps_reachable_ok [OF assms]
  then have con: "consistent emplace_domains s" by (simp add: parser_store_ok_def)
  show ?thesis
  proof (cases "find_by_host s (url_host u) (\<lambda>p. valid_for_url p u)")
    case None
    have "\<nexists>p d. serves_url s u p d"
      using None [unfolded find_by_host_None [OF con]] by (simp add: serves_url_def)
    then show ?thesis using None \<open>parse_url lx input = Some u\<close> by (simp add: route_url_def)
  next
    case (Some p)
    from find_by_host_Some [OF con Some] obtain d where d: "valid_for_url p u"
      "serves emplace_domains s (url_host u) p d"
      "\<forall>v' d'. serves emplace_domains s (url_host u) v' d' \<and> valid_for_url v' u \<longrightarrow> length d' \<le> length d" by blast
    moreover have "pr_valid_override p = None \<longrightarrow> suggest_getter p u \<noteq> Unknown"
      using d(1) by (auto simp: valid_for_url_def split: option.splits)
    ultimately show ?thesis using Some \<open>parse_url lx input = Some u\<close> serves_keyed [OF ok d(2)]
      by (auto simp: route_url_def serves_url_def)
  qed
qed

definition sample_parser :: parser where
  "sample_parser = \<lparr>pr_identifier = ''site'', pr_domains = [''a.b''], pr_suggest = (\<lambda>u. if url_path u = ''/x'' then Manga else Unknown),
     pr_valid_override = None\<rparr>"

theorem route_url_sound_complete_witness:
  "case route_url sample_lexbor new_parser_store ''https://u:p@a.b:8080/x?q#f'' of
      None \<Rightarrow> (case parse_url sample_lexbor ''https://u:p@a.b:8080/x?q#f'' of None \<Rightarrow> True
        | Some u \<Rightarrow> (\<nexists>p d. serves_url new_parser_store u p d))
    | Some r \<Rightarrow> False"
  using route_url_sound_complete [OF ps_new, of sample_lexbor "''https://u:p@a.b:8080/x?q#f''"]
  by (auto simp: find_parser_by_key_def find_by_key_def new_parser_store_def new_store_def split: option.splits)

text \<open>Adding a parser to a reachable store: a taken identifier is a conflict, whoever holds it;
  otherwise the parser is returned and published: it is found under its identifier, the others
  under theirs, the listing stays in identifier order, and it serves each of its domains.\<close>
theorem add_parser_registers:
  assumes "ps_reachable s"
  shows "case find_parser_by_key s (pr_identifier p) of
      Some q \<Rightarrow> add_parser s p = Inl (ConflictingName (pr_identifier p))
    | None \<Rightarrow> (\<exists>s'. add_parser s p = Inr (Some p, s') \<and> ps_reachable s' \<and>
        (\<forall>k. find_parser_by_key s' k = (if k = pr_identifier p then Some p else find_parser_by_key s k)) \<and>
        sorted_wrt (<) (map pr_identifier (parsers s')) \<and>
        (\<forall>d. d \<in> set (pr_domains p) \<longrightarrow> serves emplace_domains s' d p d))"
proof (cases "find_parser_by_key s (pr_identifier p)")
  case (Some q)
  then show ?thesis
    by (simp add: add_parser_def edit_add_parser_def edit_contains_def om_contains_def parser_begin_edit_def
        begin_edit_def find_parser_by_key_def find_by_key_def)
next
  case None
  note ok = ps_reachable_ok [OF assms]
  then have wf: "om_wf (snap_entries (live s))" by (simp add: parser_store_ok_def consistent_def)
  let ?es = "om_emplace (pr_identifier p) p (snap_entries (live s))"
  let ?s' = "s\<lparr>live := make_snapshot emplace_domains ?es (snap_volatile (live s)), live_id := Suc (live_id s)\<rparr>"
  have none: "lookup (snap_entries (live s)) (pr_identifier p) = None"
    using None by (simp add: find_parser_by_key_def find_by_key_def)
  then have add: "add_parser s p = Inr (Some p, ?s')"
    by (simp add: add_parser_def edit_add_parser_def edit_contains_def om_contains_def parser_begin_edit_def
        begin_edit_def edit_add_def commit_or_throw_def parser_edit_commit_def edit_commit_def store_commit_def Let_def)
  have reach: "ps_reachable ?s'" by (rule ps_add [OF assms add])
  have keys: "find_parser_by_key ?s' k = (if k = pr_identifier p then Some p else find_parser_by_key s k)" for k
    using wf none by (simp add: find_parser_by_key_def find_by_key_def lookup_om_emplace)
  have "keyed ?es" using ps_reachable_ok [OF reach] by (simp add: parser_store_ok_def)
  then have "map pr_identifier (map snd ?es) = map fst ?es"
    unfolding keyed_def by (auto simp: split_def)
  moreover have "parsers ?s' = map snd ?es" by (simp add: parsers_def store_values_def)
  ultimately have "sorted_wrt (<) (map pr_identifier (parsers ?s'))"
    using om_wf_emplace [OF wf, of "pr_identifier p" p] by (simp only: om_wf_def)
  moreover have "serves emplace_domains ?s' d p d" if "d \<in> set (pr_domains p)" for d
    using that keys [of "pr_identifier p"]
    by (auto simp: serves_def find_parser_by_key_def domains_of_def emplace_domains_def under_domain_def
        intro!: exI [of _ "pr_identifier p"])
  ultimately show ?thesis using None add reach keys by auto
qed

theorem add_parser_registers_witness:
  "\<exists>s'. add_parser new_parser_store sample_parser = Inr (Some sample_parser, s') \<and>
     serves emplace_domains s' ''a.b'' sample_parser ''a.b''"
proof -
  have "find_parser_by_key new_parser_store (pr_identifier sample_parser) = None"
    by (simp add: find_parser_by_key_def find_by_key_def new_parser_store_def new_store_def)
  then show ?thesis using add_parser_registers [OF ps_new, of sample_parser]
    by (auto simp: sample_parser_def)
qed

end
