(* ===== verification/Js_Scan.thy ===== *)
theory Js_Scan
  imports Prelude "HOL-Library.Sublist"
begin

text \<open>
  \<open>src/html/JSParser.cpp\<close>: finding an object or array literal in script text, by variable name or
  as a call argument, and rewriting it as JSON text. A position in the text is represented by the
  text from there on; the JSON parser behind \<open>parse_json_var\<close> is a parameter.
\<close>

section \<open>Characters\<close>

definition is_ident_char :: "char \<Rightarrow> bool" where
  "is_ident_char c \<longleftrightarrow> is_digit c \<or> is_upper c \<or> is_lower c \<or> c = CHR ''_'' \<or> c = CHR ''$''"

definition is_space :: "char \<Rightarrow> bool" where
  "is_space c \<longleftrightarrow> code c = 32 \<or> (9 \<le> code c \<and> code c \<le> 13)"

definition is_quote :: "char \<Rightarrow> bool" where
  "is_quote c \<longleftrightarrow> c = chr_dquote \<or> c = chr_quote \<or> c = chr_btick"

definition opens :: "char \<Rightarrow> bool" where
  "opens c \<longleftrightarrow> c = CHR ''{'' \<or> c = CHR ''[''"

definition closes :: "char \<Rightarrow> bool" where
  "closes c \<longleftrightarrow> c = CHR ''}'' \<or> c = CHR '']''"

definition closer_of :: "char \<Rightarrow> char" where
  "closer_of c = (if c = CHR ''{'' then CHR ''}'' else if c = CHR ''['' then CHR '']'' else CHR '')'')"

section \<open>Skipping strings and comments\<close>

text \<open>From behind an opening quote to behind the closing one; \<open>None\<close> when it is unterminated.\<close>

fun skip_string :: "char \<Rightarrow> bytes \<Rightarrow> bytes option" where
  "skip_string q [] = None"
| "skip_string q [c] = (if c = chr_bslash then None else if c = q then Some [] else None)"
| "skip_string q (c # d # s) =
     (if c = chr_bslash then skip_string q s
      else if c = q then Some (d # s)
      else skip_string q (d # s))"

text \<open>From behind \<open>//\<close> to behind the line feed; from behind \<open>/*\<close> to behind \<open>*/\<close>.\<close>

definition skip_line :: "bytes \<Rightarrow> bytes" where
  "skip_line s = drop 1 (dropWhile (\<lambda>c. c \<noteq> chr_lf) s)"

fun skip_block :: "bytes \<Rightarrow> bytes option" where
  "skip_block (a # b # s) = (if a = CHR ''*'' \<and> b = CHR ''/'' then Some s else skip_block (b # s))"
| "skip_block _ = None"

lemma skip_string_shorter: "skip_string q s = Some r \<Longrightarrow> length r < length s"
  by (induction q s rule: skip_string.induct) (auto split: if_splits)

lemma skip_block_shorter: "skip_block s = Some r \<Longrightarrow> length r < length s"
  by (induction s rule: skip_block.induct) (auto split: if_splits)

lemma skip_line_shorter: "length (skip_line s) \<le> length s"
  unfolding skip_line_def using length_dropWhile_le [of "\<lambda>c. c \<noteq> chr_lf" s] by simp

section \<open>Balanced literals\<close>

text \<open>The loop of \<open>scan_balanced\<close>: the expected closing brackets, and the text still to scan.\<close>

function scan_from :: "char list \<Rightarrow> bytes \<Rightarrow> bytes option" where
  "scan_from closers [] = None"
| "scan_from closers (c # s) =
     (if is_quote c then
        (case skip_string c s of None \<Rightarrow> None | Some r \<Rightarrow> scan_from closers r)
      else if c = CHR ''/'' \<and> s \<noteq> [] \<and> hd s = CHR ''/'' then scan_from closers (skip_line (tl s))
      else if c = CHR ''/'' \<and> s \<noteq> [] \<and> hd s = CHR ''*'' then
        (case skip_block (tl s) of None \<Rightarrow> None | Some r \<Rightarrow> scan_from closers r)
      else if opens c then scan_from (closer_of c # closers) s
      else if closes c then
        (case closers of
           [] \<Rightarrow> None
         | e # es \<Rightarrow> if e \<noteq> c then None else if es = [] then Some s else scan_from es s)
      else scan_from closers s)"
  by pat_completeness auto
termination
  by (relation "measure (\<lambda>(_, s). length s)")
    (auto dest!: skip_string_shorter skip_block_shorter intro: le_less_trans [OF skip_line_shorter]
      simp: neq_Nil_conv less_Suc_eq_le, (meson le_SucI less_imp_le skip_line_shorter)+)

definition scan_balanced :: "bytes \<Rightarrow> nat" where
  "scan_balanced s = (case scan_from [] s of None \<Rightarrow> 0 | Some r \<Rightarrow> length s - length r)"

section \<open>A literal assigned to a name\<close>

definition skip_spaces :: "bytes \<Rightarrow> nat \<Rightarrow> nat" where
  "skip_spaces t i = i + length (takeWhile is_space (drop i t))"

text \<open>Where the value behind the name found at \<open>p\<close> opens, if that occurrence is an assignment.\<close>

definition var_value_at :: "bytes \<Rightarrow> bytes \<Rightarrow> nat \<Rightarrow> nat option" where
  "var_value_at name t p =
     (let name_end = p + length name in
      if 0 < p \<and> is_ident_char (t ! (p - 1)) then None
      else if name_end < length t \<and> is_ident_char (t ! name_end) then None
      else
        let i = (if 0 < p \<and> (t ! (p - 1) = chr_dquote \<or> t ! (p - 1) = chr_quote) \<and>
                     name_end < length t \<and> t ! name_end = t ! (p - 1)
                 then name_end + 1 else name_end);
            j = skip_spaces t i
        in if length t \<le> j \<or> (t ! j \<noteq> CHR ''='' \<and> t ! j \<noteq> CHR '':'') then None
           else if t ! j = CHR ''='' \<and> j + 1 < length t \<and> (t ! (j + 1) = CHR ''='' \<or> t ! (j + 1) = CHR ''>'') then None
           else
             let k = skip_spaces t (j + 1)
             in if length t \<le> k \<or> \<not> opens (t ! k) then None else Some k)"

lemma search_advances: "find_from name t pos = Some p \<Longrightarrow> length t - p < Suc (length t) - pos"
  by (drule find_from_Some [THEN iffD1]) arith

lemma name_advances:
  "name \<noteq> [] \<Longrightarrow> find_from name t pos = Some p \<Longrightarrow> Suc (length t) - (p + length name) < Suc (length t) - pos"
  using find_from_bound [of name t pos p] find_from_ge [of name t pos p] length_greater_0_conv [of name]
  by linarith

function scan_var_from :: "bytes \<Rightarrow> bytes \<Rightarrow> nat \<Rightarrow> bytes" where
  "scan_var_from name t pos =
     (if name = [] then []
      else case find_from name t pos of
        None \<Rightarrow> []
      | Some p \<Rightarrow>
          (case var_value_at name t p of
             None \<Rightarrow> scan_var_from name t (p + length name)
           | Some k \<Rightarrow>
               if 0 < scan_balanced (drop k t) then take (scan_balanced (drop k t)) (drop k t)
               else scan_var_from name t (p + length name)))"
  by pat_completeness auto
termination
  by (relation "measure (\<lambda>(name, t, pos). Suc (length t) - pos)")
    (simp_all add: name_advances)

declare scan_var_from.simps [simp del]

definition find_json_var :: "bytes \<Rightarrow> bytes \<Rightarrow> bytes" where
  "find_json_var name t = scan_var_from name t 0"

section \<open>A literal as a call argument\<close>

text \<open>From the start of an argument to its delimiter, the comma or the closing parenthesis.\<close>

function scan_argument_from :: "char list \<Rightarrow> bytes \<Rightarrow> bytes option" where
  "scan_argument_from closers [] = None"
| "scan_argument_from closers (c # s) =
     (if is_quote c then
        (case skip_string c s of None \<Rightarrow> None | Some r \<Rightarrow> scan_argument_from closers r)
      else if c = CHR ''/'' \<and> s \<noteq> [] \<and> hd s = CHR ''/'' then scan_argument_from closers (skip_line (tl s))
      else if c = CHR ''/'' \<and> s \<noteq> [] \<and> hd s = CHR ''*'' then
        (case skip_block (tl s) of None \<Rightarrow> None | Some r \<Rightarrow> scan_argument_from closers r)
      else if opens c \<or> c = CHR ''('' then scan_argument_from (closer_of c # closers) s
      else if closes c \<or> c = CHR '')'' then
        (case closers of
           [] \<Rightarrow> if c = CHR '')'' then Some (c # s) else None
         | e # es \<Rightarrow> if e \<noteq> c then None else scan_argument_from es s)
      else if c = CHR '','' \<and> closers = [] then Some (c # s)
      else scan_argument_from closers s)"
  by pat_completeness auto
termination
  by (relation "measure (\<lambda>(_, s). length s)")
    (auto dest!: skip_string_shorter skip_block_shorter intro: le_less_trans [OF skip_line_shorter]
      simp: neq_Nil_conv less_Suc_eq_le, (meson le_SucI less_imp_le skip_line_shorter)+)

text \<open>\<open>None\<close> is the \<open>npos\<close> of an unterminated comment.\<close>

function skip_call_trivia :: "bytes \<Rightarrow> bytes option" where
  "skip_call_trivia [] = Some []"
| "skip_call_trivia (c # s) =
     (if is_space c then skip_call_trivia s
      else if c \<noteq> CHR ''/'' \<or> s = [] then Some (c # s)
      else if hd s = CHR ''/'' then skip_call_trivia (dropWhile (\<lambda>x. x \<noteq> chr_lf) (tl s))
      else if hd s = CHR ''*'' then
        (case skip_block (tl s) of None \<Rightarrow> None | Some r \<Rightarrow> skip_call_trivia r)
      else Some (c # s))"
  by pat_completeness auto
termination
  by (relation "measure length")
    (auto dest!: skip_block_shorter simp: neq_Nil_conv less_Suc_eq_le intro: le_SucI [OF length_dropWhile_le])

text \<open>The argument loop: \<open>None\<close> when the call does not have the argument, else the view returned.\<close>

primrec call_argument :: "nat \<Rightarrow> bytes \<Rightarrow> bytes option" where
  "call_argument 0 s =
     (case skip_call_trivia s of
        None \<Rightarrow> None
      | Some a \<Rightarrow>
          if a = [] \<or> hd a = CHR '')'' then None
          else if \<not> opens (hd a) then None
          else Some (take (scan_balanced a) a))"
| "call_argument (Suc n) s =
     (case skip_call_trivia s of
        None \<Rightarrow> None
      | Some a \<Rightarrow>
          if a = [] \<or> hd a = CHR '')'' then None
          else case scan_argument_from [] a of
            None \<Rightarrow> None
          | Some d \<Rightarrow> if hd d \<noteq> CHR '','' then None else call_argument n (tl d))"

definition call_at :: "bytes \<Rightarrow> nat \<Rightarrow> bytes \<Rightarrow> nat \<Rightarrow> bytes option" where
  "call_at callee n t p =
     (let e = p + length callee in
      if (0 < p \<and> is_ident_char (t ! (p - 1))) \<or> (e < length t \<and> is_ident_char (t ! e)) then None
      else case skip_call_trivia (drop e t) of
        None \<Rightarrow> None
      | Some a \<Rightarrow> if a = [] \<or> hd a \<noteq> CHR ''('' then None else call_argument n (tl a))"

function scan_call_from :: "bytes \<Rightarrow> nat \<Rightarrow> bytes \<Rightarrow> nat \<Rightarrow> bytes" where
  "scan_call_from callee n t pos =
     (case find_from callee t pos of
        None \<Rightarrow> []
      | Some p \<Rightarrow> (case call_at callee n t p of None \<Rightarrow> scan_call_from callee n t (Suc p) | Some view \<Rightarrow> view))"
  by pat_completeness auto
termination
  by (relation "measure (\<lambda>(callee, n, t, pos). Suc (length t) - pos)")
    (auto dest: search_advances)

declare scan_call_from.simps [simp del]

definition find_json_call_argument :: "bytes \<Rightarrow> nat \<Rightarrow> bytes \<Rightarrow> bytes" where
  "find_json_call_argument callee n t = (if callee = [] then [] else scan_call_from callee n t 0)"

section \<open>Rewriting to JSON\<close>

text \<open>Each copies from behind the opening delimiter and yields the output and what is left.\<close>

fun copy_double :: "bytes \<Rightarrow> bytes \<times> bytes" where
  "copy_double [] = ([], [])"
| "copy_double [c] = ([c], [])"
| "copy_double (c # d # s) =
     (if c = chr_bslash then (let (out, r) = copy_double s in (c # d # out, r))
      else if c = chr_dquote then ([c], d # s)
      else (let (out, r) = copy_double (d # s) in (c # out, r)))"

fun copy_single :: "bytes \<Rightarrow> bytes \<times> bytes" where
  "copy_single [] = ([], [])"
| "copy_single [c] =
     (if c = chr_quote then ([chr_dquote], [])
      else if c = chr_dquote then ([chr_bslash, c], [])
      else ([c], []))"
| "copy_single (c # d # s) =
     (if c = chr_bslash then
        (let (out, r) = copy_single s in ((if d = chr_quote then [chr_quote] else [chr_bslash, d]) @ out, r))
      else if c = chr_quote then ([chr_dquote], d # s)
      else (let (out, r) = copy_single (d # s) in ((if c = chr_dquote then [chr_bslash, c] else [c]) @ out, r)))"

fun copy_block :: "bytes \<Rightarrow> bytes \<times> bytes" where
  "copy_block (c # d # s) =
     (if c = CHR ''*'' \<and> d = CHR ''/'' then ([c, d], s)
      else (let (out, r) = copy_block (d # s) in (c # out, r)))"
| "copy_block s = (s, [])"

lemma copy_double_shorter: "length (snd (copy_double s)) \<le> length s"
  by (induction s rule: copy_double.induct) (auto split: prod.splits)

lemma copy_single_shorter: "length (snd (copy_single s)) \<le> length s"
  by (induction s rule: copy_single.induct) (auto split: prod.splits)

lemma copy_block_shorter: "length (snd (copy_block s)) \<le> length s"
  by (induction s rule: copy_block.induct) (auto split: prod.splits)

function normalize_js_to_json :: "bytes \<Rightarrow> bytes" where
  "normalize_js_to_json [] = []"
| "normalize_js_to_json (c # s) =
     (if c = chr_dquote then c # fst (copy_double s) @ normalize_js_to_json (snd (copy_double s))
      else if c = chr_quote then chr_dquote # fst (copy_single s) @ normalize_js_to_json (snd (copy_single s))
      else if c = CHR ''/'' \<and> s \<noteq> [] \<and> hd s = CHR ''/'' then
        c # hd s # takeWhile (\<lambda>x. x \<noteq> chr_lf) (tl s) @ normalize_js_to_json (dropWhile (\<lambda>x. x \<noteq> chr_lf) (tl s))
      else if c = CHR ''/'' \<and> s \<noteq> [] \<and> hd s = CHR ''*'' then
        c # hd s # fst (copy_block (tl s)) @ normalize_js_to_json (snd (copy_block (tl s)))
      else c # normalize_js_to_json s)"
  by pat_completeness auto
termination
  by (relation "measure length")
    (auto simp: less_Suc_eq_le neq_Nil_conv copy_double_shorter copy_single_shorter
      intro: le_SucI [OF copy_block_shorter] le_SucI [OF length_dropWhile_le])

definition parse_json_var :: "(bytes \<Rightarrow> 'j option) \<Rightarrow> bytes \<Rightarrow> bytes \<Rightarrow> 'j option" where
  "parse_json_var json name t =
     (let slice = find_json_var name t in if slice = [] then None else json (normalize_js_to_json slice))"

definition parse_json_call_argument :: "(bytes \<Rightarrow> 'j option) \<Rightarrow> bytes \<Rightarrow> nat \<Rightarrow> bytes \<Rightarrow> 'j option" where
  "parse_json_call_argument json callee n t =
     (let slice = find_json_call_argument callee n t in if slice = [] then None else json (normalize_js_to_json slice))"

section \<open>What a literal is\<close>

text \<open>
  The scanners against a grammar. A string body holds no unescaped closing quote; a block comment
  ends at the first \<open>*/\<close>. \<open>literal s r\<close>: the text \<open>s\<close> starts with a bracketed literal and \<open>r\<close> is what
  follows it; \<open>items s r\<close>: between \<open>s\<close> and \<open>r\<close> there are whole strings, comments, literals and other
  characters.
\<close>

inductive str_body :: "char \<Rightarrow> bytes \<Rightarrow> bool" for q where
  sb_nil: "str_body q []"
| sb_plain: "c \<noteq> q \<Longrightarrow> c \<noteq> chr_bslash \<Longrightarrow> str_body q b \<Longrightarrow> str_body q (c # b)"
| sb_escape: "str_body q b \<Longrightarrow> str_body q (chr_bslash # c # b)"

definition block_body :: "bytes \<Rightarrow> bool" where
  "block_body b \<longleftrightarrow> (\<forall>k < length b. \<not> starts_with (drop k (b @ ''*/'')) ''*/'')"

definition comment_start :: "char \<Rightarrow> bytes \<Rightarrow> bool" where
  "comment_start c s \<longleftrightarrow> c = CHR ''/'' \<and> s \<noteq> [] \<and> (hd s = CHR ''/'' \<or> hd s = CHR ''*'')"

inductive literal :: "bytes \<Rightarrow> bytes \<Rightarrow> bool" and items :: "bytes \<Rightarrow> bytes \<Rightarrow> bool" where
  lit: "opens b \<Longrightarrow> items s (closer_of b # r) \<Longrightarrow> literal (b # s) r"
| it_done: "items s s"
| it_string: "is_quote q \<Longrightarrow> str_body q b \<Longrightarrow> items s r \<Longrightarrow> items (q # b @ q # s) r"
| it_line: "chr_lf \<notin> set l \<Longrightarrow> items s r \<Longrightarrow> items (CHR ''/'' # CHR ''/'' # l @ chr_lf # s) r"
| it_block: "block_body b \<Longrightarrow> items s r \<Longrightarrow> items (CHR ''/'' # CHR ''*'' # b @ CHR ''*'' # CHR ''/'' # s) r"
| it_literal: "literal s s' \<Longrightarrow> items s' r \<Longrightarrow> items s r"
| it_plain: "\<not> is_quote c \<Longrightarrow> \<not> opens c \<Longrightarrow> \<not> closes c \<Longrightarrow> \<not> comment_start c s \<Longrightarrow> items s r \<Longrightarrow> items (c # s) r"

lemma skip_string_body: "str_body q b \<Longrightarrow> q \<noteq> chr_bslash \<Longrightarrow> skip_string q (b @ q # r) = Some r"
proof (induction rule: str_body.induct)
  case sb_nil
  then show ?case by (cases r) auto
next
  case (sb_plain c b)
  then show ?case by (cases b) auto
next
  case (sb_escape b c)
  then show ?case by simp
qed

lemma skip_string_Some: "skip_string q s = Some r \<Longrightarrow> \<exists>b. str_body q b \<and> s = b @ q # r"
proof (induction q s rule: skip_string.induct)
  case (2 q c)
  then show ?case by (auto split: if_splits intro: exI [of _ "[]"] sb_nil)
next
  case (3 q c d s)
  consider "c = chr_bslash" | "c \<noteq> chr_bslash" "c = q" | "c \<noteq> chr_bslash" "c \<noteq> q" by blast
  then show ?case
  proof cases
    case 1
    then obtain b where "str_body q b" "s = b @ q # r" using 3 by auto
    then show ?thesis using 1 by (intro exI [of _ "c # d # b"]) (auto intro: sb_escape)
  next
    case 2
    then show ?thesis using 3 by (intro exI [of _ "[]"]) (auto intro: sb_nil)
  next
    case c3: 3
    then obtain b where "str_body q b" "d # s = b @ q # r" using 3 by auto
    then show ?thesis using c3 by (intro exI [of _ "c # b"]) (auto intro: sb_plain)
  qed
qed simp

lemma block_body_Cons:
  "block_body (c # b) \<longleftrightarrow> \<not> (c = CHR ''*'' \<and> hd (b @ ''*/'') = CHR ''/'') \<and> block_body b"
proof -
  have "(\<forall>k < length (c # b). P k) \<longleftrightarrow> P 0 \<and> (\<forall>k < length b. P (Suc k))" for P
    by (auto simp: less_Suc_eq_0_disj)
  moreover have "starts_with (c # b @ ''*/'') ''*/'' \<longleftrightarrow> c = CHR ''*'' \<and> hd (b @ ''*/'') = CHR ''/''"
    by (cases b) (auto simp: starts_with_def)
  ultimately show ?thesis by (simp add: block_body_def)
qed

lemma skip_block_body: "block_body b \<Longrightarrow> skip_block (b @ CHR ''*'' # CHR ''/'' # r) = Some r"
proof (induction b)
  case (Cons c b)
  then show ?case by (cases b) (auto simp: block_body_Cons)
qed simp

lemma skip_block_Some: "skip_block s = Some r \<Longrightarrow> \<exists>b. block_body b \<and> s = b @ CHR ''*'' # CHR ''/'' # r"
proof (induction s rule: skip_block.induct)
  case (1 x y s)
  show ?case
  proof (cases "x = CHR ''*'' \<and> y = CHR ''/''")
    case True
    then show ?thesis using 1 by (intro exI [of _ "[]"]) (auto simp: block_body_def)
  next
    case False
    then obtain b where "block_body b" "y # s = b @ CHR ''*'' # CHR ''/'' # r" using 1 by auto
    then show ?thesis using False
      by (intro exI [of _ "x # b"]) (cases b; auto simp: block_body_Cons)
  qed
qed simp_all

lemma skip_line_body: "chr_lf \<notin> set l \<Longrightarrow> skip_line (l @ chr_lf # r) = r"
  by (induction l) (auto simp: skip_line_def)

lemma skip_line_cases: "(\<exists>l. chr_lf \<notin> set l \<and> s = l @ chr_lf # skip_line s) \<or> skip_line s = []"
proof (cases "chr_lf \<in> set s")
  case True
  then obtain l r where "s = l @ chr_lf # r" "chr_lf \<notin> set l" by (meson split_list_first)
  then show ?thesis using skip_line_body by metis
next
  case False
  then have "dropWhile (\<lambda>c. c \<noteq> chr_lf) s = []" unfolding dropWhile_eq_Nil_conv by blast
  then show ?thesis unfolding skip_line_def by (simp only: drop_Nil simp_thms)
qed

lemma quote_not_bslash: "is_quote q \<Longrightarrow> q \<noteq> chr_bslash"
  by (auto simp: is_quote_def)

lemma quote_plain: "is_quote q \<Longrightarrow> \<not> opens q \<and> \<not> closes q"
  by (auto simp: is_quote_def opens_def closes_def)

lemma opens_plain: "opens b \<Longrightarrow> \<not> is_quote b \<and> b \<noteq> CHR ''/'' \<and> \<not> closes b \<and> closes (closer_of b)"
  by (auto simp: is_quote_def opens_def closes_def closer_of_def)

lemma closes_plain: "closes b \<Longrightarrow> \<not> is_quote b \<and> b \<noteq> CHR ''/'' \<and> \<not> opens b"
  by (auto simp: is_quote_def opens_def closes_def)

lemma scan_open: "opens b \<Longrightarrow> scan_from es (b # s) = scan_from (closer_of b # es) s"
  by (simp add: opens_plain)

lemma scan_close: "closes b \<Longrightarrow> scan_from (b # es) (b # s) = (if es = [] then Some s else scan_from es s)"
  by (simp add: closes_plain)

lemma scan_complete:
  "literal s r \<Longrightarrow> scan_from [] s = Some r \<and> (\<forall>e es. scan_from (e # es) s = scan_from (e # es) r)"
  "items s r \<Longrightarrow> \<forall>e es. scan_from (e # es) s = scan_from (e # es) r"
proof (induction rule: literal_items.inducts)
  case (lit b s r)
  then show ?case by (simp only: scan_open scan_close opens_plain) simp
next
  case (it_string q b s r)
  then show ?case by (simp add: skip_string_body quote_not_bslash)
next
  case (it_line l s r)
  then show ?case by (simp add: skip_line_body is_quote_def)
next
  case (it_block b s r)
  then show ?case by (simp add: skip_block_body is_quote_def)
next
  case (it_plain c s r)
  then show ?case by (auto simp: comment_start_def)
qed simp_all

lemma items_shorter: "literal s r \<Longrightarrow> length r < length s" "items s r \<Longrightarrow> length r \<le> length s"
  by (induction rule: literal_items.inducts) auto

text \<open>Every successful scan has walked over items up to the bracket it expected.\<close>

lemma scan_sound:
  "scan_from (e # es) s = Some r \<Longrightarrow>
     \<exists>s'. items s (e # s') \<and> (if es = [] then r = s' else scan_from es s' = Some r)"
proof (induction s arbitrary: e es rule: length_induct)
  case (1 s)
  note IH = "1.IH" [rule_format]
  show ?case
  proof (cases s)
    case Nil
    then show ?thesis using "1.prems" by simp
  next
    case (Cons c s1)
    consider (quote) "is_quote c" | (line) "c = CHR ''/''" "s1 \<noteq> []" "hd s1 = CHR ''/''"
      | (block) "c = CHR ''/''" "s1 \<noteq> []" "hd s1 = CHR ''*''"
      | (opener) "opens c" | (closer) "closes c"
      | (plain) "\<not> is_quote c" "\<not> opens c" "\<not> closes c" "\<not> comment_start c s1"
      unfolding comment_start_def by blast
    then show ?thesis
    proof cases
      case quote
      then obtain r1 where r1: "skip_string c s1 = Some r1" "scan_from (e # es) r1 = Some r"
        using "1.prems" Cons by (auto split: option.splits)
      obtain b where b: "str_body c b" "s1 = b @ c # r1" using skip_string_Some [OF r1(1)] by blast
      from IH [of r1 e es] r1 b Cons show ?thesis using it_string [OF quote b(1)] by fastforce
    next
      case line
      then obtain s2 where s2: "s1 = CHR ''/'' # s2" by (cases s1) auto
      then have scan: "scan_from (e # es) (skip_line s2) = Some r"
        using "1.prems" Cons line by (simp add: is_quote_def)
      then obtain l where l: "chr_lf \<notin> set l" "s2 = l @ chr_lf # skip_line s2"
        using skip_line_cases [of s2] by auto
      have "length (skip_line s2) < length s" using Cons s2 skip_line_shorter [of s2] by simp
      from IH [OF this scan] obtain s' where s': "items (skip_line s2) (e # s')"
        "if es = [] then r = s' else scan_from es s' = Some r" by blast
      have "items s (e # s')" using it_line [OF l(1) s'(1)] l(2) Cons line(1) s2 by simp
      then show ?thesis using s'(2) by blast
    next
      case block
      then obtain s2 where s2: "s1 = CHR ''*'' # s2" by (cases s1) auto
      then obtain r1 where r1: "skip_block s2 = Some r1" "scan_from (e # es) r1 = Some r"
        using "1.prems" Cons block by (auto simp: is_quote_def split: option.splits)
      obtain b where b: "block_body b" "s2 = b @ CHR ''*'' # CHR ''/'' # r1" using skip_block_Some [OF r1(1)] by blast
      from IH [of r1 e es] r1 b Cons s2 block show ?thesis using it_block [OF b(1)] by fastforce
    next
      case opener
      then have "scan_from (closer_of c # e # es) s1 = Some r" using "1.prems" Cons by (simp only: scan_open)
      with IH [of s1 "closer_of c" "e # es"] Cons obtain s2 where s2: "items s1 (closer_of c # s2)"
        "scan_from (e # es) s2 = Some r" by auto
      have "length s2 < length s" using items_shorter(2) [OF s2(1)] Cons by simp
      from IH [OF this s2(2)] show ?thesis
        using it_literal [OF lit [OF opener s2(1)]] Cons by blast
    next
      case closer
      then have "e = c" using "1.prems" Cons by (simp add: closes_plain split: if_splits)
      moreover from this have "if es = [] then r = s1 else scan_from es s1 = Some r"
        using "1.prems" closer Cons by (simp only: scan_close split: if_splits) auto
      ultimately show ?thesis using it_done Cons by blast
    next
      case plain
      then have "scan_from (e # es) s1 = Some r" using "1.prems" Cons by (auto simp: comment_start_def split: if_splits)
      with IH [of s1 e es] Cons obtain s' where s': "items s1 (e # s')"
        "if es = [] then r = s' else scan_from es s' = Some r" by auto
      then show ?thesis using it_plain [OF plain s'(1)] Cons by blast
    qed
  qed
qed

lemma scan_from_literal: "opens b \<Longrightarrow> scan_from [] (b # s) = Some r \<longleftrightarrow> literal (b # s) r"
  using scan_complete(1) [of "b # s" r] scan_sound [of "closer_of b" "[]" s r] lit [of b s]
  by (auto simp only: scan_open if_True simp_thms)

lemma literal_suffix: "literal s r \<Longrightarrow> \<exists>p. s = p @ r" "items s r \<Longrightarrow> \<exists>p. s = p @ r"
proof (induction rule: literal_items.inducts)
  case (lit b s r)
  then obtain p where "s = p @ closer_of b # r" by blast
  then show ?case by (intro exI [of _ "b # p @ [closer_of b]"]) simp
next
  case (it_string q b s r)
  then obtain p where "s = p @ r" by blast
  then show ?case by (intro exI [of _ "q # b @ q # p"]) simp
next
  case (it_line l s r)
  then obtain p where "s = p @ r" by blast
  then show ?case by (intro exI [of _ "CHR ''/'' # CHR ''/'' # l @ chr_lf # p"]) simp
next
  case (it_block b s r)
  then obtain p where "s = p @ r" by blast
  then show ?case by (intro exI [of _ "CHR ''/'' # CHR ''*'' # b @ CHR ''*'' # CHR ''/'' # p"]) simp
next
  case (it_literal s s' r)
  then show ?case by (metis append.assoc)
next
  case (it_plain c s r)
  then obtain p where "s = p @ r" by blast
  then show ?case by (intro exI [of _ "c # p"]) simp
qed simp

lemma scan_balanced_pos:
  assumes "opens b" "0 < scan_balanced (b # s)"
  shows "literal (b # s) (drop (scan_balanced (b # s)) (b # s)) \<and> scan_balanced (b # s) \<le> length (b # s)"
proof -
  from assms(2) obtain r where r: "scan_from [] (b # s) = Some r" by (auto simp: scan_balanced_def split: option.splits)
  have "literal (b # s) r" using r scan_from_literal [OF assms(1)] by simp
  moreover from literal_suffix(1) [OF this] obtain p where p: "b # s = p @ r" by blast
  have "scan_balanced (b # s) = length (b # s) - length r" using r by (simp only: scan_balanced_def option.case)
  moreover from this have "scan_balanced (b # s) = length p" unfolding p by simp
  moreover have "drop (length p) (b # s) = r" "length p \<le> length (b # s)" unfolding p by simp_all
  ultimately show ?thesis by (simp only: simp_thms)
qed

section \<open>What rewriting preserves\<close>

text \<open>The value of a string whose opening quote \<open>q\<close> has been read: escapes are interpreted by \<open>esc\<close>.\<close>

fun string_value :: "(char \<Rightarrow> char) \<Rightarrow> char \<Rightarrow> bytes \<Rightarrow> (bytes \<times> bytes) option" where
  "string_value esc q [] = None"
| "string_value esc q [c] = (if c \<noteq> chr_bslash \<and> c = q then Some ([], []) else None)"
| "string_value esc q (c # d # s) =
     (if c = chr_bslash then map_option (apfst (Cons (esc d))) (string_value esc q s)
      else if c = q then Some ([], d # s)
      else map_option (apfst (Cons c)) (string_value esc q (d # s)))"

lemma value_plain: "c \<noteq> chr_bslash \<Longrightarrow> c \<noteq> q \<Longrightarrow>
    string_value esc q (c # t) = map_option (apfst (Cons c)) (string_value esc q t)"
  by (cases t) auto

lemma value_close: "q \<noteq> chr_bslash \<Longrightarrow> string_value esc q (q # t) = Some ([], t)"
  by (cases t) auto

lemma copy_single_value:
  assumes "esc chr_quote = chr_quote" "esc chr_dquote = chr_dquote"
  shows "string_value esc chr_quote s = Some (v, r) \<Longrightarrow>
    snd (copy_single s) = r \<and> string_value esc chr_dquote (fst (copy_single s) @ t) = Some (v, t)"
proof (induction s arbitrary: v rule: copy_single.induct)
  case (2 c)
  then show ?case by (auto simp: value_close split: if_splits)
next
  case (3 c d s)
  consider "c = chr_bslash" | "c = chr_quote" | "c \<noteq> chr_bslash" "c \<noteq> chr_quote" by blast
  then show ?case
  proof cases
    case 1
    then obtain w where w: "string_value esc chr_quote s = Some (w, r)" "v = esc d # w"
      using "3.prems" by auto
    then show ?thesis using "3.IH"(1) [OF 1 w(1)] 1 assms by (auto simp: value_plain split: prod.split)
  next
    case 2
    then show ?thesis using "3.prems" by (auto simp: value_close)
  next
    case c3: 3
    then obtain w where w: "string_value esc chr_quote (d # s) = Some (w, r)" "v = c # w"
      using "3.prems" by auto
    then show ?thesis using "3.IH"(2) [OF c3 w(1)] c3 assms by (auto simp: value_plain split: prod.split)
  qed
qed simp

lemma copy_double_append [simp]: "fst (copy_double s) @ snd (copy_double s) = s"
  by (induction s rule: copy_double.induct) (auto split: prod.splits)

lemma copy_block_append [simp]: "fst (copy_block s) @ snd (copy_block s) = s"
  by (induction s rule: copy_block.induct) (auto split: prod.splits)

lemma copy_subsets: "set (snd (copy_double s)) \<subseteq> set s" "set (snd (copy_block s)) \<subseteq> set s"
  "set (dropWhile P s) \<subseteq> set s"
  by (metis Un_upper2 copy_double_append set_append, metis Un_upper2 copy_block_append set_append,
      metis set_dropWhileD subsetI)

lemma normalize_id: "chr_quote \<notin> set s \<Longrightarrow> normalize_js_to_json s = s"
proof (induction s rule: normalize_js_to_json.induct)
  case (2 c s)
  have t: "set (tl s) \<subseteq> set s" by (cases s) auto
  have ne: "chr_quote \<notin> set s" "c \<noteq> chr_quote" using "2.prems" by auto
  have d: "chr_quote \<notin> set (snd (copy_double s))" "chr_quote \<notin> set (snd (copy_block (tl s)))"
    "chr_quote \<notin> set (dropWhile (\<lambda>x. x \<noteq> chr_lf) (tl s))"
    using ne(1) t copy_subsets by blast+
  show ?case using "2.IH" d ne
    by (cases s) (auto simp: append_assoc [symmetric] simp del: append_assoc)
qed simp

text \<open>What copying produced is a double-quoted string, or an unterminated one that reaches the end.\<close>

definition recopied :: "(bytes \<Rightarrow> bytes \<times> bytes) \<Rightarrow> bytes \<Rightarrow> bytes \<Rightarrow> bool" where
  "recopied copy out r \<longleftrightarrow> (\<forall>t. copy (out @ t) = (out, t)) \<or> (r = [] \<and> copy out = (out, []))"

lemma recopied_rest: "recopied copy out r \<Longrightarrow> (r = [] \<longrightarrow> t = []) \<Longrightarrow> copy (out @ t) = (out, t)"
  by (auto simp: recopied_def)

lemma copy_double_plain: "c \<noteq> chr_bslash \<Longrightarrow> c \<noteq> chr_dquote \<Longrightarrow>
    copy_double (c # t) = (c # fst (copy_double t), snd (copy_double t))"
  by (cases t) (auto split: prod.split)

lemma copy_double_close: "copy_double (chr_dquote # t) = ([chr_dquote], t)"
  by (cases t) auto

lemma recopied_plain: "c \<noteq> chr_bslash \<Longrightarrow> c \<noteq> chr_dquote \<Longrightarrow> recopied copy_double out r \<Longrightarrow> recopied copy_double (c # out) r"
  by (auto simp: recopied_def copy_double_plain)

lemma recopied_escape: "recopied copy_double out r \<Longrightarrow> recopied copy_double (chr_bslash # d # out) r"
  by (auto simp: recopied_def split: prod.split)

lemma recopied_close: "recopied copy_double [chr_dquote] r"
  by (simp add: recopied_def copy_double_close)

lemma recopied_end: "c \<noteq> chr_dquote \<Longrightarrow> recopied copy_double [c] []" "recopied copy_double [] []"
  "recopied copy_double [chr_bslash, d] []"
  by (simp_all add: recopied_def)

lemmas recopied_rules = recopied_plain recopied_escape recopied_close recopied_end

lemma recopied_double: "recopied copy_double (fst (copy_double s)) (snd (copy_double s))"
proof (induction s rule: copy_double.induct)
  case (2 c)
  then show ?case by (cases "c = chr_dquote") (simp_all add: recopied_rules)
next
  case (3 c d s)
  consider "c = chr_bslash" | "c = chr_dquote" | "c \<noteq> chr_bslash" "c \<noteq> chr_dquote" by blast
  then show ?case by cases (use 3 in \<open>simp_all add: split_def Let_def recopied_rules\<close>)
qed (simp add: recopied_rules)

lemma recopied_single: "recopied copy_double (fst (copy_single s)) (snd (copy_single s))"
proof (induction s rule: copy_single.induct)
  case (2 c)
  then show ?case by (simp add: recopied_rules)
next
  case (3 c d s)
  consider "c = chr_bslash" | "c = chr_quote" | "c = chr_dquote" | "c \<noteq> chr_bslash" "c \<noteq> chr_dquote" "c \<noteq> chr_quote" by blast
  then show ?case by cases (use 3 in \<open>simp_all add: split_def Let_def recopied_rules\<close>)
qed (simp add: recopied_rules)

lemma copy_block_hd: "\<exists>out. fst (copy_block (d # s)) = d # out"
  by (cases s) (auto simp: split_def Let_def)

lemma recopied_block: "recopied copy_block (fst (copy_block s)) (snd (copy_block s))"
proof (induction s rule: copy_block.induct)
  case (1 c d s)
  show ?case
  proof (cases "c = CHR ''*'' \<and> d = CHR ''/''")
    case True
    then show ?thesis by (simp add: recopied_def)
  next
    case False
    obtain out where out: "fst (copy_block (d # s)) = d # out" using copy_block_hd by blast
    have "copy_block (c # d # out @ t) = (c # fst (copy_block (d # out @ t)), snd (copy_block (d # out @ t)))" for t
      using False by (auto simp: split_def Let_def)
    moreover from this [of "[]"] have "copy_block (c # d # out) = (c # fst (copy_block (d # out)), snd (copy_block (d # out)))"
      by simp
    ultimately show ?thesis using "1.IH" [OF False] False out by (auto simp: recopied_def split_def Let_def)
  qed
qed (simp_all add: recopied_def)

lemma normalize_hd: "normalize_js_to_json (c # s) = [] \<Longrightarrow> False"
  "hd (normalize_js_to_json (c # s)) = (if c = chr_quote then chr_dquote else c)"
  by (simp_all split: if_splits)

lemma normalize_Nil_iff: "normalize_js_to_json s = [] \<longleftrightarrow> s = []"
  using normalize_hd(1) by (cases s) auto

lemma normalize_double: "normalize_js_to_json (chr_dquote # s) =
    chr_dquote # fst (copy_double s) @ normalize_js_to_json (snd (copy_double s))"
  by simp

lemma normalize_lf: "normalize_js_to_json (dropWhile (\<lambda>x. x \<noteq> chr_lf) s) = [] \<and> dropWhile (\<lambda>x. x \<noteq> chr_lf) s = [] \<or>
    (\<exists>t. normalize_js_to_json (dropWhile (\<lambda>x. x \<noteq> chr_lf) s) = chr_lf # t)"
proof (cases "dropWhile (\<lambda>x. x \<noteq> chr_lf) s")
  case (Cons c t)
  then have "c = chr_lf" using hd_dropWhile [of "\<lambda>x. x \<noteq> chr_lf" s] by simp
  then show ?thesis using Cons by simp
next
  case Nil
  show ?thesis unfolding Nil by simp
qed

lemma takeWhile_lf:
  "N = [] \<or> (\<exists>t. N = chr_lf # t) \<Longrightarrow> takeWhile (\<lambda>x. x \<noteq> chr_lf) (takeWhile (\<lambda>x. x \<noteq> chr_lf) s @ N) = takeWhile (\<lambda>x. x \<noteq> chr_lf) s"
  "N = [] \<or> (\<exists>t. N = chr_lf # t) \<Longrightarrow> dropWhile (\<lambda>x. x \<noteq> chr_lf) (takeWhile (\<lambda>x. x \<noteq> chr_lf) s @ N) = N"
  by (induction s) auto

lemma normalize_idem: "normalize_js_to_json (normalize_js_to_json s) = normalize_js_to_json s"
proof (induction s rule: normalize_js_to_json.induct)
  case (2 c s)
  consider (double) "c = chr_dquote" | (single) "c = chr_quote"
    | (line) "c = CHR ''/''" "s \<noteq> []" "hd s = CHR ''/''" | (block) "c = CHR ''/''" "s \<noteq> []" "hd s = CHR ''*''"
    | (plain) "c \<noteq> chr_dquote" "c \<noteq> chr_quote" "\<not> (c = CHR ''/'' \<and> s \<noteq> [] \<and> hd s = CHR ''/'')"
        "\<not> (c = CHR ''/'' \<and> s \<noteq> [] \<and> hd s = CHR ''*'')" by blast
  then show ?case
  proof cases
    case double
    let ?N = "normalize_js_to_json (snd (copy_double s))"
    have "copy_double (fst (copy_double s) @ ?N) = (fst (copy_double s), ?N)"
      by (rule recopied_rest [OF recopied_double]) (simp add: normalize_Nil_iff)
    then show ?thesis using "2.IH"(1) double by simp
  next
    case single
    let ?N = "normalize_js_to_json (snd (copy_single s))"
    have "copy_double (fst (copy_single s) @ ?N) = (fst (copy_single s), ?N)"
      by (rule recopied_rest [OF recopied_single]) (simp add: normalize_Nil_iff)
    then show ?thesis using "2.IH"(2) single by simp
  next
    case line
    let ?N = "normalize_js_to_json (dropWhile (\<lambda>x. x \<noteq> chr_lf) (tl s))"
    have "?N = [] \<or> (\<exists>t. ?N = chr_lf # t)" using normalize_lf [of "tl s"] by auto
    then show ?thesis using "2.IH"(3) line by (simp add: takeWhile_lf)
  next
    case block
    let ?N = "normalize_js_to_json (snd (copy_block (tl s)))"
    have "copy_block (fst (copy_block (tl s)) @ ?N) = (fst (copy_block (tl s)), ?N)"
      by (rule recopied_rest [OF recopied_block]) (simp add: normalize_Nil_iff)
    then show ?thesis using "2.IH"(4) block by simp
  next
    case plain
    have "normalize_js_to_json s \<noteq> [] \<longrightarrow> s \<noteq> [] \<and> hd (normalize_js_to_json s) = (if hd s = chr_quote then chr_dquote else hd s)"
      by (cases s) (simp, simp only: normalize_hd(2) list.sel simp_thms list.distinct)
    then show ?thesis using "2.IH"(5) plain by (auto split: if_splits)
  qed
qed simp

section \<open>Where the finders look\<close>

lemma suffix_skips:
  "skip_string q s = Some r \<Longrightarrow> suffix r s" "skip_block s = Some r \<Longrightarrow> suffix r s" "suffix (skip_line s) s"
  "suffix (dropWhile P s) s" "suffix (tl s) s"
  subgoal using skip_string_Some [of q s r] by (auto simp: suffix_def)
  subgoal using skip_block_Some [of s r] by (auto simp: suffix_def)
  subgoal unfolding skip_line_def by (metis suffix_def append_assoc append_take_drop_id takeWhile_dropWhile_id)
  subgoal unfolding suffix_def by (metis takeWhile_dropWhile_id)
  subgoal by (rule suffix_tl)
  done

lemma suffix_ConsD2: "suffix r s \<Longrightarrow> suffix r (c # s)"
  by (rule suffix_ConsI)

lemmas suffix_through = suffix_order.trans [OF _ suffix_skips(3)] suffix_order.trans [OF _ suffix_skips(4)]
  suffix_order.trans [OF _ suffix_skips(5)]

lemma suffix_trivia: "skip_call_trivia s = Some r \<Longrightarrow> suffix r s"
proof (induction s rule: skip_call_trivia.induct)
  case (2 c s)
  have line: "suffix r s" if "suffix r (dropWhile (\<lambda>x. x \<noteq> chr_lf) (tl s))"
    using that suffix_through by blast
  have block: "suffix r s" if "suffix r u" "skip_block (tl s) = Some u" for u
    using that suffix_skips(2,5) suffix_order.trans by blast
  show ?case using 2 by (auto split: if_splits option.splits dest: line block intro: suffix_ConsD2)
qed simp

lemma suffix_argument: "scan_argument_from cs s = Some r \<Longrightarrow> suffix r s"
proof (induction cs s rule: scan_argument_from.induct)
  case (2 cs c s)
  have quote: "suffix r s" if "suffix r u" "skip_string c s = Some u" for u
    using that suffix_skips(1) suffix_order.trans by blast
  have line: "suffix r s" if "suffix r (skip_line (tl s))"
    using that suffix_through by blast
  have block: "suffix r s" if "suffix r u" "skip_block (tl s) = Some u" for u
    using that suffix_skips(2,5) suffix_order.trans by blast
  show ?case using 2
    by (auto split: if_splits option.splits list.splits dest: quote line block intro: suffix_ConsD2)
qed simp

lemma call_argument_slice:
  "call_argument n s = Some v \<Longrightarrow> \<exists>a. suffix a s \<and> a \<noteq> [] \<and> opens (hd a) \<and> v = take (scan_balanced a) a"
proof (induction n arbitrary: s)
  case 0
  then show ?case using suffix_trivia by (auto split: option.splits if_splits)
next
  case (Suc n)
  then obtain a d where a: "skip_call_trivia s = Some a" "scan_argument_from [] a = Some d" "call_argument n (tl d) = Some v"
    by (auto split: option.splits if_splits)
  have "suffix (tl d) s"
    using suffix_trivia [OF a(1)] suffix_argument [OF a(2)] suffix_skips(5) suffix_order.trans by blast
  then show ?case using Suc.IH [OF a(3)] suffix_order.trans by blast
qed

lemma call_at_slice:
  assumes "call_at callee n t p = Some v"
  shows "\<exists>a. suffix a t \<and> a \<noteq> [] \<and> opens (hd a) \<and> v = take (scan_balanced a) a"
proof -
  from assms obtain u where u: "skip_call_trivia (drop (p + length callee) t) = Some u" "call_argument n (tl u) = Some v"
    by (auto simp: call_at_def Let_def split: if_splits option.splits)
  have "suffix (tl u) t"
    using suffix_trivia [OF u(1)] suffix_skips(5) suffix_drop suffix_order.trans by blast
  then show ?thesis using call_argument_slice [OF u(2)] suffix_order.trans by blast
qed

lemma scan_call_found:
  "scan_call_from callee n t pos \<noteq> [] \<Longrightarrow>
     \<exists>p. starts_with (drop p t) callee \<and> call_at callee n t p = Some (scan_call_from callee n t pos)"
proof (induction callee n t pos rule: scan_call_from.induct)
  case (1 callee n t pos)
  then obtain p where p: "find_from callee t pos = Some p"
    by (cases "find_from callee t pos") (auto simp: scan_call_from.simps [of callee n t pos])
  then have eq: "scan_call_from callee n t pos =
      (case call_at callee n t p of None \<Rightarrow> scan_call_from callee n t (Suc p) | Some view \<Rightarrow> view)"
    by (subst scan_call_from.simps) simp
  show ?case
  proof (cases "call_at callee n t p")
    case None
    then show ?thesis using 1 p eq by simp
  next
    case (Some v)
    then show ?thesis using p eq by (auto simp: find_from_Some)
  qed
qed

lemma scan_var_found:
  "scan_var_from name t pos \<noteq> [] \<Longrightarrow>
     \<exists>p k. starts_with (drop p t) name \<and> var_value_at name t p = Some k \<and> 0 < scan_balanced (drop k t) \<and>
       scan_var_from name t pos = take (scan_balanced (drop k t)) (drop k t)"
proof (induction name t pos rule: scan_var_from.induct)
  case (1 name t pos)
  then obtain p where p: "find_from name t pos = Some p" and ne: "name \<noteq> []"
    by (cases "find_from name t pos") (auto simp: scan_var_from.simps [of name t pos] split: if_splits)
  then have eq: "scan_var_from name t pos =
      (case var_value_at name t p of
         None \<Rightarrow> scan_var_from name t (p + length name)
       | Some k \<Rightarrow> if 0 < scan_balanced (drop k t) then take (scan_balanced (drop k t)) (drop k t)
           else scan_var_from name t (p + length name))"
    by (subst scan_var_from.simps) simp
  show ?case
  proof (cases "var_value_at name t p")
    case None
    then show ?thesis using 1 p ne eq by simp
  next
    case (Some k)
    show ?thesis
    proof (cases "0 < scan_balanced (drop k t)")
      case True
      then show ?thesis using Some p ne eq by (auto simp: find_from_Some)
    next
      case False
      then show ?thesis using 1 Some p ne eq by simp
    qed
  qed
qed

lemma var_value_opens: "var_value_at name t p = Some k \<Longrightarrow> drop k t = t ! k # drop (Suc k) t \<and> opens (t ! k)"
  by (auto simp: var_value_at_def Let_def not_le Cons_nth_drop_Suc split: if_splits)

lemma slice_literal:
  assumes "a \<noteq> []" "opens (hd a)" "take (scan_balanced a) a \<noteq> []"
  shows "literal a (drop (scan_balanced a) a)"
proof -
  have "0 < scan_balanced a" using assms(3) by (cases "scan_balanced a") auto
  then show ?thesis using scan_balanced_pos [of "hd a" "tl a"] assms(1,2) by simp
qed

lemma var_slice:
  assumes "find_json_var name t \<noteq> []"
  shows "\<exists>p k post. var_value_at name t p = Some k \<and> starts_with (drop p t) name \<and>
    drop k t = find_json_var name t @ post \<and> literal (drop k t) post"
proof -
  from scan_var_found assms obtain p k where k: "starts_with (drop p t) name" "var_value_at name t p = Some k"
    "find_json_var name t = take (scan_balanced (drop k t)) (drop k t)" unfolding find_json_var_def by blast
  have "literal (drop k t) (drop (scan_balanced (drop k t)) (drop k t))"
    by (rule slice_literal) (use var_value_opens [OF k(2)] k(3) assms in auto)
  moreover have "drop k t = find_json_var name t @ drop (scan_balanced (drop k t)) (drop k t)"
    by (simp add: k(3) del: drop_drop)
  ultimately show ?thesis using k by blast
qed

lemma call_slice:
  assumes "find_json_call_argument callee n t \<noteq> []"
  shows "\<exists>p pre post. call_at callee n t p = Some (find_json_call_argument callee n t) \<and> starts_with (drop p t) callee \<and>
    t = pre @ find_json_call_argument callee n t @ post \<and> literal (find_json_call_argument callee n t @ post) post"
proof -
  let ?v = "find_json_call_argument callee n t"
  have "scan_call_from callee n t 0 \<noteq> []" "?v = scan_call_from callee n t 0"
    using assms by (auto simp: find_json_call_argument_def split: if_splits)
  then obtain p where p: "starts_with (drop p t) callee" "call_at callee n t p = Some ?v"
    using scan_call_found by metis
  from call_at_slice [OF p(2)] obtain a where a: "suffix a t" "a \<noteq> []" "opens (hd a)" "?v = take (scan_balanced a) a" by blast
  have "literal a (drop (scan_balanced a) a)" by (rule slice_literal) (use a assms in auto)
  moreover have "a = ?v @ drop (scan_balanced a) a" by (simp add: a(4))
  ultimately show ?thesis using a(1) p unfolding suffix_def by metis
qed

lemma unique_remainder:
  fixes n m :: nat
  assumes "\<forall>r. L r \<longrightarrow> 0 < n \<and> n \<le> m \<and> r = D" "0 < n \<longrightarrow> L D \<and> n \<le> m"
  shows "(L r \<longleftrightarrow> 0 < n \<and> n \<le> m \<and> r = D) \<and> (n = 0 \<longleftrightarrow> (\<nexists>r. L r))"
  using assms by auto

section \<open>Properties\<close>

text \<open>C8: The bracket matcher against the grammar: from an opening bracket it returns the length of the
  bracketed literal there, strings, templates and comments inside skipped, and 0 exactly when
  no literal starts there. The literal at a place is unique.\<close>
theorem scan_balanced_literal:
  assumes "opens b"
  shows "(literal (b # s) r \<longleftrightarrow> 0 < scan_balanced (b # s) \<and> scan_balanced (b # s) \<le> length (b # s) \<and>
      r = drop (scan_balanced (b # s)) (b # s)) \<and>
    (scan_balanced (b # s) = 0 \<longleftrightarrow> (\<nexists>r. literal (b # s) r))"
proof -
  have "0 < scan_balanced (b # s) \<and> scan_balanced (b # s) \<le> length (b # s) \<and> r = drop (scan_balanced (b # s)) (b # s)"
    if l: "literal (b # s) r" for r
  proof -
    have "scan_balanced (b # s) = length (b # s) - length r"
      using l by (simp only: scan_balanced_def scan_from_literal [OF assms, symmetric] option.case)
    moreover have "length r < length (b # s)" by (rule items_shorter(1) [OF l])
    moreover obtain p where "b # s = p @ r" using literal_suffix(1) [OF l] by blast
    moreover from this have "drop (length (b # s) - length r) (b # s) = r" by simp
    ultimately show ?thesis by (metis diff_le_self zero_less_diff)
  qed
  then have "\<forall>r. literal (b # s) r \<longrightarrow> 0 < scan_balanced (b # s) \<and> scan_balanced (b # s) \<le> length (b # s) \<and>
      r = drop (scan_balanced (b # s)) (b # s)" by blast
  moreover have "0 < scan_balanced (b # s) \<longrightarrow> literal (b # s) (drop (scan_balanced (b # s)) (b # s)) \<and>
      scan_balanced (b # s) \<le> length (b # s)"
    using scan_balanced_pos [OF assms] by blast
  ultimately show ?thesis by (rule unique_remainder)
qed

theorem scan_balanced_literal_witness:
  "scan_balanced ''{a: [1], b: `}`} tail'' = 16 \<and> (\<exists>r. literal ''{a: [1], b: `}`} tail'' r)"
proof -
  have n: "scan_balanced ''{a: [1], b: `}`} tail'' = 16" by code_simp
  moreover have "opens CHR ''{''" by (simp add: opens_def)
  ultimately show ?thesis
    using scan_balanced_literal [of "CHR ''{''" "''a: [1], b: `}`} tail''"] by (simp del: scan_from.simps)
qed

text \<open>What the finders return is a literal of the text: a non-empty view is a slice that opens with a
  bracket and is the whole literal at that place, behind an assignment to the name or as the
  requested argument of a call, the name standing as a whole identifier.\<close>
theorem json_slices_are_literals:
  "(find_json_var name t \<noteq> [] \<longrightarrow>
     (\<exists>p k post. var_value_at name t p = Some k \<and> starts_with (drop p t) name \<and>
        drop k t = find_json_var name t @ post \<and> literal (drop k t) post)) \<and>
   (find_json_call_argument callee n t \<noteq> [] \<longrightarrow>
     (\<exists>p pre post. call_at callee n t p = Some (find_json_call_argument callee n t) \<and> starts_with (drop p t) callee \<and>
        t = pre @ find_json_call_argument callee n t @ post \<and> literal (find_json_call_argument callee n t @ post) post))"
  using var_slice [of name t] call_slice [of callee n t] by blast

theorem json_slices_are_literals_witness:
  "find_json_var ''d'' ''d=[1]'' = ''[1]'' \<and>
   (\<exists>post. literal (''[1]'' @ post) post)"
proof -
  have f: "find_from ''d'' ''d=[1]'' 0 = Some 0" "var_value_at ''d'' ''d=[1]'' 0 = Some 2" "scan_balanced ''[1]'' = 3"
    by code_simp+
  have v: "find_json_var ''d'' ''d=[1]'' = ''[1]''"
    unfolding find_json_var_def by (subst scan_var_from.simps) (simp add: f numeral_2_eq_2)
  then show ?thesis
    using json_slices_are_literals [of "''d''" "''d=[1]''" "''f''" 1] by auto
qed

text \<open>C9: Rewriting to JSON keeps every string's value: a terminated single-quoted string becomes a
  double-quoted one of the same value (whatever escapes mean, if escaped quotes mean themselves),
  followed by the rewriting of the rest; text without single quotes is unchanged, and rewriting
  twice is rewriting once.\<close>
theorem normalize_preserves_values:
  assumes "esc chr_quote = chr_quote" "esc chr_dquote = chr_dquote"
    and "string_value esc chr_quote s = Some (v, r)" and "chr_quote \<notin> set plain"
  shows "(\<exists>out. normalize_js_to_json (chr_quote # s) = chr_dquote # out \<and>
      string_value esc chr_dquote out = Some (v, normalize_js_to_json r)) \<and>
    normalize_js_to_json plain = plain \<and>
    normalize_js_to_json (normalize_js_to_json any) = normalize_js_to_json any"
  using copy_single_value [OF assms(1-3)] by (auto simp: normalize_id [OF assms(4)] normalize_idem)

theorem normalize_preserves_values_witness:
  "\<exists>out. normalize_js_to_json (chr_quote # ''say \"hi\"'' @ chr_quote # '', 1'') = chr_dquote # out \<and>
     string_value id chr_dquote out = Some (''say \"hi\"'', normalize_js_to_json '', 1'')"
proof -
  have "string_value id chr_quote (''say \"hi\"'' @ chr_quote # '', 1'') = Some (''say \"hi\"'', '', 1'')" by simp
  from normalize_preserves_values [OF _ _ this, of "[]"] show ?thesis by simp
qed

end
