(* ===== verification/Iso_Time.thy ===== *)
theory Iso_Time
  imports Decimal
begin

text \<open>
  \<open>src/utility/Time.cpp\<close>: ISO 8601 timestamps. A cursor over the text is passed along; on failure
  the whole parse fails, so what was consumed does not matter. Time points are ticks since the
  epoch of a 64-bit \<open>system_clock\<close> with \<open>tps\<close> ticks per second.
\<close>

section \<open>Reading fields\<close>

definition take_digits :: "nat \<Rightarrow> bytes \<Rightarrow> (nat \<times> bytes) option" where
  "take_digits digits s =
     (if length s < digits then None
      else if s \<noteq> [] \<and> (hd s = CHR ''+'' \<or> hd s = CHR ''-'') then None
      else if list_all is_digit (take digits s) then Some (dec_value (take digits s), drop digits s)
      else None)"

definition take_char :: "char \<Rightarrow> bytes \<Rightarrow> bool \<times> bytes" where
  "take_char expected s =
     (case s of [] \<Rightarrow> (False, s) | c # r \<Rightarrow> if c = expected then (True, r) else (False, s))"

section \<open>Calendar\<close>

text \<open>\<open>year_month_day::ok\<close> and \<open>sys_days\<close> of \<open>std::chrono\<close>: the proleptic Gregorian calendar.\<close>

definition is_leap :: "nat \<Rightarrow> bool" where
  "is_leap y \<longleftrightarrow> y mod 4 = 0 \<and> (y mod 100 \<noteq> 0 \<or> y mod 400 = 0)"

definition month_length :: "nat \<Rightarrow> nat \<Rightarrow> nat" where
  "month_length y m =
     (if m = 2 then (if is_leap y then 29 else 28) else if m \<in> {4, 6, 9, 11} then 30 else 31)"

definition date_ok :: "nat \<Rightarrow> nat \<Rightarrow> nat \<Rightarrow> bool" where
  "date_ok y m d \<longleftrightarrow> 1 \<le> m \<and> m \<le> 12 \<and> 1 \<le> d \<and> d \<le> month_length y m"

definition days_before_year :: "nat \<Rightarrow> int" where
  "days_before_year y = 365 * int y + int ((y + 3) div 4) - int ((y + 99) div 100) + int ((y + 399) div 400)"

definition days_before_month :: "nat \<Rightarrow> nat \<Rightarrow> int" where
  "days_before_month y m = int (sum_list (map (month_length y) [1..<m]))"

text \<open>Days from 1 January 1970, which is day 719528 from 1 January of the year 0.\<close>

definition sys_days :: "nat \<Rightarrow> nat \<Rightarrow> nat \<Rightarrow> int" where
  "sys_days y m d = days_before_year y + days_before_month y m + int d - 1 - 719528"

section \<open>Parts of a timestamp\<close>

definition take_date :: "bytes \<Rightarrow> (int \<times> bytes) option" where
  "take_date s =
     (case take_digits 4 s of
        None \<Rightarrow> None
      | Some (year, s1) \<Rightarrow>
          (case take_char CHR ''-'' s1 of
             (False, _) \<Rightarrow> None
           | (True, s2) \<Rightarrow>
               (case take_digits 2 s2 of
                  None \<Rightarrow> None
                | Some (month, s3) \<Rightarrow>
                    (case take_char CHR ''-'' s3 of
                       (False, _) \<Rightarrow> None
                     | (True, s4) \<Rightarrow>
                         (case take_digits 2 s4 of
                            None \<Rightarrow> None
                          | Some (day, s5) \<Rightarrow>
                              if date_ok year month day then Some (sys_days year month day, s5) else None)))))"

text \<open>The loop over fraction digits: the scale left, the ticks so far, whether any digit was read.\<close>

fun fraction_loop :: "int \<Rightarrow> int \<Rightarrow> bool \<Rightarrow> bytes \<Rightarrow> int \<times> bool \<times> bytes" where
  "fraction_loop scale acc any [] = (acc, any, [])"
| "fraction_loop scale acc any (c # s) =
     (if is_digit c then
        (let scale' = scale div 10
         in fraction_loop scale' (if 0 < scale' then acc + int (digit_val c) * scale' else acc) True s)
      else (acc, any, c # s))"

definition take_fraction :: "int \<Rightarrow> bytes \<Rightarrow> (int \<times> bytes) option" where
  "take_fraction tps s =
     (let (dot, s1) = take_char CHR ''.'' s;
          (sep, s2) = (if dot then (True, s1) else take_char CHR '','' s)
      in if \<not> sep then Some (0, s)
         else let (fraction, any, s3) = fraction_loop tps 0 False s2
              in if any then Some (fraction, s3) else None)"

definition take_seconds :: "bytes \<Rightarrow> (nat \<times> bytes) option" where
  "take_seconds s =
     (case take_char CHR '':'' s of
        (False, _) \<Rightarrow> Some (0, s)
      | (True, s1) \<Rightarrow> take_digits 2 s1)"

definition take_time :: "int \<Rightarrow> bytes \<Rightarrow> (int \<times> bytes) option" where
  "take_time tps s =
     (case take_digits 2 s of
        None \<Rightarrow> None
      | Some (hour, s1) \<Rightarrow>
          (case take_char CHR '':'' s1 of
             (False, _) \<Rightarrow> None
           | (True, s2) \<Rightarrow>
               (case take_digits 2 s2 of
                  None \<Rightarrow> None
                | Some (minute, s3) \<Rightarrow>
                    (case take_seconds s3 of
                       None \<Rightarrow> None
                     | Some (second, s4) \<Rightarrow>
                         if 23 < hour \<or> 59 < minute \<or> 60 < second then None
                         else
                           (case take_fraction tps s4 of
                              None \<Rightarrow> None
                            | Some (fraction, s5) \<Rightarrow>
                                Some (int (hour * 3600 + minute * 60 + min second 59) * tps + fraction, s5))))))"

text \<open>The zone offset in minutes.\<close>

definition zone_minutes :: "bytes \<Rightarrow> (nat \<times> bytes) option" where
  "zone_minutes s =
     (if s = [] then Some (0, s) else take_digits 2 (snd (take_char CHR '':'' s)))"

definition take_zone :: "bytes \<Rightarrow> int option" where
  "take_zone s =
     (if s = [] then Some 0
      else if hd s = CHR ''Z'' \<or> hd s = CHR ''z'' then (if tl s = [] then Some 0 else None)
      else if hd s \<noteq> CHR ''+'' \<and> hd s \<noteq> CHR ''-'' then None
      else
        (case take_digits 2 (tl s) of
           None \<Rightarrow> None
         | Some (offset_hours, s1) \<Rightarrow>
             (case zone_minutes s1 of
                None \<Rightarrow> None
              | Some (offset_minutes, s2) \<Rightarrow>
                  if s2 \<noteq> [] \<or> 23 < offset_hours \<or> 59 < offset_minutes then None
                  else
                    (let offset = int (offset_hours * 60 + offset_minutes)
                     in Some (if hd s = CHR ''-'' then - offset else offset)))))"

definition ticks_of_days :: "int \<Rightarrow> int \<Rightarrow> int" where
  "ticks_of_days tps days = wrap64 (days * 86400 * tps)"

definition parse_iso8601 :: "int \<Rightarrow> bytes \<Rightarrow> int option" where
  "parse_iso8601 tps s =
     (case take_date s of
        None \<Rightarrow> None
      | Some (date, s1) \<Rightarrow>
          if s1 = [] then Some (ticks_of_days tps date)
          else if hd s1 \<noteq> CHR ''T'' \<and> hd s1 \<noteq> CHR '' '' then None
          else
            (case take_time tps (tl s1) of
               None \<Rightarrow> None
             | Some (time, s2) \<Rightarrow>
                 (case take_zone s2 of
                    None \<Rightarrow> None
                  | Some zone \<Rightarrow> Some (wrap64 (wrap64 (ticks_of_days tps date + time) - zone * 60 * tps)))))"

section \<open>The calendar counts days\<close>

definition next_date :: "nat \<times> nat \<times> nat \<Rightarrow> nat \<times> nat \<times> nat" where
  "next_date t = (case t of (y, m, d) \<Rightarrow>
     if d < month_length y m then (y, m, d + 1)
     else if m < 12 then (y, m + 1, 1) else (y + 1, 1, 1))"

lemma div_next: "0 < k \<Longrightarrow> (Suc y + (k - 1)) div k = (y + (k - 1)) div k + (if y mod k = 0 then 1 else 0)"
  for k :: nat
  using div_Suc [of "y + (k - 1)" k] by simp

lemma days_before_year_Suc: "days_before_year (Suc y) - days_before_year y = (if is_leap y then 366 else 365)"
proof -
  define a b c where "a = (y + 3) div 4" and "b = (y + 99) div 100" and "c = (y + 399) div 400"
  have "days_before_year (Suc y) = 365 * int y + 365 + int (a + (if y mod 4 = 0 then 1 else 0)) -
      int (b + (if y mod 100 = 0 then 1 else 0)) + int (c + (if y mod 400 = 0 then 1 else 0))"
    using div_next [of 4 y, simplified] div_next [of 100 y, simplified] div_next [of 400 y, simplified]
    by (simp add: days_before_year_def a_def b_def c_def del: of_nat_add)
  moreover have "days_before_year y = 365 * int y + int a - int b + int c"
    by (simp only: days_before_year_def a_def b_def c_def)
  moreover have "y mod 400 = 0 \<Longrightarrow> y mod 100 = 0" "y mod 100 = 0 \<Longrightarrow> y mod 4 = 0"
    by (simp_all add: mod_eq_0_iff_dvd) (auto elim!: dvd_trans [rotated])
  ultimately show ?thesis by (simp only: is_leap_def) (auto simp del: mod_eq_0_iff_dvd)
qed

lemma days_before_month_Suc: "1 \<le> m \<Longrightarrow> days_before_month y (Suc m) = days_before_month y m + int (month_length y m)"
  by (simp add: days_before_month_def)

lemma year_length: "days_before_month y 12 = int (if is_leap y then 335 else 334)"
  by (simp add: days_before_month_def upt_rec month_length_def)

lemma sys_days_next:
  assumes "date_ok y m d"
  shows "(case next_date (y, m, d) of (y', m', d') \<Rightarrow> date_ok y' m' d' \<and> sys_days y' m' d' = sys_days y m d + 1)"
proof -
  have pos: "1 \<le> month_length y m" for y m by (simp add: month_length_def)
  consider (day) "d < month_length y m" | (month) "d = month_length y m" "m < 12" | (year) "d = 31" "m = 12"
    using assms by (fastforce simp: date_ok_def month_length_def le_less split: if_splits)
  then show ?thesis
  proof cases
    case day
    then show ?thesis using assms by (simp add: next_date_def date_ok_def sys_days_def)
  next
    case month
    then show ?thesis using assms days_before_month_Suc [of m y] pos [of y "Suc m"]
      by (simp add: next_date_def date_ok_def sys_days_def)
  next
    case year
    have "days_before_month (Suc y) 1 = 0" by (simp add: days_before_month_def)
    then show ?thesis using year year_length [of y] days_before_year_Suc [of y]
      by (simp add: next_date_def date_ok_def sys_days_def month_length_def split: if_splits)
  qed
qed

lemma sys_days_epoch: "sys_days 1970 1 1 = 0"
  by (simp add: sys_days_def days_before_year_def days_before_month_def)

section \<open>Timestamps as written\<close>

definition digits2 :: "nat \<Rightarrow> bytes" where
  "digits2 n = [digit_char (n div 10), digit_char (n mod 10)]"

definition digits4 :: "nat \<Rightarrow> bytes" where
  "digits4 n = digits2 (n div 100) @ digits2 (n mod 100)"

datatype zone = NoZone | Zulu | Offset bool nat nat bool \<comment> \<open>behind UTC, hours, minutes, colon\<close>

fun zone_text :: "zone \<Rightarrow> bytes" where
  "zone_text NoZone = []"
| "zone_text Zulu = ''Z''"
| "zone_text (Offset behind h m colon) =
     (if behind then CHR ''-'' else CHR ''+'') # digits2 h @ (if colon then '':'' else []) @ digits2 m"

fun zone_offset :: "zone \<Rightarrow> int" where
  "zone_offset (Offset behind h m colon) = (if behind then - int (h * 60 + m) else int (h * 60 + m))"
| "zone_offset _ = 0"

fun zone_fits :: "zone \<Rightarrow> bool" where
  "zone_fits (Offset behind h m colon) \<longleftrightarrow> h < 100 \<and> m < 100"
| "zone_fits _ \<longleftrightarrow> True"

fun zone_ok :: "zone \<Rightarrow> bool" where
  "zone_ok (Offset behind h m colon) \<longleftrightarrow> h \<le> 23 \<and> m \<le> 59"
| "zone_ok _ \<longleftrightarrow> True"

record stamp =
  st_year :: nat
  st_month :: nat
  st_day :: nat
  st_separator :: char
  st_hour :: nat
  st_minute :: nat
  st_second :: nat
  st_fraction :: bytes
  st_zone :: zone

definition stamp_text :: "stamp \<Rightarrow> bytes" where
  "stamp_text t = digits4 (st_year t) @ CHR ''-'' # digits2 (st_month t) @ CHR ''-'' # digits2 (st_day t) @
     st_separator t # digits2 (st_hour t) @ CHR '':'' # digits2 (st_minute t) @ CHR '':'' # digits2 (st_second t) @
     (if st_fraction t = [] then [] else CHR ''.'' # st_fraction t) @ zone_text (st_zone t)"

text \<open>Fields of the right width; whether they name a moment; and which one, in ticks.\<close>

definition stamp_shaped :: "stamp \<Rightarrow> bool" where
  "stamp_shaped t \<longleftrightarrow> st_year t < 10000 \<and> st_month t < 100 \<and> st_day t < 100 \<and>
     (st_separator t = CHR ''T'' \<or> st_separator t = CHR '' '') \<and> st_hour t < 100 \<and> st_minute t < 100 \<and>
     st_second t < 100 \<and> list_all is_digit (st_fraction t) \<and> zone_fits (st_zone t)"

definition stamp_ok :: "stamp \<Rightarrow> bool" where
  "stamp_ok t \<longleftrightarrow> date_ok (st_year t) (st_month t) (st_day t) \<and> st_hour t \<le> 23 \<and> st_minute t \<le> 59 \<and>
     st_second t \<le> 60 \<and> zone_ok (st_zone t)"

definition fraction_ticks :: "nat \<Rightarrow> bytes \<Rightarrow> nat" where
  "fraction_ticks k ds = dec_value ds * 10 ^ k div 10 ^ length ds"

definition stamp_ticks :: "nat \<Rightarrow> stamp \<Rightarrow> int" where
  "stamp_ticks k t =
     (sys_days (st_year t) (st_month t) (st_day t) * 86400 +
      int (st_hour t * 3600 + st_minute t * 60 + min (st_second t) 59) - zone_offset (st_zone t) * 60) * 10 ^ k +
     int (fraction_ticks k (st_fraction t))"

section \<open>Lemmas\<close>

lemma dec_value_Cons: "dec_value (c # ds) = digit_val c * 10 ^ length ds + dec_value ds"
proof (induction ds rule: rev_induct)
  case Nil
  then show ?case by (simp add: dec_value_def)
next
  case (snoc d ds)
  have "dec_value (c # ds @ [d]) = dec_value (c # ds) * 10 + digit_val d"
    using dec_value_snoc [of "c # ds" d] by simp
  then show ?case using snoc by (simp add: algebra_simps)
qed

lemma digit_val_less: "is_digit c \<Longrightarrow> digit_val c < 10"
  by (auto simp: is_digit_def digit_val_def)

lemma dec_value_bound: "list_all is_digit ds \<Longrightarrow> dec_value ds < 10 ^ length ds"
proof (induction ds)
  case (Cons c ds)
  then have "digit_val c \<le> 9" "dec_value ds < 10 ^ length ds" using digit_val_less [of c] by auto
  moreover from mult_le_mono1 [OF this(1)] have "digit_val c * 10 ^ length ds \<le> 9 * 10 ^ length ds" .
  ultimately have "digit_val c * 10 ^ length ds + dec_value ds < 10 * 10 ^ length ds" by linarith
  then show ?case by (simp add: dec_value_Cons)
qed simp

lemma hd_digit: "c < 10 \<Longrightarrow> digit_char c \<noteq> CHR ''+'' \<and> digit_char c \<noteq> CHR ''-''"
  using is_digit_digit_char [of c] by (auto simp: is_digit_def code_def simp del: is_digit_digit_char)

lemma digits2_props: "n < 100 \<Longrightarrow> list_all is_digit (digits2 n) \<and> dec_value (digits2 n) = n \<and> length (digits2 n) = 2"
  by (simp add: digits2_def dec_value_Cons)

lemma digits4_props: "n < 10000 \<Longrightarrow> list_all is_digit (digits4 n) \<and> dec_value (digits4 n) = n \<and> length (digits4 n) = 4"
proof -
  assume n: "n < 10000"
  define a b where "a = n div 100" and "b = n mod 100"
  have ab: "a < 100" "b < 100" "a * 100 + b = n" using n by (simp_all add: a_def b_def)
  have four: "dec_value [w, x, y, z] = (digit_val w * 10 + digit_val x) * 100 + (digit_val y * 10 + digit_val z)" for w x y z
    by (simp add: dec_value_Cons)
  have "dec_value (digits2 a @ digits2 b) = (a div 10 * 10 + a mod 10) * 100 + (b div 10 * 10 + b mod 10)"
  proof -
    have "a div 10 < 10" "a mod 10 < 10" "b div 10 < 10" "b mod 10 < 10" using ab by simp_all
    then show ?thesis by (simp only: digits2_def append.simps four digit_val_char)
  qed
  then have "dec_value (digits4 n) = n"
    using ab(3) by (simp only: digits4_def a_def b_def div_mult_mod_eq)
  moreover have "list_all is_digit (digits2 a @ digits2 b)" using ab by (simp add: digits2_def)
  ultimately show ?thesis by (simp add: digits4_def a_def b_def) (simp add: digits2_def)
qed

lemma take_digits_exact:
  assumes "list_all is_digit ds" "length ds = n" "ds \<noteq> []"
  shows "take_digits n (ds @ r) = Some (dec_value ds, r)"
proof -
  have "hd (ds @ r) \<noteq> CHR ''+'' \<and> hd (ds @ r) \<noteq> CHR ''-''"
    using assms by (cases ds) (auto simp: is_digit_def code_def)
  then show ?thesis using assms by (simp add: take_digits_def)
qed

lemma take_two [simp]: "n < 100 \<Longrightarrow> take_digits 2 (digits2 n @ r) = Some (n, r)"
  using take_digits_exact [of "digits2 n" 2 r] digits2_props [of n] by (auto simp: digits2_def)

lemma take_four [simp]: "n < 10000 \<Longrightarrow> take_digits 4 (digits4 n @ r) = Some (n, r)"
  using take_digits_exact [of "digits4 n" 4 r] digits4_props [of n] by (auto simp: digits4_def digits2_def)

lemma take_char_simps [simp]:
  "take_char c (c # r) = (True, r)" "take_char c [] = (False, [])" "d \<noteq> c \<Longrightarrow> take_char c (d # r) = (False, d # r)"
  by (simp_all add: take_char_def)

lemma fraction_loop_spent:
  "s < 10 \<Longrightarrow> 0 \<le> s \<Longrightarrow> list_all is_digit ds \<Longrightarrow> (\<And>c r'. r = c # r' \<Longrightarrow> \<not> is_digit c) \<Longrightarrow>
     fraction_loop s acc any (ds @ r) = (acc, any \<or> ds \<noteq> [], r)"
proof (induction ds arbitrary: s any)
  case Nil
  then show ?case by (cases r) auto
next
  case (Cons c ds)
  then have "s div 10 = 0" by simp
  then show ?case using Cons by (simp add: Let_def)
qed

lemma fraction_loop_ticks:
  "list_all is_digit ds \<Longrightarrow> (\<And>c r'. r = c # r' \<Longrightarrow> \<not> is_digit c) \<Longrightarrow>
     fraction_loop (10 ^ k) acc any (ds @ r) = (acc + int (fraction_ticks k ds), any \<or> ds \<noteq> [], r)"
proof (induction ds arbitrary: k acc any)
  case Nil
  then show ?case by (cases r) (auto simp: fraction_ticks_def)
next
  case (Cons c ds)
  show ?case
  proof (cases k)
    case 0
    have "fraction_ticks 0 (c # ds) = 0"
      using dec_value_bound [OF Cons.prems(1)] by (simp add: fraction_ticks_def)
    then show ?thesis using fraction_loop_spent [of 1 "c # ds" r acc any] Cons.prems 0 by simp
  next
    case (Suc j)
    have "(digit_val c * 10 ^ length ds + dec_value ds) * 10 ^ Suc j div 10 ^ Suc (length ds) =
        (dec_value ds * 10 ^ j + digit_val c * 10 ^ j * 10 ^ length ds) div 10 ^ length ds"
      by (simp add: algebra_simps div_mult2_eq)
    then have "fraction_ticks k (c # ds) = digit_val c * 10 ^ j + fraction_ticks j ds"
      using Suc by (simp add: fraction_ticks_def dec_value_Cons)
    then show ?thesis using Cons Suc by (simp add: Let_def)
  qed
qed

lemma zone_text_start: "zone_text z = c # r \<Longrightarrow> \<not> is_digit c \<and> c \<noteq> CHR ''.'' \<and> c \<noteq> CHR '','' \<and> c \<noteq> CHR '':''"
  by (cases z) (auto simp: is_digit_def code_def split: if_splits)

lemma take_fraction_text:
  assumes "list_all is_digit fr"
  shows "take_fraction (10 ^ k) ((if fr = [] then [] else CHR ''.'' # fr) @ zone_text z) =
    Some (int (fraction_ticks k fr), zone_text z)"
proof (cases "fr = []")
  case True
  have t: "take_char CHR ''.'' (zone_text z) = (False, zone_text z)" "take_char CHR '','' (zone_text z) = (False, zone_text z)"
    using zone_text_start [of z] by (cases "zone_text z"; simp)+
  show ?thesis using True by (simp add: take_fraction_def t fraction_ticks_def)
next
  case False
  have "fraction_loop (10 ^ k) 0 False (fr @ zone_text z) = (int (fraction_ticks k fr), True, zone_text z)"
    using fraction_loop_ticks [OF assms, of "zone_text z" k 0 False] zone_text_start [of z] False by auto
  then show ?thesis using False by (simp add: take_fraction_def)
qed

lemma digits2_ne [simp]: "digits2 n \<noteq> []" "digits2 n @ r \<noteq> []"
  by (simp_all add: digits2_def)

lemma digits2_colon: "n < 100 \<Longrightarrow> digit_char (n div 10) \<noteq> CHR '':''"
proof -
  assume "n < 100"
  then have "is_digit (digit_char (n div 10))" by simp
  then show ?thesis by (auto simp: is_digit_def code_def)
qed

lemma take_zone_text:
  "zone_fits z \<Longrightarrow> take_zone (zone_text z) = (if zone_ok z then Some (zone_offset z) else None)"
proof (cases z)
  case (Offset behind h m colon)
  assume fits: "zone_fits z"
  have "h < 100" "m < 100" using fits Offset by auto
  have "take_char CHR '':'' (digits2 m @ []) = (False, digits2 m @ [])"
    using digits2_colon [OF \<open>m < 100\<close>] by (simp add: take_char_def digits2_def)
  then have zm: "zone_minutes ((if colon then '':'' else []) @ digits2 m) = Some (m, [])"
    using take_two [OF \<open>m < 100\<close>, of "[]"] by (simp add: zone_minutes_def)
  then show ?thesis using \<open>h < 100\<close> Offset by (simp add: take_zone_def Let_def)
qed (simp_all add: take_zone_def)

lemma take_time_text:
  assumes "h < 100" "m < 100" "s < 100" "list_all is_digit fr"
  shows "take_time (10 ^ k) (digits2 h @ CHR '':'' # digits2 m @ CHR '':'' # digits2 s @
      (if fr = [] then [] else CHR ''.'' # fr) @ zone_text z) =
    (if h \<le> 23 \<and> m \<le> 59 \<and> s \<le> 60
     then Some (int (h * 3600 + m * 60 + min s 59) * 10 ^ k + int (fraction_ticks k fr), zone_text z) else None)"
  using assms by (simp add: take_time_def take_seconds_def take_fraction_text not_less not_le)

lemma take_date_text:
  assumes "y < 10000" "m < 100" "d < 100"
  shows "take_date (digits4 y @ CHR ''-'' # digits2 m @ CHR ''-'' # digits2 d @ r) =
    (if date_ok y m d then Some (sys_days y m d, r) else None)"
  using assms by (simp add: take_date_def)

lemma wrap64_add: "wrap64 (wrap64 a + b) = wrap64 (a + b)"
proof -
  have "((a + 2 ^ 63) mod 2 ^ 64 - 2 ^ 63 + b + 2 ^ 63) mod 2 ^ 64 = ((a + 2 ^ 63) + b) mod (2 ^ 64 :: int)"
    by (simp add: mod_add_left_eq)
  then show ?thesis by (simp add: wrap64_def algebra_simps)
qed

section \<open>Properties\<close>


definition sample_stamp :: stamp where
  "sample_stamp = \<lparr>st_year = 2024, st_month = 3, st_day = 17, st_separator = CHR ''T'', st_hour = 8, st_minute = 21,
     st_second = 60, st_fraction = ''1234567'', st_zone = Offset False 3 0 True\<rparr>"


text \<open>A day later in the calendar is a day later on the clock: dates that follow each other parse to
  midnights one day apart, counted from the epoch at 1 January 1970.\<close>
theorem dates_count_days:
  assumes "date_ok y m d" "y < 9999"
  shows "\<exists>days. parse_iso8601 tps (digits4 y @ CHR ''-'' # digits2 m @ CHR ''-'' # digits2 d) = Some (ticks_of_days tps days) \<and>
    (case next_date (y, m, d) of (y', m', d') \<Rightarrow>
       parse_iso8601 tps (digits4 y' @ CHR ''-'' # digits2 m' @ CHR ''-'' # digits2 d') = Some (ticks_of_days tps (days + 1))) \<and>
    parse_iso8601 tps (digits4 1970 @ CHR ''-'' # digits2 1 @ CHR ''-'' # digits2 1) = Some 0"
proof -
  have date: "parse_iso8601 tps (digits4 y @ CHR ''-'' # digits2 m @ CHR ''-'' # digits2 d) = Some (ticks_of_days tps (sys_days y m d))"
    if "date_ok y m d" "y < 10000" for y m d
  proof -
    have "m < 100" "d < 100" using that(1) by (auto simp: date_ok_def month_length_def split: if_splits)
    then show ?thesis using that take_date_text [of y m d "[]"] by (simp add: parse_iso8601_def)
  qed
  have ticks0: "ticks_of_days tps 0 = 0" by (simp add: ticks_of_days_def wrap64_def)
  obtain y' m' d' where n: "next_date (y, m, d) = (y', m', d')" by (cases "next_date (y, m, d)")
  then have "date_ok y' m' d'" "sys_days y' m' d' = sys_days y m d + 1" "y' < 10000"
    using sys_days_next [OF assms(1)] assms(2) by (auto simp: next_date_def split: if_splits)
  moreover have "date_ok 1970 1 1" by (simp add: date_ok_def month_length_def)
  ultimately have "parse_iso8601 tps (digits4 y @ CHR ''-'' # digits2 m @ CHR ''-'' # digits2 d) = Some (ticks_of_days tps (sys_days y m d))"
    "parse_iso8601 tps (digits4 y' @ CHR ''-'' # digits2 m' @ CHR ''-'' # digits2 d') = Some (ticks_of_days tps (sys_days y m d + 1))"
    "parse_iso8601 tps (digits4 1970 @ CHR ''-'' # digits2 1 @ CHR ''-'' # digits2 1) = Some (ticks_of_days tps 0)"
    using date [OF assms(1)] date [of y' m' d'] date [of 1970 1 1] assms(2) sys_days_epoch by simp_all
  then show ?thesis unfolding n prod.case ticks0 by blast
qed

theorem dates_count_days_witness:
  "\<exists>days. parse_iso8601 1 (digits4 2024 @ CHR ''-'' # digits2 2 @ CHR ''-'' # digits2 29) = Some (ticks_of_days 1 days) \<and>
     parse_iso8601 1 (digits4 2024 @ CHR ''-'' # digits2 3 @ CHR ''-'' # digits2 1) = Some (ticks_of_days 1 (days + 1))"
  using dates_count_days [of 2024 2 29 1] by (auto simp: date_ok_def month_length_def is_leap_def next_date_def)

end
