(* ===== verification/Paging.thy ===== *)
theory Paging
  imports Prelude "HOL-Library.Signed_Division" Decimal
begin

text \<open>
  \<open>include/aniparse/types/Pagination.hpp\<close>: windows of items, pages, and the arithmetic between
  them. Offsets are \<open>ptrdiff_t\<close> values, given as integers (division truncates as in C++); a limit
  is a 64-bit \<open>size_t\<close>.
\<close>

section \<open>Pages\<close>

record 'a page_item =
  pi_item :: 'a
  pi_offset :: int

record 'a page_results =
  results :: "'a page_item list"
  next_offset :: int
  total_count :: "64 word"

definition empty_page :: "'a page_results" where
  "empty_page = \<lparr>results = [], next_offset = 0, total_count = 0\<rparr>"

definition append_item :: "'a page_results \<Rightarrow> int \<Rightarrow> 'a \<Rightarrow> 'a page_results" where
  "append_item p from_offset x =
     (let added = results p @ [\<lparr>pi_item = x, pi_offset = from_offset + int (length (results p))\<rparr>]
      in p\<lparr>results := added, next_offset := from_offset + int (length added)\<rparr>)"

section \<open>Orders and windows\<close>

record sort_order =
  so_key :: bytes
  so_ascending :: bool

record sort_descriptor =
  sd_ascending :: bool
  sd_descending :: bool

type_synonym supported_sorts = "sort_descriptor smap"

definition page_no_limit :: "64 word" where
  "page_no_limit = - 1"

record get_filters =
  gf_from :: int
  gf_limit :: "64 word"
  gf_sort :: "sort_order option"

definition default_filters :: get_filters where
  "default_filters = \<lparr>gf_from = 0, gf_limit = page_no_limit, gf_sort = None\<rparr>"

record offset_paging =
  op_from :: int
  op_want :: int
  op_stride :: int

definition page :: "offset_paging \<Rightarrow> int \<Rightarrow> int" where
  "page p first = (if 0 < op_stride p then op_from p sdiv op_stride p + first else first)"

definition skip :: "offset_paging \<Rightarrow> int" where
  "skip p = (if 0 < op_stride p then op_from p smod op_stride p else 0)"

definition clamp_limit :: "get_filters \<Rightarrow> int \<Rightarrow> int \<Rightarrow> int" where
  "clamp_limit filters cap fallback =
     (let want = (if gf_limit filters = page_no_limit then fallback else sint (gf_limit filters))
      in if want < cap then want else cap)"

section \<open>A listing read page by page\<close>

text \<open>
  How a page-number endpoint is read: page \<open>n\<close> (counted from \<open>first\<close>) of a listing holds \<open>stride\<close>
  items; the head of the page is dropped and the rest numbered from the window's offset.
\<close>

definition endpoint_page :: "'a list \<Rightarrow> int \<Rightarrow> int \<Rightarrow> int \<Rightarrow> 'a list" where
  "endpoint_page xs stride first n = take (nat stride) (drop (nat ((n - first) * stride)) xs)"

definition read_window :: "'a list \<Rightarrow> int \<Rightarrow> offset_paging \<Rightarrow> 'a page_results" where
  "read_window xs first p =
     foldl (\<lambda>r x. append_item r (op_from p) x) empty_page
       (take (nat (op_want p)) (drop (nat (skip p)) (endpoint_page xs (op_stride p) first (page p first))))"

lemma foldl_append_item:
  "foldl (\<lambda>r x. append_item r b x) r0 xs =
     (if xs = [] then r0
      else r0\<lparr>results := results r0 @
          map (\<lambda>(i, x). \<lparr>pi_item = x, pi_offset = b + int i\<rparr>) (zip [length (results r0)..<length (results r0) + length xs] xs),
        next_offset := b + int (length (results r0) + length xs)\<rparr>)"
proof (induction xs arbitrary: r0)
  case (Cons x xs)
  have "[length (results r0)..<length (results r0) + length (x # xs)] =
      length (results r0) # [Suc (length (results r0))..<Suc (length (results r0) + length xs)]"
    by (subst upt_conv_Cons) (simp_all del: upt_Suc)
  then have "zip [length (results r0)..<length (results r0) + length (x # xs)] (x # xs) =
      (length (results r0), x) # zip [Suc (length (results r0))..<Suc (length (results r0)) + length xs] xs"
    by (simp only: zip_Cons_Cons add_Suc)
  then show ?case using Cons [of "append_item r0 b x"]
    by (cases "xs = []") (simp_all add: append_item_def Let_def del: upt_Suc)
qed simp

lemma sdiv_nonneg: "0 \<le> a \<Longrightarrow> 0 < b \<Longrightarrow> a sdiv b = a div b \<and> a smod b = a mod b"
  for a b :: int
  by (cases "a = 0") (simp_all add: signed_divide_int_def signed_modulo_int_def)

lemma page_skip:
  assumes "0 \<le> op_from p" "0 < op_stride p"
  shows "(page p first - first) * op_stride p + skip p = op_from p" "0 \<le> skip p" "skip p < op_stride p"
    "first \<le> page p first"
  using assms sdiv_nonneg [OF assms] by (simp_all add: page_def skip_def pos_imp_zdiv_nonneg_iff)

lemma window_items:
  assumes "0 \<le> op_from p" "0 < op_stride p"
  shows "drop (nat (skip p)) (endpoint_page xs (op_stride p) first (page p first)) =
    take (nat (op_stride p - skip p)) (drop (nat (op_from p)) xs)"
proof -
  have "nat (op_from p) = nat ((page p first - first) * op_stride p) + nat (skip p)"
    using page_skip [OF assms] assms by (metis nat_add_distrib diff_ge_0_iff_ge less_imp_le mult_nonneg_nonneg)
  moreover have "nat (op_stride p - skip p) = nat (op_stride p) - nat (skip p)"
    using page_skip [OF assms] by (simp add: nat_diff_distrib)
  ultimately show ?thesis by (simp add: endpoint_page_def drop_take drop_drop add.commute)
qed

section \<open>Properties\<close>

text \<open>Reading a window of a page-number endpoint, whatever index its first page has: the items are
  the listing's from the window's offset on, at most as many as wanted and as the page still
  holds; each carries its absolute offset and \<open>next_offset\<close> is just past the last. The page is
  empty exactly when nothing is wanted or the offset lies past the end of the listing.\<close>
theorem read_window_spec:
  assumes "0 \<le> op_from p" "0 < op_stride p"
  shows "map pi_item (results (read_window xs first p)) =
      take (nat (min (op_want p) (op_stride p - skip p))) (drop (nat (op_from p)) xs) \<and>
    map pi_offset (results (read_window xs first p)) =
      map (\<lambda>i. op_from p + int i) [0..<length (results (read_window xs first p))] \<and>
    (results (read_window xs first p) = [] \<longleftrightarrow> op_want p \<le> 0 \<or> length xs \<le> nat (op_from p)) \<and>
    (results (read_window xs first p) \<noteq> [] \<longrightarrow>
      next_offset (read_window xs first p) = op_from p + int (length (results (read_window xs first p))))"
proof -
  define ys where "ys = take (nat (op_want p)) (take (nat (op_stride p - skip p)) (drop (nat (op_from p)) xs))"
  have r: "read_window xs first p = foldl (\<lambda>r x. append_item r (op_from p) x) empty_page ys"
    using window_items [OF assms, of xs first] by (simp add: read_window_def ys_def)
  have res: "results (read_window xs first p) =
      map (\<lambda>(i, x). \<lparr>pi_item = x, pi_offset = op_from p + int i\<rparr>) (zip [0..<length ys] ys)"
    unfolding r foldl_append_item by (simp add: empty_page_def)
  have "nat (min (op_want p) (op_stride p - skip p)) = min (nat (op_want p)) (nat (op_stride p - skip p))"
    by (simp add: min_def nat_le_eq_zle)
  then have ys: "ys = take (nat (min (op_want p) (op_stride p - skip p))) (drop (nat (op_from p)) xs)"
    by (simp add: ys_def min.commute)
  have empty: "ys = [] \<longleftrightarrow> op_want p \<le> 0 \<or> length xs \<le> nat (op_from p)"
    using page_skip(3) [OF assms] by (auto simp: ys_def)
  have "map pi_item (results (read_window xs first p)) = ys"
    unfolding res by (simp add: comp_def split_def)
  moreover have "map pi_offset (results (read_window xs first p)) =
      map (\<lambda>i. op_from p + int i) [0..<length (results (read_window xs first p))]"
    unfolding res by (rule nth_equalityI) simp_all
  moreover have "ys \<noteq> [] \<longrightarrow> next_offset (read_window xs first p) = op_from p + int (length ys)"
    unfolding r foldl_append_item by (simp add: empty_page_def)
  ultimately show ?thesis using ys empty res by auto
qed

theorem read_window_spec_witness:
  "map pi_item (results (read_window [10, 11, 12, 13, 14, 15, 16 :: nat] 1 \<lparr>op_from = 4, op_want = 5, op_stride = 3\<rparr>)) = [14, 15]"
proof -
  have "skip \<lparr>op_from = 4, op_want = 5, op_stride = 3\<rparr> = 1" by (simp add: skip_def signed_modulo_int_def)
  moreover have "map pi_item (results (read_window [10, 11, 12, 13, 14, 15, 16 :: nat] 1 \<lparr>op_from = 4, op_want = 5, op_stride = 3\<rparr>)) =
      take (nat (min 5 (3 - skip \<lparr>op_from = 4, op_want = 5, op_stride = 3\<rparr>))) (drop (nat 4) [10, 11, 12, 13, 14, 15, 16])"
    using read_window_spec [of "\<lparr>op_from = 4, op_want = 5, op_stride = 3\<rparr>" "[10, 11, 12, 13, 14, 15, 16 :: nat]" 1]
    by (simp only: offset_paging.simps)
  ultimately show ?thesis by (simp add: eval_nat_numeral)
qed

text \<open>The limit a request uses never exceeds the cap, and is the smaller of the cap and the stated
  limit while that fits the signed offset type; a stated limit of half the range or more becomes
  negative. Without a stated limit the fallback is used, and it is clamped to the cap as well.\<close>
theorem clamp_limit_spec:
  "clamp_limit f cap fallback \<le> cap \<and>
   clamp_limit f cap fallback =
     (if gf_limit f = page_no_limit then min fallback cap
      else if uint (gf_limit f) < 2 ^ 63 then min (uint (gf_limit f)) cap
      else min (uint (gf_limit f) - 2 ^ 64) cap)"
  by (simp add: clamp_limit_def Let_def sint_cases)

end
