(* ===== verification/Search_Query.thy ===== *)
theory Search_Query
  imports Ordered_Map Paging Flags
begin

text \<open>
  \<open>src/types/Search.cpp\<close> and the query types of \<open>include/aniparse/types/Search.hpp\<close>: a search query
  checked against the table of filters and sorts a source declares. Integers, times and durations
  of the intervals are given as \<open>int\<close>; they are only compared.
\<close>

section \<open>Filters\<close>

record text_query =
  tq_text :: bytes
  tq_exclusive :: bool

record interval =
  iv_from :: "int option"
  iv_to :: "int option"
  iv_exclusive :: bool

record item_value =
  iv_name :: bytes
  iv_inverted :: bool

record item_selection =
  is_options :: "item_value smap"
  single_selection :: bool

record checkmark =
  ck_exclusive :: bool

datatype search_item =
    TextItem text_query
  | IntItem interval
  | TimeItem interval
  | RelativeTimeItem interval
  | SelectionItem item_selection
  | CheckItem checkmark

type_synonym search_items = "search_item smap"

record search_request =
  sr_query :: bytes
  sr_filters :: search_items

record search_compatibilities =
  supported_filters :: search_items
  supported_sort_keys :: supported_sorts
  search_flags :: strong_bitset
  suggestion_kinds :: "bytes list"

text \<open>A completion of a partial query.\<close>

record search_suggestion =
  su_value :: bytes
  su_label :: bytes
  su_count :: "int option"
  su_category :: "bytes option"

datatype reason =
    UnknownKey | TypeMismatch | ExclusionNotSupported | MultipleSelectionNotSupported
  | InvalidValue | UnknownSortKey | SortDirectionNotSupported

record query_error =
  qe_reason :: reason
  qe_key :: bytes

definition error_of :: "reason \<Rightarrow> bytes \<Rightarrow> query_error" where
  "error_of r k = \<lparr>qe_reason = r, qe_key = k\<rparr>"

fun item_index :: "search_item \<Rightarrow> nat" where
  "item_index (TextItem _) = 0"
| "item_index (IntItem _) = 1"
| "item_index (TimeItem _) = 2"
| "item_index (RelativeTimeItem _) = 3"
| "item_index (SelectionItem _) = 4"
| "item_index (CheckItem _) = 5"

section \<open>Checks\<close>

definition selection_exclusion_denied :: "item_selection \<Rightarrow> item_selection \<Rightarrow> bool" where
  "selection_exclusion_denied d v \<longleftrightarrow>
     list_ex (\<lambda>(token, item). case lookup (is_options d) token of
        None \<Rightarrow> False | Some offered \<Rightarrow> iv_inverted item \<and> \<not> iv_inverted offered) (is_options v)"

fun exclusion_denied :: "search_item \<Rightarrow> search_item \<Rightarrow> bool" where
  "exclusion_denied (TextItem d) (TextItem v) \<longleftrightarrow> tq_exclusive v \<and> \<not> tq_exclusive d"
| "exclusion_denied (IntItem d) (IntItem v) \<longleftrightarrow> iv_exclusive v \<and> \<not> iv_exclusive d"
| "exclusion_denied (TimeItem d) (TimeItem v) \<longleftrightarrow> iv_exclusive v \<and> \<not> iv_exclusive d"
| "exclusion_denied (RelativeTimeItem d) (RelativeTimeItem v) \<longleftrightarrow> iv_exclusive v \<and> \<not> iv_exclusive d"
| "exclusion_denied (SelectionItem d) (SelectionItem v) \<longleftrightarrow> selection_exclusion_denied d v"
| "exclusion_denied (CheckItem d) (CheckItem v) \<longleftrightarrow> ck_exclusive v \<and> \<not> ck_exclusive d"
| "exclusion_denied _ _ \<longleftrightarrow> False"

definition multiple_selection_denied :: "item_selection \<Rightarrow> item_selection \<Rightarrow> bool" where
  "multiple_selection_denied d v \<longleftrightarrow> single_selection d \<and> 1 < length (is_options v)"

definition interval_invalid :: "interval \<Rightarrow> interval \<Rightarrow> bool" where
  "interval_invalid d v \<longleftrightarrow>
     (case (iv_from v, iv_to v) of (Some a, Some b) \<Rightarrow> b < a | _ \<Rightarrow> False) \<or>
     (case (iv_from d, iv_from v) of (Some least, Some a) \<Rightarrow> a < least | _ \<Rightarrow> False) \<or>
     (case (iv_to d, iv_to v) of (Some greatest, Some b) \<Rightarrow> greatest < b | _ \<Rightarrow> False)"

definition selection_invalid :: "item_selection \<Rightarrow> item_selection \<Rightarrow> bool" where
  "selection_invalid d v \<longleftrightarrow>
     (if is_options d = [] then False
      else list_ex (\<lambda>(token, _). lookup (is_options d) token = None) (is_options v))"

fun value_invalid :: "search_item \<Rightarrow> search_item \<Rightarrow> bool" where
  "value_invalid (TextItem d) (TextItem v) \<longleftrightarrow> tq_text v = []"
| "value_invalid (IntItem d) (IntItem v) \<longleftrightarrow> interval_invalid d v"
| "value_invalid (TimeItem d) (TimeItem v) \<longleftrightarrow> interval_invalid d v"
| "value_invalid (RelativeTimeItem d) (RelativeTimeItem v) \<longleftrightarrow> interval_invalid d v"
| "value_invalid (SelectionItem d) (SelectionItem v) \<longleftrightarrow> selection_invalid d v"
| "value_invalid _ _ \<longleftrightarrow> False"

section \<open>Validation\<close>

definition validate_item :: "search_items \<Rightarrow> bytes \<times> search_item \<Rightarrow> query_error list" where
  "validate_item supported entry =
     (case entry of (key, v) \<Rightarrow>
        (case lookup supported key of
           None \<Rightarrow> [error_of UnknownKey key]
         | Some d \<Rightarrow>
             if item_index d \<noteq> item_index v then [error_of TypeMismatch key]
             else
               (if exclusion_denied d v then [error_of ExclusionNotSupported key] else []) @
               (if value_invalid d v then [error_of InvalidValue key] else []) @
               (case (d, v) of
                  (SelectionItem ds, SelectionItem vs) \<Rightarrow>
                    if multiple_selection_denied ds vs then [error_of MultipleSelectionNotSupported key] else []
                | _ \<Rightarrow> [])))"

definition validate_search_query :: "search_items \<Rightarrow> search_request \<Rightarrow> query_error list" where
  "validate_search_query supported query = concat (map (validate_item supported) (sr_filters query))"

definition validate_sort :: "supported_sorts \<Rightarrow> sort_order option \<Rightarrow> query_error list" where
  "validate_sort supported requested =
     (case requested of
        None \<Rightarrow> []
      | Some order \<Rightarrow>
          (case lookup supported (so_key order) of
             None \<Rightarrow> [error_of UnknownSortKey (so_key order)]
           | Some d \<Rightarrow>
               if \<not> (if so_ascending order then sd_ascending d else sd_descending d)
               then [error_of SortDirectionNotSupported (so_key order)] else []))"

definition validate_query :: "search_compatibilities \<Rightarrow> search_request \<Rightarrow> get_filters \<Rightarrow> query_error list" where
  "validate_query support query filters =
     validate_search_query (supported_filters support) query @ validate_sort (supported_sort_keys support) (gf_sort filters)"

section \<open>Identity keys and messages\<close>

definition identity_axes :: "(bytes \<times> bytes) list" where
  "identity_axes = [(''mal'', ''mal_id''), (''anilist'', ''anilist_id''), (''kitsu'', ''kitsu_id''),
     (''shikimori'', ''shikimori_id'')]"

definition search_key_for :: "bytes \<Rightarrow> bytes" where
  "search_key_for ns = (case List.find (\<lambda>axis. fst axis = ns) identity_axes of Some axis \<Rightarrow> snd axis | None \<Rightarrow> [])"

definition is_identity_key :: "search_compatibilities \<Rightarrow> bytes \<Rightarrow> bool" where
  "is_identity_key support key \<longleftrightarrow> list_ex (\<lambda>axis. snd axis = key) identity_axes"

fun reason_text :: "reason \<Rightarrow> bytes" where
  "reason_text UnknownKey = ''unknown filter''"
| "reason_text TypeMismatch = ''wrong value type for filter''"
| "reason_text ExclusionNotSupported = ''exclusion is not supported for filter''"
| "reason_text MultipleSelectionNotSupported = ''multiple selections are not supported for filter''"
| "reason_text InvalidValue = ''invalid value for filter''"
| "reason_text UnknownSortKey = ''unknown sort''"
| "reason_text SortDirectionNotSupported = ''unsupported direction for sort''"

definition describe_search_query_errors :: "query_error list \<Rightarrow> bytes" where
  "describe_search_query_errors errors =
     foldl (\<lambda>message e. (if message = [] then [] else message @ ''; '') @ reason_text (qe_reason e) @ '' '' @
              [chr_quote] @ qe_key e @ [chr_quote]) [] errors"

section \<open>What a declaration admits\<close>

text \<open>An interval within the declared bounds; a selection of offered tokens, inverted only where offered.\<close>

definition interval_within :: "interval \<Rightarrow> interval \<Rightarrow> bool" where
  "interval_within d v \<longleftrightarrow>
     (\<forall>a b. iv_from v = Some a \<and> iv_to v = Some b \<longrightarrow> a \<le> b) \<and>
     (\<forall>least a. iv_from d = Some least \<and> iv_from v = Some a \<longrightarrow> least \<le> a) \<and>
     (\<forall>greatest b. iv_to d = Some greatest \<and> iv_to v = Some b \<longrightarrow> b \<le> greatest)"

inductive admits :: "search_item \<Rightarrow> search_item \<Rightarrow> bool" where
  admits_text: "tq_text v \<noteq> [] \<Longrightarrow> tq_exclusive v \<longrightarrow> tq_exclusive d \<Longrightarrow> admits (TextItem d) (TextItem v)"
| admits_int: "interval_within d v \<Longrightarrow> iv_exclusive v \<longrightarrow> iv_exclusive d \<Longrightarrow> admits (IntItem d) (IntItem v)"
| admits_time: "interval_within d v \<Longrightarrow> iv_exclusive v \<longrightarrow> iv_exclusive d \<Longrightarrow> admits (TimeItem d) (TimeItem v)"
| admits_relative: "interval_within d v \<Longrightarrow> iv_exclusive v \<longrightarrow> iv_exclusive d \<Longrightarrow>
    admits (RelativeTimeItem d) (RelativeTimeItem v)"
| admits_open: "is_options d = [] \<Longrightarrow> single_selection d \<longrightarrow> length (is_options v) \<le> 1 \<Longrightarrow>
    admits (SelectionItem d) (SelectionItem v)"
| admits_closed: "is_options d \<noteq> [] \<Longrightarrow> single_selection d \<longrightarrow> length (is_options v) \<le> 1 \<Longrightarrow>
    \<forall>(token, item) \<in> set (is_options v). \<exists>offered. lookup (is_options d) token = Some offered \<and>
      (iv_inverted item \<longrightarrow> iv_inverted offered) \<Longrightarrow>
    admits (SelectionItem d) (SelectionItem v)"
| admits_check: "ck_exclusive v \<longrightarrow> ck_exclusive d \<Longrightarrow> admits (CheckItem d) (CheckItem v)"

inductive_simps admits_simps [simp]:
  "admits (TextItem d) v" "admits (IntItem d) v" "admits (TimeItem d) v" "admits (RelativeTimeItem d) v"
  "admits (CheckItem d) v"

inductive_simps admits_selection: "admits (SelectionItem d) (SelectionItem v)"

lemma interval_invalid_iff: "\<not> interval_invalid d v \<longleftrightarrow> interval_within d v"
  by (auto simp: interval_invalid_def interval_within_def not_less split: option.splits)

lemma selection_ok:
  "\<not> selection_exclusion_denied d v \<and> \<not> selection_invalid d v \<and> \<not> multiple_selection_denied d v \<longleftrightarrow>
     admits (SelectionItem d) (SelectionItem v)"
proof (cases "is_options d = []")
  case True
  then show ?thesis unfolding admits_selection
    by (auto simp: selection_exclusion_denied_def selection_invalid_def multiple_selection_denied_def list_ex_iff)
next
  case False
  then show ?thesis unfolding admits_selection
    by (fastforce simp: selection_exclusion_denied_def selection_invalid_def multiple_selection_denied_def
        list_ex_iff split: option.splits)
qed

lemma item_index_match: "item_index d = item_index v \<Longrightarrow>
    (\<exists>a b. d = TextItem a \<and> v = TextItem b) \<or> (\<exists>a b. d = IntItem a \<and> v = IntItem b) \<or>
    (\<exists>a b. d = TimeItem a \<and> v = TimeItem b) \<or> (\<exists>a b. d = RelativeTimeItem a \<and> v = RelativeTimeItem b) \<or>
    (\<exists>a b. d = SelectionItem a \<and> v = SelectionItem b) \<or> (\<exists>a b. d = CheckItem a \<and> v = CheckItem b)"
  by (cases d; cases v) auto

lemma admits_index: "admits d v \<Longrightarrow> item_index d = item_index v"
  by (induction rule: admits.induct) auto

lemma validate_item_ok:
  "validate_item supported (key, v) = [] \<longleftrightarrow> (\<exists>d. lookup supported key = Some d \<and> admits d v)"
proof (cases "lookup supported key")
  case None
  then show ?thesis by (simp add: validate_item_def)
next
  case (Some d)
  show ?thesis
  proof (cases "item_index d = item_index v")
    case False
    then show ?thesis using Some admits_index by (auto simp: validate_item_def)
  next
    case True
    from item_index_match [OF True] show ?thesis using Some
      by (elim disjE exE conjE)
        (simp_all add: validate_item_def interval_invalid_iff [symmetric] selection_ok [symmetric] conj_commute conj_ac)
  qed
qed

lemma validate_item_key: "e \<in> set (validate_item supported (key, v)) \<Longrightarrow> qe_key e = key"
  by (auto simp: validate_item_def error_of_def split: option.splits if_splits search_item.splits)

lemma validate_query_Nil: "validate_search_query supported query = [] \<longleftrightarrow>
    (\<forall>(key, v) \<in> set (sr_filters query). \<exists>d. lookup supported key = Some d \<and> admits d v)"
proof -
  have "validate_item supported e = [] \<longleftrightarrow> (\<exists>d. lookup supported (fst e) = Some d \<and> admits d (snd e))" for e
    using validate_item_ok [of supported "fst e" "snd e"] by simp
  then show ?thesis by (simp add: validate_search_query_def split_def)
qed

lemma validate_sort_Nil: "validate_sort supported requested = [] \<longleftrightarrow>
    (\<forall>order. requested = Some order \<longrightarrow> (\<exists>d. lookup supported (so_key order) = Some d \<and>
      (if so_ascending order then sd_ascending d else sd_descending d)))"
  by (auto simp: validate_sort_def split: option.splits)

section \<open>Properties\<close>


definition sample_support :: search_compatibilities where
  "sample_support = \<lparr>supported_filters =
       [(''tag'', SelectionItem \<lparr>is_options = [(''a'', \<lparr>iv_name = ''A'', iv_inverted = False\<rparr>)], single_selection = True\<rparr>)],
     supported_sort_keys = [(''title'', \<lparr>sd_ascending = False, sd_descending = True\<rparr>)],
     search_flags = default_flags, suggestion_kinds = []\<rparr>"


text \<open>Id vocabularies and their lookup keys: the identity keys are exactly the keys some vocabulary is
  looked up by, two vocabularies never share one, and no identity key is a vocabulary's name.\<close>
theorem identity_keys_injective:
  "(is_identity_key support key \<longleftrightarrow> key \<noteq> [] \<and> (\<exists>ns. search_key_for ns = key)) \<and>
   (search_key_for a = search_key_for b \<longleftrightarrow> a = b \<or> (search_key_for a = [] \<and> search_key_for b = [])) \<and>
   search_key_for (search_key_for a) = []"
proof -
  have f: "search_key_for ns =
      (if ns = ''mal'' then ''mal_id'' else if ns = ''anilist'' then ''anilist_id''
       else if ns = ''kitsu'' then ''kitsu_id'' else if ns = ''shikimori'' then ''shikimori_id'' else [])" for ns
    by (auto simp: search_key_for_def identity_axes_def)
  have "is_identity_key support key \<longleftrightarrow> key \<noteq> [] \<and> (\<exists>ns. search_key_for ns = key)"
  proof
    assume "is_identity_key support key"
    then have "key \<in> {''mal_id'', ''anilist_id'', ''kitsu_id'', ''shikimori_id''}"
      by (auto simp: is_identity_key_def identity_axes_def)
    moreover have "search_key_for ''mal'' = ''mal_id''" "search_key_for ''anilist'' = ''anilist_id''"
      "search_key_for ''kitsu'' = ''kitsu_id''" "search_key_for ''shikimori'' = ''shikimori_id''"
      by (simp_all add: f)
    ultimately show "key \<noteq> [] \<and> (\<exists>ns. search_key_for ns = key)" by blast
  next
    assume "key \<noteq> [] \<and> (\<exists>ns. search_key_for ns = key)"
    then show "is_identity_key support key"
      by (auto simp: f is_identity_key_def identity_axes_def split: if_splits)
  qed
  then show ?thesis by (simp add: f)
qed

end
