(* ===== verification/Regex_Source.thy ===== *)
theory Regex_Source
  imports Ordered_Map "HOL-Library.Sublist"
begin

text \<open>
  \<open>src/utility/RegexSource.cpp\<close> and \<open>src/html/SelectorSource.cpp\<close>: tables of override texts for the
  patterns and selectors of parsers, and the decision between an override and the built-in text.
  The regex engine and the selector compiler are parameters: they compile a text or fail.
\<close>

section \<open>Named groups of a pattern\<close>

definition named_until :: "char \<Rightarrow> bytes \<Rightarrow> (bytes \<times> bytes) option" where
  "named_until close t =
     (case split_first close t of None \<Rightarrow> None | Some (name, r) \<Rightarrow> if name = [] then None else Some (name, r))"

text \<open>The group name behind an opening parenthesis whose following text is given, and what follows it.\<close>

definition group_name :: "bytes \<Rightarrow> (bytes \<times> bytes) option" where
  "group_name s =
     (if length s < 3 \<or> s ! 0 \<noteq> CHR ''?'' then None
      else if s ! 1 = CHR ''<'' \<and> s ! 2 \<noteq> CHR ''='' \<and> s ! 2 \<noteq> CHR ''!'' then named_until CHR ''>'' (drop 2 s)
      else if s ! 1 = chr_quote then named_until chr_quote (drop 2 s)
      else if s ! 1 = CHR ''P'' \<and> 3 < length s \<and> s ! 2 = CHR ''<'' then named_until CHR ''>'' (drop 3 s)
      else None)"

lemma named_until_shorter: "named_until c t = Some (n, r) \<Longrightarrow> length r < length t"
  by (auto simp: named_until_def dest: split_first_shorter split: option.splits if_splits)

lemma group_name_shorter: "group_name s = Some (n, r) \<Longrightarrow> length r < length s"
  by (auto simp: group_name_def dest!: named_until_shorter split: if_splits)

function groups_from :: "bytes list \<Rightarrow> bool \<Rightarrow> bytes \<Rightarrow> bytes list" where
  "groups_from groups in_class [] = groups"
| "groups_from groups in_class (c # s) =
     (if c = chr_bslash then groups_from groups in_class (drop 1 s)
      else if in_class then groups_from groups (c \<noteq> CHR '']'') s
      else if c = CHR ''['' then groups_from groups True s
      else if c \<noteq> CHR ''('' then groups_from groups False s
      else case group_name s of
        None \<Rightarrow> groups_from groups False s
      | Some (name, r) \<Rightarrow> groups_from (if name \<in> set groups then groups else groups @ [name]) False r)"
  by pat_completeness auto
termination
  by (relation "measure (\<lambda>(_, _, s). length s)") (auto dest!: group_name_shorter)

definition named_groups_of :: "bytes \<Rightarrow> bytes list" where
  "named_groups_of pattern = groups_from [] False pattern"

definition contains_text :: "bytes \<Rightarrow> bytes \<Rightarrow> bool" where
  "contains_text t needle \<longleftrightarrow> find_from needle t 0 \<noteq> None"

definition declares_group :: "bytes \<Rightarrow> bytes \<Rightarrow> bool" where
  "declares_group pattern name \<longleftrightarrow>
     contains_text pattern (''(?<'' @ name) \<or> contains_text pattern (CHR ''('' # CHR ''?'' # chr_quote # name) \<or>
     contains_text pattern (''(?P<'' @ name)"

definition declares_all :: "bytes \<Rightarrow> bytes list \<Rightarrow> bool" where
  "declares_all pattern groups \<longleftrightarrow> list_all (declares_group pattern) groups"

section \<open>The regex table\<close>

type_synonym overrides = "bytes smap"

record regex_source =
  rx_overrides :: overrides
  rx_scoped :: "overrides smap"

definition empty_regex_source :: regex_source where
  "empty_regex_source = \<lparr>rx_overrides = [], rx_scoped = []\<rparr>"

definition flat_regex_source :: "overrides \<Rightarrow> regex_source" where
  "flat_regex_source o1 = \<lparr>rx_overrides = o1, rx_scoped = []\<rparr>"

definition scoped_regex_source :: "overrides smap \<Rightarrow> regex_source" where
  "scoped_regex_source scoped = \<lparr>rx_overrides = [], rx_scoped = scoped\<rparr>"

text \<open>\<open>None\<close> is the exception a broken built-in literal throws.\<close>

definition regex_compile :: "(bytes \<Rightarrow> 'r option) \<Rightarrow> regex_source \<Rightarrow> bytes \<Rightarrow> bytes \<Rightarrow> 'r option" where
  "regex_compile engine src key fallback =
     (let required = named_groups_of fallback
      in case lookup (rx_overrides src) key of
           None \<Rightarrow> engine fallback
         | Some entry \<Rightarrow>
             if declares_all entry required
             then (case engine entry of Some r \<Rightarrow> Some r | None \<Rightarrow> engine fallback)
             else engine fallback)"

definition regex_get :: "regex_source \<Rightarrow> bytes \<Rightarrow> bytes \<Rightarrow> bytes" where
  "regex_get src key fallback = (case lookup (rx_overrides src) key of Some entry \<Rightarrow> entry | None \<Rightarrow> fallback)"

definition regex_empty_source :: "regex_source \<Rightarrow> bool" where
  "regex_empty_source src \<longleftrightarrow> rx_overrides src = [] \<and> rx_scoped src = []"

definition regex_has_scope :: "regex_source \<Rightarrow> bytes \<Rightarrow> bool" where
  "regex_has_scope src owner \<longleftrightarrow> (case lookup (rx_scoped src) owner of None \<Rightarrow> False | Some scope \<Rightarrow> scope \<noteq> [])"

definition regex_scoped_to :: "regex_source \<Rightarrow> bytes \<Rightarrow> regex_source" where
  "regex_scoped_to src owner =
     flat_regex_source (case lookup (rx_scoped src) owner of None \<Rightarrow> [] | Some scope \<Rightarrow> scope)"

section \<open>The selector table\<close>

record selector_source =
  sel_overrides :: overrides
  sel_scoped :: "overrides smap"

definition empty_selector_source :: selector_source where
  "empty_selector_source = \<lparr>sel_overrides = [], sel_scoped = []\<rparr>"

definition flat_selector_source :: "overrides \<Rightarrow> selector_source" where
  "flat_selector_source o1 = \<lparr>sel_overrides = o1, sel_scoped = []\<rparr>"

definition scoped_selector_source :: "overrides \<Rightarrow> overrides smap \<Rightarrow> selector_source" where
  "scoped_selector_source flat scoped = \<lparr>sel_overrides = flat, sel_scoped = scoped\<rparr>"

definition selector_compile :: "(bytes \<Rightarrow> 'c option) \<Rightarrow> selector_source \<Rightarrow> bytes \<Rightarrow> bytes \<Rightarrow> 'c option" where
  "selector_compile compiler src key fallback =
     (case lookup (sel_overrides src) key of
        None \<Rightarrow> compiler fallback
      | Some entry \<Rightarrow> (case compiler entry of Some c \<Rightarrow> Some c | None \<Rightarrow> compiler fallback))"

definition selector_get :: "selector_source \<Rightarrow> bytes \<Rightarrow> bytes \<Rightarrow> bytes" where
  "selector_get src key fallback = (case lookup (sel_overrides src) key of Some entry \<Rightarrow> entry | None \<Rightarrow> fallback)"

definition selector_empty_source :: "selector_source \<Rightarrow> bool" where
  "selector_empty_source src \<longleftrightarrow> sel_overrides src = [] \<and> sel_scoped src = []"

definition selector_has_scope :: "selector_source \<Rightarrow> bytes \<Rightarrow> bool" where
  "selector_has_scope src owner \<longleftrightarrow> (case lookup (sel_scoped src) owner of None \<Rightarrow> False | Some scope \<Rightarrow> scope \<noteq> [])"

definition selector_scoped_to :: "selector_source \<Rightarrow> bytes \<Rightarrow> selector_source" where
  "selector_scoped_to src owner =
     flat_selector_source
       (case lookup (sel_scoped src) owner of
          None \<Rightarrow> sel_overrides src
        | Some scope \<Rightarrow> foldl (\<lambda>merged (k, css). om_put k css merged) (sel_overrides src) scope)"

section \<open>Lemmas\<close>

lemma contains_text_iff: "contains_text t n \<longleftrightarrow> sublist n t"
proof -
  have "contains_text t n \<longleftrightarrow> (\<exists>j \<le> length t. \<exists>r. drop j t = n @ r)"
    by (auto simp: contains_text_def find_from_None starts_with_iff)
  also have "\<dots> \<longleftrightarrow> (\<exists>p r. t = p @ n @ r)"
  proof
    assume "\<exists>j \<le> length t. \<exists>r. drop j t = n @ r"
    then show "\<exists>p r. t = p @ n @ r" by (metis append_take_drop_id)
  next
    assume "\<exists>p r. t = p @ n @ r"
    then obtain p r where "t = p @ n @ r" by blast
    then show "\<exists>j \<le> length t. \<exists>r. drop j t = n @ r" by (intro exI [of _ "length p"]) simp
  qed
  finally show ?thesis by (simp add: sublist_def)
qed

text \<open>How a group is spelled at the front of a text.\<close>

definition spells_group :: "bytes \<Rightarrow> bytes \<Rightarrow> bool" where
  "spells_group t name \<longleftrightarrow>
     prefix (''(?<'' @ name) t \<or> prefix (CHR ''('' # CHR ''?'' # chr_quote # name) t \<or> prefix (''(?P<'' @ name) t"

lemma named_until_prefix: "named_until c t = Some (n, r) \<Longrightarrow> prefix n t \<and> suffix r t \<and> n \<noteq> []"
  by (auto simp: named_until_def split_first_Some suffix_def split: option.splits if_splits)

lemma three_first: "3 \<le> length s \<Longrightarrow> s = s ! 0 # s ! 1 # drop 2 s"
  by (cases s; cases "tl s") auto

lemma four_first: "3 < length s \<Longrightarrow> s = s ! 0 # s ! 1 # s ! 2 # drop 3 s"
  by (cases s; cases "tl s"; cases "tl (tl s)") auto

lemma group_name_spells:
  assumes "group_name s = Some (n, r)"
  shows "spells_group (CHR ''('' # s) n \<and> suffix r s"
proof -
  have len: "3 \<le> length s" "s ! 0 = CHR ''?''" using assms by (auto simp: group_name_def split: if_splits)
  note s3 = three_first [OF len(1)]
  have drop_suffix: "suffix r (drop k s) \<Longrightarrow> suffix r s" for k
    by (meson suffix_drop suffix_order.trans)
  consider (angled) "s ! 1 = CHR ''<''" "named_until CHR ''>'' (drop 2 s) = Some (n, r)"
    | (quoted) "s ! 1 = chr_quote" "named_until chr_quote (drop 2 s) = Some (n, r)"
    | (python) "s ! 1 = CHR ''P''" "3 < length s" "s ! 2 = CHR ''<''" "named_until CHR ''>'' (drop 3 s) = Some (n, r)"
    using assms len by (auto simp: group_name_def split: if_splits)
  then show ?thesis
  proof cases
    case angled
    then show ?thesis using named_until_prefix [OF angled(2)] len s3 drop_suffix [of 2]
      by (metis append_Cons append_Nil prefix_Cons spells_group_def)
  next
    case quoted
    then show ?thesis using named_until_prefix [OF quoted(2)] len s3 drop_suffix [of 2]
      by (metis prefix_Cons spells_group_def)
  next
    case python
    then show ?thesis using named_until_prefix [OF python(4)] len four_first [OF python(2)] drop_suffix [of 3]
      by (metis append_Cons append_Nil prefix_Cons spells_group_def)
  qed
qed

lemma groups_from_spelled:
  "n \<in> set (groups_from groups in_class s) \<Longrightarrow> n \<in> set groups \<or> (\<exists>t. suffix t s \<and> spells_group t n)"
proof (induction groups in_class s rule: groups_from.induct)
  case (2 groups in_class c s)
  have up: "suffix t s \<Longrightarrow> suffix t (c # s)" "suffix t (drop 1 s) \<Longrightarrow> suffix t (c # s)" for t
    by (auto intro: suffix_ConsI dest: suffix_order.trans [OF _ suffix_drop])
  show ?case
  proof (cases "c \<noteq> chr_bslash \<and> \<not> in_class \<and> c = CHR ''('' \<and> group_name s \<noteq> None")
    case False
    then show ?thesis using 2 up by (auto split: if_splits option.splits)
  next
    case True
    then obtain name r where g: "group_name s = Some (name, r)" by (cases "group_name s") auto
    then have "n \<in> set (if name \<in> set groups then groups else groups @ [name]) \<or> (\<exists>t. suffix t r \<and> spells_group t n)"
      using 2 True by (auto split: if_splits)
    moreover have "suffix t r \<Longrightarrow> suffix t (c # s)" for t
      using group_name_spells [OF g] by (meson suffix_ConsI suffix_order.trans)
    moreover have "spells_group (c # s) name" using group_name_spells [OF g] True by simp
    ultimately show ?thesis by (auto split: if_splits)
  qed
qed simp

lemma spelled_declares: "suffix t p \<Longrightarrow> spells_group t n \<Longrightarrow> declares_group p n"
  by (auto simp: spells_group_def declares_group_def contains_text_iff prefix_def suffix_def sublist_def)

lemma named_declares: "n \<in> set (named_groups_of p) \<Longrightarrow> declares_group p n"
  using groups_from_spelled [of n "[]" False p] spelled_declares by (auto simp: named_groups_of_def)

section \<open>Properties\<close>

text \<open>What an override can do to a pattern. A source without an entry for the key serves the built-in
  literal; otherwise the result is the compiled override or the compiled literal, so it throws only
  if the literal is broken; and an override that compiles and names every group the literal names
  is used.\<close>
theorem regex_override_contract:
  "(lookup (rx_overrides src) key = None \<longrightarrow> regex_compile engine src key fallback = engine fallback) \<and>
   (lookup (rx_overrides src) key = Some entry \<longrightarrow>
      (regex_compile engine src key fallback = engine fallback \<or>
       regex_compile engine src key fallback = engine entry \<and> engine entry \<noteq> None) \<and>
      (engine entry \<noteq> None \<and> set (named_groups_of fallback) \<subseteq> set (named_groups_of entry) \<longrightarrow>
        regex_compile engine src key fallback = engine entry))"
proof -
  have "declares_all entry (named_groups_of fallback)" if "set (named_groups_of fallback) \<subseteq> set (named_groups_of entry)"
    using that named_declares by (auto simp: declares_all_def list_all_iff)
  then show ?thesis by (auto simp: regex_compile_def Let_def split: option.split)
qed

definition sample_regex_source :: regex_source where
  "sample_regex_source = flat_regex_source [(''k'', ''(?<idx>[0-9]+)'')]"

theorem regex_override_contract_witness:
  "regex_compile (\<lambda>t. Some t) sample_regex_source ''other'' ''(?<id>x)'' = Some ''(?<id>x)''"
  using regex_override_contract [of sample_regex_source "''other''" "\<lambda>t. Some t" "''(?<id>x)''"]
  by (simp add: sample_regex_source_def flat_regex_source_def)

text \<open>The group check accepts a longer name: an override that names a group \<open>idx\<close> is used in place
  of a literal whose group is \<open>id\<close>, although it does not name \<open>id\<close>; and so is one that only spells
  the group behind a backslash.\<close>
theorem longer_group_name_accepted:
  "named_groups_of ''(?<id>[0-9]+)'' = [''id''] \<and>
   named_groups_of ''(?<idx>[0-9]+)'' = [''idx''] \<and>
   regex_compile (\<lambda>t. Some t) sample_regex_source ''k'' ''(?<id>[0-9]+)'' = Some ''(?<idx>[0-9]+)'' \<and>
   named_groups_of (chr_bslash # ''(?<id>'') = [] \<and> declares_group (chr_bslash # ''(?<id>'') ''id''"
proof -
  have g: "named_groups_of ''(?<id>[0-9]+)'' = [''id'']" "named_groups_of ''(?<idx>[0-9]+)'' = [''idx'']"
    "named_groups_of (chr_bslash # ''(?<id>'') = []" by code_simp+
  have "''(?<idx>[0-9]+)'' = [] @ (''(?<'' @ ''id'') @ ''x>[0-9]+)''"
    "chr_bslash # ''(?<id>'' = [chr_bslash] @ (''(?<'' @ ''id'') @ ''>''" by simp_all
  then have d: "declares_group ''(?<idx>[0-9]+)'' ''id''" "declares_group (chr_bslash # ''(?<id>'') ''id''"
    unfolding declares_group_def contains_text_iff sublist_def by blast+
  show ?thesis using g d
    by (simp add: regex_compile_def declares_all_def sample_regex_source_def flat_regex_source_def)
qed

end
