(* ===== verification/Source_Holder.thy ===== *)
theory Source_Holder
  imports Regex_Source
begin

text \<open>
  \<open>RegexSourceHolder\<close> and \<open>SelectorSourceHolder\<close> of \<open>include/aniparse/utility/RegexSource.hpp\<close> and
  \<open>include/aniparse/html/SelectorSource.hpp\<close>: the slot a catalog swaps sources in, with its caches of
  scoped views and of compiled sets. The two classes differ only in the source type, so the
  operations are given once over the source's \<open>has_scope\<close> and \<open>scoped_to\<close>; a set type is a key,
  and \<open>create\<close> builds the set of a type from a source.
\<close>

section \<open>State and operations\<close>

record ('s, 'k, 't) holder =
  h_source :: 's
  h_views :: "(bytes \<times> 's) list"
  h_sets :: "((bytes \<times> 'k) \<times> 't) list"

definition new_holder :: "'s \<Rightarrow> 's option \<Rightarrow> ('s, 'k, 't) holder" where
  "new_holder empty_src src = \<lparr>h_source = (case src of Some s \<Rightarrow> s | None \<Rightarrow> empty_src), h_views = [], h_sets = []\<rparr>"

definition holder_get :: "('s, 'k, 't) holder \<Rightarrow> 's" where
  "holder_get h = h_source h"

text \<open>\<open>set\<close> stores the source, then drops the caches under the lock.\<close>

definition holder_store :: "'s \<Rightarrow> 's option \<Rightarrow> ('s, 'k, 't) holder \<Rightarrow> ('s, 'k, 't) holder" where
  "holder_store empty_src src h = h\<lparr>h_source := (case src of Some s \<Rightarrow> s | None \<Rightarrow> empty_src)\<rparr>"

definition holder_clear :: "('s, 'k, 't) holder \<Rightarrow> ('s, 'k, 't) holder" where
  "holder_clear h = h\<lparr>h_views := [], h_sets := []\<rparr>"

definition holder_set :: "'s \<Rightarrow> 's option \<Rightarrow> ('s, 'k, 't) holder \<Rightarrow> ('s, 'k, 't) holder" where
  "holder_set empty_src src h = holder_clear (holder_store empty_src src h)"

text \<open>The parts of \<open>view_for\<close>: look the view up, build it, insert it unless one is there.\<close>

definition needs_view :: "('s \<Rightarrow> bytes \<Rightarrow> bool) \<Rightarrow> 's \<Rightarrow> bytes \<Rightarrow> bool" where
  "needs_view has_scope src owner \<longleftrightarrow> owner \<noteq> [] \<and> has_scope src owner"

definition insert_view :: "bytes \<Rightarrow> 's \<Rightarrow> ('s, 'k, 't) holder \<Rightarrow> 's \<times> ('s, 'k, 't) holder" where
  "insert_view owner view h =
     (case lookup (h_views h) owner of
        Some stored \<Rightarrow> (stored, h)
      | None \<Rightarrow> (view, h\<lparr>h_views := assoc_emplace owner view (h_views h)\<rparr>))"

definition view_for ::
  "('s \<Rightarrow> bytes \<Rightarrow> bool) \<Rightarrow> ('s \<Rightarrow> bytes \<Rightarrow> 's) \<Rightarrow> bytes \<Rightarrow> ('s, 'k, 't) holder \<Rightarrow> 's \<times> ('s, 'k, 't) holder" where
  "view_for has_scope scoped_to owner h =
     (let src = h_source h
      in if \<not> needs_view has_scope src owner then (src, h)
         else case lookup (h_views h) owner of
           Some v \<Rightarrow> (v, h)
         | None \<Rightarrow> insert_view owner (scoped_to src owner) h)"

definition set_for ::
  "('s \<Rightarrow> bytes \<Rightarrow> bool) \<Rightarrow> ('s \<Rightarrow> bytes \<Rightarrow> 's) \<Rightarrow> ('k \<Rightarrow> 's \<Rightarrow> 't) \<Rightarrow> bytes \<Rightarrow> 'k \<Rightarrow>
     ('s, 'k, 't) holder \<Rightarrow> 't \<times> ('s, 'k, 't) holder" where
  "set_for has_scope scoped_to create owner type_key h =
     (case lookup (h_sets h) (owner, type_key) of
        Some t \<Rightarrow> (t, h)
      | None \<Rightarrow>
          (let (view, h') = view_for has_scope scoped_to owner h;
               built = create type_key view
           in (case lookup (h_sets h') (owner, type_key) of
                 Some t \<Rightarrow> (t, h')
               | None \<Rightarrow> (built, h'\<lparr>h_sets := assoc_emplace (owner, type_key) built (h_sets h')\<rparr>))))"

section \<open>One call at a time\<close>

inductive sequential ::
  "'s \<Rightarrow> ('s \<Rightarrow> bytes \<Rightarrow> bool) \<Rightarrow> ('s \<Rightarrow> bytes \<Rightarrow> 's) \<Rightarrow> ('k \<Rightarrow> 's \<Rightarrow> 't) \<Rightarrow> ('s, 'k, 't) holder \<Rightarrow> bool"
  for empty_src has_scope scoped_to create where
  seq_new: "sequential empty_src has_scope scoped_to create (new_holder empty_src src)"
| seq_set: "sequential empty_src has_scope scoped_to create h \<Longrightarrow>
    sequential empty_src has_scope scoped_to create (holder_set empty_src src h)"
| seq_view: "sequential empty_src has_scope scoped_to create h \<Longrightarrow>
    sequential empty_src has_scope scoped_to create (snd (view_for has_scope scoped_to owner h))"
| seq_sets: "sequential empty_src has_scope scoped_to create h \<Longrightarrow>
    sequential empty_src has_scope scoped_to create (snd (set_for has_scope scoped_to create owner k h))"

text \<open>What a holder relies on: an empty source has no scope, so it is served as it is.\<close>

locale scoped_source =
  fixes empty_src :: "'s"
    and has_scope :: "'s \<Rightarrow> bytes \<Rightarrow> bool"
    and scoped_to :: "'s \<Rightarrow> bytes \<Rightarrow> 's"
  assumes empty_scope: "\<not> has_scope empty_src owner"
    and view_is_flat: "\<not> has_scope (scoped_to s owner) owner'"
begin

definition owner_view :: "'s \<Rightarrow> bytes \<Rightarrow> 's" where
  "owner_view src owner = (if needs_view has_scope src owner then scoped_to src owner else src)"

definition fresh :: "('k \<Rightarrow> 's \<Rightarrow> 't) \<Rightarrow> ('s, 'k, 't) holder \<Rightarrow> bool" where
  "fresh create h \<longleftrightarrow>
     (\<forall>owner v. lookup (h_views h) owner = Some v \<longrightarrow> v = owner_view (h_source h) owner) \<and>
     (\<forall>owner k t. lookup (h_sets h) (owner, k) = Some t \<longrightarrow> t = create k (owner_view (h_source h) owner))"

lemma fresh_clear: "h_views h = [] \<Longrightarrow> h_sets h = [] \<Longrightarrow> fresh create h"
  by (simp add: fresh_def)

lemma view_for_fresh:
  assumes "fresh create h"
  shows "fst (view_for has_scope scoped_to owner h) = owner_view (h_source h) owner \<and>
    fresh create (snd (view_for has_scope scoped_to owner h)) \<and>
    h_source (snd (view_for has_scope scoped_to owner h)) = h_source h \<and>
    h_sets (snd (view_for has_scope scoped_to owner h)) = h_sets h"
  using assms
  by (auto simp: view_for_def insert_view_def fresh_def owner_view_def Let_def split: option.splits if_splits)

lemma set_for_fresh:
  assumes "fresh create h"
  shows "fst (set_for has_scope scoped_to create owner k h) = create k (owner_view (h_source h) owner) \<and>
    fresh create (snd (set_for has_scope scoped_to create owner k h))"
proof (cases "lookup (h_sets h) (owner, k)")
  case None
  obtain v h' where v: "view_for has_scope scoped_to owner h = (v, h')" by (cases "view_for has_scope scoped_to owner h")
  then have "v = owner_view (h_source h) owner" "fresh create h'" "h_source h' = h_source h" "h_sets h' = h_sets h"
    using view_for_fresh [OF assms, of owner] by auto
  then show ?thesis using None v by (auto simp: set_for_def fresh_def Let_def split: if_splits option.splits)
qed (use assms in \<open>auto simp: set_for_def fresh_def\<close>)

lemma sequential_fresh: "sequential empty_src has_scope scoped_to create h \<Longrightarrow> fresh create h"
  by (induction rule: sequential.induct)
    (auto simp: new_holder_def holder_set_def holder_clear_def fresh_clear view_for_fresh set_for_fresh)

lemma view_is_stable: "owner_view (owner_view src owner) owner = owner_view src owner"
  by (auto simp: owner_view_def needs_view_def view_is_flat)

end

interpretation rx: scoped_source empty_regex_source regex_has_scope regex_scoped_to
  by unfold_locales (simp_all add: regex_has_scope_def regex_scoped_to_def empty_regex_source_def flat_regex_source_def)

interpretation sel: scoped_source empty_selector_source selector_has_scope selector_scoped_to
  by unfold_locales
    (simp_all add: selector_has_scope_def selector_scoped_to_def empty_selector_source_def flat_selector_source_def)

section \<open>Interleaved calls\<close>

text \<open>
  \<open>view_for\<close> loads the source and consults the cache, builds a missing view outside the lock and
  inserts it in a second locked step; \<open>set\<close> stores the source and clears the caches in two steps.
  A call in progress is one of these states, and any call may take the next step.
\<close>

datatype 's call =
    Loaded bytes 's     \<comment> \<open>the source is loaded, the cache not yet consulted\<close>
  | Built bytes 's      \<comment> \<open>the view is built, not yet inserted\<close>
  | Returned bytes 's
  | Stored              \<comment> \<open>\<open>set\<close>, caches not yet cleared\<close>
  | SetDone

record 's world =
  w_holder :: "('s, unit, unit) holder"
  w_calls :: "'s call list"
  w_history :: "'s list"   \<comment> \<open>every source stored so far\<close>

inductive holder_step :: "'s \<Rightarrow> ('s \<Rightarrow> bytes \<Rightarrow> bool) \<Rightarrow> ('s \<Rightarrow> bytes \<Rightarrow> 's) \<Rightarrow> 's world \<Rightarrow> 's world \<Rightarrow> bool"
  for empty_src has_scope scoped_to where
  call_direct: "\<not> needs_view has_scope (h_source (w_holder w)) owner \<Longrightarrow>
    holder_step empty_src has_scope scoped_to w
      (w\<lparr>w_calls := w_calls w @ [Returned owner (h_source (w_holder w))]\<rparr>)"
| call_load: "needs_view has_scope (h_source (w_holder w)) owner \<Longrightarrow>
    holder_step empty_src has_scope scoped_to w
      (w\<lparr>w_calls := w_calls w @ [Loaded owner (h_source (w_holder w))]\<rparr>)"
| call_hit: "i < length (w_calls w) \<Longrightarrow> w_calls w ! i = Loaded owner src \<Longrightarrow>
    lookup (h_views (w_holder w)) owner = Some v \<Longrightarrow>
    holder_step empty_src has_scope scoped_to w (w\<lparr>w_calls := (w_calls w)[i := Returned owner v]\<rparr>)"
| call_build: "i < length (w_calls w) \<Longrightarrow> w_calls w ! i = Loaded owner src \<Longrightarrow>
    lookup (h_views (w_holder w)) owner = None \<Longrightarrow>
    holder_step empty_src has_scope scoped_to w (w\<lparr>w_calls := (w_calls w)[i := Built owner (scoped_to src owner)]\<rparr>)"
| call_insert: "i < length (w_calls w) \<Longrightarrow> w_calls w ! i = Built owner view \<Longrightarrow>
    insert_view owner view (w_holder w) = (v, h') \<Longrightarrow>
    holder_step empty_src has_scope scoped_to w (w\<lparr>w_holder := h', w_calls := (w_calls w)[i := Returned owner v]\<rparr>)"
| set_store: "holder_step empty_src has_scope scoped_to w
    (w\<lparr>w_holder := holder_store empty_src src (w_holder w), w_calls := w_calls w @ [Stored],
       w_history := h_source (holder_store empty_src src (w_holder w)) # w_history w\<rparr>)"
| set_clear: "i < length (w_calls w) \<Longrightarrow> w_calls w ! i = Stored \<Longrightarrow>
    holder_step empty_src has_scope scoped_to w
      (w\<lparr>w_holder := holder_clear (w_holder w), w_calls := (w_calls w)[i := SetDone]\<rparr>)"

inductive holder_run :: "'s \<Rightarrow> ('s \<Rightarrow> bytes \<Rightarrow> bool) \<Rightarrow> ('s \<Rightarrow> bytes \<Rightarrow> 's) \<Rightarrow> 's world \<Rightarrow> bool"
  for empty_src has_scope scoped_to where
  run_start: "holder_run empty_src has_scope scoped_to
    \<lparr>w_holder = new_holder empty_src (Some s), w_calls = [], w_history = [s]\<rparr>"
| run_step: "holder_run empty_src has_scope scoped_to w \<Longrightarrow> holder_step empty_src has_scope scoped_to w w' \<Longrightarrow>
    holder_run empty_src has_scope scoped_to w'"

text \<open>Whatever the interleaving, a view belongs to the owner it is served to.\<close>

definition owned :: "('s \<Rightarrow> bytes \<Rightarrow> bool) \<Rightarrow> ('s \<Rightarrow> bytes \<Rightarrow> 's) \<Rightarrow> 's list \<Rightarrow> bytes \<Rightarrow> 's \<Rightarrow> bool" where
  "owned has_scope scoped_to history owner v \<longleftrightarrow>
     (\<exists>s \<in> set history. v = (if needs_view has_scope s owner then scoped_to s owner else s))"

fun call_ok :: "('s \<Rightarrow> bytes \<Rightarrow> bool) \<Rightarrow> ('s \<Rightarrow> bytes \<Rightarrow> 's) \<Rightarrow> 's list \<Rightarrow> 's call \<Rightarrow> bool" where
  "call_ok hs sc history (Loaded owner src) \<longleftrightarrow> src \<in> set history \<and> needs_view hs src owner"
| "call_ok hs sc history (Built owner v) \<longleftrightarrow> owned hs sc history owner v"
| "call_ok hs sc history (Returned owner v) \<longleftrightarrow> owned hs sc history owner v"
| "call_ok hs sc history _ \<longleftrightarrow> True"

definition world_ok :: "('s \<Rightarrow> bytes \<Rightarrow> bool) \<Rightarrow> ('s \<Rightarrow> bytes \<Rightarrow> 's) \<Rightarrow> 's world \<Rightarrow> bool" where
  "world_ok hs sc w \<longleftrightarrow>
     h_source (w_holder w) \<in> set (w_history w) \<and>
     (\<forall>owner v. lookup (h_views (w_holder w)) owner = Some v \<longrightarrow> owned hs sc (w_history w) owner v) \<and>
     (\<forall>c \<in> set (w_calls w). call_ok hs sc (w_history w) c)"

lemma owned_more: "owned hs sc history owner v \<Longrightarrow> owned hs sc (s # history) owner v"
  by (auto simp: owned_def)

lemma call_ok_more: "call_ok hs sc history c \<Longrightarrow> call_ok hs sc (s # history) c"
  by (cases c) (auto simp: owned_more)

lemma ball_update: "\<forall>x \<in> set xs. P x \<Longrightarrow> P y \<Longrightarrow> \<forall>x \<in> set (xs[i := y]). P x"
  using set_update_subset_insert [of xs i y] by blast

lemma world_ok_call:
  "world_ok hs sc w \<Longrightarrow> call_ok hs sc (w_history w) c \<Longrightarrow> world_ok hs sc (w\<lparr>w_calls := (w_calls w)[i := c]\<rparr>)"
  using ball_update [of "w_calls w" "call_ok hs sc (w_history w)" c i] by (simp add: world_ok_def)

lemma world_ok_nth: "world_ok hs sc w \<Longrightarrow> i < length (w_calls w) \<Longrightarrow> call_ok hs sc (w_history w) (w_calls w ! i)"
  by (simp add: world_ok_def)

lemma world_ok_step:
  assumes "holder_step e hs sc w w'" "world_ok hs sc w"
  shows "world_ok hs sc w'"
  using assms
proof (induction rule: holder_step.induct)
  case (call_hit i w owner src v)
  then show ?case by (intro world_ok_call) (auto simp: world_ok_def)
next
  case (call_build i w owner src)
  then show ?case using world_ok_nth [of hs sc w i] by (intro world_ok_call) (auto simp: owned_def)
next
  case (call_insert i w owner view v h')
  have view: "owned hs sc (w_history w) owner view"
    using world_ok_nth [OF call_insert.prems call_insert.hyps(1)] call_insert.hyps(2) by simp
  have "owned hs sc (w_history w) owner v" "world_ok hs sc (w\<lparr>w_holder := h'\<rparr>)"
    using call_insert.hyps(3) call_insert.prems view
    by (auto simp: insert_view_def world_ok_def split: option.splits if_splits)
  then have "world_ok hs sc (w\<lparr>w_holder := h', w_calls := (w_calls (w\<lparr>w_holder := h'\<rparr>))[i := Returned owner v]\<rparr>)"
    by (intro world_ok_call) simp_all
  then show ?case by simp
next
  case (set_clear i w)
  then have "world_ok hs sc (w\<lparr>w_holder := holder_clear (w_holder w)\<rparr>)"
    by (simp add: world_ok_def holder_clear_def)
  from world_ok_call [OF this, of SetDone i] show ?case by simp
next
  case (set_store w src)
  then show ?case using call_ok_more owned_more by (fastforce simp: world_ok_def holder_store_def)
qed (auto simp: world_ok_def owned_def)

lemma holder_run_ok: "holder_run e hs sc w \<Longrightarrow> world_ok hs sc w"
  by (induction rule: holder_run.induct) (auto simp: world_ok_step, auto simp: world_ok_def new_holder_def)

section \<open>Properties\<close>

definition in_progress :: "'s call \<Rightarrow> bool" where
  "in_progress c \<longleftrightarrow> (case c of Loaded _ _ \<Rightarrow> True | Built _ _ \<Rightarrow> True | Stored \<Rightarrow> True | _ \<Rightarrow> False)"

abbreviation regex_view :: "bytes \<Rightarrow> (regex_source, 'k, 't) holder \<Rightarrow> regex_source \<times> (regex_source, 'k, 't) holder" where
  "regex_view \<equiv> view_for regex_has_scope regex_scoped_to"

definition selector_view_for ::
  "bytes \<Rightarrow> (selector_source, 'k, 't) holder \<Rightarrow> selector_source \<times> (selector_source, 'k, 't) holder" where
  "selector_view_for = view_for selector_has_scope selector_scoped_to"

definition selector_set_for ::
  "('k \<Rightarrow> selector_source \<Rightarrow> 't) \<Rightarrow> bytes \<Rightarrow> 'k \<Rightarrow> (selector_source, 'k, 't) holder \<Rightarrow>
     't \<times> (selector_source, 'k, 't) holder" where
  "selector_set_for = set_for selector_has_scope selector_scoped_to"

definition selector_holder_set ::
  "selector_source option \<Rightarrow> (selector_source, 'k, 't) holder \<Rightarrow> (selector_source, 'k, 't) holder" where
  "selector_holder_set = holder_set empty_selector_source"

lemmas selector_holder_defs = selector_view_for_def selector_set_for_def selector_holder_set_def

text \<open>Calls that do not overlap always see the current source. After any sequence of \<open>set\<close>,
  \<open>view_for\<close> and \<open>set_for\<close> calls the caches never show: a view is the source's scoped view when the
  source carries a scope for the owner and the source itself otherwise, a compiled set is built
  from that view, and right after \<open>set(s)\<close> both come from \<open>s\<close>. For regex and for selector holders.
\<close>

theorem holder_serves_current:
  assumes "sequential empty_regex_source regex_has_scope regex_scoped_to mk h"
    and "sequential empty_selector_source selector_has_scope selector_scoped_to mk' h'"
  shows "(fst (regex_view owner h) =
      (if owner \<noteq> [] \<and> regex_has_scope (holder_get h) owner then regex_scoped_to (holder_get h) owner else holder_get h)) \<and>
    (fst (set_for regex_has_scope regex_scoped_to mk owner k h) = mk k (fst (regex_view owner h))) \<and>
    (fst (regex_view owner (holder_set empty_regex_source (Some s) h)) =
      (if owner \<noteq> [] \<and> regex_has_scope s owner then regex_scoped_to s owner else s)) \<and>
    (fst (set_for regex_has_scope regex_scoped_to mk owner k (holder_set empty_regex_source (Some s) h)) =
      mk k (if owner \<noteq> [] \<and> regex_has_scope s owner then regex_scoped_to s owner else s)) \<and>
    (fst (selector_view_for owner h') =
      (if owner \<noteq> [] \<and> selector_has_scope (holder_get h') owner
       then selector_scoped_to (holder_get h') owner else holder_get h')) \<and>
    (fst (selector_set_for mk' owner k h') = mk' k (fst (selector_view_for owner h'))) \<and>
    (fst (selector_set_for mk' owner k (selector_holder_set (Some s') h')) =
      mk' k (if owner \<noteq> [] \<and> selector_has_scope s' owner then selector_scoped_to s' owner else s'))"
proof -
  note r = rx.sequential_fresh [OF assms(1)] rx.sequential_fresh [OF seq_set [OF assms(1), of "Some s"]]
  note l = sel.sequential_fresh [OF assms(2)] sel.sequential_fresh [OF seq_set [OF assms(2), of "Some s'"]]
  note served = rx.view_for_fresh [THEN conjunct1] rx.set_for_fresh [THEN conjunct1]
    sel.view_for_fresh [THEN conjunct1] sel.set_for_fresh [THEN conjunct1]
    rx.owner_view_def sel.owner_view_def needs_view_def holder_get_def holder_set_def holder_clear_def holder_store_def
    selector_holder_defs
  have now: "fst (regex_view owner h) =
      (if owner \<noteq> [] \<and> regex_has_scope (holder_get h) owner then regex_scoped_to (holder_get h) owner else holder_get h)"
    "fst (selector_view_for owner h') =
      (if owner \<noteq> [] \<and> selector_has_scope (holder_get h') owner
       then selector_scoped_to (holder_get h') owner else holder_get h')"
    using r(1) l(1) by (simp_all add: served)
  have sets: "fst (set_for regex_has_scope regex_scoped_to mk owner k h) = mk k (fst (regex_view owner h))"
    "fst (selector_set_for mk' owner k h') = mk' k (fst (selector_view_for owner h'))"
    using r(1) l(1) by (simp_all add: served)
  have after: "fst (regex_view owner (holder_set empty_regex_source (Some s) h)) =
      (if owner \<noteq> [] \<and> regex_has_scope s owner then regex_scoped_to s owner else s)"
    "fst (set_for regex_has_scope regex_scoped_to mk owner k (holder_set empty_regex_source (Some s) h)) =
      mk k (if owner \<noteq> [] \<and> regex_has_scope s owner then regex_scoped_to s owner else s)"
    "fst (selector_set_for mk' owner k (selector_holder_set (Some s') h')) =
      mk' k (if owner \<noteq> [] \<and> selector_has_scope s' owner then selector_scoped_to s' owner else s')"
    using r(2) l(2) by (simp_all add: served)
  show ?thesis by (intro conjI now sets after)
qed

definition old_patterns :: regex_source where
  "old_patterns = scoped_regex_source [(''dan'', [(''date'', ''old'')])]"

definition new_patterns :: regex_source where
  "new_patterns = scoped_regex_source [(''dan'', [(''date'', ''new'')])]"

lemmas pattern_defs = old_patterns_def new_patterns_def scoped_regex_source_def flat_regex_source_def
  regex_has_scope_def regex_scoped_to_def needs_view_def

theorem holder_serves_current_witness:
  "fst (regex_view ''dan'' (holder_set empty_regex_source (Some new_patterns)
      (snd (regex_view ''dan'' (new_holder empty_regex_source (Some old_patterns) :: (regex_source, unit, unit) holder))))) =
    flat_regex_source [(''date'', ''new'')]"
proof -
  have r: "sequential empty_regex_source regex_has_scope regex_scoped_to (\<lambda>_ _. ())
      (snd (regex_view ''dan'' (new_holder empty_regex_source (Some old_patterns) :: (regex_source, unit, unit) holder)))"
    by (rule seq_view [OF seq_new])
  have l: "sequential empty_selector_source selector_has_scope selector_scoped_to (\<lambda>_ _. ())
      (new_holder empty_selector_source None :: (selector_source, unit, unit) holder)"
    by (rule seq_new)
  show ?thesis using holder_serves_current [OF r l, of "''dan''" "()" new_patterns] by (simp add: pattern_defs)
qed

text \<open>C11: However \<open>view_for\<close> and \<open>set\<close> calls of several threads interleave, an owner is never served
  another owner's overrides: a returned view is the view of that owner over a source that was
  stored at some time, either its scoped view or, when that source has no scope for it, the source.
\<close>

theorem holder_views_isolated:
  assumes "holder_run empty_regex_source regex_has_scope regex_scoped_to w"
    and "Returned owner v \<in> set (w_calls w)"
  shows "\<exists>s \<in> set (w_history w). v = (if owner \<noteq> [] \<and> regex_has_scope s owner then regex_scoped_to s owner else s)"
  using holder_run_ok [OF assms(1)] assms(2)
  by (fastforce simp: world_ok_def owned_def needs_view_def)

text \<open>The race: a view built from the old source is inserted after \<open>set\<close> has cleared the cache.\<close>

definition raced :: "regex_source world" where
  "raced = \<lparr>w_holder = \<lparr>h_source = new_patterns, h_views = [(''dan'', regex_scoped_to old_patterns ''dan'')], h_sets = []\<rparr>,
     w_calls = [Returned ''dan'' (regex_scoped_to old_patterns ''dan''), SetDone],
     w_history = [new_patterns, old_patterns]\<rparr>"

lemma raced_reachable: "holder_run empty_regex_source regex_has_scope regex_scoped_to raced"
proof -
  let ?run = "holder_run empty_regex_source regex_has_scope regex_scoped_to"
  let ?v = "regex_scoped_to old_patterns ''dan''"
  let ?h = "\<lambda>src. \<lparr>h_source = src, h_views = [], h_sets = []\<rparr> :: (regex_source, unit, unit) holder"
  have "?run \<lparr>w_holder = ?h old_patterns, w_calls = [], w_history = [old_patterns]\<rparr>"
    using run_start [of empty_regex_source regex_has_scope regex_scoped_to old_patterns] by (simp add: new_holder_def)
  from run_step [OF this call_load [of regex_has_scope _ "''dan''"]]
  have "?run \<lparr>w_holder = ?h old_patterns, w_calls = [Loaded ''dan'' old_patterns], w_history = [old_patterns]\<rparr>"
    by (simp add: pattern_defs)
  from run_step [OF this call_build [of 0 _ "''dan''" old_patterns]]
  have "?run \<lparr>w_holder = ?h old_patterns, w_calls = [Built ''dan'' ?v], w_history = [old_patterns]\<rparr>" by simp
  from run_step [OF this set_store [of _ _ _ _ "Some new_patterns"]]
  have "?run \<lparr>w_holder = ?h new_patterns, w_calls = [Built ''dan'' ?v, Stored], w_history = [new_patterns, old_patterns]\<rparr>"
    by (simp add: holder_store_def)
  from run_step [OF this set_clear [of 1]]
  have "?run \<lparr>w_holder = ?h new_patterns, w_calls = [Built ''dan'' ?v, SetDone], w_history = [new_patterns, old_patterns]\<rparr>"
    by (simp add: holder_clear_def)
  from run_step [OF this call_insert [of 0 _ "''dan''" ?v ?v "\<lparr>h_source = new_patterns, h_views = [(''dan'', ?v)], h_sets = []\<rparr>"]]
  show ?thesis by (simp add: raced_def insert_view_def assoc_emplace_def)
qed

theorem holder_views_isolated_witness:
  "\<exists>s \<in> set (w_history raced). regex_scoped_to old_patterns ''dan'' =
    (if ''dan'' \<noteq> [] \<and> regex_has_scope s ''dan'' then regex_scoped_to s ''dan'' else s)"
  by (rule holder_views_isolated [OF raced_reachable]) (simp add: raced_def)

text \<open>The holder does not keep its promise that builds after a \<open>set\<close> see the new source. There is an
  interleaving of one \<open>view_for\<close> and one \<open>set\<close> after which both calls have finished, the holder's
  source is the new one, and yet a later \<open>view_for\<close> still serves the old source's overrides: the view
  built outside the lock is inserted after the clear, and only the next \<open>set\<close> evicts it.
\<close>

theorem stale_view_survives_set:
  "\<exists>w. holder_run empty_regex_source regex_has_scope regex_scoped_to w \<and>
    list_all (\<lambda>c. \<not> in_progress c) (w_calls w) \<and> holder_get (w_holder w) = new_patterns \<and>
    fst (regex_view ''dan'' (w_holder w)) = regex_scoped_to old_patterns ''dan'' \<and>
    regex_get (fst (regex_view ''dan'' (w_holder w))) ''date'' [] = ''old'' \<and>
    regex_get (regex_scoped_to (holder_get (w_holder w)) ''dan'') ''date'' [] = ''new''"
  by (rule exI [of _ raced])
    (simp add: raced_reachable, simp add: raced_def in_progress_def holder_get_def view_for_def Let_def pattern_defs regex_get_def)

end
