(* ===== verification/Requests.thy ===== *)
theory Requests
  imports Headers Url_Codec Ordered_Map
begin

text \<open>
  \<open>include/aniparse/types/Request.hpp\<close>, \<open>include/aniparse/types/Response.hpp\<close> and the request path of
  \<open>src/ClientContext.cpp\<close>: editable query parameters and their form encoding, the three request
  shapes, the folding of a parser's config into an outgoing request, and the classification of what
  comes back. The HTTP client, the HTML parser and \<open>boost::json::parse\<close> are parameters: functions
  from what the code passes them to what they answer. The jar of a session is opaque here.
\<close>

section \<open>Query parameters\<close>

type_synonym url_parameters = "(bytes \<times> bytes) list"

fun params_set :: "url_parameters \<Rightarrow> bytes \<Rightarrow> bytes \<Rightarrow> url_parameters" where
  "params_set [] key v = [(key, v)]"
| "params_set ((k, w) # ps) key v = (if k = key then (k, v) # ps else (k, w) # params_set ps key v)"

definition params_add :: "url_parameters \<Rightarrow> bytes \<Rightarrow> bytes \<Rightarrow> url_parameters" where
  "params_add ps key v = ps @ [(key, v)]"

definition params_remove :: "url_parameters \<Rightarrow> bytes \<Rightarrow> nat \<times> url_parameters" where
  "params_remove ps key = (let ps' = filter (\<lambda>p. fst p \<noteq> key) ps in (length ps - length ps', ps'))"

definition params_get :: "url_parameters \<Rightarrow> bytes \<Rightarrow> bytes option" where
  "params_get ps key = map_option snd (find (\<lambda>p. fst p = key) ps)"

definition params_contains :: "url_parameters \<Rightarrow> bytes \<Rightarrow> bool" where
  "params_contains ps key \<longleftrightarrow> find (\<lambda>p. fst p = key) ps \<noteq> None"

definition form_step :: "bytes \<Rightarrow> bytes \<times> bytes \<Rightarrow> bytes" where
  "form_step body p = (if body \<noteq> [] then body @ ''&'' else body) @ url_encode (fst p) @ ''='' @ url_encode (snd p)"

definition to_urlencoded :: "url_parameters \<Rightarrow> bytes" where
  "to_urlencoded ps = foldl form_step [] ps"

section \<open>Requests\<close>

datatype http_method = Get | Head | Post | Put | Patch | Delete | Options

datatype part_source = PartText bytes | PartBuffer bytes | PartFile bytes

record multipart_part =
  mp_name :: bytes
  mp_source :: part_source
  mp_filename :: "bytes option"
  mp_content_type :: "bytes option"

record get_request =
  gr_url :: bytes
  gr_params :: url_parameters
  gr_headers :: headers
  gr_method :: http_method

record post_request =
  po_url :: bytes
  po_params :: url_parameters
  po_headers :: headers
  po_body :: bytes
  po_method :: http_method

record multipart_request =
  mr_url :: bytes
  mr_params :: url_parameters
  mr_headers :: headers
  mr_forms :: "multipart_part list"
  mr_method :: http_method

datatype client_request = GetReq get_request | PostReq post_request | MultipartReq multipart_request

text \<open>A modifier may do anything to the request, its alternative included.\<close>

record 'j parser_config =
  pc_headers :: headers
  pc_url_params :: "(bytes \<times> bytes) list"
  pc_cookie_jar :: "'j option"
  pc_flags :: nat
  pc_parser_id :: bytes
  pc_alt_link :: nat
  pc_modifiers :: "(client_request \<Rightarrow> client_request) list"

definition add_all :: "url_parameters \<Rightarrow> (bytes \<times> bytes) list \<Rightarrow> url_parameters" where
  "add_all ps config = foldl (\<lambda>ps (k, v). params_add ps k v) ps config"

fun apply_defaults :: "headers \<Rightarrow> (bytes \<times> bytes) list \<Rightarrow> client_request \<Rightarrow> client_request" where
  "apply_defaults hs ps (GetReq r) = GetReq (r\<lparr>gr_headers := merge_missing (gr_headers r) hs, gr_params := add_all (gr_params r) ps\<rparr>)"
| "apply_defaults hs ps (PostReq r) = PostReq (r\<lparr>po_headers := merge_missing (po_headers r) hs, po_params := add_all (po_params r) ps\<rparr>)"
| "apply_defaults hs ps (MultipartReq r) =
     MultipartReq (r\<lparr>mr_headers := merge_missing (mr_headers r) hs, mr_params := add_all (mr_params r) ps\<rparr>)"

definition apply_config_to :: "client_request \<Rightarrow> 'j parser_config \<Rightarrow> client_request" where
  "apply_config_to r config =
     foldl (\<lambda>r modifier. modifier r) (apply_defaults (pc_headers config) (pc_url_params config) r) (pc_modifiers config)"

text \<open>What \<open>request\<close> hands to the transport: \<open>std::get\<close> throws when a modifier changed the alternative.\<close>

datatype request_failure = BadVariantAccess

fun same_alternative :: "client_request \<Rightarrow> client_request \<Rightarrow> bool" where
  "same_alternative (GetReq _) (GetReq _) \<longleftrightarrow> True"
| "same_alternative (PostReq _) (PostReq _) \<longleftrightarrow> True"
| "same_alternative (MultipartReq _) (MultipartReq _) \<longleftrightarrow> True"
| "same_alternative _ _ \<longleftrightarrow> False"

definition configured_request :: "'j parser_config \<Rightarrow> client_request \<Rightarrow> request_failure + (client_request \<times> 'j option)" where
  "configured_request config r =
     (let any_request = apply_config_to r config
      in if same_alternative r any_request then Inr (any_request, pc_cookie_jar config) else Inl BadVariantAccess)"

section \<open>Responses\<close>

record response_data =
  rd_status_code :: int
  rd_body :: bytes
  rd_headers :: headers
  rd_effective_url :: "bytes option"

datatype request_error_code =
    UnknownError | NotImplemented | InvalidArguments | NetworkError | Cancelled | ServerError
  | InvalidCredentials | NotFound | RateLimited | UnexpectedResponse | InteractionRequired

record request_error =
  re_code :: request_error_code
  re_message :: bytes
  re_http_status :: "int option"
  re_body :: bytes

definition make_response_error :: "request_error_code \<Rightarrow> bytes \<Rightarrow> int option \<Rightarrow> bytes \<Rightarrow> request_error" where
  "make_response_error c message http_status body =
     \<lparr>re_code = c, re_message = message, re_http_status = http_status, re_body = body\<rparr>"

definition is_success_status :: "int \<Rightarrow> bool" where
  "is_success_status status \<longleftrightarrow> 200 \<le> status \<and> status < 300"

definition status_to_error_code :: "int \<Rightarrow> request_error_code" where
  "status_to_error_code status =
     (if status = 401 \<or> status = 403 then InvalidCredentials
      else if status = 404 then NotFound
      else if status = 429 then RateLimited
      else if 500 \<le> status then ServerError else UnknownError)"

text \<open>A request yields a C++ exception, an error value or a response.\<close>

datatype 'a outcome = Threw request_failure | Failed request_error | Yielded 'a

type_synonym 'j transport = "client_request \<Rightarrow> 'j option \<Rightarrow> request_error + response_data"

definition perform :: "'j transport \<Rightarrow> 'j parser_config \<Rightarrow> client_request \<Rightarrow> response_data outcome" where
  "perform do_request config r =
     (case configured_request config r of
        Inl f \<Rightarrow> Threw f
      | Inr (sent, jar) \<Rightarrow> (case do_request sent jar of Inl e \<Rightarrow> Failed e | Inr d \<Rightarrow> Yielded d))"

definition fetch_ok :: "'j transport \<Rightarrow> 'j parser_config \<Rightarrow> client_request \<Rightarrow> response_data outcome" where
  "fetch_ok do_request config r =
     (case perform do_request config r of
        Yielded d \<Rightarrow>
          (if \<not> is_success_status (rd_status_code d)
           then Failed (make_response_error (status_to_error_code (rd_status_code d))
             (''HTTP '' @ int_to_dec (rd_status_code d)) (Some (rd_status_code d)) (rd_body d))
           else Yielded d)
      | out \<Rightarrow> out)"

definition request_html ::
  "(bytes \<Rightarrow> bytes + 'd) \<Rightarrow> 'j transport \<Rightarrow> 'j parser_config \<Rightarrow> client_request \<Rightarrow> 'd outcome" where
  "request_html try_parse do_request config r =
     (case fetch_ok do_request config r of
        Threw f \<Rightarrow> Threw f
      | Failed e \<Rightarrow> Failed e
      | Yielded d \<Rightarrow>
          (case try_parse (rd_body d) of
             Inl what \<Rightarrow> Failed (make_response_error UnexpectedResponse (''HTML parse failed: '' @ what)
               (Some (rd_status_code d)) (rd_body d))
           | Inr document \<Rightarrow> Yielded document))"

definition request_json ::
  "(bytes \<Rightarrow> bytes + 'd) \<Rightarrow> 'j transport \<Rightarrow> 'j parser_config \<Rightarrow> client_request \<Rightarrow> 'd outcome" where
  "request_json parse do_request config r =
     (case fetch_ok do_request config r of
        Threw f \<Rightarrow> Threw f
      | Failed e \<Rightarrow> Failed e
      | Yielded d \<Rightarrow>
          (case parse (rd_body d) of
             Inl message \<Rightarrow> Failed (make_response_error UnexpectedResponse (''JSON parse failed: '' @ message)
               (Some (rd_status_code d)) (rd_body d))
           | Inr v \<Rightarrow> Yielded v))"


section \<open>Lemmas\<close>

lemma add_all_append: "add_all ps config = ps @ config"
  unfolding add_all_def by (induction config arbitrary: ps) (auto simp: params_add_def)

lemma url_encode_clean: "c \<in> set (url_encode s) \<Longrightarrow> is_unreserved c \<or> c = CHR ''%''"
  using url_encode_alphabet by blast

lemma reserved_marks: "\<not> is_unreserved CHR ''&''" "\<not> is_unreserved CHR ''=''"
  by (simp_all add: is_unreserved_def is_digit_def is_upper_def is_lower_def code_def)

lemma encoded_no_marks: "CHR ''&'' \<notin> set (url_encode s)" "CHR ''='' \<notin> set (url_encode s)"
  using url_encode_clean reserved_marks by force+

section \<open>The form read back\<close>

text \<open>The receiving side: split on the ampersands, split each pair at the first equals sign, decode.\<close>

fun split_on :: "char \<Rightarrow> bytes \<Rightarrow> bytes list" where
  "split_on c [] = [[]]"
| "split_on c (x # s) = (if x = c then [] # split_on c s
     else (case split_on c s of [] \<Rightarrow> [[x]] | f # fs \<Rightarrow> (x # f) # fs))"

definition read_pair :: "bytes \<Rightarrow> bytes \<times> bytes" where
  "read_pair t = (case split_first CHR ''='' t of None \<Rightarrow> (url_decode t, []) | Some (k, v) \<Rightarrow> (url_decode k, url_decode v))"

definition read_form :: "bytes \<Rightarrow> url_parameters" where
  "read_form body = (if body = [] then [] else map read_pair (split_on CHR ''&'' body))"

lemma split_on_ne [simp]: "split_on c s \<noteq> []"
  by (induction s) (auto split: list.splits)

lemma split_on_plain: "c \<notin> set s \<Longrightarrow> split_on c s = [s]"
  by (induction s) auto

lemma split_on_snoc: "c \<notin> set b \<Longrightarrow> split_on c (a @ c # b) = split_on c a @ [b]"
  by (induction a) (auto simp: split_on_plain split: list.splits)

lemma form_step_eq: "form_step body p = (if body = [] then [] else body @ ''&'') @ url_encode (fst p) @ ''='' @ url_encode (snd p)"
  by (simp add: form_step_def)

lemma read_form_step: "read_form (form_step body p) = read_form body @ [p]"
proof -
  let ?t = "url_encode (fst p) @ ''='' @ url_encode (snd p)"
  have "CHR ''&'' \<notin> set ?t" using encoded_no_marks by simp
  moreover have "read_pair ?t = p"
    using encoded_no_marks(2) by (simp add: read_pair_def split_first_append url_roundtrip)
  ultimately show ?thesis
    by (cases "body = []") (simp_all add: read_form_def form_step_eq split_on_plain split_on_snoc)
qed

lemma form_reads_back: "read_form (to_urlencoded ps) = ps"
  by (induction ps rule: rev_induct) (simp_all add: to_urlencoded_def read_form_step, simp add: read_form_def)

lemma form_alphabet: "c \<in> set (to_urlencoded ps) \<Longrightarrow> is_unreserved c \<or> c \<in> set ''%&=''"
  by (induction ps rule: rev_induct)
    (auto simp: to_urlencoded_def form_step_eq split: if_splits dest: url_encode_clean)

lemma same_alternative_refl [simp]: "same_alternative r r"
  by (cases r) auto

lemma same_alternative_trans: "same_alternative a b \<Longrightarrow> same_alternative b c \<Longrightarrow> same_alternative a c"
  by (cases a; cases b; cases c) auto

lemma modifiers_alternative:
  "\<forall>m \<in> set ms. \<forall>q. same_alternative q (m q) \<Longrightarrow> same_alternative r (foldl (\<lambda>r m. m r) r ms)"
  by (induction ms arbitrary: r) (auto intro: same_alternative_trans)

lemma apply_defaults_alternative: "same_alternative r (apply_defaults hs ps r)"
  by (cases r) auto

fun rq_headers :: "client_request \<Rightarrow> headers" where
  "rq_headers (GetReq r) = gr_headers r"
| "rq_headers (PostReq r) = po_headers r"
| "rq_headers (MultipartReq r) = mr_headers r"

fun rq_params :: "client_request \<Rightarrow> url_parameters" where
  "rq_params (GetReq r) = gr_params r"
| "rq_params (PostReq r) = po_params r"
| "rq_params (MultipartReq r) = mr_params r"

text \<open>What is left of a request without its headers and parameters.\<close>

fun rq_rest :: "client_request \<Rightarrow> client_request" where
  "rq_rest (GetReq r) = GetReq (r\<lparr>gr_headers := [], gr_params := []\<rparr>)"
| "rq_rest (PostReq r) = PostReq (r\<lparr>po_headers := [], po_params := []\<rparr>)"
| "rq_rest (MultipartReq r) = MultipartReq (r\<lparr>mr_headers := [], mr_params := []\<rparr>)"

lemma apply_defaults_fields:
  "rq_headers (apply_defaults hs ps r) = merge_missing (rq_headers r) hs"
  "rq_params (apply_defaults hs ps r) = rq_params r @ ps"
  "rq_rest (apply_defaults hs ps r) = rq_rest r"
  by (cases r; simp add: add_all_append)+

section \<open>Properties\<close>

text \<open>A form body reads back to the parameters it was written from, repeated keys and empty texts
  included, and consists of unreserved characters and the three marks only.\<close>

theorem form_roundtrip:
  "read_form (to_urlencoded ps) = ps \<and>
   (\<forall>c \<in> set (to_urlencoded ps). is_unreserved c \<or> c \<in> set ''%&='')"
  using form_reads_back form_alphabet by blast

theorem form_roundtrip_witness:
  "read_form (to_urlencoded [(''a b'', ''1&2''), (''a b'', [])]) = [(''a b'', ''1&2''), (''a b'', [])]"
  using form_roundtrip [of "[(''a b'', ''1&2''), (''a b'', [])]"] by blast

text \<open>What one JSON request sends and how it ends, when the modifiers keep the request's kind. One
  request goes out: the request's own header values win over the config's by name, its parameters
  come first, everything else is as given, and the modifiers run on the result in order. A value
  comes back exactly for a 2xx answer whose body parses. A transport error is passed on; any other
  status is an error with that status and body, classified as rejected credentials (401, 403), not
  found (404), rate limited (429), server error (500 and above) or unknown; a body that does not
  parse is an unexpected response.\<close>

theorem json_request_outcomes:
  assumes "\<forall>m \<in> set (pc_modifiers config). \<forall>q. same_alternative q (m q)"
  shows "\<exists>base. (\<forall>name. headers_get_all (rq_headers base) name =
      (if headers_contains (rq_headers r) name then headers_get_all (rq_headers r) name
       else headers_get_all (pc_headers config) name)) \<and>
    rq_params base = rq_params r @ pc_url_params config \<and> rq_rest base = rq_rest r \<and>
    request_json parse do_request config r =
      (case do_request (foldl (\<lambda>q m. m q) base (pc_modifiers config)) (pc_cookie_jar config) of
         Inl e \<Rightarrow> Failed e
       | Inr d \<Rightarrow>
           (if rd_status_code d \<in> {200..<300}
            then (case parse (rd_body d) of
                Inr v \<Rightarrow> Yielded v
              | Inl message \<Rightarrow> Failed \<lparr>re_code = UnexpectedResponse, re_message = ''JSON parse failed: '' @ message,
                  re_http_status = Some (rd_status_code d), re_body = rd_body d\<rparr>)
            else Failed \<lparr>re_code = status_to_error_code (rd_status_code d),
                re_message = ''HTTP '' @ int_to_dec (rd_status_code d),
                re_http_status = Some (rd_status_code d), re_body = rd_body d\<rparr>))"
proof -
  let ?base = "apply_defaults (pc_headers config) (pc_url_params config) r"
  let ?sent = "foldl (\<lambda>q m. m q) ?base (pc_modifiers config)"
  have "same_alternative r (apply_config_to r config)"
    unfolding apply_config_to_def
    by (rule same_alternative_trans [OF apply_defaults_alternative modifiers_alternative [OF assms]])
  then have "perform do_request config r =
      (case do_request ?sent (pc_cookie_jar config) of Inl e \<Rightarrow> Failed e | Inr d \<Rightarrow> Yielded d)"
    by (simp add: perform_def configured_request_def apply_config_to_def Let_def)
  moreover have "headers_get_all (rq_headers ?base) name =
      (if headers_contains (rq_headers r) name then headers_get_all (rq_headers r) name
       else headers_get_all (pc_headers config) name)" for name
    by (simp add: apply_defaults_fields merge_missing_get_all headers_contains_iff)
  ultimately show ?thesis
    by (intro exI [of _ ?base])
      (auto simp: apply_defaults_fields request_json_def fetch_ok_def make_response_error_def is_success_status_def
        split: sum.splits)
qed

definition sample_config :: "unit parser_config" where
  "sample_config = \<lparr>pc_headers = [(''Referer'', ''r'')], pc_url_params = [(''key'', ''k'')], pc_cookie_jar = None, pc_flags = 0,
     pc_parser_id = ''dan'', pc_alt_link = 0, pc_modifiers = [id]\<rparr>"

definition sample_get :: client_request where
  "sample_get = GetReq \<lparr>gr_url = ''u'', gr_params = [(''q'', ''1'')], gr_headers = [], gr_method = Get\<rparr>"

theorem json_request_outcomes_witness:
  "request_json (\<lambda>body. Inr body) (\<lambda>q _. Inr \<lparr>rd_status_code = 404, rd_body = ''gone'', rd_headers = [], rd_effective_url = None\<rparr>)
     sample_config sample_get =
   Failed \<lparr>re_code = NotFound, re_message = ''HTTP '' @ int_to_dec 404, re_http_status = Some 404, re_body = ''gone''\<rparr>"
  using json_request_outcomes [of sample_config sample_get "\<lambda>body. Inr body"
      "\<lambda>q _. Inr \<lparr>rd_status_code = 404, rd_body = ''gone'', rd_headers = [], rd_effective_url = None\<rparr>"]
  by (auto simp: sample_config_def status_to_error_code_def)

end
