(* ===== verification/Mirrors.thy ===== *)
theory Mirrors
  imports Requests
begin

text \<open>
  \<open>include/aniparse/catalog/MirrorSource.hpp\<close> and the mirror accessors of \<open>RequestorContext\<close> in
  \<open>include/aniparse/ClientContext.hpp\<close>: the base URLs of a source, a catalog's override list in front
  of the built-in ones, and the slot the catalog swaps the overrides in. Null pointers are \<open>None\<close>.
\<close>

record mirrors =
  mi_override :: "bytes list option"
  mi_builtin :: "bytes list"

definition mirror_count :: "mirrors \<Rightarrow> nat" where
  "mirror_count m =
     (case mi_override m of Some urls \<Rightarrow> if urls \<noteq> [] then length urls else length (mi_builtin m)
      | None \<Rightarrow> length (mi_builtin m))"

definition pick :: "bytes list \<Rightarrow> nat \<Rightarrow> bytes" where
  "pick urls index = urls ! (if index < length urls then index else 0)"

definition mirror_url :: "mirrors \<Rightarrow> nat \<Rightarrow> bytes" where
  "mirror_url m index =
     (if (case mi_override m of Some urls \<Rightarrow> urls \<noteq> [] | None \<Rightarrow> False) then pick (the (mi_override m)) index
      else if mi_builtin m = [] then [] else pick (mi_builtin m) index)"

record mirror_source =
  ms_overrides :: "bytes list smap"
  ms_canonical :: "bytes smap"

definition empty_mirror_source :: mirror_source where
  "empty_mirror_source = \<lparr>ms_overrides = [], ms_canonical = []\<rparr>"

definition list_for :: "mirror_source \<Rightarrow> bytes \<Rightarrow> bytes list option" where
  "list_for src parser_id = lookup (ms_overrides src) parser_id"

definition canonical_base_for :: "mirror_source \<Rightarrow> bytes \<Rightarrow> bytes option" where
  "canonical_base_for src parser_id = lookup (ms_canonical src) parser_id"

definition mirror_empty_source :: "mirror_source \<Rightarrow> bool" where
  "mirror_empty_source src \<longleftrightarrow> ms_overrides src = [] \<and> ms_canonical src = []"

text \<open>A holder is the source it holds.\<close>

definition mirror_holder_set :: "mirror_source option \<Rightarrow> mirror_source" where
  "mirror_holder_set src = (case src of Some s \<Rightarrow> s | None \<Rightarrow> empty_mirror_source)"

section \<open>A context's view\<close>

text \<open>The snapshot a context takes of the holder when it is built; no holder gives no snapshot.\<close>

definition mirror_snapshot :: "mirror_source option \<Rightarrow> mirror_source option" where
  "mirror_snapshot holder = holder"

definition context_mirrors_for :: "mirror_source option \<Rightarrow> bytes \<Rightarrow> bytes list \<Rightarrow> mirrors" where
  "context_mirrors_for snapshot owner builtin =
     \<lparr>mi_override = (case snapshot of Some src \<Rightarrow> list_for src owner | None \<Rightarrow> None), mi_builtin = builtin\<rparr>"

definition context_mirrors :: "mirror_source option \<Rightarrow> 'j parser_config \<Rightarrow> bytes list \<Rightarrow> mirrors" where
  "context_mirrors snapshot config builtin = context_mirrors_for snapshot (pc_parser_id config) builtin"

definition context_base_url :: "mirror_source option \<Rightarrow> 'j parser_config \<Rightarrow> bytes list \<Rightarrow> bytes" where
  "context_base_url snapshot config builtin = mirror_url (context_mirrors snapshot config builtin) (pc_alt_link config)"

definition canonical_base_url :: "mirror_source option \<Rightarrow> 'j parser_config \<Rightarrow> bytes \<Rightarrow> bytes" where
  "canonical_base_url snapshot config builtin =
     (case (case snapshot of Some src \<Rightarrow> canonical_base_for src (pc_parser_id config) | None \<Rightarrow> None) of
        Some url \<Rightarrow> url | None \<Rightarrow> builtin)"

definition set_alt_link :: "'j parser_config \<Rightarrow> nat \<Rightarrow> 'j parser_config" where
  "set_alt_link config alt_link = config\<lparr>pc_alt_link := alt_link\<rparr>"

definition extractor_base_url :: "mirror_source option \<Rightarrow> bytes \<Rightarrow> bytes list \<Rightarrow> bytes" where
  "extractor_base_url snapshot identifier builtin = mirror_url (context_mirrors_for snapshot identifier builtin) 0"

section \<open>Selection\<close>

definition effective_mirrors :: "mirrors \<Rightarrow> bytes list" where
  "effective_mirrors m = (case mi_override m of Some (u # us) \<Rightarrow> u # us | _ \<Rightarrow> mi_builtin m)"

lemma mirror_url_effective:
  "mirror_url m index =
     (if effective_mirrors m = [] then []
      else effective_mirrors m ! (if index < length (effective_mirrors m) then index else 0))"
  by (auto simp: mirror_url_def effective_mirrors_def pick_def split: option.splits list.splits)

lemma mirror_count_effective: "mirror_count m = length (effective_mirrors m)"
  by (auto simp: mirror_count_def effective_mirrors_def split: option.splits list.splits)

text \<open>Every mirror selection serves a mirror: a context's base URL is always one of the mirrors in
  effect (the catalog's list for its parser, or the built-in one when that list is absent or empty)
  and is empty only when there is none. The selected index gives its own mirror and an index past
  the end gives the first one, it does not give an empty URL.\<close>

theorem base_url_selection:
  "let urls = effective_mirrors (context_mirrors snapshot config builtin) in
    mirror_count (context_mirrors snapshot config builtin) = length urls \<and>
    context_base_url snapshot (set_alt_link config i) builtin =
      (if urls = [] then [] else if i < length urls then urls ! i else hd urls) \<and>
    (case snapshot of
       Some src \<Rightarrow> (case list_for src (pc_parser_id config) of
           Some (u # us) \<Rightarrow> urls = u # us | _ \<Rightarrow> urls = builtin)
     | None \<Rightarrow> urls = builtin)"
proof -
  let ?urls = "effective_mirrors (context_mirrors snapshot config builtin)"
  have same: "context_mirrors snapshot (set_alt_link config i) builtin = context_mirrors snapshot config builtin"
    by (simp add: context_mirrors_def set_alt_link_def)
  have "context_base_url snapshot (set_alt_link config i) builtin =
      (if ?urls = [] then [] else if i < length ?urls then ?urls ! i else hd ?urls)"
    unfolding context_base_url_def same mirror_url_effective by (simp add: set_alt_link_def hd_conv_nth)
  then show ?thesis
    by (auto simp: Let_def mirror_count_effective context_mirrors_def context_mirrors_for_def effective_mirrors_def
        split: option.splits list.splits)
qed

end
