(* ===== verification/Resource_Chain.thy ===== *)
theory Resource_Chain
  imports Requests
begin

text \<open>
  \<open>include/aniparse/media/ResourceAdapter.hpp\<close> and \<open>src/media/ResourceAdapter.cpp\<close>: composed resource
  policies. A handle is code of the consumer: its \<open>update\<close> and \<open>final\<close> are interaction trees over the
  handle's state, which write blocks, see each write's response and end with their own response
  (\<open>None\<close> is success). A chain keeps the states of its handles in a list, outermost first.
\<close>

section \<open>Descriptors\<close>

datatype media_kind = Image | HLSPlaylist | HLSInitialization | HLSSegment | Subtitle | UnknownKind

record media_resource =
  res_url :: bytes
  res_headers :: headers
  res_kind :: media_kind
  res_content_type_hint :: "bytes option"

record resource_context =
  rc_parent_url :: "bytes option"
  rc_resource :: media_resource

record resource_metadata =
  rm_status_code :: int
  rm_headers :: headers
  rm_content_type :: bytes
  rm_content_length :: "int option"
  rm_effective_url :: "bytes option"

section \<open>Handles\<close>

type_synonym response = "request_error option"

datatype 's act = Done response 's | Write bytes "response \<Rightarrow> 's act"

record 's handle =
  h_on_response :: "resource_metadata \<Rightarrow> 's \<Rightarrow> response \<times> resource_metadata \<times> 's"
  h_update :: "bytes \<Rightarrow> 's \<Rightarrow> 's act"
  h_final :: "'s \<Rightarrow> 's act"

text \<open>The defaults of the base class.\<close>

definition passthrough :: "'s handle" where
  "passthrough = \<lparr>h_on_response = (\<lambda>m s. (None, m, s)), h_update = (\<lambda>b s. Write b (\<lambda>r. Done r s)), h_final = Done None\<rparr>"

text \<open>A sink consumes a block and answers; \<open>run_act\<close> lets a handle write into one.\<close>

type_synonym 'w sink = "bytes \<Rightarrow> 'w \<Rightarrow> response \<times> 'w"

primrec run_act :: "'w sink \<Rightarrow> 's act \<Rightarrow> 'w \<Rightarrow> response \<times> 's \<times> 'w" where
  "run_act w (Done r s) = (\<lambda>x. (r, s, x))"
| "run_act w (Write b k) = (\<lambda>x. let (r, x') = w b x in run_act w (k r) x')"

section \<open>The chain\<close>

text \<open>\<open>update_prefix count\<close> passes the input through the first \<open>count\<close> handles, last one first.\<close>

primrec update_prefix :: "'o sink \<Rightarrow> 's handle list \<Rightarrow> nat \<Rightarrow> ('s list \<times> 'o) sink" where
  "update_prefix output hs 0 = (\<lambda>input (ss, out). let (r, out') = output input out in (r, ss, out'))"
| "update_prefix output hs (Suc n) = (\<lambda>input (ss, out).
     let (r, s', ss', out') = run_act (update_prefix output hs n) (h_update (hs ! n) input (ss ! n)) (ss, out)
     in (r, ss'[n := s'], out'))"

definition chain_update :: "'o sink \<Rightarrow> 's handle list \<Rightarrow> ('s list \<times> 'o) sink" where
  "chain_update output hs = update_prefix output hs (length hs)"

primrec final_from :: "'o sink \<Rightarrow> 's handle list \<Rightarrow> nat \<Rightarrow> 's list \<times> 'o \<Rightarrow> response \<times> 's list \<times> 'o" where
  "final_from output hs 0 = (\<lambda>x. (None, x))"
| "final_from output hs (Suc n) = (\<lambda>(ss, out).
     let (r, s', ss', out') = run_act (update_prefix output hs n) (h_final (hs ! n) (ss ! n)) (ss, out)
     in case r of Some e \<Rightarrow> (Some e, ss'[n := s'], out') | None \<Rightarrow> final_from output hs n (ss'[n := s'], out'))"

definition chain_final :: "'o sink \<Rightarrow> 's handle list \<Rightarrow> 's list \<times> 'o \<Rightarrow> response \<times> 's list \<times> 'o" where
  "chain_final output hs = final_from output hs (length hs)"

primrec response_from :: "'s handle list \<Rightarrow> nat \<Rightarrow> resource_metadata \<Rightarrow> 's list \<Rightarrow> response \<times> resource_metadata \<times> 's list" where
  "response_from hs 0 m ss = (None, m, ss)"
| "response_from hs (Suc n) m ss =
     (let (r, m', s') = h_on_response (hs ! n) m (ss ! n)
      in case r of Some e \<Rightarrow> (Some e, m', ss[n := s']) | None \<Rightarrow> response_from hs n m' (ss[n := s']))"

definition chain_on_response :: "'s handle list \<Rightarrow> resource_metadata \<Rightarrow> 's list \<Rightarrow> response \<times> resource_metadata \<times> 's list" where
  "chain_on_response hs m ss = response_from hs (length hs) m ss"

section \<open>Adapters\<close>

record resource_request =
  rq_url :: bytes
  rq_request_headers :: headers

record 'h opened_resource =
  op_request :: resource_request
  op_handle :: "'h option"

type_synonym 'h adapter = "resource_context \<Rightarrow> request_error + 'h opened_resource"

text \<open>
  A descriptor that was moved from: an engaged optional stays engaged and its text is left empty,
  as the standard libraries leave a moved string; the kind is copied. The two other texts are
  overwritten before they are read.
\<close>

definition moved_from :: "resource_context \<Rightarrow> resource_context" where
  "moved_from c =
     \<lparr>rc_parent_url = map_option (\<lambda>_. []) (rc_parent_url c),
      rc_resource = \<lparr>res_url = [], res_headers = [], res_kind = res_kind (rc_resource c),
        res_content_type_hint = map_option (\<lambda>_. []) (res_content_type_hint (rc_resource c))\<rparr>\<rparr>"

definition redirected :: "resource_context \<Rightarrow> resource_request \<Rightarrow> resource_context" where
  "redirected c q = c\<lparr>rc_resource := (rc_resource c)\<lparr>res_url := rq_url q, res_headers := rq_request_headers q\<rparr>\<rparr>"

text \<open>
  A policy is an adapter of the consumer or a composition of policies; opening a composition of
  policies gives no handle, the only one its members opened, or a chain of them.
\<close>

datatype 'h policy = Basic "'h adapter" | Composite "'h policy list"

datatype 'h opened_handle = Single 'h | Chain "'h opened_handle list"

fun open_policy :: "'h policy \<Rightarrow> resource_context \<Rightarrow> request_error + 'h opened_handle opened_resource"
  and open_all :: "'h policy list \<Rightarrow> resource_context \<Rightarrow> 'h opened_handle list \<Rightarrow>
    request_error + (resource_context \<times> 'h opened_handle list)" where
  "open_policy (Basic a) resource =
     (case a resource of
        Inl e \<Rightarrow> Inl e
      | Inr opened \<Rightarrow> Inr \<lparr>op_request = op_request opened, op_handle = map_option Single (op_handle opened)\<rparr>)"
| "open_policy (Composite policies) resource =
     (case open_all policies resource [] of
        Inl e \<Rightarrow> Inl e
      | Inr (current, handles) \<Rightarrow>
          Inr \<lparr>op_request = \<lparr>rq_url = res_url (rc_resource current), rq_request_headers = res_headers (rc_resource current)\<rparr>,
            op_handle = (case handles of [] \<Rightarrow> None | [h] \<Rightarrow> Some h | hs \<Rightarrow> Some (Chain hs))\<rparr>)"
| "open_all [] current handles = Inr (current, handles)"
| "open_all (p # policies) current handles =
     (case open_policy p current of
        Inl e \<Rightarrow> Inl e
      | Inr opened \<Rightarrow>
          open_all policies (redirected (moved_from current) (op_request opened))
            (case op_handle opened of None \<Rightarrow> handles | Some h \<Rightarrow> handles @ [h]))"

definition compose :: "'h policy option list \<Rightarrow> 'h policy option" where
  "compose policies =
     (case List.map_filter (\<lambda>p. p) policies of [] \<Rightarrow> None | [p] \<Rightarrow> Some p | ps \<Rightarrow> Some (Composite ps))"

section \<open>A handle on its own\<close>

text \<open>What a handle writes when every write succeeds, and what it answers.\<close>

primrec emits :: "'s act \<Rightarrow> response \<times> 's \<times> bytes list" where
  "emits (Done r s) = (r, s, [])"
| "emits (Write b k) = (case emits (k None) of (r, s, bs) \<Rightarrow> (r, s, b # bs))"

fun transform_blocks :: "'s handle \<Rightarrow> 's \<Rightarrow> bytes list \<Rightarrow> 's \<times> bytes list" where
  "transform_blocks h s [] = (s, [])"
| "transform_blocks h s (b # bs) =
     (case emits (h_update h b s) of (_, s', out) \<Rightarrow> case transform_blocks h s' bs of (s'', out') \<Rightarrow> (s'', out @ out'))"

text \<open>The blocks a handle turns a whole body into: those of its updates, then those of its flush.\<close>

definition stage :: "'s handle \<Rightarrow> 's \<Rightarrow> bytes list \<Rightarrow> bytes list" where
  "stage h s blocks = (case transform_blocks h s blocks of (s', out) \<Rightarrow> out @ snd (snd (emits (h_final h s'))))"

definition succeeds :: "'s handle \<Rightarrow> bool" where
  "succeeds h \<longleftrightarrow> (\<forall>b s. fst (emits (h_update h b s)) = None) \<and> (\<forall>s. fst (emits (h_final h s)) = None)"

definition feed :: "'w sink \<Rightarrow> bytes list \<Rightarrow> 'w \<Rightarrow> 'w" where
  "feed w bs x = foldl (\<lambda>x b. snd (w b x)) x bs"

definition collector :: "bytes list sink" where
  "collector b out = (None, out @ [b])"

section \<open>Lemmas\<close>

lemma feed_simps [simp]: "feed w [] x = x" "feed w (b # bs) x = feed w bs (snd (w b x))"
  by (simp_all add: feed_def)

lemma feed_append: "feed w (as @ bs) x = feed w bs (feed w as x)"
  by (simp add: feed_def)

text \<open>Against a sink that never fails, a handle writes its own blocks and gives its own answer.\<close>

lemma run_act_emits:
  assumes "\<And>b x. fst (w b x) = None"
  shows "run_act w a x = (case emits a of (r, s, bs) \<Rightarrow> (r, s, feed w bs x))"
proof (induction a arbitrary: x)
  case (Write b k)
  obtain x' where "w b x = (None, x')" using assms [of b x] by (cases "w b x") auto
  then show ?case using Write.IH [of "k None" x'] by (simp split: prod.splits)
qed simp

lemma emits_ok:
  assumes "list_all succeeds hs" "n < length hs"
  shows "fst (emits (h_update (hs ! n) b s)) = None" "fst (emits (h_final (hs ! n) s)) = None"
  using assms by (simp_all add: succeeds_def list_all_length)

lemma update_prefix_ok: "list_all succeeds hs \<Longrightarrow> n \<le> length hs \<Longrightarrow> fst (update_prefix collector hs n b x) = None"
proof (induction n arbitrary: b x)
  case 0
  then show ?case by (cases x) (simp add: collector_def)
next
  case (Suc n)
  obtain ss out where x: "x = (ss, out)" by (cases x)
  have "run_act (update_prefix collector hs n) (h_update (hs ! n) b (ss ! n)) (ss, out) =
      (case emits (h_update (hs ! n) b (ss ! n)) of (r, s, bs) \<Rightarrow> (r, s, feed (update_prefix collector hs n) bs (ss, out)))"
    using Suc by (intro run_act_emits) simp
  then show ?case using emits_ok(1) [of hs n b "ss ! n"] Suc.prems x
    by (auto split: prod.splits)
qed

text \<open>A prefix of the chain works as its last handle in front of the shorter prefix.\<close>

lemma update_prefix_Suc:
  assumes ok: "list_all succeeds hs" and "n < length hs" "emits (h_update (hs ! n) b (ss ! n)) = (r, s', bs)"
    "feed (update_prefix collector hs n) bs (ss, out) = (ss', out')"
  shows "update_prefix collector hs (Suc n) b (ss, out) = (None, ss'[n := s'], out')"
proof -
  have "run_act (update_prefix collector hs n) (h_update (hs ! n) b (ss ! n)) (ss, out) = (r, s', ss', out')"
    using run_act_emits [of "update_prefix collector hs n" "h_update (hs ! n) b (ss ! n)" "(ss, out)"]
      update_prefix_ok [of hs n] assms by simp
  then show ?thesis using emits_ok(1) [OF assms(1,2), of b "ss ! n"] assms(3) by simp
qed

lemma feed_frame:
  assumes "\<And>b ss out. w b (ss[m := s], out) = (case w b (ss, out) of (r, ss', out') \<Rightarrow> (r, ss'[m := s], out'))"
  shows "feed w bs (ss[m := s], out) = (case feed w bs (ss, out) of (ss', out') \<Rightarrow> (ss'[m := s], out'))"
proof (induction bs arbitrary: ss out)
  case (Cons b bs)
  obtain r ss' out' where "w b (ss, out) = (r, ss', out')" by (cases "w b (ss, out)")
  then show ?case using Cons.IH [of ss' out'] assms [of b ss out] by simp
qed simp

text \<open>The first \<open>n\<close> handles neither read nor change the state of a later one.\<close>

lemma update_prefix_frame:
  assumes "list_all succeeds hs" "n \<le> length hs" "n \<le> m"
  shows "update_prefix collector hs n b (ss[m := s], out) =
    (case update_prefix collector hs n b (ss, out) of (r, ss', out') \<Rightarrow> (r, ss'[m := s], out'))"
  using assms
proof (induction n arbitrary: b ss out)
  case 0
  then show ?case by (simp add: collector_def)
next
  case (Suc n)
  obtain r s' bs where e: "emits (h_update (hs ! n) b (ss ! n)) = (r, s', bs)" by (cases "emits (h_update (hs ! n) b (ss ! n))")
  obtain ss' out' where f: "feed (update_prefix collector hs n) bs (ss, out) = (ss', out')"
    by (cases "feed (update_prefix collector hs n) bs (ss, out)")
  have "feed (update_prefix collector hs n) bs (ss[m := s], out) = (ss'[m := s], out')"
    using feed_frame [of "update_prefix collector hs n" m s bs ss out] Suc f by simp
  moreover have "emits (h_update (hs ! n) b (ss[m := s] ! n)) = (r, s', bs)" using e Suc.prems by simp
  ultimately have "update_prefix collector hs (Suc n) b (ss[m := s], out) = (None, (ss'[m := s])[n := s'], out')"
    using update_prefix_Suc [of hs n b "ss[m := s]"] Suc.prems by simp
  then show ?case using update_prefix_Suc [OF _ _ e f] Suc.prems by (simp add: list_update_swap [of m n])
qed

lemma update_prefix_length: "list_all succeeds hs \<Longrightarrow> n \<le> length hs \<Longrightarrow> length (fst (snd (update_prefix collector hs n b (ss, out)))) = length ss"
proof (induction n arbitrary: b ss out)
  case (Suc n)
  have fed: "length (fst (feed (update_prefix collector hs n) bs (ss, out))) = length ss" for bs ss out
  proof (induction bs arbitrary: ss out)
    case (Cons c bs)
    obtain r ss' out' where "update_prefix collector hs n c (ss, out) = (r, ss', out')"
      by (cases "update_prefix collector hs n c (ss, out)")
    then show ?case using Cons.IH [of ss' out'] Suc.IH [of c ss out] Suc.prems by simp
  qed simp
  obtain r s' bs where e: "emits (h_update (hs ! n) b (ss ! n)) = (r, s', bs)" by (cases "emits (h_update (hs ! n) b (ss ! n))")
  obtain ss' out' where f: "feed (update_prefix collector hs n) bs (ss, out) = (ss', out')"
    by (cases "feed (update_prefix collector hs n) bs (ss, out)")
  show ?case using update_prefix_Suc [OF _ _ e f] fed [of bs ss out] f Suc.prems by simp
qed (simp add: collector_def)

text \<open>Feeding a body to one more handle is feeding what that handle makes of it to the others.\<close>

lemma feed_Suc:
  assumes ok: "list_all succeeds hs" and "n < length hs" "length ss = length hs"
  shows "feed (update_prefix collector hs (Suc n)) blocks (ss, out) =
    (case transform_blocks (hs ! n) (ss ! n) blocks of (s', bs) \<Rightarrow>
      case feed (update_prefix collector hs n) bs (ss, out) of (ss', out') \<Rightarrow> (ss'[n := s'], out'))"
  using assms(3)
proof (induction blocks arbitrary: ss out)
  case Nil
  then show ?case by (simp add: list_update_id)
next
  case (Cons b blocks)
  let ?w = "update_prefix collector hs n"
  obtain r s1 bs1 where e: "emits (h_update (hs ! n) b (ss ! n)) = (r, s1, bs1)" by (cases "emits (h_update (hs ! n) b (ss ! n))")
  obtain ss1 out1 where f: "feed ?w bs1 (ss, out) = (ss1, out1)" by (cases "feed ?w bs1 (ss, out)")
  obtain s2 bs2 where t: "transform_blocks (hs ! n) s1 blocks = (s2, bs2)" by (cases "transform_blocks (hs ! n) s1 blocks")
  note step = update_prefix_Suc [OF assms(1,2) e f]
  have len: "length ss1 = length hs" using step update_prefix_length [OF ok, of "Suc n" b ss out] assms(2) Cons.prems by simp
  then have "feed (update_prefix collector hs (Suc n)) blocks (ss1[n := s1], out1) =
      (case feed ?w bs2 (ss1[n := s1], out1) of (ss', out') \<Rightarrow> (ss'[n := s2], out'))"
    using Cons.IH [of "ss1[n := s1]" out1] assms(2) t by simp
  also have "\<dots> = (case feed ?w bs2 (ss1, out1) of (ss', out') \<Rightarrow> (ss'[n := s2], out'))"
    using feed_frame [of ?w n s1 bs2 ss1 out1] update_prefix_frame [OF ok, of n n] assms(2) by (simp split: prod.splits)
  finally show ?case using step e f t by (simp add: feed_append)
qed

lemma final_from_frame:
  assumes "list_all succeeds hs" "n \<le> length hs" "n \<le> m"
  shows "final_from collector hs n (ss[m := s], out) =
    (case final_from collector hs n (ss, out) of (r, ss', out') \<Rightarrow> (r, ss'[m := s], out'))"
  using assms
proof (induction n arbitrary: ss out)
  case (Suc n)
  let ?w = "update_prefix collector hs n"
  obtain r s' bs where e: "emits (h_final (hs ! n) (ss ! n)) = (r, s', bs)" by (cases "emits (h_final (hs ! n) (ss ! n))")
  obtain ss' out' where f: "feed ?w bs (ss, out) = (ss', out')" by (cases "feed ?w bs (ss, out)")
  have run: "run_act ?w (h_final (hs ! n) (ss ! n)) y = (r, s', feed ?w bs y)" for y
    using run_act_emits [of ?w "h_final (hs ! n) (ss ! n)" y] update_prefix_ok [of hs n] Suc.prems e by simp
  have "feed ?w bs (ss[m := s], out) = (ss'[m := s], out')"
    using feed_frame [of ?w m s bs ss out] update_prefix_frame [of hs n m] Suc.prems f by simp
  moreover have "r = None" using emits_ok(2) [of hs n "ss ! n"] e Suc.prems by simp
  ultimately show ?case using run f Suc by (simp add: list_update_swap [of m n])
qed simp

text \<open>A whole body through the first \<open>n\<close> handles of the chain.\<close>

definition through :: "'s handle list \<Rightarrow> nat \<Rightarrow> bytes list \<Rightarrow> 's list \<times> bytes list \<Rightarrow> response \<times> 's list \<times> bytes list" where
  "through hs n blocks x = final_from collector hs n (feed (update_prefix collector hs n) blocks x)"

lemma through_Suc:
  assumes ok: "list_all succeeds hs" and "n < length hs" "length ss = length hs"
  shows "\<exists>s'. through hs (Suc n) blocks (ss, out) =
    (case through hs n (stage (hs ! n) (ss ! n) blocks) (ss, out) of (r, ss', out') \<Rightarrow> (r, ss'[n := s'], out'))"
proof -
  let ?w = "update_prefix collector hs n"
  obtain s1 bs1 where t: "transform_blocks (hs ! n) (ss ! n) blocks = (s1, bs1)" by (cases "transform_blocks (hs ! n) (ss ! n) blocks")
  obtain ss1 out1 where f: "feed ?w bs1 (ss, out) = (ss1, out1)" by (cases "feed ?w bs1 (ss, out)")
  obtain r s2 bs2 where e: "emits (h_final (hs ! n) s1) = (r, s2, bs2)" by (cases "emits (h_final (hs ! n) s1)")
  obtain ss2 out2 where g: "feed ?w bs2 (ss1, out1) = (ss2, out2)" by (cases "feed ?w bs2 (ss1, out1)")
  have fed: "feed (update_prefix collector hs (Suc n)) blocks (ss, out) = (ss1[n := s1], out1)"
    using feed_Suc [OF assms, of blocks out] t f by simp
  have "length ss1 = length hs"
    using update_prefix_length [OF ok, of n] assms(2,3) f
    by (induction bs1 arbitrary: ss out) (auto, metis fst_conv prod.collapse snd_conv)
  then have nth: "ss1[n := s1] ! n = s1" using assms(2) by simp
  have "run_act ?w (h_final (hs ! n) s1) (ss1[n := s1], out1) = (None, s2, ss2[n := s1], out2)"
    using run_act_emits [of ?w "h_final (hs ! n) s1"] update_prefix_ok [OF ok, of n] e g assms(2)
      emits_ok(2) [OF ok assms(2), of s1] feed_frame [of ?w n s1 bs2 ss1 out1] update_prefix_frame [OF ok, of n n]
    by simp
  then have "through hs (Suc n) blocks (ss, out) = final_from collector hs n (ss2[n := s2], out2)"
    using fed nth by (simp add: through_def)
  also have "\<dots> = (case final_from collector hs n (ss2, out2) of (r, ss', out') \<Rightarrow> (r, ss'[n := s2], out'))"
    using final_from_frame [OF ok, of n n] assms(2) by simp
  finally show ?thesis using t e f g by (auto simp: through_def stage_def feed_append)
qed

lemma through_pipeline:
  assumes "list_all succeeds hs" "n \<le> length hs" "length ss = length hs"
  shows "\<exists>ss'. through hs n blocks (ss, out) =
    (None, ss', out @ foldr (\<lambda>(h, s) bs. stage h s bs) (take n (zip hs ss)) blocks)"
  using assms(2)
proof (induction n arbitrary: blocks)
  case 0
  have "feed (update_prefix collector hs 0) blocks (ss, out) = (ss, out @ blocks)"
    by (induction blocks arbitrary: out) (simp_all add: collector_def)
  then show ?case by (simp add: through_def)
next
  case (Suc n)
  have "take (Suc n) (zip hs ss) = take n (zip hs ss) @ [(hs ! n, ss ! n)]"
    using Suc.prems assms(3) by (simp add: take_Suc_conv_app_nth)
  then show ?case
    using through_Suc [OF assms(1) _ assms(3), of n blocks out] Suc.IH [of "stage (hs ! n) (ss ! n) blocks"] Suc.prems
    by fastforce
qed

section \<open>Properties\<close>

text \<open>C16: A chain of handles that do not fail is a pipeline, innermost provider first. Whatever blocks
  arrive, every update and the flush succeed, and the sink has then received what the outermost
  handle makes, from its initial state and on its own, of what the next one makes of it, down to
  the innermost handle reading the response: each handle sees all blocks of the next one in order,
  its flushed ones included, before it is flushed itself.\<close>

theorem chain_is_pipeline:
  assumes "list_all succeeds hs" "length ss = length hs"
  shows "(\<forall>block x. fst (chain_update collector hs block x) = None) \<and>
    (\<exists>ss'. chain_final collector hs (feed (chain_update collector hs) blocks (ss, [])) =
      (None, ss', foldr (\<lambda>(h, s) bs. stage h s bs) (zip hs ss) blocks))"
  using update_prefix_ok [OF assms(1) order_refl] through_pipeline [OF assms(1) order_refl assms(2), of blocks "[]"] assms(2)
  by (simp add: chain_update_def chain_final_def through_def)

text \<open>A handle that keeps each block back until the next one or the end, and one that counts.\<close>

definition delaying :: "bytes list handle" where
  "delaying = passthrough\<lparr>h_update := (\<lambda>b s. case s of [] \<Rightarrow> Done None [b] | c # _ \<Rightarrow> Write c (\<lambda>r. Done r [b])),
     h_final := (\<lambda>s. case s of [] \<Rightarrow> Done None [] | c # _ \<Rightarrow> Write c (\<lambda>r. Done r []))\<rparr>"

definition marking :: "bytes list handle" where
  "marking = passthrough\<lparr>h_update := (\<lambda>b s. Write (CHR ''<'' # b) (\<lambda>r. Done r (b # s))),
     h_final := (\<lambda>s. Write ''.'' (\<lambda>r. Done r s))\<rparr>"

theorem chain_is_pipeline_witness:
  "snd (snd (chain_final collector [marking, delaying] (feed (chain_update collector [marking, delaying]) [''a'', ''b''] ([[], []], [])))) =
     [''<a'', ''<b'', ''.'']"
proof -
  have "succeeds marking" "succeeds delaying"
    by (auto simp: succeeds_def marking_def delaying_def passthrough_def split: list.splits)
  then have "\<exists>ss'. chain_final collector [marking, delaying] (feed (chain_update collector [marking, delaying]) [''a'', ''b''] ([[], []], [])) =
      (None, ss', foldr (\<lambda>(h, s) bs. stage h s bs) (zip [marking, delaying] [[], []]) [''a'', ''b''])"
    using chain_is_pipeline [of "[marking, delaying]" "[[], []]" "[''a'', ''b'']"] by simp
  moreover have "foldr (\<lambda>(h, s) bs. stage h s bs) (zip [marking, delaying] [[], []]) [''a'', ''b''] = [''<a'', ''<b'', ''.'']"
    by (simp add: stage_def marking_def delaying_def passthrough_def)
  ultimately show ?thesis by auto
qed

definition transparent :: "'h adapter" where
  "transparent c = Inr \<lparr>op_request = \<lparr>rq_url = res_url (rc_resource c), rq_request_headers = res_headers (rc_resource c)\<rparr>, op_handle = None\<rparr>"

text \<open>A composed adapter opens its policies on a descriptor it has moved from: behind even a policy
  that changes nothing, the next one is not asked about the resource. Its manifest's URL and its
  content type hint arrive as empty texts, though still as present, so a policy that depends on
  either answers differently inside a composition than on its own.\<close>

theorem composed_open_loses_ancestry:
  assumes "rc_parent_url c = Some parent" "res_content_type_hint (rc_resource c) = Some hint"
  shows "open_policy (Composite [Basic transparent, p]) c =
    open_policy p (c\<lparr>rc_parent_url := Some [], rc_resource := (rc_resource c)\<lparr>res_content_type_hint := Some []\<rparr>\<rparr>)"
proof -
  have "redirected (moved_from c) \<lparr>rq_url = res_url (rc_resource c), rq_request_headers = res_headers (rc_resource c)\<rparr> =
      c\<lparr>rc_parent_url := Some [], rc_resource := (rc_resource c)\<lparr>res_content_type_hint := Some []\<rparr>\<rparr>"
    using assms by (simp add: redirected_def moved_from_def)
  then show ?thesis by (auto simp: transparent_def redirected_def split: sum.splits option.splits)
qed

definition sample_segment :: resource_context where
  "sample_segment = \<lparr>rc_parent_url = Some ''https://a/x.m3u8'', rc_resource = \<lparr>res_url = ''https://a/1.png'', res_headers = [],
     res_kind = HLSSegment, res_content_type_hint = Some ''video/mp2t''\<rparr>\<rparr>"

definition needs_parent :: "unit adapter" where
  "needs_parent c = (if rc_parent_url c = Some ''https://a/x.m3u8'' then transparent c
     else Inl (make_response_error InvalidArguments ''no manifest'' None []))"

theorem composed_open_loses_ancestry_witness:
  "open_policy (Composite [Basic transparent, Basic needs_parent]) sample_segment =
     Inl (make_response_error InvalidArguments ''no manifest'' None []) \<and>
   open_policy (Basic needs_parent) sample_segment =
     Inr \<lparr>op_request = \<lparr>rq_url = ''https://a/1.png'', rq_request_headers = []\<rparr>, op_handle = None\<rparr>"
  using composed_open_loses_ancestry [of sample_segment "''https://a/x.m3u8''" "''video/mp2t''" "Basic needs_parent"]
  by (simp add: sample_segment_def needs_parent_def transparent_def redirected_def moved_from_def)

end
