(* ===== verification/Video_Extract.thy ===== *)
theory Video_Extract
  imports Parser_Store Mirrors Resource_Chain
begin

text \<open>
  \<open>src/video/VideoExtractor.cpp\<close>: the registry of video extractors over the domain store, and the
  chase of delegated links. An extractor is a record of what its virtual functions answer;
  \<open>extract\<close> is a function of the URL (the request context it gets is fixed), giving an error or an
  extraction. Streams are opaque. \<open>hops\<close> is the code's \<open>max_depth - depth\<close>.
\<close>

section \<open>Extractors\<close>

record link =
  li_url :: bytes
  li_extractor_id :: "bytes option"

record ('v, 'h) extraction =
  vx_streams :: "'v list"
  vx_links :: "link list"
  vx_headers :: headers
  vx_adapter :: "'h policy option"

record ('v, 'h) extractor =
  ex_identifier :: bytes
  ex_domains :: "bytes list"
  ex_valid_for_url :: "parsed_url \<Rightarrow> bool"
  ex_extract :: "parsed_url \<Rightarrow> request_error + ('v, 'h) extraction"

type_synonym ('v, 'h) extractor_store = "('v, 'h) extractor store"

record ('v, 'h) extraction_route =
  er_extractor :: "('v, 'h) extractor"
  er_url :: parsed_url

section \<open>Registration\<close>

datatype extractor_error =
  NullExtractor | EmptyIdentifier | ConflictingExtractor bytes | ExtractorStoreFailed store_error

definition new_extractor_store :: "('v, 'h) extractor_store" where
  "new_extractor_store = new_store ex_domains"

definition edit_add_extractor ::
  "('v, 'h) extractor edit \<Rightarrow> ('v, 'h) extractor option \<Rightarrow>
     extractor_error + (('v, 'h) extractor option \<times> ('v, 'h) extractor edit)" where
  "edit_add_extractor e extractor =
     (case extractor of
        None \<Rightarrow> Inl NullExtractor
      | Some x \<Rightarrow>
          (if ex_identifier x = [] then Inl EmptyIdentifier
           else if edit_contains e (ex_identifier x) then Inl (ConflictingExtractor (ex_identifier x))
           else Inr (edit_add e (ex_identifier x) x)))"

definition edit_remove_extractor :: "('v, 'h) extractor edit \<Rightarrow> bytes \<Rightarrow> bool \<times> ('v, 'h) extractor edit" where
  "edit_remove_extractor e identifier = edit_remove e identifier"

definition extractor_refresh_edit :: "('v, 'h) extractor edit \<Rightarrow> bytes list smap \<Rightarrow> ('v, 'h) extractor edit" where
  "extractor_refresh_edit e vol = set_volatile_domains e vol"

definition extractor_commit ::
  "('v, 'h) extractor_store \<Rightarrow> ('v, 'h) extractor edit \<Rightarrow> extractor_error + ('v, 'h) extractor_store" where
  "extractor_commit s e =
     (case edit_commit ex_domains s e of (Some err, _, _) \<Rightarrow> Inl (ExtractorStoreFailed err) | (None, s', _) \<Rightarrow> Inr s')"

definition add_extractor ::
  "('v, 'h) extractor_store \<Rightarrow> ('v, 'h) extractor option \<Rightarrow>
     extractor_error + (('v, 'h) extractor option \<times> ('v, 'h) extractor_store)" where
  "add_extractor s extractor =
     (case edit_add_extractor (begin_edit s) extractor of
        Inl err \<Rightarrow> Inl err
      | Inr (added, e) \<Rightarrow> (case extractor_commit s e of Inl err \<Rightarrow> Inl err | Inr s' \<Rightarrow> Inr (added, s')))"

definition extractor_refresh_domains ::
  "('v, 'h) extractor_store \<Rightarrow> bytes list smap \<Rightarrow> extractor_error + ('v, 'h) extractor_store" where
  "extractor_refresh_domains s vol = extractor_commit s (extractor_refresh_edit (begin_edit s) vol)"

definition find_extractor :: "('v, 'h) extractor_store \<Rightarrow> bytes \<Rightarrow> ('v, 'h) extractor option" where
  "find_extractor s identifier = find_by_key s identifier"

definition extractors :: "('v, 'h) extractor_store \<Rightarrow> ('v, 'h) extractor list" where
  "extractors s = store_values s"

section \<open>Routing\<close>

definition route_parsed :: "('v, 'h) extractor_store \<Rightarrow> parsed_url \<Rightarrow> ('v, 'h) extraction_route option" where
  "route_parsed s url =
     (case find_by_host s (url_host url) (\<lambda>x. ex_valid_for_url x url) of
        None \<Rightarrow> None
      | Some x \<Rightarrow> Some \<lparr>er_extractor = x, er_url = url\<rparr>)"

definition route_text :: "'u lexbor \<Rightarrow> ('v, 'h) extractor_store \<Rightarrow> bytes \<Rightarrow> ('v, 'h) extraction_route option" where
  "route_text lx s text = (case parse_url lx text of None \<Rightarrow> None | Some url \<Rightarrow> route_parsed s url)"

definition route_link :: "'u lexbor \<Rightarrow> ('v, 'h) extractor_store \<Rightarrow> link \<Rightarrow> ('v, 'h) extraction_route option" where
  "route_link lx s l =
     (case parse_url lx (li_url l) of
        None \<Rightarrow> None
      | Some url \<Rightarrow>
          (case li_extractor_id l of
             None \<Rightarrow> route_parsed s url
           | Some identifier \<Rightarrow>
               (case find_extractor s identifier of
                  None \<Rightarrow> None
                | Some x \<Rightarrow> if \<not> ex_valid_for_url x url then None else Some \<lparr>er_extractor = x, er_url = url\<rparr>)))"

section \<open>Extraction\<close>

definition pass_through :: "('v, 'h) extraction \<Rightarrow> ('v, 'h) extraction \<Rightarrow> ('v, 'h) extraction" where
  "pass_through x followed =
     followed\<lparr>vx_headers := merge_missing (vx_headers followed) (vx_headers x),
       vx_adapter := compose [vx_adapter x, vx_adapter followed]\<rparr>"

text \<open>The loop over the links of an extraction: \<open>extract\<close> is the recursive call.\<close>

fun follow_links ::
  "(link \<Rightarrow> 'r option) \<Rightarrow> ('r \<Rightarrow> request_error + ('v, 'h) extraction) \<Rightarrow> ('v, 'h) extraction \<Rightarrow> link list \<Rightarrow>
     ('v, 'h) extraction" where
  "follow_links route extract x [] = x"
| "follow_links route extract x (l # ls) =
     (case route l of
        None \<Rightarrow> follow_links route extract x ls
      | Some r \<Rightarrow>
          (case extract r of
             Inl e \<Rightarrow> follow_links route extract x ls
           | Inr followed \<Rightarrow>
               if vx_streams followed \<noteq> [] then pass_through x followed else follow_links route extract x ls))"

primrec extract_routed ::
  "'u lexbor \<Rightarrow> ('v, 'h) extractor_store \<Rightarrow> nat \<Rightarrow> ('v, 'h) extraction_route \<Rightarrow> request_error + ('v, 'h) extraction" where
  "extract_routed lx s 0 = (\<lambda>r. ex_extract (er_extractor r) (er_url r))"
| "extract_routed lx s (Suc hops) = (\<lambda>r.
     case ex_extract (er_extractor r) (er_url r) of
       Inl e \<Rightarrow> Inl e
     | Inr x \<Rightarrow>
         if vx_streams x \<noteq> [] \<or> vx_links x = [] then Inr x
         else Inr (follow_links (route_link lx s) (extract_routed lx s hops) x (vx_links x)))"

definition default_max_extraction_depth :: int where
  "default_max_extraction_depth = 4"

definition extract_parsed ::
  "'u lexbor \<Rightarrow> ('v, 'h) extractor_store \<Rightarrow> int \<Rightarrow> parsed_url \<Rightarrow> request_error + ('v, 'h) extraction" where
  "extract_parsed lx s max_depth url =
     (case route_parsed s url of
        None \<Rightarrow> Inl (make_response_error NotImplemented (''No video extractor handles '' @ href url) None [])
      | Some r \<Rightarrow> extract_routed lx s (nat max_depth) r)"

definition extract_text ::
  "'u lexbor \<Rightarrow> ('v, 'h) extractor_store \<Rightarrow> int \<Rightarrow> bytes \<Rightarrow> request_error + ('v, 'h) extraction" where
  "extract_text lx s max_depth text =
     (case parse_url lx text of
        None \<Rightarrow> Inl (make_response_error InvalidArguments (''Malformed video URL: '' @ text) None [])
      | Some url \<Rightarrow> extract_parsed lx s max_depth url)"

section \<open>Deliveries\<close>

text \<open>A route delivers an extraction within a number of hops.\<close>

inductive delivers ::
  "'u lexbor \<Rightarrow> ('v, 'h) extractor_store \<Rightarrow> nat \<Rightarrow> ('v, 'h) extraction_route \<Rightarrow> ('v, 'h) extraction \<Rightarrow> bool"
  for lx s where
  direct: "ex_extract (er_extractor r) (er_url r) = Inr x \<Longrightarrow> vx_streams x \<noteq> [] \<Longrightarrow> delivers lx s n r x"
| delegated: "ex_extract (er_extractor r) (er_url r) = Inr x \<Longrightarrow> vx_streams x = [] \<Longrightarrow> l \<in> set (vx_links x) \<Longrightarrow>
    route_link lx s l = Some next_route \<Longrightarrow> delivers lx s n next_route y \<Longrightarrow> delivers lx s (Suc n) r (pass_through x y)"

inductive_cases delivers_cases: "delivers lx s n r x"

text \<open>What one link offers: an extraction with streams.\<close>

definition offer ::
  "(link \<Rightarrow> 'r option) \<Rightarrow> ('r \<Rightarrow> request_error + ('v, 'h) extraction) \<Rightarrow> link \<Rightarrow> ('v, 'h) extraction option" where
  "offer route extract l =
     (case route l of None \<Rightarrow> None
      | Some r \<Rightarrow> (case extract r of Inl e \<Rightarrow> None | Inr y \<Rightarrow> if vx_streams y \<noteq> [] then Some y else None))"

lemma offer_Some:
  "offer route extract l = Some y \<longleftrightarrow> (\<exists>r. route l = Some r \<and> extract r = Inr y \<and> vx_streams y \<noteq> [])"
  by (auto simp: offer_def split: option.splits sum.splits if_splits)

lemma follow_links_first:
  "follow_links route extract x ls =
     (case List.map_filter (offer route extract) ls of [] \<Rightarrow> x | y # _ \<Rightarrow> pass_through x y)"
  by (induction ls) (auto simp: offer_def split: option.splits sum.splits)

lemma map_filter_cases:
  "(List.map_filter f xs = [] \<and> (\<forall>x \<in> set xs. f x = None)) \<or>
   (\<exists>x y ys. x \<in> set xs \<and> f x = Some y \<and> List.map_filter f xs = y # ys)"
  by (induction xs) (auto split: option.splits)

lemma follow_links_cases:
  "(\<exists>l y. l \<in> set ls \<and> offer route extract l = Some y \<and> follow_links route extract x ls = pass_through x y) \<or>
   ((\<forall>l \<in> set ls. offer route extract l = None) \<and> follow_links route extract x ls = x)"
  using map_filter_cases [of "offer route extract" ls] by (auto simp: follow_links_first)

lemma pass_through_streams [simp]: "vx_streams (pass_through x y) = vx_streams y"
  by (simp add: pass_through_def)

lemma delivers_streams: "delivers lx s n r y \<Longrightarrow> vx_streams y \<noteq> []"
  by (induction rule: delivers.induct) auto

lemma extract_routed_cases:
  "case ex_extract (er_extractor r) (er_url r) of
     Inl e \<Rightarrow> extract_routed lx s n r = Inl e
   | Inr x \<Rightarrow>
       (\<exists>y. extract_routed lx s n r = Inr y \<and> vx_streams y \<noteq> [] \<and> delivers lx s n r y) \<or>
       ((\<nexists>y. delivers lx s n r y) \<and> extract_routed lx s n r = Inr x)"
proof (induction n arbitrary: r)
  case 0
  have "delivers lx s 0 r y \<longleftrightarrow> ex_extract (er_extractor r) (er_url r) = Inr y \<and> vx_streams y \<noteq> []" for y
    by (auto intro: direct elim: delivers_cases)
  then show ?case by (auto split: sum.splits)
next
  case (Suc n)
  have offers: "offer (route_link lx s) (extract_routed lx s n) l = Some y \<Longrightarrow>
      \<exists>q. route_link lx s l = Some q \<and> delivers lx s n q y" for l y
    unfolding offer_Some
  proof (elim exE conjE)
    fix q assume "route_link lx s l = Some q" "extract_routed lx s n q = Inr y" "vx_streams y \<noteq> []"
    then show "\<exists>q. route_link lx s l = Some q \<and> delivers lx s n q y"
      using Suc.IH [of q] by (auto split: sum.splits intro: direct)
  qed
  have offered: "route_link lx s l = Some q \<Longrightarrow> delivers lx s n q z \<Longrightarrow>
      offer (route_link lx s) (extract_routed lx s n) l \<noteq> None" for l q z
    using Suc.IH [of q] by (auto simp: offer_Some split: sum.splits elim: delivers_cases)
  show ?case
  proof (cases "ex_extract (er_extractor r) (er_url r)")
    case (Inr x)
    show ?thesis
    proof (cases "vx_streams x \<noteq> [] \<or> vx_links x = []")
      case True
      have "vx_streams x \<noteq> []" if "delivers lx s (Suc n) r y" for y
        using that by (rule delivers_cases) (use Inr True in auto)
      moreover have "extract_routed lx s (Suc n) r = Inr x" using Inr True by simp
      moreover have "vx_streams x \<noteq> [] \<Longrightarrow> delivers lx s (Suc n) r x" using Inr by (rule direct)
      ultimately show ?thesis using Inr by auto
    next
      case False
      show ?thesis
        using follow_links_cases [of "vx_links x" "route_link lx s" "extract_routed lx s n" x]
      proof (elim disjE exE conjE)
        fix l y assume l: "l \<in> set (vx_links x)" "offer (route_link lx s) (extract_routed lx s n) l = Some y"
          "follow_links (route_link lx s) (extract_routed lx s n) x (vx_links x) = pass_through x y"
        then show ?thesis using False Inr offers [OF l(2)] by (auto simp: offer_Some intro: delegated)
      next
        assume none: "\<forall>l \<in> set (vx_links x). offer (route_link lx s) (extract_routed lx s n) l = None"
          "follow_links (route_link lx s) (extract_routed lx s n) x (vx_links x) = x"
        have "\<nexists>y. delivers lx s (Suc n) r y"
        proof (intro notI, elim exE)
          fix y assume "delivers lx s (Suc n) r y"
          then show False by (rule delivers_cases) (use False Inr none(1) in \<open>auto dest!: offered\<close>)
        qed
        then show ?thesis using False Inr none(2) by simp
      qed
    qed
  qed simp
qed

lemma find_by_host_accepts: "find_by_host s host accepts = Some v \<Longrightarrow> accepts v"
  by (auto simp: find_by_host_def search_all_prefixes find_Some_iff)

section \<open>Properties\<close>

text \<open>C15: Extracting a URL, for every store, extractor behaviour and depth cap, link cycles included, ends.
  A URL that does not parse or that no extractor accepts is an error of its own kind. Otherwise the
  extractor chosen accepts the URL; its error is passed on, and
  after its extraction \<open>x\<close> the result is a delivery within the cap whenever there is one: streams
  reached over delegated links, the headers of an inner extraction winning over the outer ones and
  the policies of all layers composed outer first. When nothing is delivered the result is \<open>x\<close>
  itself, the first extraction and not the deepest one reached.\<close>

theorem extraction_delivers:
  "case parse_url lx input of
     None \<Rightarrow> (\<exists>e. extract_text lx s max_depth input = Inl e \<and> re_code e = InvalidArguments)
   | Some url \<Rightarrow>
       (case route_parsed s url of
          None \<Rightarrow> (\<exists>e. extract_text lx s max_depth input = Inl e \<and> re_code e = NotImplemented)
        | Some r \<Rightarrow> ex_valid_for_url (er_extractor r) url \<and> er_url r = url \<and>
            (case ex_extract (er_extractor r) url of
               Inl e \<Rightarrow> extract_text lx s max_depth input = Inl e
             | Inr x \<Rightarrow>
                 (\<exists>y. extract_text lx s max_depth input = Inr y \<and> vx_streams y \<noteq> [] \<and> delivers lx s (nat max_depth) r y) \<or>
                 ((\<nexists>y. delivers lx s (nat max_depth) r y) \<and> extract_text lx s max_depth input = Inr x)))"
proof (cases "parse_url lx input")
  case None
  then show ?thesis by (simp add: extract_text_def make_response_error_def)
next
  case (Some url)
  show ?thesis
  proof (cases "route_parsed s url")
    case None
    then show ?thesis using Some by (simp add: extract_text_def extract_parsed_def make_response_error_def)
  next
    case route: (Some r)
    then have "ex_valid_for_url (er_extractor r) url" "er_url r = url"
      by (auto simp: route_parsed_def dest: find_by_host_accepts split: option.splits)
    then show ?thesis
      using Some route extract_routed_cases [where lx = lx and s = s and n = "nat max_depth" and r = r]
      by (auto simp: extract_text_def extract_parsed_def split: sum.splits)
  qed
qed

end
