(* ===== verification/Double.thy ===== *)
theory Double
  imports Complex_Main
begin

text \<open>
  The C++ type \<open>double\<close> as IEEE 754 makes it: a finite value is the rational it denotes, an operation
  rounds its exact result to the nearest double, to the even one of two at the same distance, and
  overflows to an infinity. The two zeros are one value here, and no operation is fused with the next.
\<close>

datatype double = Finite rat | Infinite bool | NotANumber

text \<open>The flag of an infinity is its sign.\<close>

section \<open>Binary exponents\<close>

fun bit_length :: "nat \<Rightarrow> nat" where
  "bit_length n = (if n = 0 then 0 else Suc (bit_length (n div 2)))"

declare bit_length.simps [simp del]

lemma bit_length_bounds: "0 < n \<Longrightarrow> 2 ^ (bit_length n - 1) \<le> n \<and> n < 2 ^ bit_length n \<and> 0 < bit_length n"
proof (induction n rule: bit_length.induct)
  case (1 n)
  show ?case
  proof (cases "n div 2 = 0")
    case True
    then have "n = 1" using 1 by linarith
    then show ?thesis by (simp add: bit_length.simps)
  next
    case False
    then have ih: "2 ^ (bit_length (n div 2) - 1) \<le> n div 2" "n div 2 < 2 ^ bit_length (n div 2)" "0 < bit_length (n div 2)"
      using 1 by auto
    have len: "bit_length n = Suc (bit_length (n div 2))" using 1(2) by (subst bit_length.simps) simp
    have "2 * 2 ^ (bit_length (n div 2) - 1) = (2 :: nat) ^ bit_length (n div 2)"
      using ih(3) by (cases "bit_length (n div 2)") simp_all
    then have "2 ^ bit_length (n div 2) \<le> n" using ih(1) by linarith
    moreover have "n < 2 * 2 ^ bit_length (n div 2)" using ih(2) by linarith
    ultimately show ?thesis by (simp add: len)
  qed
qed

definition exponent :: "rat \<Rightarrow> int" where
  "exponent q = (if 1 \<le> q then int (bit_length (nat \<lfloor>q\<rfloor>)) - 1 else - int (bit_length (nat (\<lceil>1 / q\<rceil> - 1))))"

abbreviation pow2 :: "int \<Rightarrow> rat" where
  "pow2 e \<equiv> 2 powi e"

lemma pow2_nat: "pow2 (int k) = 2 ^ k"
  by simp

lemma pow2_pos: "0 < pow2 e"
  by simp

lemma pow2_mono: "a \<le> b \<Longrightarrow> pow2 a \<le> pow2 b"
  by (rule power_int_increasing) simp_all

lemma pow2_strict: "a < b \<Longrightarrow> pow2 a < pow2 b"
  by (rule power_int_strict_increasing) simp_all

lemma pow2_less_iff: "pow2 a < pow2 b \<longleftrightarrow> a < b"
  using pow2_mono pow2_strict by (metis linorder_not_less)

lemma pow2_add: "pow2 (a + b) = pow2 a * pow2 b"
  by (simp add: power_int_add)

lemma pow2_diff: "pow2 a / pow2 b = pow2 (a - b)"
  by (simp add: power_int_diff)

lemma pow2_int: "0 \<le> e \<Longrightarrow> pow2 e = of_int (2 ^ nat e)"
  by (simp add: power_int_def)

lemma bit_length_rat:
  assumes "0 < n"
  obtains k where "bit_length n = Suc k" "(2 :: rat) ^ k \<le> of_nat n" "(of_nat n :: rat) + 1 \<le> 2 ^ Suc k"
proof -
  obtain k where k: "bit_length n = Suc k" using bit_length_bounds [OF assms] by (cases "bit_length n") auto
  have "2 ^ k \<le> n" "n + 1 \<le> 2 ^ Suc k" using bit_length_bounds [OF assms] k by auto
  then have "(of_nat (2 ^ k) :: rat) \<le> of_nat n" "(of_nat (n + 1) :: rat) \<le> of_nat (2 ^ Suc k)" by (simp_all only: of_nat_le_iff)
  then show thesis using that [OF k] by (simp del: power_Suc)
qed

lemma exponent_bounds:
  assumes "0 < q"
  shows "pow2 (exponent q) \<le> q \<and> q < pow2 (exponent q + 1)"
proof (cases "1 \<le> q")
  case True
  define n where "n = nat \<lfloor>q\<rfloor>"
  have n: "0 < n" "of_nat n \<le> q" "q < of_nat n + 1"
    using True floor_correct [of q] by (simp_all add: n_def)
  obtain k where k: "bit_length n = Suc k" "(2 :: rat) ^ k \<le> of_nat n" "(of_nat n :: rat) + 1 \<le> 2 ^ Suc k"
    by (rule bit_length_rat [OF n(1)])
  have "exponent q = int k" using True k(1) by (simp add: exponent_def n_def)
  moreover have "pow2 (int k + 1) = 2 ^ Suc k" by (metis pow2_nat of_nat_Suc add.commute)
  moreover have "2 ^ k \<le> q" "q < 2 ^ Suc k" using n k by linarith+
  ultimately show ?thesis by (simp only: pow2_nat)
next
  case False
  define m where "m = nat (\<lceil>1 / q\<rceil> - 1)"
  have "1 < 1 / q" using False assms by (simp add: field_simps)
  then have two: "2 \<le> \<lceil>1 / q\<rceil>" by linarith
  then have val: "(of_nat m :: rat) = of_int (\<lceil>1 / q\<rceil> - 1)"
    unfolding m_def by (intro of_nat_nat) linarith
  have m: "0 < m" "of_nat m < 1 / q" "1 / q \<le> of_nat m + 1"
    using ceiling_correct [of "1 / q"] two unfolding val by (simp_all add: m_def)
  obtain k where k: "bit_length m = Suc k" "(2 :: rat) ^ k \<le> of_nat m" "(of_nat m :: rat) + 1 \<le> 2 ^ Suc k"
    by (rule bit_length_rat [OF m(1)])
  have le: "2 ^ k < 1 / q" "1 / q \<le> 2 ^ Suc k" using m k(2,3) by linarith+
  have "q < 1 / 2 ^ k" "1 / 2 ^ Suc k \<le> q"
    using le assms by (simp_all add: field_simps del: power_Suc)
  moreover have "exponent q = - int (Suc k)" using False k(1) by (simp add: exponent_def m_def)
  moreover have "pow2 (- int (Suc k)) = 1 / 2 ^ Suc k" by (simp only: power_int_minus power_int_of_nat inverse_eq_divide)
  moreover have "pow2 (- int (Suc k) + 1) = 1 / 2 ^ k" by (simp add: power_int_minus inverse_eq_divide)
  ultimately show ?thesis by (simp only:)
qed

lemma exponent_less: "0 < q \<Longrightarrow> q < pow2 k \<Longrightarrow> exponent q < k"
  using exponent_bounds pow2_less_iff by (metis order_le_less_trans)

lemma exponent_ge: "0 < q \<Longrightarrow> pow2 k \<le> q \<Longrightarrow> k \<le> exponent q"
  using exponent_bounds [of q] pow2_less_iff [of k "exponent q + 1"] by linarith

section \<open>Rounding\<close>

definition round_half_even :: "rat \<Rightarrow> int" where
  "round_half_even q =
     (let f = \<lfloor>q\<rfloor>; r = q - of_int f
      in if r < 1 / 2 then f else if 1 / 2 < r then f + 1 else if even f then f else f + 1)"

lemma round_half_even_int [simp]: "round_half_even (of_int i) = i"
  by (simp add: round_half_even_def)

lemma round_half_even_floor: "\<lfloor>q\<rfloor> \<le> round_half_even q \<and> round_half_even q \<le> \<lfloor>q\<rfloor> + 1"
  by (simp add: round_half_even_def Let_def)

lemma round_half_even_mono: "q \<le> r \<Longrightarrow> round_half_even q \<le> round_half_even r"
proof (cases "\<lfloor>q\<rfloor> = \<lfloor>r\<rfloor>")
  case True
  assume "q \<le> r"
  then show ?thesis using True by (auto simp: round_half_even_def Let_def)
next
  case False
  assume "q \<le> r"
  then have "\<lfloor>q\<rfloor> + 1 \<le> \<lfloor>r\<rfloor>" using False floor_mono [of q r] by linarith
  then show ?thesis using round_half_even_floor [of q] round_half_even_floor [of r] by linarith
qed

text \<open>The weight of the last bit: 53 significant bits, and none below the least subnormal.\<close>

definition last_bit :: "rat \<Rightarrow> int" where
  "last_bit q = max (exponent q - 52) (- 1074)"

definition round_at :: "int \<Rightarrow> rat \<Rightarrow> rat" where
  "round_at u q = of_int (round_half_even (q / pow2 u)) * pow2 u"

definition round_nonneg :: "rat \<Rightarrow> rat" where
  "round_nonneg q = (if q = 0 then 0 else round_at (last_bit q) q)"

definition to_double :: "rat \<Rightarrow> double" where
  "to_double q =
     (let r = round_nonneg \<bar>q\<bar>
      in if 2 ^ 1024 \<le> r then Infinite (q < 0) else Finite (if q < 0 then - r else r))"

lemma round_at_mono: "q \<le> r \<Longrightarrow> round_at u q \<le> round_at u r"
  unfolding round_at_def
  by (intro mult_right_mono) (simp_all add: round_half_even_mono divide_right_mono)

lemma round_at_pow2: "u \<le> k \<Longrightarrow> round_at u (pow2 k) = pow2 k"
proof -
  assume "u \<le> k"
  then have "pow2 k / pow2 u = of_int (2 ^ nat (k - u))" using pow2_int [of "k - u"] by (simp add: pow2_diff)
  then have "round_at u (pow2 k) = pow2 k / pow2 u * pow2 u" unfolding round_at_def by (metis round_half_even_int)
  then show ?thesis by simp
qed

lemma round_at_multiple: "u \<le> v \<Longrightarrow> round_at u (of_int n * pow2 v) = of_int n * pow2 v"
proof -
  assume "u \<le> v"
  then have "of_int n * pow2 v / pow2 u = of_int (n * 2 ^ nat (v - u))"
    using pow2_int [of "v - u"] by (simp add: pow2_diff flip: times_divide_eq_right)
  then have "round_at u (of_int n * pow2 v) = of_int n * pow2 v / pow2 u * pow2 u"
    unfolding round_at_def by (metis round_half_even_int)
  then show ?thesis by simp
qed

lemma round_le_pow2: "0 < q \<Longrightarrow> q < pow2 k \<Longrightarrow> - 1074 \<le> k \<Longrightarrow> round_nonneg q \<le> pow2 k"
proof -
  assume q: "0 < q" "q < pow2 k" and k: "- 1074 \<le> k"
  then have "last_bit q \<le> k" using exponent_less [OF q] by (simp add: last_bit_def)
  then show ?thesis
    using round_at_mono [of q "pow2 k" "last_bit q"] q by (simp add: round_nonneg_def round_at_pow2)
qed

lemma round_nonneg_mono:
  assumes "0 \<le> q" "q \<le> r"
  shows "round_nonneg q \<le> round_nonneg r"
proof (cases "q = 0")
  case True
  have "0 \<le> round_at u r" for u
    using round_at_mono [of 0 r u] assms by (simp add: round_at_def round_half_even_def)
  then show ?thesis using True by (simp add: round_nonneg_def)
next
  case False
  then have q: "0 < q" "0 < r" using assms by simp_all
  have "pow2 (exponent q) \<le> r" using exponent_bounds [OF q(1)] assms by simp
  then have e: "exponent q \<le> exponent r" by (rule exponent_ge [OF q(2)])
  show ?thesis
  proof (cases "last_bit q = last_bit r")
    case True
    then show ?thesis using round_at_mono [OF assms(2)] q by (simp add: round_nonneg_def)
  next
    case False
    then have r: "last_bit r = exponent r - 52" "- 1074 \<le> exponent r" "exponent q + 1 \<le> exponent r"
      using e by (auto simp: last_bit_def max_def split: if_splits)
    have "q < pow2 (exponent r)"
      using exponent_bounds [OF q(1)] pow2_mono [OF r(3)] by linarith
    then have "round_nonneg q \<le> pow2 (exponent r)" by (rule round_le_pow2 [OF q(1) _ r(2)])
    also have "\<dots> = round_at (last_bit r) (pow2 (exponent r))" using r(1) by (simp add: round_at_pow2)
    also have "\<dots> \<le> round_nonneg r"
      using round_at_mono [of "pow2 (exponent r)" r] exponent_bounds [OF q(2)] q by (simp add: round_nonneg_def)
    finally show ?thesis .
  qed
qed

text \<open>A number of at most 53 bits, at any scale down to the least subnormal, is its own rounding.\<close>

lemma round_nonneg_exact:
  assumes "0 \<le> n" "n \<le> 2 ^ 53" "- 1074 \<le> v"
  shows "round_nonneg (of_int n * pow2 v) = of_int n * pow2 v"
proof (cases "n = 0")
  case True
  then show ?thesis by (simp add: round_nonneg_def)
next
  case False
  let ?q = "of_int n * pow2 v"
  have q: "0 < ?q" using False assms by simp
  show ?thesis
  proof (cases "last_bit ?q \<le> v")
    case True
    then show ?thesis using q by (simp add: round_nonneg_def round_at_multiple)
  next
    case False
    then have big: "last_bit ?q = exponent ?q - 52" "v + 53 \<le> exponent ?q"
      using assms(3) by (auto simp: last_bit_def max_def split: if_splits)
    have n_le: "of_int n \<le> (2 :: rat) ^ 53" using assms(2) by (metis of_int_le_iff of_int_numeral of_int_power)
    then have le: "?q \<le> pow2 (v + 53)" by (simp add: pow2_add mult.commute mult_left_mono)
    have "pow2 (v + 53) \<le> pow2 (exponent ?q)" using big(2) by (rule pow2_mono)
    also have "\<dots> \<le> ?q" using exponent_bounds [OF q] by simp
    finally have eq: "?q = pow2 (v + 53)" using le by simp
    have "exponent ?q < v + 54" using exponent_less [OF q, of "v + 54"] eq pow2_strict [of "v + 53" "v + 54"] by simp
    then have "last_bit ?q \<le> v + 53" using big(1) by simp
    then have "round_at (last_bit ?q) (pow2 (v + 53)) = pow2 (v + 53)" by (rule round_at_pow2)
    then show ?thesis using q eq by (simp add: round_nonneg_def)
  qed
qed

lemma round_nonneg_int: "0 \<le> n \<Longrightarrow> n \<le> 2 ^ 53 \<Longrightarrow> round_nonneg (of_int n) = of_int n"
  using round_nonneg_exact [of n 0] by simp

lemma round_nonneg_nat: "n \<le> 2 ^ 53 \<Longrightarrow> round_nonneg (of_nat n) = of_nat n"
  using round_nonneg_int [of "int n"] by simp

lemma to_double_int: "\<bar>n\<bar> \<le> 2 ^ 53 \<Longrightarrow> to_double (of_int n) = Finite (of_int n)"
proof -
  assume n: "\<bar>n\<bar> \<le> 2 ^ 53"
  have r: "round_nonneg \<bar>of_int n\<bar> = \<bar>of_int n\<bar>" using round_nonneg_int [of "\<bar>n\<bar>"] n by simp
  have "\<bar>of_int n\<bar> \<le> (2 :: rat) ^ 53" using n by (metis of_int_abs of_int_le_iff of_int_numeral of_int_power)
  also have "\<dots> < 2 ^ 1024" by (rule power_strict_increasing) simp_all
  finally have "\<not> 2 ^ 1024 \<le> \<bar>of_int n :: rat\<bar>" by simp
  then show ?thesis unfolding to_double_def Let_def r by simp
qed

lemma to_double_nat: "n \<le> 2 ^ 53 \<Longrightarrow> to_double (of_nat n) = Finite (of_nat n)"
  using to_double_int [of "int n"] by simp

lemma to_double_nonneg: "0 \<le> q \<Longrightarrow> to_double q = (if 2 ^ 1024 \<le> round_nonneg q then Infinite False else Finite (round_nonneg q))"
  by (simp add: to_double_def)

lemma round_nonneg_ge_0: "0 \<le> q \<Longrightarrow> 0 \<le> round_nonneg q"
  using round_nonneg_mono [of 0 q] by (simp add: round_nonneg_def)

section \<open>Operations\<close>

fun double_add :: "double \<Rightarrow> double \<Rightarrow> double" where
  "double_add (Finite a) (Finite b) = to_double (a + b)"
| "double_add (Infinite s) (Infinite t) = (if s = t then Infinite s else NotANumber)"
| "double_add (Infinite s) (Finite b) = Infinite s"
| "double_add (Finite a) (Infinite t) = Infinite t"
| "double_add _ _ = NotANumber"

fun double_mult :: "double \<Rightarrow> double \<Rightarrow> double" where
  "double_mult (Finite a) (Finite b) = to_double (a * b)"
| "double_mult (Infinite s) (Infinite t) = Infinite (s \<noteq> t)"
| "double_mult (Infinite s) (Finite b) = (if b = 0 then NotANumber else Infinite (s \<noteq> (b < 0)))"
| "double_mult (Finite a) (Infinite t) = (if a = 0 then NotANumber else Infinite ((a < 0) \<noteq> t))"
| "double_mult _ _ = NotANumber"

fun double_div :: "double \<Rightarrow> double \<Rightarrow> double" where
  "double_div (Finite a) (Finite b) =
     (if b \<noteq> 0 then to_double (a / b) else if a = 0 then NotANumber else Infinite (a < 0))"
| "double_div (Infinite s) (Infinite t) = NotANumber"
| "double_div (Infinite s) (Finite b) = Infinite (s \<noteq> (b < 0))"
| "double_div (Finite a) (Infinite t) = Finite 0"
| "double_div _ _ = NotANumber"

end
