(* ===== verification/Json.thy ===== *)
theory Json
  imports Decimal Double "HOL-Library.Word"
begin

text \<open>
  The values of \<open>boost::json\<close> and the accessors of \<open>include/aniparse/json/Json.hpp\<close>. A finite double is
  the rational it denotes; the cast of a double outside the range of \<open>int64_t\<close> is undefined in C++, and
  the number the compiled cast leaves there is the parameter \<open>wild\<close>. An object's keys are distinct.
\<close>

datatype json =
    JNull
  | JBool bool
  | JInt "64 word"
  | JUInt "64 word"
  | JDouble double
  | JString bytes
  | JArray "json list"
  | JObject "(bytes \<times> json) list"

type_synonym json_object = "(bytes \<times> json) list"

fun if_object :: "json \<Rightarrow> json_object option" where
  "if_object (JObject ob) = Some ob"
| "if_object _ = None"

fun if_array :: "json \<Rightarrow> json list option" where
  "if_array (JArray vs) = Some vs"
| "if_array _ = None"

fun if_string :: "json \<Rightarrow> bytes option" where
  "if_string (JString s) = Some s"
| "if_string _ = None"

fun is_number :: "json \<Rightarrow> bool" where
  "is_number (JInt _) \<longleftrightarrow> True"
| "is_number (JUInt _) \<longleftrightarrow> True"
| "is_number (JDouble _) \<longleftrightarrow> True"
| "is_number _ \<longleftrightarrow> False"

definition truncate_rat :: "rat \<Rightarrow> int" where
  "truncate_rat q = (if q < 0 then - \<lfloor>- q\<rfloor> else \<lfloor>q\<rfloor>)"

fun double_to_int64 :: "int \<Rightarrow> double \<Rightarrow> int" where
  "double_to_int64 wild (Finite q) = (if in_int64 (truncate_rat q) then truncate_rat q else wild)"
| "double_to_int64 wild (Infinite _) = wild"
| "double_to_int64 wild NotANumber = wild"

definition object_field :: "json_object \<Rightarrow> bytes \<Rightarrow> json_object option" where
  "object_field ob key = (case lookup ob key of Some v \<Rightarrow> if_object v | None \<Rightarrow> None)"

definition array_field :: "json_object \<Rightarrow> bytes \<Rightarrow> json list option" where
  "array_field ob key = (case lookup ob key of Some v \<Rightarrow> if_array v | None \<Rightarrow> None)"

definition json_str :: "json_object \<Rightarrow> bytes \<Rightarrow> bytes" where
  "json_str ob key = (case lookup ob key of Some (JString s) \<Rightarrow> s | _ \<Rightarrow> [])"

definition json_integer :: "int \<Rightarrow> json_object \<Rightarrow> bytes \<Rightarrow> int" where
  "json_integer wild ob key =
     (case lookup ob key of
        None \<Rightarrow> 0
      | Some v \<Rightarrow>
          (case v of
             JInt w \<Rightarrow> sint w
           | JUInt w \<Rightarrow> sint w
           | JDouble d \<Rightarrow> double_to_int64 wild d
           | _ \<Rightarrow> 0))"

definition json_number :: "json_object \<Rightarrow> bytes \<Rightarrow> double" where
  "json_number ob key =
     (case lookup ob key of
        None \<Rightarrow> Finite 0
      | Some v \<Rightarrow>
          (case v of
             JDouble d \<Rightarrow> d
           | JInt w \<Rightarrow> to_double (of_int (sint w))
           | JUInt w \<Rightarrow> to_double (of_int (uint w))
           | _ \<Rightarrow> Finite 0))"

definition json_boolean :: "json_object \<Rightarrow> bytes \<Rightarrow> bool" where
  "json_boolean ob key = (case lookup ob key of Some (JBool b) \<Rightarrow> b | _ \<Rightarrow> False)"

text \<open>The pointer overloads: a null object reads as one without the key.\<close>

definition object_field_ptr :: "json_object option \<Rightarrow> bytes \<Rightarrow> json_object option" where
  "object_field_ptr ob key = (case ob of Some o' \<Rightarrow> object_field o' key | None \<Rightarrow> None)"

definition array_field_ptr :: "json_object option \<Rightarrow> bytes \<Rightarrow> json list option" where
  "array_field_ptr ob key = (case ob of Some o' \<Rightarrow> array_field o' key | None \<Rightarrow> None)"

definition json_str_ptr :: "json_object option \<Rightarrow> bytes \<Rightarrow> bytes" where
  "json_str_ptr ob key = (case ob of Some o' \<Rightarrow> json_str o' key | None \<Rightarrow> [])"

definition json_integer_ptr :: "int \<Rightarrow> json_object option \<Rightarrow> bytes \<Rightarrow> int" where
  "json_integer_ptr wild ob key = (case ob of Some o' \<Rightarrow> json_integer wild o' key | None \<Rightarrow> 0)"

definition json_boolean_ptr :: "json_object option \<Rightarrow> bytes \<Rightarrow> bool" where
  "json_boolean_ptr ob key = (case ob of Some o' \<Rightarrow> json_boolean o' key | None \<Rightarrow> False)"

definition json_number_ptr :: "json_object option \<Rightarrow> bytes \<Rightarrow> double" where
  "json_number_ptr ob key = (case ob of Some o' \<Rightarrow> json_number o' key | None \<Rightarrow> Finite 0)"

text \<open>
  The two numeric readings agree on signed integers of at most 53 bits, and on a finite double up to
  its fraction; an unsigned value from \<open>2 ^ 63\<close> on is read as a negative integer.
\<close>

lemma json_signed_agrees:
  "lookup ob key = Some (JInt w) \<Longrightarrow> \<bar>sint w\<bar> \<le> 2 ^ 53 \<Longrightarrow> json_number ob key = Finite (of_int (json_integer wild ob key))"
  using to_double_int [of "sint w"] by (simp only: json_number_def json_integer_def option.case json.case)

lemma json_double_truncates:
  assumes "lookup ob key = Some (JDouble (Finite q))" "in_int64 (truncate_rat q)"
  shows "\<bar>q - of_int (json_integer wild ob key)\<bar> < 1 \<and> \<bar>of_int (json_integer wild ob key)\<bar> \<le> \<bar>q\<bar> \<and> json_number ob key = Finite q"
proof -
  have "\<bar>q - of_int (truncate_rat q)\<bar> < 1 \<and> \<bar>of_int (truncate_rat q)\<bar> \<le> \<bar>q\<bar>"
    unfolding truncate_rat_def by (cases "q < 0") (simp_all, linarith+)
  then show ?thesis using assms by (simp add: json_number_def json_integer_def)
qed

lemma json_unsigned_wraps:
  assumes "lookup ob key = Some (JUInt w)" "2 ^ 63 \<le> uint w"
  shows "json_integer wild ob key = uint w - 2 ^ 64 \<and> json_integer wild ob key < 0"
proof -
  have "sint w = uint w - 2 ^ 64" using assms(2) by (simp add: sint_cases)
  moreover have "uint w < 2 ^ 64" using uint_lt2p [of w] by simp
  ultimately show ?thesis using assms(1) by (simp add: json_integer_def)
qed

end
