(* ===== verification/Resource_Cache.thy ===== *)
theory Resource_Cache
  imports Prelude
begin

text \<open>
  \<open>include/aniparse/cache/ResourceCache.hpp\<close>: the type-keyed store of compiled resources. A set type is
  a key and the factory's result a value; a call is one step.
\<close>

type_synonym ('k, 'r) resource_cache = "('k \<times> 'r) list"

definition cache_get :: "'k \<Rightarrow> 'r \<Rightarrow> ('k, 'r) resource_cache \<Rightarrow> 'r \<times> ('k, 'r) resource_cache" where
  "cache_get key built c =
     (case lookup c key of
        Some r \<Rightarrow> (r, c)
      | None \<Rightarrow> (let c' = assoc_emplace key built c in (the (lookup c' key), c')))"

definition cache_evict :: "'k \<Rightarrow> ('k, 'r) resource_cache \<Rightarrow> ('k, 'r) resource_cache" where
  "cache_evict key c = assoc_erase key c"

definition cache_clear :: "('k, 'r) resource_cache \<Rightarrow> ('k, 'r) resource_cache" where
  "cache_clear c = []"

lemma cache_get_stable:
  "fst (cache_get key b2 (snd (cache_get key b1 c))) = fst (cache_get key b1 c)"
  by (simp add: cache_get_def Let_def split: option.splits)

lemma cache_rebuilds:
  "fst (cache_get key built (cache_evict key c)) = built" "fst (cache_get key built (cache_clear c)) = built"
  by (simp_all add: cache_get_def cache_evict_def cache_clear_def)

end
