(* ===== verification/Catalog.thy ===== *)
theory Catalog
  imports Json Resource_Cache Source_Holder Video_Extract
begin

text \<open>
  \<open>src/catalog/Catalog.cpp\<close> and \<open>src/catalog/CatalogManager.cpp\<close>: a signed catalog is verified, decoded
  and applied to the routing of both stores and to the override holders of both service bundles.
  The signature check and \<open>boost::json::parse\<close> are parameters. The two service bundles are distinct
  objects, as the manager's documentation asks.
\<close>

section \<open>Decoding\<close>

datatype catalog_error = BadSignature | BadFormat | UnsupportedVersion | StaleRevision

record catalog_data =
  cd_revision :: "64 word"
  cd_domains :: "bytes list smap"
  cd_mirrors :: "bytes list smap"
  cd_canonical :: "bytes smap"
  cd_extractor_domains :: "bytes list smap"
  cd_extractor_mirrors :: "bytes list smap"
  cd_selectors :: "bytes smap"
  cd_patterns :: "bytes smap smap"
  cd_extractor_patterns :: "bytes smap smap"

definition catalog_schema_version :: int where
  "catalog_schema_version = 1"

definition read_urls :: "json_object \<Rightarrow> bytes \<Rightarrow> bytes list" where
  "read_urls ob key = (case array_field ob key of None \<Rightarrow> [] | Some vs \<Rightarrow> List.map_filter if_string vs)"

text \<open>The string members of an object, the first of a key kept.\<close>

definition read_texts :: "json_object \<Rightarrow> bytes smap" where
  "read_texts ob =
     foldl (\<lambda>m (k, v). case if_string v of Some t \<Rightarrow> om_emplace k t m | None \<Rightarrow> m) [] ob"

text \<open>The four maps a section is read into.\<close>

record section_maps =
  sm_domains :: "bytes list smap"
  sm_mirrors :: "bytes list smap"
  sm_canonical :: "bytes smap"
  sm_patterns :: "bytes smap smap"

definition no_maps :: section_maps where
  "no_maps = \<lparr>sm_domains = [], sm_mirrors = [], sm_canonical = [], sm_patterns = []\<rparr>"

definition emplace_nonempty :: "bytes \<Rightarrow> 'a list \<Rightarrow> 'a list smap \<Rightarrow> 'a list smap" where
  "emplace_nonempty owner xs m = (if xs \<noteq> [] then om_emplace owner xs m else m)"

definition read_entry :: "bool \<Rightarrow> section_maps \<Rightarrow> bytes \<times> json \<Rightarrow> section_maps" where
  "read_entry with_canonical m entry =
     (let owner = fst entry
      in case if_object (snd entry) of
           None \<Rightarrow> m
         | Some ob \<Rightarrow>
             m\<lparr>sm_domains := emplace_nonempty owner (read_urls ob ''domains'') (sm_domains m),
               sm_mirrors := emplace_nonempty owner (read_urls ob ''mirrors'') (sm_mirrors m),
               sm_canonical := (if with_canonical then emplace_nonempty owner (json_str ob ''canonical_base_url'') (sm_canonical m)
                 else sm_canonical m),
               sm_patterns := (case object_field ob ''patterns'' of
                   Some ps \<Rightarrow> emplace_nonempty owner (read_texts ps) (sm_patterns m)
                 | None \<Rightarrow> sm_patterns m)\<rparr>)"

definition read_section :: "bool \<Rightarrow> json_object \<Rightarrow> section_maps" where
  "read_section with_canonical sec = foldl (read_entry with_canonical) no_maps sec"

definition optional_section :: "bool \<Rightarrow> json_object option \<Rightarrow> section_maps" where
  "optional_section with_canonical sec = (case sec of Some s \<Rightarrow> read_section with_canonical s | None \<Rightarrow> no_maps)"

definition decode_root :: "int \<Rightarrow> json_object \<Rightarrow> 64 word \<Rightarrow> catalog_error + catalog_data" where
  "decode_root wild doc min_revision =
     (case lookup doc ''schema_version'' of
        None \<Rightarrow> Inl BadFormat
      | Some version \<Rightarrow>
          if \<not> is_number version then Inl BadFormat
          else if json_integer wild doc ''schema_version'' \<noteq> catalog_schema_version then Inl UnsupportedVersion
          else case lookup doc ''revision'' of
            None \<Rightarrow> Inl BadFormat
          | Some revision \<Rightarrow>
              if \<not> is_number revision then Inl BadFormat
              else let rev_no = word_of_int (json_integer wild doc ''revision'') in
                if rev_no \<le> min_revision then Inl StaleRevision
                else let ps = optional_section True (object_field doc ''parsers'');
                         xs = optional_section False (object_field doc ''extractors'')
                  in Inr \<lparr>cd_revision = rev_no, cd_domains = sm_domains ps, cd_mirrors = sm_mirrors ps,
                       cd_canonical = sm_canonical ps, cd_extractor_domains = sm_domains xs,
                       cd_extractor_mirrors = sm_mirrors xs,
                       cd_selectors = (case object_field doc ''selectors'' of Some ss \<Rightarrow> read_texts ss | None \<Rightarrow> []),
                       cd_patterns = sm_patterns ps, cd_extractor_patterns = sm_patterns xs\<rparr>)"

text \<open>What a build relies on: the pinned key's check, the JSON parser, and the wild cast.\<close>

record platform =
  pl_verify :: "bytes \<Rightarrow> bytes \<Rightarrow> bool"
  pl_parse :: "bytes \<Rightarrow> json option"
  pl_wild :: int

definition decode_catalog :: "platform \<Rightarrow> bytes \<Rightarrow> bytes \<Rightarrow> 64 word \<Rightarrow> catalog_error + catalog_data" where
  "decode_catalog pl payload signature min_revision =
     (if \<not> pl_verify pl payload signature then Inl BadSignature
      else case pl_parse pl payload of
        None \<Rightarrow> Inl BadFormat
      | Some v \<Rightarrow> (case if_object v of None \<Rightarrow> Inl BadFormat | Some doc \<Rightarrow> decode_root (pl_wild pl) doc min_revision))"

section \<open>Applying\<close>

definition host_of :: "bytes \<Rightarrow> bytes" where
  "host_of url =
     (let rest = (case find_from ''://'' url 0 of Some i \<Rightarrow> drop (i + 3) url | None \<Rightarrow> url)
      in takeWhile (\<lambda>c. c \<noteq> CHR '':'') (takeWhile (\<lambda>c. c \<noteq> CHR ''/'') rest))"

definition add_host :: "bytes list \<Rightarrow> bytes \<Rightarrow> bytes list" where
  "add_host hosts url = (let host = host_of url in if host \<in> set hosts then hosts else hosts @ [host])"

definition union_hosts :: "bytes list smap \<Rightarrow> bytes \<times> bytes list \<Rightarrow> bytes list smap" where
  "union_hosts domains entry =
     (let hosts = (case lookup domains (fst entry) of Some hs \<Rightarrow> hs | None \<Rightarrow> [])
      in om_put (fst entry) (foldl add_host hosts (snd entry)) domains)"

definition union_mirror_hosts :: "bytes list smap \<Rightarrow> bytes list smap \<Rightarrow> bytes list smap" where
  "union_mirror_hosts domains mirrors = foldl union_hosts domains mirrors"

definition union_canonical_hosts :: "bytes list smap \<Rightarrow> bytes smap \<Rightarrow> bytes list smap" where
  "union_canonical_hosts domains canonical = foldl (\<lambda>d (owner, url). union_hosts d (owner, [url])) domains canonical"

record ('k, 't) services =
  sv_mirrors :: "mirror_source option"
  sv_selectors :: "(selector_source, 'k, 't) holder option"
  sv_patterns :: "(regex_source, 'k, 't) holder option"
  sv_resources :: "('k, 't) resource_cache option"

record ('k, 't, 'v, 'h) manager =
  mg_store :: parser_store
  mg_services :: "('k, 't) services option"
  mg_extractors :: "('v, 'h) extractor_store option"
  mg_extractor_services :: "('k, 't) services option"
  mg_revision :: "64 word"

definition new_manager ::
  "parser_store \<Rightarrow> ('k, 't) services option \<Rightarrow> ('v, 'h) extractor_store option \<Rightarrow> ('k, 't) services option \<Rightarrow>
     ('k, 't, 'v, 'h) manager" where
  "new_manager store services exs ex_services =
     \<lparr>mg_store = store, mg_services = services, mg_extractors = exs, mg_extractor_services = ex_services, mg_revision = 0\<rparr>"

text \<open>Swapping the sources of a bundle: an absent holder is skipped.\<close>

definition swap_parser_services ::
  "mirror_source \<Rightarrow> selector_source \<Rightarrow> regex_source \<Rightarrow> ('k, 't) services \<Rightarrow> ('k, 't) services" where
  "swap_parser_services mirrors selectors patterns sv =
     sv\<lparr>sv_mirrors := map_option (\<lambda>_. mirror_holder_set (Some mirrors)) (sv_mirrors sv),
       sv_selectors := map_option (selector_holder_set (Some selectors)) (sv_selectors sv),
       sv_patterns := map_option (holder_set empty_regex_source (Some patterns)) (sv_patterns sv),
       sv_resources := map_option cache_clear (sv_resources sv)\<rparr>"

definition swap_extractor_services :: "mirror_source \<Rightarrow> regex_source \<Rightarrow> ('k, 't) services \<Rightarrow> ('k, 't) services" where
  "swap_extractor_services mirrors patterns sv =
     sv\<lparr>sv_mirrors := map_option (\<lambda>_. mirror_holder_set (Some mirrors)) (sv_mirrors sv),
       sv_patterns := map_option (holder_set empty_regex_source (Some patterns)) (sv_patterns sv)\<rparr>"

text \<open>
  \<open>refresh_domains\<close> begins an edit and commits it; \<open>others\<close> is what other threads do to the store in
  between. A commit that throws leaves the store to the others.
\<close>

definition refresh_during ::
  "(parser_store \<Rightarrow> parser_store) \<Rightarrow> parser_store \<Rightarrow> bytes list smap \<Rightarrow> store_error option \<times> parser_store" where
  "refresh_during others s vol =
     (let e = edit_refresh_domains (parser_begin_edit s) vol
      in case parser_edit_commit (others s) e of (err, s', _) \<Rightarrow> (err, s'))"

definition extractor_refresh_during ::
  "(('v, 'h) extractor_store \<Rightarrow> ('v, 'h) extractor_store) \<Rightarrow> ('v, 'h) extractor_store \<Rightarrow> bytes list smap \<Rightarrow>
     store_error option \<times> ('v, 'h) extractor_store" where
  "extractor_refresh_during others s vol =
     (let e = extractor_refresh_edit (begin_edit s) vol
      in case edit_commit ex_domains (others s) e of (err, s', _) \<Rightarrow> (err, s'))"

datatype apply_result = Applied "64 word" | Rejected catalog_error | Thrown store_error

definition apply_during ::
  "(parser_store \<Rightarrow> parser_store) \<Rightarrow> (('v, 'h) extractor_store \<Rightarrow> ('v, 'h) extractor_store) \<Rightarrow> platform \<Rightarrow>
     bytes \<Rightarrow> bytes \<Rightarrow> ('k, 't, 'v, 'h) manager \<Rightarrow> apply_result \<times> ('k, 't, 'v, 'h) manager" where
  "apply_during others ex_others pl payload signature m =
     (case decode_catalog pl payload signature (mg_revision m) of
        Inl e \<Rightarrow> (Rejected e, m)
      | Inr data \<Rightarrow>
          (let domains = union_canonical_hosts (union_mirror_hosts (cd_domains data) (cd_mirrors data)) (cd_canonical data)
           in case refresh_during others (mg_store m) domains of
                (Some err, s') \<Rightarrow> (Thrown err, m\<lparr>mg_store := s'\<rparr>)
              | (None, s') \<Rightarrow>
                  (let m1 = m\<lparr>mg_store := s'\<rparr>;
                       refreshed = (case mg_extractors m1 of
                         None \<Rightarrow> (None, None)
                       | Some xs \<Rightarrow> (case extractor_refresh_during ex_others xs
                             (union_mirror_hosts (cd_extractor_domains data) (cd_extractor_mirrors data)) of
                           (err, xs') \<Rightarrow> (err, Some xs')))
                   in case refreshed of
                        (Some err, xs') \<Rightarrow> (Thrown err, m1\<lparr>mg_extractors := xs'\<rparr>)
                      | (None, xs') \<Rightarrow>
                          (Applied (cd_revision data),
                           m1\<lparr>mg_extractors := xs',
                             mg_services := map_option (swap_parser_services
                               \<lparr>ms_overrides = cd_mirrors data, ms_canonical = cd_canonical data\<rparr>
                               (flat_selector_source (cd_selectors data))
                               (scoped_regex_source (cd_patterns data))) (mg_services m1),
                             mg_extractor_services := map_option (swap_extractor_services
                               \<lparr>ms_overrides = cd_extractor_mirrors data, ms_canonical = []\<rparr>
                               (scoped_regex_source (cd_extractor_patterns data))) (mg_extractor_services m1),
                             mg_revision := cd_revision data\<rparr>))))"

definition catalog_apply ::
  "platform \<Rightarrow> bytes \<Rightarrow> bytes \<Rightarrow> ('k, 't, 'v, 'h) manager \<Rightarrow> apply_result \<times> ('k, 't, 'v, 'h) manager" where
  "catalog_apply = apply_during id id"

definition catalog_reset :: "('k, 't, 'v, 'h) manager \<Rightarrow> ('k, 't, 'v, 'h) manager" where
  "catalog_reset m =
     m\<lparr>mg_store := snd (refresh_during id (mg_store m) []),
       mg_extractors := map_option (\<lambda>xs. snd (extractor_refresh_during id xs [])) (mg_extractors m),
       mg_services := map_option (swap_parser_services empty_mirror_source empty_selector_source empty_regex_source) (mg_services m),
       mg_extractor_services := map_option (swap_extractor_services empty_mirror_source empty_regex_source) (mg_extractor_services m),
       mg_revision := 0\<rparr>"

section \<open>Lemmas\<close>

lemma refresh_during_id:
  "refresh_during id s vol =
     (None, s\<lparr>live := make_snapshot emplace_domains (snap_entries (live s)) vol, live_id := Suc (live_id s)\<rparr>)"
  by (simp add: refresh_during_def edit_refresh_domains_def set_volatile_domains_def parser_begin_edit_def begin_edit_def
      parser_edit_commit_def edit_commit_def store_commit_def Let_def)

lemma extractor_refresh_during_id:
  "extractor_refresh_during id s vol =
     (None, s\<lparr>live := make_snapshot ex_domains (snap_entries (live s)) vol, live_id := Suc (live_id s)\<rparr>)"
  by (simp add: extractor_refresh_during_def extractor_refresh_edit_def set_volatile_domains_def begin_edit_def
      edit_commit_def store_commit_def Let_def)

definition catalog_volatile :: "catalog_data \<Rightarrow> bytes list smap" where
  "catalog_volatile data =
     union_canonical_hosts (union_mirror_hosts (cd_domains data) (cd_mirrors data)) (cd_canonical data)"

definition applied :: "catalog_data \<Rightarrow> ('k, 't, 'v, 'h) manager \<Rightarrow> ('k, 't, 'v, 'h) manager" where
  "applied data m =
     m\<lparr>mg_store := snd (refresh_during id (mg_store m) (catalog_volatile data)),
       mg_extractors := map_option (\<lambda>xs. snd (extractor_refresh_during id xs
         (union_mirror_hosts (cd_extractor_domains data) (cd_extractor_mirrors data)))) (mg_extractors m),
       mg_services := map_option (swap_parser_services
         \<lparr>ms_overrides = cd_mirrors data, ms_canonical = cd_canonical data\<rparr>
         (flat_selector_source (cd_selectors data)) (scoped_regex_source (cd_patterns data))) (mg_services m),
       mg_extractor_services := map_option (swap_extractor_services
         \<lparr>ms_overrides = cd_extractor_mirrors data, ms_canonical = []\<rparr>
         (scoped_regex_source (cd_extractor_patterns data))) (mg_extractor_services m),
       mg_revision := cd_revision data\<rparr>"

text \<open>Without interference an accepted catalog is applied as a whole.\<close>

lemma catalog_apply_cases:
  "catalog_apply pl payload signature m =
     (case decode_catalog pl payload signature (mg_revision m) of
        Inl e \<Rightarrow> (Rejected e, m) | Inr data \<Rightarrow> (Applied (cd_revision data), applied data m))"
  by (simp add: catalog_apply_def apply_during_def applied_def catalog_volatile_def refresh_during_id
      extractor_refresh_during_id Let_def split: sum.split option.split)

lemma applied_revision [simp]: "mg_revision (applied data m) = cd_revision data"
  by (simp add: applied_def)

text \<open>Decoding depends on the last revision only in the final comparison.\<close>

lemma decode_root_Inr:
  assumes "decode_root wild doc r = Inr data"
  shows "r < cd_revision data"
    "decode_root wild doc r' = (if cd_revision data \<le> r' then Inl StaleRevision else Inr data)"
  using assms by (auto simp: decode_root_def Let_def split: option.splits if_splits)

lemma decode_catalog_Inr:
  assumes "decode_catalog pl payload signature r = Inr data"
  shows "pl_verify pl payload signature" "r < cd_revision data"
    "decode_catalog pl payload signature r' = (if cd_revision data \<le> r' then Inl StaleRevision else Inr data)"
  using assms decode_root_Inr [of "pl_wild pl" _ r data]
  by (auto simp: decode_catalog_def split: option.splits if_splits)

lemma decode_catalog_signature: "decode_catalog pl payload signature r = Inl BadSignature \<longleftrightarrow> \<not> pl_verify pl payload signature"
  by (auto simp: decode_catalog_def decode_root_def Let_def split: option.splits if_splits)

definition apply_all ::
  "platform \<Rightarrow> (bytes \<times> bytes) list \<Rightarrow> ('k, 't, 'v, 'h) manager \<Rightarrow> ('k, 't, 'v, 'h) manager" where
  "apply_all pl later m = foldl (\<lambda>m (payload, signature). snd (catalog_apply pl payload signature m)) m later"

lemma apply_revision: "mg_revision m \<le> mg_revision (snd (catalog_apply pl payload signature m))"
  using decode_catalog_Inr(2) [of pl payload signature "mg_revision m"]
  by (auto simp: catalog_apply_cases less_imp_le split: sum.splits)

lemma apply_all_revision: "mg_revision m \<le> mg_revision (apply_all pl later m)"
proof (induction later arbitrary: m)
  case (Cons p later)
  then show ?case using apply_revision [of m pl "fst p" "snd p"]
    by (auto simp: apply_all_def split_def intro: order_trans)
qed (simp add: apply_all_def)

lemma apply_stale:
  assumes "decode_catalog pl payload signature r = Inr data" "cd_revision data \<le> mg_revision m"
  shows "catalog_apply pl payload signature m = (Rejected StaleRevision, m)"
  using decode_catalog_Inr(3) [OF assms(1), of "mg_revision m"] assms(2) by (simp add: catalog_apply_cases)

section \<open>The hosts a catalog routes\<close>

definition texts_at :: "bytes list smap \<Rightarrow> bytes \<Rightarrow> bytes set" where
  "texts_at m owner = (case lookup m owner of Some xs \<Rightarrow> set xs | None \<Rightarrow> {})"

definition text_at :: "bytes smap \<Rightarrow> bytes \<Rightarrow> bytes set" where
  "text_at m owner = (case lookup m owner of Some x \<Rightarrow> {x} | None \<Rightarrow> {})"

lemma set_add_hosts: "set (foldl add_host hosts urls) = set hosts \<union> host_of ` set urls"
  by (induction urls arbitrary: hosts) (auto simp: add_host_def Let_def)

lemma union_hosts_wf [simp]: "om_wf d \<Longrightarrow> om_wf (union_hosts d entry)"
  by (simp add: union_hosts_def Let_def)

lemma texts_at_union_hosts:
  "om_wf d \<Longrightarrow> texts_at (union_hosts d (i, urls)) k = texts_at d k \<union> (if k = i then host_of ` set urls else {})"
  by (auto simp: texts_at_def union_hosts_def Let_def lookup_om_put set_add_hosts split: option.splits)

lemma texts_at_union:
  assumes "om_wf d"
  shows "om_wf (foldl union_hosts d entries) \<and>
    texts_at (foldl union_hosts d entries) k = texts_at d k \<union> host_of ` (\<Union>(i, urls) \<in> set entries. if k = i then set urls else {})"
  using assms
proof (induction entries arbitrary: d)
  case (Cons e entries)
  obtain i urls where e: "e = (i, urls)" by (cases e)
  show ?case using Cons.IH [of "union_hosts d e"] Cons.prems e by (auto simp: texts_at_union_hosts split: if_splits)
qed simp

lemma union_entries: "om_wf m \<Longrightarrow> (\<Union>(i, urls) \<in> set m. if k = i then set urls else {}) = texts_at m k"
  by (auto simp: texts_at_def om_in_lookup split: option.splits if_splits) (force dest: lookup_in)

lemma texts_at_mirrors:
  "om_wf d \<Longrightarrow> om_wf ms \<Longrightarrow>
     om_wf (union_mirror_hosts d ms) \<and> texts_at (union_mirror_hosts d ms) k = texts_at d k \<union> host_of ` texts_at ms k"
  using texts_at_union [of d ms k] by (simp add: union_mirror_hosts_def union_entries)

lemma texts_at_canonical:
  assumes "om_wf d" "om_wf cs"
  shows "om_wf (union_canonical_hosts d cs) \<and>
    texts_at (union_canonical_hosts d cs) k = texts_at d k \<union> host_of ` text_at cs k"
proof -
  have conv: "union_canonical_hosts d cs = foldl union_hosts d (map (\<lambda>(i, url). (i, [url])) cs)" for d
    unfolding union_canonical_hosts_def by (induction cs arbitrary: d) auto
  have "(\<Union>(i, urls) \<in> set (map (\<lambda>(i, url). (i, [url])) cs). if k = i then set urls else {}) = text_at cs k"
    using assms(2)
    by (auto simp: text_at_def om_in_lookup split: option.splits if_splits) (force dest: lookup_in)+
  then show ?thesis using texts_at_union [OF assms(1), of "map (\<lambda>(i, url). (i, [url])) cs" k] by (simp add: conv)
qed

text \<open>The decoded maps are maps.\<close>

definition maps_ok :: "section_maps \<Rightarrow> bool" where
  "maps_ok m \<longleftrightarrow> om_wf (sm_domains m) \<and> om_wf (sm_mirrors m) \<and> om_wf (sm_canonical m) \<and> om_wf (sm_patterns m)"

lemma emplace_nonempty_wf [simp]: "om_wf m \<Longrightarrow> om_wf (emplace_nonempty k xs m)"
  by (simp add: emplace_nonempty_def)

lemma read_entry_ok: "maps_ok m \<Longrightarrow> maps_ok (read_entry c m entry)"
  by (auto simp: maps_ok_def read_entry_def Let_def split: option.splits)

lemma optional_section_ok: "maps_ok (optional_section c sec)"
proof -
  have "maps_ok (foldl (read_entry c) m s)" if "maps_ok m" for m s
    using that by (induction s arbitrary: m) (auto simp: read_entry_ok)
  moreover have "maps_ok no_maps" by (simp add: maps_ok_def no_maps_def)
  ultimately show ?thesis by (auto simp: optional_section_def read_section_def split: option.splits)
qed

lemma decode_catalog_ok:
  assumes "decode_catalog pl payload signature r = Inr data"
  shows "om_wf (cd_domains data)" "om_wf (cd_mirrors data)" "om_wf (cd_canonical data)" "om_wf (cd_patterns data)"
  using assms optional_section_ok
  by (auto simp: decode_catalog_def decode_root_def Let_def maps_ok_def split: option.splits if_splits)

lemma catalog_volatile_texts:
  assumes "decode_catalog pl payload signature r = Inr data"
  shows "texts_at (catalog_volatile data) k =
    texts_at (cd_domains data) k \<union> host_of ` (texts_at (cd_mirrors data) k \<union> text_at (cd_canonical data) k)"
proof -
  have "om_wf (union_mirror_hosts (cd_domains data) (cd_mirrors data))" for k
    using texts_at_mirrors decode_catalog_ok [OF assms] by blast
  then show ?thesis
    using texts_at_mirrors [of "cd_domains data" "cd_mirrors data" k] decode_catalog_ok [OF assms]
      texts_at_canonical [of "union_mirror_hosts (cd_domains data) (cd_mirrors data)" "cd_canonical data" k]
    by (auto simp: catalog_volatile_def image_Un)
qed

section \<open>Properties\<close>

text \<open>C13: The gate of a catalog, one apply at a time. An apply never throws. A rejected payload changes
  nothing, and the signature alone decides whether it is rejected as such. An applied payload was
  signed and is strictly newer than the last one, its revision is then the manager's, and whatever
  is applied after it, the same payload is only ever rejected as stale.\<close>

theorem catalog_apply_gate:
  "case catalog_apply pl payload signature m of
     (Thrown err, m') \<Rightarrow> False
   | (Rejected e, m') \<Rightarrow> m' = m \<and> (e = BadSignature \<longleftrightarrow> \<not> pl_verify pl payload signature)
   | (Applied rev_no, m') \<Rightarrow> pl_verify pl payload signature \<and> mg_revision m < rev_no \<and> mg_revision m' = rev_no \<and>
       (\<forall>later. catalog_apply pl payload signature (apply_all pl later m') = (Rejected StaleRevision, apply_all pl later m'))"
proof (cases "decode_catalog pl payload signature (mg_revision m)")
  case (Inl e)
  then show ?thesis using decode_catalog_signature [of pl payload signature "mg_revision m"]
    by (auto simp: catalog_apply_cases)
next
  case (Inr data)
  have "catalog_apply pl payload signature (apply_all pl later (applied data m)) =
      (Rejected StaleRevision, apply_all pl later (applied data m))" for later
    using apply_stale [OF Inr] apply_all_revision [of "applied data m" pl later] by simp
  then show ?thesis using Inr decode_catalog_Inr [OF Inr] by (simp add: catalog_apply_cases)
qed

text \<open>What an applied catalog routes. The registered parsers stay; a parser serves a host through a
  domain exactly when the domain is one of its own, one the catalog lists for its identifier, or the
  host of a mirror or of the canonical origin the catalog gives it, and the host is that domain or
  below it. So a URL of a listed mirror routes without a domains entry. An empty domain is above
  every host: a mirror without a host, like a protocol-relative one, makes its parser serve all.\<close>

theorem catalog_routes:
  assumes "ps_reachable (mg_store m)" "decode_catalog pl payload signature (mg_revision m) = Inr data"
    "catalog_apply pl payload signature m = (res, m')"
  shows "ps_reachable (mg_store m') \<and>
    (\<forall>k. find_parser_by_key (mg_store m') k = find_parser_by_key (mg_store m) k) \<and>
    (\<forall>host p d. serves emplace_domains (mg_store m') host p d \<longleftrightarrow>
      find_parser_by_key (mg_store m) (pr_identifier p) = Some p \<and> under_domain host d \<and>
      d \<in> set (pr_domains p) \<union> texts_at (cd_domains data) (pr_identifier p) \<union>
        host_of ` (texts_at (cd_mirrors data) (pr_identifier p) \<union> text_at (cd_canonical data) (pr_identifier p))) \<and>
    (\<forall>p url accepts. find_parser_by_key (mg_store m) (pr_identifier p) = Some p \<longrightarrow> accepts p \<longrightarrow>
      url \<in> texts_at (cd_mirrors data) (pr_identifier p) \<longrightarrow> find_by_host (mg_store m') (host_of url) accepts \<noteq> None)"
proof -
  let ?s = "mg_store m"
  have store: "mg_store m' = ?s\<lparr>live := make_snapshot emplace_domains (snap_entries (live ?s)) (catalog_volatile data),
      live_id := Suc (live_id ?s)\<rparr>"
    using assms(2,3) by (auto simp: catalog_apply_cases applied_def refresh_during_id)
  have "refresh_domains ?s (catalog_volatile data) = Inr (mg_store m')"
    by (simp add: store refresh_domains_def edit_refresh_domains_def set_volatile_domains_def parser_begin_edit_def
        begin_edit_def commit_or_throw_Inr)
  then have reach: "ps_reachable (mg_store m')" by (rule ps_refresh [OF assms(1)])
  have keys: "find_by_key (mg_store m') k = find_by_key ?s k" for k by (simp add: store find_by_key_def)
  have keyed: "k = pr_identifier p" if "find_by_key ?s k = Some p" for k p
    using ps_reachable_ok [OF assms(1)] lookup_in [OF that [unfolded find_by_key_def]]
    by (auto simp: parser_store_ok_def keyed_def)
  have vol: "d \<in> set (domains_of emplace_domains (snap_volatile (live (mg_store m'))) k p) \<longleftrightarrow>
      d \<in> set (pr_domains p) \<union> texts_at (catalog_volatile data) k" for d k p
    by (auto simp: store domains_of_def emplace_domains_def texts_at_def split: option.splits)
  have serves: "serves emplace_domains (mg_store m') host p d \<longleftrightarrow>
      find_parser_by_key ?s (pr_identifier p) = Some p \<and> under_domain host d \<and>
      d \<in> set (pr_domains p) \<union> texts_at (cd_domains data) (pr_identifier p) \<union>
        host_of ` (texts_at (cd_mirrors data) (pr_identifier p) \<union> text_at (cd_canonical data) (pr_identifier p))" for host p d
    using keyed unfolding serves_def keys vol catalog_volatile_texts [OF assms(2)] find_parser_by_key_def by blast
  have "find_by_host (mg_store m') (host_of url) accepts \<noteq> None"
    if "find_parser_by_key ?s (pr_identifier p) = Some p" "accepts p" "url \<in> texts_at (cd_mirrors data) (pr_identifier p)"
    for p url accepts
  proof -
    have "serves emplace_domains (mg_store m') (host_of url) p (host_of url)"
      using that by (auto simp: serves under_domain_def)
    moreover have "consistent emplace_domains (mg_store m')" using ps_reachable_ok [OF reach] by (simp add: parser_store_ok_def)
    ultimately show ?thesis using that(2) find_by_host_None [of emplace_domains "mg_store m'" "host_of url" accepts] by blast
  qed
  then show ?thesis using reach serves keys by (auto simp: find_parser_by_key_def)
qed

text \<open>What a bundle with all holders serves to contexts built on it.\<close>

definition served_url :: "('k, 't) services option \<Rightarrow> 'j parser_config \<Rightarrow> bytes list \<Rightarrow> bytes" where
  "served_url services config builtin = (case services of Some sv \<Rightarrow> context_base_url (sv_mirrors sv) config builtin | None \<Rightarrow> [])"

definition served_pattern :: "('k, 't) services option \<Rightarrow> bytes \<Rightarrow> bytes \<Rightarrow> bytes \<Rightarrow> bytes" where
  "served_pattern services owner key fallback =
     (case services of
        Some sv \<Rightarrow> (case sv_patterns sv of Some h \<Rightarrow> regex_get (fst (regex_view owner h)) key fallback | None \<Rightarrow> fallback)
      | None \<Rightarrow> fallback)"

definition served_selector :: "('k, 't) services option \<Rightarrow> bytes \<Rightarrow> bytes \<Rightarrow> bytes \<Rightarrow> bytes" where
  "served_selector services owner key fallback =
     (case services of
        Some sv \<Rightarrow> (case sv_selectors sv of Some h \<Rightarrow> selector_get (fst (selector_view_for owner h)) key fallback | None \<Rightarrow> fallback)
      | None \<Rightarrow> fallback)"

definition text_or :: "bytes smap option \<Rightarrow> bytes \<Rightarrow> bytes \<Rightarrow> bytes" where
  "text_or texts key fallback =
     (case texts of Some m \<Rightarrow> (case lookup m key of Some t \<Rightarrow> t | None \<Rightarrow> fallback) | None \<Rightarrow> fallback)"

lemma set_scoped_view:
  "regex_get (fst (regex_view owner (holder_set e (Some (scoped_regex_source ps)) h))) key fallback =
     text_or (if owner = [] then None else lookup ps owner) key fallback"
  by (auto simp: view_for_def needs_view_def insert_view_def holder_set_def holder_store_def holder_clear_def Let_def
      regex_has_scope_def regex_scoped_to_def scoped_regex_source_def flat_regex_source_def regex_get_def text_or_def
      split: option.splits)

lemma set_flat_view:
  "selector_get (fst (selector_view_for owner (selector_holder_set (Some (flat_selector_source ss)) h))) key fallback =
     text_or (Some ss) key fallback"
  by (auto simp: selector_holder_defs view_for_def needs_view_def holder_set_def holder_store_def holder_clear_def Let_def
      selector_has_scope_def flat_selector_source_def selector_get_def text_or_def)

lemma swapped_bundle:
  fixes config :: "'j parser_config"
  assumes "sv_mirrors sv \<noteq> None" "sv_selectors sv \<noteq> None" "sv_patterns sv \<noteq> None"
  shows "served_url (Some (swap_parser_services ms (flat_selector_source ss) (scoped_regex_source ps) sv)) config builtin =
      mirror_url \<lparr>mi_override = lookup (ms_overrides ms) (pc_parser_id config), mi_builtin = builtin\<rparr> (pc_alt_link config)"
    and "served_pattern (Some (swap_parser_services ms (flat_selector_source ss) (scoped_regex_source ps) sv)) owner key fallback =
      text_or (if owner = [] then None else lookup ps owner) key fallback"
    and "served_selector (Some (swap_parser_services ms (flat_selector_source ss) (scoped_regex_source ps) sv)) owner key fallback =
      text_or (Some ss) key fallback"
  using assms
  by (auto simp: served_url_def served_pattern_def served_selector_def swap_parser_services_def set_scoped_view set_flat_view
      context_base_url_def context_mirrors_def context_mirrors_for_def list_for_def mirror_holder_set_def)

lemma empty_sources:
  "empty_selector_source = flat_selector_source []" "empty_regex_source = scoped_regex_source []"
  by (simp_all add: empty_selector_source_def flat_selector_source_def empty_regex_source_def scoped_regex_source_def)

text \<open>C14: An applied catalog takes effect in a bundle that has all three holders, whatever their caches
  held: a context's base URL comes from the catalog's mirror list for its parser when that is not
  empty and else from the built-in list, an owner's pattern is the catalog's text for that owner and
  key or else the built-in one, and a selector is the catalog's text for that key or else the
  built-in one. After a reset all three are the built-in ones again and any signed revision is new.\<close>

theorem catalog_overrides_served:
  fixes config :: "'j parser_config"
  assumes "decode_catalog pl payload signature (mg_revision m) = Inr data"
    "catalog_apply pl payload signature m = (res, m')" "mg_services m = Some sv"
    "sv_mirrors sv \<noteq> None" "sv_selectors sv \<noteq> None" "sv_patterns sv \<noteq> None"
  shows "served_url (mg_services m') config builtin =
      mirror_url \<lparr>mi_override = lookup (cd_mirrors data) (pc_parser_id config), mi_builtin = builtin\<rparr> (pc_alt_link config) \<and>
    served_pattern (mg_services m') owner key fallback =
      text_or (if owner = [] then None else lookup (cd_patterns data) owner) key fallback \<and>
    served_selector (mg_services m') owner key fallback = text_or (Some (cd_selectors data)) key fallback \<and>
    served_url (mg_services (catalog_reset m')) config builtin =
      mirror_url \<lparr>mi_override = None, mi_builtin = builtin\<rparr> (pc_alt_link config) \<and>
    served_pattern (mg_services (catalog_reset m')) owner key fallback = fallback \<and>
    served_selector (mg_services (catalog_reset m')) owner key fallback = fallback \<and>
    mg_revision (catalog_reset m') = 0"
proof -
  let ?ms = "\<lparr>ms_overrides = cd_mirrors data, ms_canonical = cd_canonical data\<rparr>"
  let ?sv' = "swap_parser_services ?ms (flat_selector_source (cd_selectors data)) (scoped_regex_source (cd_patterns data)) sv"
  have sv': "mg_services m' = Some ?sv'" using assms by (auto simp: catalog_apply_cases applied_def)
  have held: "sv_mirrors ?sv' \<noteq> None" "sv_selectors ?sv' \<noteq> None" "sv_patterns ?sv' \<noteq> None"
    using assms(4-6) by (auto simp: swap_parser_services_def)
  have reset: "mg_services (catalog_reset m') =
      Some (swap_parser_services empty_mirror_source (flat_selector_source []) (scoped_regex_source []) ?sv')"
    by (simp add: catalog_reset_def sv' empty_sources)
  show ?thesis
    unfolding sv' reset swapped_bundle [OF assms(4-6)] swapped_bundle [OF held]
    by (simp add: empty_mirror_source_def text_or_def catalog_reset_def)
qed

definition lockout :: json_object where
  "lockout = [(''schema_version'', JInt 1), (''revision'', JInt (-1))]"

text \<open>A negative revision locks the manager. The revision is read as a signed number and kept
  unsigned, so a signed payload with revision -1 is applied as the largest revision there is, and
  from then on no payload at all is applied, until the manager is reset.\<close>

theorem negative_revision_locks_out:
  assumes "pl_verify pl payload signature" "pl_parse pl payload = Some (JObject doc)"
    "lookup doc ''schema_version'' = Some (JInt 1)" "lookup doc ''revision'' = Some (JInt (-1))" "mg_revision m \<noteq> -1"
  shows "fst (catalog_apply pl payload signature m) = Applied (-1) \<and>
    (\<forall>later p s. fst (catalog_apply pl p s (apply_all pl later (snd (catalog_apply pl payload signature m)))) \<notin> range Applied)"
proof -
  have below: "mg_revision m < -1" using assms(5) word_n1_ge [of "mg_revision m"] by (simp add: order_less_le)
  have "json_integer (pl_wild pl) doc ''revision'' = -1" using assms(4) by (simp add: json_integer_def)
  then obtain data where d: "decode_catalog pl payload signature (mg_revision m) = Inr data" "cd_revision data = -1"
    using assms below
    by (auto simp: decode_catalog_def decode_root_def json_integer_def catalog_schema_version_def Let_def not_le)
  have "fst (catalog_apply pl p s (apply_all pl later (applied data m))) \<notin> range Applied" for later p s
  proof -
    have "mg_revision (apply_all pl later (applied data m)) = -1"
      using apply_all_revision [of "applied data m" pl later] d(2) word_n1_ge
      by (metis applied_revision order_antisym)
    then show ?thesis
      using decode_catalog_Inr(2) [of pl p s "-1"] word_n1_ge
      by (auto simp: catalog_apply_cases not_less [symmetric] split: sum.splits)
  qed
  then show ?thesis using d by (simp add: catalog_apply_cases)
qed

text \<open>An apply is not atomic against other writers and can throw. When an extractor is registered
  between the manager's extractor edit and its commit, the commit is rejected as stale and the
  exception leaves \<open>apply\<close> after the parser routing was replaced: the new domains are live while the
  revision and the overrides are still the old ones.\<close>

theorem apply_race_half_applied:
  assumes "decode_catalog pl payload signature (mg_revision m) = Inr data" "mg_extractors m = Some xs"
    "add_extractor xs (Some x) = Inr (added, xs')"
  shows "apply_during id (\<lambda>_. xs') pl payload signature m =
      (Thrown StaleEdit, m\<lparr>mg_store := mg_store (applied data m), mg_extractors := Some xs'\<rparr>)"
proof -
  have "live_id xs' = Suc (live_id xs)"
    using assms(3) by (auto simp: add_extractor_def edit_add_extractor_def edit_add_def extractor_commit_def edit_commit_def
        store_commit_def begin_edit_def Let_def split: if_splits)
  then have "extractor_refresh_during (\<lambda>_. xs') xs vol = (Some StaleEdit, xs')" for vol
    by (simp add: extractor_refresh_during_def extractor_refresh_edit_def set_volatile_domains_def begin_edit_def
        edit_commit_def store_commit_def Let_def)
  then show ?thesis
    using assms(1,2) by (simp add: apply_during_def refresh_during_id applied_def catalog_volatile_def Let_def)
qed

section \<open>A sample catalog\<close>

definition sample_doc :: json_object where
  "sample_doc = [(''schema_version'', JInt 1), (''revision'', JInt 7),
     (''parsers'', JObject [(''site'', JObject [(''mirrors'', JArray [JString ''http://m.ex'']),
       (''patterns'', JObject [(''date'', JString ''d+'')])])])]"

definition sample_platform :: platform where
  "sample_platform = \<lparr>pl_verify = (\<lambda>_ signature. signature = ''ok''),
     pl_parse = (\<lambda>payload. if payload = ''doc'' then Some (JObject sample_doc)
       else if payload = ''lock'' then Some (JObject lockout) else None), pl_wild = 0\<rparr>"

definition sample_data :: catalog_data where
  "sample_data = \<lparr>cd_revision = 7, cd_domains = [], cd_mirrors = [(''site'', [''http://m.ex''])], cd_canonical = [],
     cd_extractor_domains = [], cd_extractor_mirrors = [], cd_selectors = [],
     cd_patterns = [(''site'', [(''date'', ''d+'')])], cd_extractor_patterns = []\<rparr>"

lemma sample_decodes: "r < 7 \<Longrightarrow> decode_catalog sample_platform ''doc'' ''ok'' r = Inr sample_data"
  by (simp add: decode_catalog_def sample_platform_def sample_doc_def decode_root_def Let_def json_integer_def
      catalog_schema_version_def object_field_def optional_section_def read_section_def read_entry_def no_maps_def
      emplace_nonempty_def read_urls_def array_field_def json_str_def read_texts_def sample_data_def lookup_def not_le)

definition sample_bundle :: "(unit, unit) services" where
  "sample_bundle = \<lparr>sv_mirrors = Some empty_mirror_source, sv_selectors = Some (new_holder empty_selector_source None),
     sv_patterns = Some (new_holder empty_regex_source None), sv_resources = None\<rparr>"

definition sample_manager :: "(unit, unit, unit, unit) manager" where
  "sample_manager = new_manager (case add_parser new_parser_store sample_parser of Inr (_, s) \<Rightarrow> s) (Some sample_bundle)
     (Some new_extractor_store) None"

lemma sample_added:
  "\<exists>s. add_parser new_parser_store sample_parser = Inr (Some sample_parser, s) \<and> mg_store sample_manager = s \<and>
    find_parser_by_key s ''site'' = Some sample_parser"
  by (simp add: sample_manager_def new_manager_def add_parser_def edit_add_parser_def edit_contains_def om_contains_def
      parser_begin_edit_def begin_edit_def edit_add_def commit_or_throw_def parser_edit_commit_def edit_commit_def
      store_commit_def new_parser_store_def new_store_def find_parser_by_key_def find_by_key_def sample_parser_def
      Let_def lookup_def)

lemma sample_store: "ps_reachable (mg_store sample_manager)" "find_parser_by_key (mg_store sample_manager) ''site'' = Some sample_parser"
  using sample_added ps_add [OF ps_new] by auto

lemma sample_host: "host_of ''http://m.ex'' = ''m.ex''"
proof -
  have "find_from ''://'' ''http://m.ex'' 0 = Some 4" by code_simp
  then show ?thesis by (simp add: host_of_def)
qed

lemma sample_revision: "mg_revision sample_manager = 0" "mg_extractors sample_manager = Some new_extractor_store"
  by (simp_all add: sample_manager_def new_manager_def)

theorem catalog_apply_gate_witness:
  "catalog_apply sample_platform ''doc'' ''ok'' (snd (catalog_apply sample_platform ''doc'' ''ok'' sample_manager)) =
     (Rejected StaleRevision, snd (catalog_apply sample_platform ''doc'' ''ok'' sample_manager))"
  using catalog_apply_gate [of sample_platform "''doc''" "''ok''" sample_manager]
  by (simp add: catalog_apply_cases [of _ _ _ sample_manager] sample_decodes sample_revision)
    (metis apply_all_def foldl_Nil)

theorem catalog_routes_witness:
  "find_by_host (mg_store (snd (catalog_apply sample_platform ''doc'' ''ok'' sample_manager))) ''m.ex'' (\<lambda>_. True) \<noteq> None"
proof -
  obtain res m' where a: "catalog_apply sample_platform ''doc'' ''ok'' sample_manager = (res, m')"
    by (cases "catalog_apply sample_platform ''doc'' ''ok'' sample_manager")
  have d: "decode_catalog sample_platform ''doc'' ''ok'' (mg_revision sample_manager) = Inr sample_data"
    by (simp add: sample_decodes sample_revision)
  have site: "pr_identifier sample_parser = ''site''" by (simp add: sample_parser_def)
  have "''http://m.ex'' \<in> texts_at (cd_mirrors sample_data) (pr_identifier sample_parser)"
    by (simp add: site sample_data_def texts_at_def lookup_def)
  then have "find_by_host (mg_store m') (host_of ''http://m.ex'') (\<lambda>_. True) \<noteq> None"
    using catalog_routes [OF sample_store(1) d a] sample_store(2) unfolding site by (metis site)
  then show ?thesis by (simp add: a sample_host)
qed

theorem catalog_overrides_served_witness:
  "served_pattern (mg_services (snd (catalog_apply sample_platform ''doc'' ''ok'' sample_manager))) ''site'' ''date'' ''x'' = ''d+''"
proof -
  have "mg_services sample_manager = Some sample_bundle" by (simp add: sample_manager_def new_manager_def)
  moreover have "sv_mirrors sample_bundle \<noteq> None" "sv_selectors sample_bundle \<noteq> None" "sv_patterns sample_bundle \<noteq> None"
    by (simp_all add: sample_bundle_def)
  ultimately show ?thesis
    using catalog_overrides_served [of sample_platform "''doc''" "''ok''" sample_manager sample_data _ _ sample_bundle
        sample_config "[]" "''site''" "''date''" "''x''"]
    by (cases "catalog_apply sample_platform ''doc'' ''ok'' sample_manager")
      (auto simp: sample_decodes sample_revision sample_data_def text_or_def lookup_def)
qed

theorem negative_revision_locks_out_witness:
  "fst (catalog_apply sample_platform ''lock'' ''ok'' sample_manager) = Applied (-1) \<and>
   fst (catalog_apply sample_platform ''doc'' ''ok'' (snd (catalog_apply sample_platform ''lock'' ''ok'' sample_manager))) \<notin> range Applied"
proof -
  have "fst (catalog_apply sample_platform ''lock'' ''ok'' sample_manager) = Applied (-1) \<and>
      (\<forall>later p s. fst (catalog_apply sample_platform p s
        (apply_all sample_platform later (snd (catalog_apply sample_platform ''lock'' ''ok'' sample_manager)))) \<notin> range Applied)"
    by (rule negative_revision_locks_out [of _ _ _ lockout])
      (simp_all add: sample_platform_def lockout_def sample_revision lookup_def)
  then show ?thesis by (metis apply_all_def foldl_Nil)
qed

theorem apply_race_half_applied_witness:
  "\<exists>xs'. fst (apply_during id (\<lambda>_. xs') sample_platform ''doc'' ''ok'' sample_manager) = Thrown StaleEdit \<and>
    mg_revision (snd (apply_during id (\<lambda>_. xs') sample_platform ''doc'' ''ok'' sample_manager)) = 0"
proof -
  let ?x = "\<lparr>ex_identifier = ''x'', ex_domains = [], ex_valid_for_url = (\<lambda>_. True),
      ex_extract = (\<lambda>_. Inl (make_response_error NotFound [] None []))\<rparr> :: (unit, unit) extractor"
  obtain added xs' where "add_extractor new_extractor_store (Some ?x) = Inr (added, xs')"
    by (simp add: add_extractor_def edit_add_extractor_def edit_contains_def om_contains_def edit_add_def extractor_commit_def
        edit_commit_def store_commit_def new_extractor_store_def new_store_def begin_edit_def Let_def)
  then show ?thesis
    using apply_race_half_applied [of sample_platform "''doc''" "''ok''" sample_manager sample_data new_extractor_store ?x added xs']
    by (intro exI [of _ xs']) (simp add: sample_decodes sample_revision)
qed

end
