(* ===== verification/Model_Values.thy ===== *)
theory Model_Values
  imports Double Decimal
begin

text \<open>
  \<open>src/utility/Number.cpp\<close> and \<open>src/types/Model.cpp\<close>: the decimal number at the start of a text, ratings on
  the common scale from 0 to 10, and the well known names of statuses and lists. A C++ \<open>int\<close> is an
  integer; where a sum of votes would leave its range the code has undefined behaviour, and the
  theorems ask for less.
\<close>

section \<open>Decimal prefixes\<close>

definition blank :: "char \<Rightarrow> bool" where
  "blank c \<longleftrightarrow> c = CHR '' '' \<or> c = CHR 0x09 \<or> c = CHR 0x0A \<or> c = CHR 0x0D"

definition separator :: "char \<Rightarrow> bool" where
  "separator c \<longleftrightarrow> c = CHR ''.'' \<or> c = CHR '',''"

definition times_ten :: "double \<Rightarrow> double" where
  "times_ten x = double_mult x (Finite 10)"

text \<open>\<open>x * 10.0 + (character - '0')\<close>\<close>

definition push_digit :: "double \<Rightarrow> char \<Rightarrow> double" where
  "push_digit x c = double_add (times_ten x) (Finite (of_nat (digit_val c)))"

text \<open>The loop over the characters, with \<open>after_decimal\<close>, \<open>has_digit\<close>, \<open>whole\<close>, \<open>fraction\<close> and \<open>scale\<close>.\<close>

fun decimal_loop :: "bytes \<Rightarrow> bool \<Rightarrow> bool \<Rightarrow> double \<Rightarrow> double \<Rightarrow> double \<Rightarrow> bool \<times> double \<times> double \<times> double" where
  "decimal_loop [] after_decimal has_digit whole fraction scale = (has_digit, whole, fraction, scale)"
| "decimal_loop (c # s) after_decimal has_digit whole fraction scale =
     (if \<not> after_decimal \<and> separator c then decimal_loop s True has_digit whole fraction scale
      else if \<not> is_digit c then (has_digit, whole, fraction, scale)
      else if after_decimal then decimal_loop s after_decimal True whole (push_digit fraction c) (times_ten scale)
      else decimal_loop s after_decimal True (push_digit whole c) fraction scale)"

definition parse_decimal_prefix :: "bytes \<Rightarrow> double option" where
  "parse_decimal_prefix input =
     (case decimal_loop (dropWhile blank input) False False (Finite 0) (Finite 0) (Finite 1) of
        (has_digit, whole, fraction, scale) \<Rightarrow>
          if \<not> has_digit then None else Some (double_add whole (double_div fraction scale)))"

lemma separator_not_digit: "separator c \<Longrightarrow> \<not> is_digit c"
  by (auto simp: separator_def is_digit_def code_def)

lemma blank_not_digit: "blank c \<Longrightarrow> \<not> is_digit c \<and> \<not> separator c"
  by (auto simp: blank_def separator_def is_digit_def code_def)

lemma digit_val_below: "is_digit c \<Longrightarrow> digit_val c < 10"
  unfolding is_digit_def digit_val_def by linarith

lemma decimal_loop_whole:
  "list_all is_digit ds \<Longrightarrow> decimal_loop (ds @ s) False has_digit whole fraction scale =
     decimal_loop s False (has_digit \<or> ds \<noteq> []) (foldl push_digit whole ds) fraction scale"
  by (induction ds arbitrary: has_digit whole) (auto dest: separator_not_digit)

lemma decimal_loop_fraction:
  "list_all is_digit fs \<Longrightarrow> decimal_loop (fs @ s) True has_digit whole fraction scale =
     decimal_loop s True (has_digit \<or> fs \<noteq> []) whole (foldl push_digit fraction fs) ((times_ten ^^ length fs) scale)"
  by (induction fs arbitrary: has_digit fraction scale) (auto simp: funpow_swap1)

lemma decimal_loop_stop:
  "(s = [] \<or> \<not> is_digit (hd s)) \<Longrightarrow> (after_decimal \<or> s = [] \<or> \<not> separator (hd s)) \<Longrightarrow>
   decimal_loop s after_decimal has_digit whole fraction scale = (has_digit, whole, fraction, scale)"
  by (cases s) auto

lemma decimal_loop_has: "fst (decimal_loop s after_decimal True whole fraction scale)"
  by (induction s arbitrary: after_decimal whole fraction scale) simp_all

text \<open>Up to 15 digits are exact.\<close>

lemma dec_value_less: "list_all is_digit ds \<Longrightarrow> dec_value ds < 10 ^ length ds"
proof (induction ds rule: rev_induct)
  case (snoc c ds)
  then have "dec_value ds + 1 \<le> 10 ^ length ds" "digit_val c < 10" by (simp_all add: digit_val_below)
  then show ?case by simp
qed simp

lemma push_digit_exact:
  "n * 10 + digit_val c \<le> 2 ^ 53 \<Longrightarrow> push_digit (Finite (of_nat n)) c = Finite (of_nat (n * 10 + digit_val c))"
proof -
  assume n: "n * 10 + digit_val c \<le> 2 ^ 53"
  have "times_ten (Finite (of_nat n)) = Finite (of_nat (n * 10))"
    using to_double_nat [of "n * 10"] n by (simp add: times_ten_def)
  then show ?thesis using to_double_nat [of "n * 10 + digit_val c"] n by (simp add: push_digit_def)
qed

lemma ten_power_15: "k \<le> 15 \<Longrightarrow> (10 :: nat) ^ k \<le> 2 ^ 53"
proof -
  assume "k \<le> 15"
  then have "(10 :: nat) ^ k \<le> 10 ^ 15" by (rule power_increasing) simp
  then show ?thesis by simp
qed

lemma push_digits_exact:
  "list_all is_digit ds \<Longrightarrow> length ds \<le> 15 \<Longrightarrow> foldl push_digit (Finite 0) ds = Finite (of_nat (dec_value ds))"
proof (induction ds rule: rev_induct)
  case (snoc c ds)
  have "dec_value (ds @ [c]) < 10 ^ length (ds @ [c])" by (rule dec_value_less [OF snoc.prems(1)])
  also have "\<dots> \<le> 2 ^ 53" by (rule ten_power_15 [OF snoc.prems(2)])
  finally have "dec_value ds * 10 + digit_val c \<le> 2 ^ 53" by simp
  then show ?case using snoc by (simp add: push_digit_exact)
qed simp

lemma scale_exact: "k \<le> 15 \<Longrightarrow> (times_ten ^^ k) (Finite 1) = Finite (10 ^ k)"
proof (induction k)
  case (Suc k)
  then show ?case using to_double_nat [of "10 ^ Suc k"] ten_power_15 [of "Suc k"] by (simp add: times_ten_def mult.commute)
qed simp

lemma quotient_rounds: "n < 10 ^ k \<Longrightarrow> double_div (Finite (of_nat n)) (Finite (10 ^ k)) = Finite (round_nonneg (of_nat n / 10 ^ k))"
proof -
  assume "n < 10 ^ k"
  then have "(of_nat n :: rat) < of_nat (10 ^ k)" by (simp only: of_nat_less_iff)
  then have "(of_nat n :: rat) / 10 ^ k \<le> 1" by simp
  then have "round_nonneg (of_nat n / 10 ^ k) \<le> round_nonneg 1" by (intro round_nonneg_mono) simp_all
  also have "\<dots> = 1" using round_nonneg_nat [of 1] by simp
  also have "(1 :: rat) < 2 ^ 1024" by (rule one_less_power) simp_all
  finally show ?thesis by (simp add: to_double_nonneg)
qed

text \<open>Beyond: each further digit multiplies by more than eight, until the double overflows.\<close>

definition at_least :: "nat \<Rightarrow> double \<Rightarrow> bool" where
  "at_least k x \<longleftrightarrow> x = Infinite False \<or> (\<exists>q. x = Finite q \<and> 2 ^ k \<le> q)"

lemma to_double_at_least: "2 ^ k \<le> q \<Longrightarrow> at_least k (to_double q)"
proof -
  assume q: "2 ^ k \<le> q"
  have "(2 :: rat) ^ k = round_nonneg (2 ^ k)" using round_nonneg_exact [of 1 "int k"] by simp
  also have "\<dots> \<le> round_nonneg q" using q by (intro round_nonneg_mono) simp_all
  finally have "2 ^ k \<le> round_nonneg q" .
  moreover have "0 \<le> q" using q by (meson order_trans zero_le_numeral zero_le_power)
  ultimately show ?thesis by (simp add: at_least_def to_double_nonneg)
qed

lemma at_least_ten: "at_least k x \<Longrightarrow> at_least (k + 3) (times_ten x)"
proof (unfold at_least_def [of k], elim disjE exE conjE)
  fix q assume "x = Finite q" "2 ^ k \<le> q"
  moreover have "(0 :: rat) \<le> 2 ^ k" by simp
  ultimately have "2 ^ k * 8 \<le> q * 10" by linarith
  then have "2 ^ (k + 3) \<le> q * 10" by (simp add: power_add)
  then show ?thesis using \<open>x = Finite q\<close> by (simp add: to_double_at_least times_ten_def)
qed (simp add: at_least_def times_ten_def)

lemma at_least_add: "at_least k x \<Longrightarrow> 0 \<le> b \<Longrightarrow> at_least k (double_add x (Finite b))"
proof (unfold at_least_def [of k x], elim disjE exE conjE)
  fix q assume "0 \<le> b" "x = Finite q" "2 ^ k \<le> q"
  then show ?thesis by (simp add: to_double_at_least)
qed (simp add: at_least_def)

lemma push_digits_at_least:
  "at_least k x \<Longrightarrow> at_least (k + 3 * length ds) (foldl push_digit x ds)"
proof (induction ds arbitrary: k x)
  case (Cons c ds)
  have "at_least (k + 3) (push_digit x c)" unfolding push_digit_def by (intro at_least_add at_least_ten Cons.prems) simp
  then show ?case using Cons.IH by (fastforce simp: algebra_simps)
qed simp

lemma scale_at_least: "at_least (3 * k) ((times_ten ^^ k) (Finite 1))"
proof (induction k)
  case (Suc k)
  then show ?case using at_least_ten [of "3 * k"] by (simp add: add.commute)
qed (simp add: at_least_def)

text \<open>A double never reaches the overflow bound, so what is at least it is infinite.\<close>

definition double_ok :: "double \<Rightarrow> bool" where
  "double_ok x \<longleftrightarrow> (\<forall>q. x = Finite q \<longrightarrow> \<bar>q\<bar> < 2 ^ 1024)"

lemma to_double_ok [simp]: "double_ok (to_double q)"
  using round_nonneg_ge_0 [of "\<bar>q\<bar>"] by (auto simp: double_ok_def to_double_def Let_def)

lemma double_ok_ops [simp]: "double_ok (double_add x y)" "double_ok (double_mult x y)"
  by (cases "(x, y)" rule: double_add.cases; simp add: double_ok_def [of "Infinite _"] double_ok_def [of NotANumber])
    (cases "(x, y)" rule: double_mult.cases; simp add: double_ok_def [of "Infinite _"] double_ok_def [of NotANumber])

lemma infinite_at_least: "double_ok x \<Longrightarrow> at_least k x \<Longrightarrow> 1024 \<le> k \<Longrightarrow> x = Infinite False"
proof (unfold at_least_def, elim disjE exE conjE)
  fix q assume x: "double_ok x" "x = Finite q" "2 ^ k \<le> q" and k: "1024 \<le> k"
  have "(2 :: rat) ^ 1024 \<le> 2 ^ k" by (rule power_increasing [OF k]) simp
  moreover have "\<bar>q\<bar> < 2 ^ 1024" using x(1,2) unfolding double_ok_def by blast
  ultimately show ?thesis using x(3) by linarith
qed

text \<open>What the loop reads: whole digits, perhaps a separator and more digits.\<close>

lemma parse_decimal_parts:
  assumes "list_all blank ws" "list_all is_digit ds" "list_all is_digit fs" "separator sep" "rest = [] \<or> \<not> is_digit (hd rest)"
  shows "parse_decimal_prefix (ws @ ds @ sep # fs @ rest) =
    (if ds = [] \<and> fs = [] then None
     else Some (double_add (foldl push_digit (Finite 0) ds)
       (double_div (foldl push_digit (Finite 0) fs) ((times_ten ^^ length fs) (Finite 1)))))"
proof -
  have "dropWhile blank (ws @ ds @ sep # fs @ rest) = ds @ sep # fs @ rest"
    using assms(1,2,4) blank_not_digit by (cases ds) (auto simp: dropWhile_append list_all_iff dropWhile_eq_Cons_conv)
  then show ?thesis using assms
    by (auto simp: parse_decimal_prefix_def decimal_loop_whole decimal_loop_fraction decimal_loop_stop)
qed

lemma parse_decimal_whole:
  assumes "list_all blank ws" "list_all is_digit ds" "ds \<noteq> []" "rest = [] \<or> \<not> is_digit (hd rest) \<and> \<not> separator (hd rest)"
  shows "parse_decimal_prefix (ws @ ds @ rest) = Some (double_add (foldl push_digit (Finite 0) ds) (Finite 0))"
proof -
  have "dropWhile blank (ws @ ds @ rest) = ds @ rest"
    using assms(1-3) blank_not_digit by (cases ds) (auto simp: dropWhile_append list_all_iff dropWhile_eq_Cons_conv)
  moreover have "to_double 0 = Finite 0" using to_double_nat [of 0] by simp
  ultimately show ?thesis using assms(2-4)
    by (auto simp: parse_decimal_prefix_def decimal_loop_whole decimal_loop_stop)
qed

lemma push_digit_ok: "ds \<noteq> [] \<Longrightarrow> double_ok (foldl push_digit x ds)"
  by (cases ds rule: rev_cases) (simp_all add: push_digit_def)

lemma scale_ok: "double_ok ((times_ten ^^ k) (Finite 1))"
  by (cases k) (simp_all add: times_ten_def double_ok_def [of "Finite 1"])

lemma long_digits_infinite:
  assumes "list_all is_digit ds" "342 < length ds" "hd ds \<noteq> CHR ''0''"
  shows "foldl push_digit (Finite 0) ds = Infinite False"
proof (cases ds)
  case (Cons c cs)
  have "code c \<noteq> 48" using assms(3) Cons code_inj [of c "CHR ''0''"] by (auto simp: code_def)
  then have "1 \<le> digit_val c" "digit_val c \<le> 9" using assms(1) Cons by (simp_all add: digit_val_def is_digit_def, linarith+)
  then have "push_digit (Finite 0) c = Finite (of_nat (digit_val c))" "(2 :: rat) ^ 0 \<le> of_nat (digit_val c)"
    using push_digit_exact [of 0 c] by simp_all
  then have "at_least 0 (push_digit (Finite 0) c)" by (auto simp: at_least_def)
  then have "at_least (3 * length cs) (foldl push_digit (Finite 0) ds)"
    using push_digits_at_least [of 0 _ cs] Cons by fastforce
  moreover have "1024 \<le> 3 * length cs" using assms(2) Cons by simp
  ultimately show ?thesis using push_digit_ok [of ds] Cons by (blast intro: infinite_at_least)
qed (use assms(2) in simp)

lemma long_scale_infinite: "342 \<le> k \<Longrightarrow> (times_ten ^^ k) (Finite 1) = Infinite False"
  using infinite_at_least [OF scale_ok scale_at_least] by simp



section \<open>Ratings\<close>

record rating =
  rt_score :: double
  rt_max_score :: int
  rt_raters :: "int option"
  rt_distribution :: "int list option"

definition rating_from_score :: "double \<Rightarrow> int \<Rightarrow> int option \<Rightarrow> rating" where
  "rating_from_score score max_score raters =
     \<lparr>rt_score = (if max_score \<noteq> 0 then double_mult (double_div score (Finite (of_int max_score))) (Finite 10) else Finite 0),
      rt_max_score = max_score, rt_raters = raters, rt_distribution = None\<rparr>"

text \<open>The weighted sum, with the counter that the lambda carries along.\<close>

definition weighted_votes :: "int list \<Rightarrow> double" where
  "weighted_votes votes =
     fst (foldl (\<lambda>(prev, i) current. (double_add prev (double_mult (Finite (of_int current)) (Finite (of_int i))), i + 1)) (Finite 0, 1) votes)"

text \<open>\<open>None\<close> is the exception for more than ten values; the array keeps ten.\<close>

definition rating_from_distribution :: "int list \<Rightarrow> rating option" where
  "rating_from_distribution votes =
     (if 10 < length votes then None
      else
        let weighted = weighted_votes votes;
            raters = foldl (+) 0 votes;
            max_score = int (length votes)
        in Some \<lparr>rt_score =
              (if 0 < raters
               then double_mult (double_div (double_div weighted (Finite (of_int raters))) (Finite (of_int max_score))) (Finite 10)
               else Finite 0),
            rt_max_score = max_score, rt_raters = Some raters,
            rt_distribution = Some (votes @ replicate (10 - length votes) 0)\<rparr>)"

definition rating_distribution :: "rating \<Rightarrow> int list option" where
  "rating_distribution r = map_option (take (nat (rt_max_score r))) (rt_distribution r)"

definition vote_sum :: "int list \<Rightarrow> int" where
  "vote_sum votes = (\<Sum>i < length votes. votes ! i * (int i + 1))"

lemma foldl_plus: "foldl (+) (a :: int) xs = a + sum_list xs"
  by (induction xs arbitrary: a) simp_all

lemma vote_sum_snoc: "vote_sum (votes @ [c]) = vote_sum votes + c * (int (length votes) + 1)"
  by (simp add: vote_sum_def nth_append)

lemma vote_sum_bounds:
  assumes "list_all ((\<le>) 0) votes"
  shows "0 \<le> vote_sum votes" "vote_sum votes \<le> sum_list votes * int (length votes)"
proof -
  have "0 \<le> vote_sum votes \<and> vote_sum votes \<le> sum_list votes * int (length votes) \<and> 0 \<le> sum_list votes"
    using assms
  proof (induction votes rule: rev_induct)
    case (snoc c votes)
    then have c: "0 \<le> c" and ih: "0 \<le> vote_sum votes" "vote_sum votes \<le> sum_list votes * int (length votes)" "0 \<le> sum_list votes"
      by simp_all
    moreover have "0 \<le> c * (int (length votes) + 1)" using c by simp
    ultimately show ?case by (simp add: vote_sum_snoc algebra_simps)
  qed (simp add: vote_sum_def)
  then show "0 \<le> vote_sum votes" "vote_sum votes \<le> sum_list votes * int (length votes)" by simp_all
qed

lemma int_small: "0 \<le> n \<Longrightarrow> n \<le> 2 ^ 36 \<Longrightarrow> to_double (of_int n) = Finite (of_int n)"
  by (rule to_double_int) simp

text \<open>Ten values whose sum is an \<open>int\<close> weigh less than \<open>2 ^ 36\<close>, so the weighted sum is exact.\<close>

lemma vote_sum_small:
  assumes "list_all ((\<le>) 0) votes" "length votes \<le> 10" "sum_list votes < 2 ^ 31"
  shows "0 \<le> vote_sum votes" "vote_sum votes \<le> 2 ^ 36"
proof -
  have "0 \<le> sum_list votes" using assms(1) by (auto simp: list_all_iff intro: sum_list_nonneg)
  then have "sum_list votes * int (length votes) \<le> sum_list votes * 10" using assms(2) by (intro mult_left_mono) simp_all
  also have "\<dots> \<le> 2 ^ 36" using assms(3) by simp
  finally show "vote_sum votes \<le> 2 ^ 36" using vote_sum_bounds(2) [OF assms(1)] by simp
qed (rule vote_sum_bounds(1) [OF assms(1)])

lemma weighted_votes_exact:
  assumes "list_all ((\<le>) 0) votes" "length votes \<le> 10" "sum_list votes < 2 ^ 31"
  shows "weighted_votes votes = Finite (of_int (vote_sum votes))"
proof -
  let ?step = "\<lambda>(prev, i) current. (double_add prev (double_mult (Finite (of_int current)) (Finite (of_int i))), i + (1 :: int))"
  have "foldl ?step (Finite 0, 1) votes = (Finite (of_int (vote_sum votes)), int (length votes) + 1)"
    using assms
  proof (induction votes rule: rev_induct)
    case (snoc c votes)
    let ?P = "c * (int (length votes) + 1)"
    have pos: "list_all ((\<le>) 0) votes" "0 \<le> c" using snoc.prems(1) by simp_all
    then have sum: "0 \<le> sum_list votes" by (auto simp: list_all_iff intro: sum_list_nonneg)
    then have ih: "foldl ?step (Finite 0, 1) votes = (Finite (of_int (vote_sum votes)), int (length votes) + 1)"
      using snoc pos by simp
    have V: "0 \<le> vote_sum votes" using pos(1) by (rule vote_sum_bounds(1))
    have VP: "vote_sum votes + ?P \<le> 2 ^ 36" using vote_sum_small(2) [OF snoc.prems] by (simp only: vote_sum_snoc)
    have P: "0 \<le> ?P" using pos(2) by simp
    have "double_mult (Finite (of_int c)) (Finite (of_int (int (length votes) + 1))) = Finite (of_int ?P)"
      using int_small [OF P] V VP by (simp only: double_mult.simps of_int_mult)
    moreover have "double_add (Finite (of_int (vote_sum votes))) (Finite (of_int ?P)) = Finite (of_int (vote_sum votes + ?P))"
      using int_small [OF _ VP] V P by (simp only: double_add.simps of_int_add)
    ultimately show ?case
      by (simp only: foldl_append foldl.simps ih prod.case vote_sum_snoc) simp
  qed (simp add: vote_sum_def)
  then show ?thesis by (simp add: weighted_votes_def)
qed

lemma to_double_between:
  assumes "0 \<le> q" "q \<le> of_int n" "n \<le> 2 ^ 53"
  shows "\<exists>r. to_double q = Finite r \<and> 0 \<le> r \<and> r \<le> of_int n \<and> (q = of_int n \<longrightarrow> r = of_int n)"
proof -
  have n: "0 \<le> n" using assms(1,2) by (metis of_int_0_le_iff order_trans)
  have "(of_int n :: rat) \<le> 2 ^ 53" using assms(3) by (metis of_int_le_iff of_int_numeral of_int_power)
  also have "\<dots> < 2 ^ 1024" by (rule power_strict_increasing) simp_all
  finally have small: "(of_int n :: rat) < 2 ^ 1024" .
  have r: "round_nonneg q \<le> of_int n" using round_nonneg_mono [OF assms(1,2)] round_nonneg_int [OF n assms(3)] by simp
  then have "\<not> 2 ^ 1024 \<le> round_nonneg q" using small by (meson leD order_le_less_trans)
  then have "to_double q = Finite (round_nonneg q)" by (simp only: to_double_nonneg [OF assms(1)] if_False)
  then show ?thesis using r round_nonneg_ge_0 [OF assms(1)] round_nonneg_int [OF n assms(3)] by auto
qed

lemma scaled_between:
  assumes "0 \<le> x" "x \<le> of_int n" "0 < n"
  shows "\<exists>q. double_mult (double_div (Finite x) (Finite (of_int n))) (Finite 10) = Finite q \<and> 0 \<le> q \<and> q \<le> 10 \<and>
    (x = of_int n \<longrightarrow> q = 10)"
proof -
  have "x / of_int n \<le> of_int 1" "x = of_int n \<longrightarrow> x / of_int n = of_int 1" "0 \<le> x / of_int n"
    using assms by (simp_all add: divide_le_eq)
  then obtain r where r: "to_double (x / of_int n) = Finite r" "0 \<le> r" "r \<le> 1" "x = of_int n \<longrightarrow> r = 1"
    using to_double_between [of "x / of_int n" 1] by auto
  then have "0 \<le> r * 10" "r * 10 \<le> of_int 10" "x = of_int n \<longrightarrow> r * 10 = of_int 10" by simp_all
  then obtain q where "to_double (r * 10) = Finite q" "0 \<le> q" "q \<le> 10" "x = of_int n \<longrightarrow> q = 10"
    using to_double_between [of "r * 10" 10] by auto
  then show ?thesis using r(1) assms(3) by simp
qed

lemma vote_sum_top:
  "list_all ((\<le>) 0) votes \<Longrightarrow> vote_sum (votes @ [c]) = sum_list (votes @ [c]) * int (length (votes @ [c])) \<longleftrightarrow> sum_list votes = 0"
proof -
  assume pos: "list_all ((\<le>) 0) votes"
  have sum: "0 \<le> sum_list votes" using pos by (auto simp: list_all_iff intro: sum_list_nonneg)
  have "vote_sum votes \<le> sum_list votes * int (length votes)" using pos by (rule vote_sum_bounds(2))
  moreover have "vote_sum votes = 0" if "sum_list votes = 0" using vote_sum_bounds [OF pos] that by simp
  ultimately show ?thesis using sum by (auto simp: vote_sum_snoc algebra_simps)
qed

text \<open>C32: ratings. A score between 0 and its maximum, and a histogram of at most ten vote counts whose sum is
  an \<open>int\<close>, give a rating between 0 and 10 in spite of every rounding, exactly 10 where the score
  is the maximum or all votes are for the highest value; no votes give 0. The histogram, the number of
  votes and the maximum read back as they were, and a histogram of more than ten values is refused.\<close>

theorem rating_scores:
  assumes "list_all ((\<le>) 0) votes" "sum_list votes < 2 ^ 31" "0 \<le> score" "score \<le> of_int max_score" "0 < max_score"
  shows "(\<exists>q. rt_score (rating_from_score (Finite score) max_score raters) = Finite q \<and> 0 \<le> q \<and> q \<le> 10 \<and>
      (score = of_int max_score \<longrightarrow> q = 10)) \<and>
    (case rating_from_distribution votes of
       None \<Rightarrow> 10 < length votes
     | Some r \<Rightarrow> length votes \<le> 10 \<and> rating_distribution r = Some votes \<and> rt_raters r = Some (sum_list votes) \<and>
         rt_max_score r = int (length votes) \<and>
         (\<exists>q. rt_score r = Finite q \<and> 0 \<le> q \<and> q \<le> 10 \<and> (sum_list votes = 0 \<longrightarrow> q = 0) \<and>
           (0 < sum_list votes \<longrightarrow> sum_list (butlast votes) = 0 \<longrightarrow> q = 10)))"
proof (intro conjI)
  show "\<exists>q. rt_score (rating_from_score (Finite score) max_score raters) = Finite q \<and> 0 \<le> q \<and> q \<le> 10 \<and>
      (score = of_int max_score \<longrightarrow> q = 10)"
    using scaled_between [OF assms(3-5)] assms(5) by (simp add: rating_from_score_def)
  have sum: "0 \<le> sum_list votes" using assms(1) by (auto simp: list_all_iff intro: sum_list_nonneg)
  have score: "\<exists>q. double_mult (double_div (double_div (weighted_votes votes) (Finite (of_int (sum_list votes))))
        (Finite (of_int (int (length votes))))) (Finite 10) = Finite q \<and> 0 \<le> q \<and> q \<le> 10 \<and> (sum_list (butlast votes) = 0 \<longrightarrow> q = 10)"
    if len: "length votes \<le> 10" and some: "0 < sum_list votes"
  proof -
    let ?R = "sum_list votes" and ?m = "int (length votes)" and ?x = "of_int (vote_sum votes) / of_int (sum_list votes) :: rat"
    obtain vs c where vs: "votes = vs @ [c]" using some by (cases votes rule: rev_cases) auto
    have "vote_sum votes \<le> ?R * ?m" "0 \<le> vote_sum votes" using vote_sum_bounds [OF assms(1)] by simp_all
    then have "(of_int (vote_sum votes) :: rat) \<le> of_int ?R * of_int ?m" by (metis of_int_le_iff of_int_mult)
    then have x: "0 \<le> ?x" "?x \<le> of_int ?m"
      using some \<open>0 \<le> vote_sum votes\<close> by (simp_all add: divide_le_eq mult.commute)
    have top: "sum_list (butlast votes) = 0 \<longrightarrow> ?x = of_int ?m"
    proof
      assume "sum_list (butlast votes) = 0"
      then have "vote_sum votes = ?R * ?m" using vote_sum_top [of vs c] assms(1) vs by simp
      then have "(of_int (vote_sum votes) :: rat) = of_int ?R * of_int ?m" by (simp only: of_int_mult)
      then show "?x = of_int ?m" using some by simp
    qed
    have m: "?m \<le> 2 ^ 53" using len by simp
    obtain y where y: "to_double ?x = Finite y" "0 \<le> y" "y \<le> of_int ?m" "?x = of_int ?m \<longrightarrow> y = of_int ?m"
      using to_double_between [OF x m] by blast
    have pos: "0 < ?m" using vs by simp
    have "double_div (weighted_votes votes) (Finite (of_int ?R)) = Finite y"
      using y(1) some by (simp add: weighted_votes_exact [OF assms(1) len assms(2)])
    then show ?thesis using scaled_between [OF y(2,3) pos] y(4) top by auto
  qed
  show "case rating_from_distribution votes of
       None \<Rightarrow> 10 < length votes
     | Some r \<Rightarrow> length votes \<le> 10 \<and> rating_distribution r = Some votes \<and> rt_raters r = Some (sum_list votes) \<and>
         rt_max_score r = int (length votes) \<and>
         (\<exists>q. rt_score r = Finite q \<and> 0 \<le> q \<and> q \<le> 10 \<and> (sum_list votes = 0 \<longrightarrow> q = 0) \<and>
           (0 < sum_list votes \<longrightarrow> sum_list (butlast votes) = 0 \<longrightarrow> q = 10))"
    using score sum
    by (auto simp: rating_from_distribution_def rating_distribution_def Let_def foldl_plus simp del: double_mult.simps double_div.simps)
qed

theorem rating_scores_witness:
  "(\<exists>r. rating_from_distribution [0, 0, 5] = Some r \<and> rt_score r = Finite 10 \<and> rating_distribution r = Some [0, 0, 5])"
  using rating_scores [of "[0, 0, 5]" 4 5 None]
  by (auto simp: rating_from_distribution_def Let_def)

section \<open>Well known names\<close>

datatype aired_status_enum = Released | Ongoing | Announced | OtherStatus

definition aired_status_to_enum :: "bytes \<Rightarrow> aired_status_enum" where
  "aired_status_to_enum name =
     (if name = ''released'' then Released else if name = ''ongoing'' then Ongoing
      else if name = ''announced'' then Announced else OtherStatus)"

datatype user_list_enum = Planning | Dropped | Favorite | OtherList | Watched | Watching | ReadingList | ReadList | OnHold

definition user_list_to_enum :: "bytes \<Rightarrow> user_list_enum" where
  "user_list_to_enum name =
     (if name = ''planning'' then Planning else if name = ''dropped'' then Dropped
      else if name = ''favorite'' then Favorite else if name = ''watched'' then Watched
      else if name = ''watching'' then Watching else if name = ''reading'' then ReadingList
      else if name = ''read'' then ReadList else if name = ''on_hold'' then OnHold else OtherList)"

text \<open>Different well known names are different values, so a name is recovered from its value.\<close>

lemma aired_status_injective:
  "aired_status_to_enum a = aired_status_to_enum b \<Longrightarrow> aired_status_to_enum a \<noteq> OtherStatus \<Longrightarrow> a = b"
  by (auto simp: aired_status_to_enum_def split: if_splits)

lemma user_list_injective:
  "user_list_to_enum a = user_list_to_enum b \<Longrightarrow> user_list_to_enum a \<noteq> OtherList \<Longrightarrow> a = b"
  by (auto simp: user_list_to_enum_def split: if_splits)

end
