(* ===== verification/Getter_Defaults.thy ===== *)
theory Getter_Defaults
  imports Mirrors Search_Query
begin

text \<open>
  \<open>src/manga/Manga.cpp\<close>, \<open>src/anime/Anime.cpp\<close>, \<open>src/images/Image.cpp\<close> and the defaults of \<open>src/Parser.cpp\<close>: what a
  parser and its getters answer where a source overrides nothing, and the mirrors they offer to
  choose from. An operation that a class leaves to its base is a constructor of its family.
\<close>

section \<open>Operations that are not implemented\<close>

datatype manga_operation = MangaTranslationInfo | MangaCommentList | MangaChaptersInfo | MangaRelated | MangaSimilar

datatype anime_operation = AnimeTracks | AnimeEpisodesInfo | AnimeCommentList | AnimeRelated | AnimeSimilar

text \<open>Those of the root getters, of mangas and animes alike, and of images.\<close>

datatype root_operation = RootSearch | RootLatest | RootSuggest | RootParseUrl | RootFromSerialized

datatype image_operation = ImageComments | ImagesSearch | ImagesLatest | ImagesParseUrl | ImagesSuggest

definition not_implemented :: "bytes \<Rightarrow> request_error" where
  "not_implemented message = make_response_error NotImplemented message None []"

fun manga_default :: "manga_operation \<Rightarrow> request_error" where
  "manga_default MangaTranslationInfo = not_implemented (''The parser'' @ [chr_quote] @ ''s MangaGetter cannot get translation info'')"
| "manga_default MangaCommentList = not_implemented (''The parser'' @ [chr_quote] @ ''s MangaGetter cannot get comments'')"
| "manga_default MangaChaptersInfo = not_implemented (''The parser'' @ [chr_quote] @ ''s MangaGetter cannot get chapters info'')"
| "manga_default MangaRelated = not_implemented (''The parser'' @ [chr_quote] @ ''s MangaGetter cannot get related info'')"
| "manga_default MangaSimilar = not_implemented (''The parser'' @ [chr_quote] @ ''s MangaGetter cannot get similar info'')"

fun anime_default :: "anime_operation \<Rightarrow> request_error" where
  "anime_default AnimeTracks = not_implemented (''The parser'' @ [chr_quote] @ ''s AnimeGetter cannot list tracks'')"
| "anime_default AnimeEpisodesInfo = not_implemented (''The parser'' @ [chr_quote] @ ''s AnimeGetter cannot get episodes info'')"
| "anime_default AnimeCommentList = not_implemented (''The parser'' @ [chr_quote] @ ''s AnimeGetter cannot get comments'')"
| "anime_default AnimeRelated = not_implemented (''The parser'' @ [chr_quote] @ ''s AnimeGetter cannot get related info'')"
| "anime_default AnimeSimilar = not_implemented (''The parser'' @ [chr_quote] @ ''s AnimeGetter cannot get similar info'')"

fun root_default :: "root_operation \<Rightarrow> request_error" where
  "root_default RootSearch = not_implemented ''The parser cannot search''"
| "root_default RootLatest = not_implemented ''The parser cannot get latest''"
| "root_default RootSuggest = not_implemented ''The parser cannot suggest search tokens''"
| "root_default RootParseUrl = not_implemented ''The parser cannot parse url''"
| "root_default RootFromSerialized = not_implemented ''The parser cannot deserialize data''"

fun image_default :: "image_operation \<Rightarrow> request_error" where
  "image_default ImageComments = not_implemented (''The parser'' @ [chr_quote] @ ''s ImageContainerGetter cannot get comments'')"
| "image_default ImagesSearch = not_implemented ''The parser cannot search images''"
| "image_default ImagesLatest = not_implemented ''The parser cannot get latest images''"
| "image_default ImagesParseUrl = not_implemented ''The parser cannot parse image urls''"
| "image_default ImagesSuggest = not_implemented ''The parser cannot suggest search tokens''"

text \<open>A video source that a native player gave is resolved already.\<close>

definition resolve_video_default :: "'v \<Rightarrow> request_error + 'v" where
  "resolve_video_default source = Inr source"

section \<open>Capabilities\<close>

definition default_search_support :: search_compatibilities where
  "default_search_support = \<lparr>supported_filters = [], supported_sort_keys = [], search_flags = default_flags, suggestion_kinds = []\<rparr>"

definition default_latest_sorts :: supported_sorts where
  "default_latest_sorts = []"

text \<open>\<open>validate_latest_filters\<close>, with the orders that the getter's \<open>latest_support\<close> declares.\<close>

definition root_validate_latest_filters :: "supported_sorts \<Rightarrow> get_filters \<Rightarrow> query_error list" where
  "root_validate_latest_filters latest_sorts filters = validate_sort latest_sorts (gf_sort filters)"

section \<open>Mirrors to choose from\<close>

text \<open>\<open>AltLink\<close> is its URL; \<open>mirrors ()\<close> of a parser is empty by default.\<close>

definition resolve_alt_links :: "bytes list \<Rightarrow> mirror_source option \<Rightarrow> 'j parser_config \<Rightarrow> bytes list" where
  "resolve_alt_links builtin snapshot config =
     (let m = context_mirrors snapshot config builtin in map (mirror_url m) [0..<mirror_count m])"

definition default_mirrors :: "bytes list" where
  "default_mirrors = []"

definition mirror_choices :: "bytes list \<Rightarrow> mirror_source option \<Rightarrow> 'j parser_config \<Rightarrow> bytes list" where
  "mirror_choices parser_mirrors snapshot config = resolve_alt_links parser_mirrors snapshot config"

lemma mirror_choices_effective:
  "mirror_choices builtin snapshot config = effective_mirrors (context_mirrors snapshot config builtin)"
  by (rule nth_equalityI)
    (auto simp: mirror_choices_def resolve_alt_links_def Let_def mirror_count_effective mirror_url_effective)

section \<open>Properties\<close>

text \<open>The mirrors a parser offers are the ones its requests go to. Selecting the i-th one sends requests to
  exactly that one, whatever the catalog overrides; a selection that is out of range, as one made
  under a longer list, goes to the first. Where a parser declares no mirror and the catalog
  overrides none nothing is offered and the base URL is empty. The choices do not depend on the selection.\<close>

theorem choices_are_base_urls:
  "(\<forall>i < length (mirror_choices builtin snapshot config).
      context_base_url snapshot (set_alt_link config i) builtin = mirror_choices builtin snapshot config ! i) \<and>
   (\<forall>i \<ge> length (mirror_choices builtin snapshot config).
      context_base_url snapshot (set_alt_link config i) builtin =
        (case mirror_choices builtin snapshot config of [] \<Rightarrow> [] | url # _ \<Rightarrow> url)) \<and>
   mirror_choices builtin snapshot (set_alt_link config i) = mirror_choices builtin snapshot config \<and>
   (mirror_choices default_mirrors snapshot config \<noteq> [] \<longrightarrow>
      (\<exists>src urls. snapshot = Some src \<and> list_for src (pc_parser_id config) = Some urls \<and> mirror_choices default_mirrors snapshot config = urls))"
proof -
  have same: "context_mirrors snapshot (set_alt_link config k) builtin = context_mirrors snapshot config builtin" for k
    by (simp add: context_mirrors_def set_alt_link_def)
  have base: "context_base_url snapshot (set_alt_link config k) builtin =
      (let urls = mirror_choices builtin snapshot config in if urls = [] then [] else if k < length urls then urls ! k else hd urls)" for k
    unfolding context_base_url_def same mirror_url_effective mirror_choices_effective
    by (simp add: set_alt_link_def hd_conv_nth Let_def)
  have "mirror_choices default_mirrors snapshot config \<noteq> [] \<longrightarrow>
      (\<exists>src urls. snapshot = Some src \<and> list_for src (pc_parser_id config) = Some urls \<and> mirror_choices default_mirrors snapshot config = urls)"
    by (auto simp: mirror_choices_effective effective_mirrors_def context_mirrors_def context_mirrors_for_def default_mirrors_def
        split: option.splits list.splits)
  moreover have "mirror_choices builtin snapshot (set_alt_link config i) = mirror_choices builtin snapshot config"
    by (simp add: mirror_choices_effective same)
  ultimately show ?thesis by (auto simp: base Let_def split: list.splits)
qed

text \<open>Two mirrors, the second selected.\<close>

definition plain_config :: "unit parser_config" where
  "plain_config = \<lparr>pc_headers = [], pc_url_params = [], pc_cookie_jar = None, pc_flags = 0, pc_parser_id = ''p'', pc_alt_link = 0,
     pc_modifiers = []\<rparr>"

theorem choices_are_base_urls_witness:
  "context_base_url None (set_alt_link plain_config 1) [''https://a'', ''https://b''] = ''https://b''"
  using choices_are_base_urls [of "[''https://a'', ''https://b'']" None plain_config]
  by (simp add: mirror_choices_effective effective_mirrors_def context_mirrors_def context_mirrors_for_def)

text \<open>Without declared orders the only latest request that passes is one in the default order.\<close>

lemma default_latest_order:
  "root_validate_latest_filters default_latest_sorts filters = [] \<longleftrightarrow> gf_sort filters = None"
  by (simp add: root_validate_latest_filters_def default_latest_sorts_def validate_sort_def lookup_def error_of_def split: option.splits)

end
