(* ===== verification/Catalog_Sink.thy ===== *)
theory Catalog_Sink
  imports Regex_Source
begin

text \<open>
  \<open>src/utility/CatalogSink.cpp\<close> and \<open>include/aniparse/utility/CatalogSink.hpp\<close>: what a parser declares for the
  catalog tooling. A set of selectors or patterns is built through a recording source, which compiles
  every built-in literal and keeps it, and its table is merged into the one of its owner. A set is
  the list of the pairs its \<open>create\<close> compiles, in order; the engine gives the compiled literal or fails,
  \<open>why\<close> being the text of its exception. The result of an operation is its exception, if any, and the state.
\<close>

section \<open>Recording sources\<close>

datatype channel = Selectors | Patterns

fun channel_name :: "channel \<Rightarrow> bytes" where
  "channel_name Selectors = ''selectors''"
| "channel_name Patterns = ''patterns''"

text \<open>The sources of the base classes, without overrides.\<close>

fun base_compile :: "channel \<Rightarrow> (bytes \<Rightarrow> 'c option) \<Rightarrow> bytes \<Rightarrow> bytes \<Rightarrow> 'c option" where
  "base_compile Selectors engine key fallback = selector_compile engine empty_selector_source key fallback"
| "base_compile Patterns engine key fallback = regex_compile engine empty_regex_source key fallback"

definition broken_literal :: "channel \<Rightarrow> bytes \<Rightarrow> bytes \<Rightarrow> bytes \<Rightarrow> bytes" where
  "broken_literal ch key fallback reason =
     (case ch of Selectors \<Rightarrow> ''broken built-in selector '' | Patterns \<Rightarrow> ''broken built-in pattern '')
     @ [chr_quote] @ key @ [chr_quote] @ '': '' @ [chr_dquote] @ fallback @ [chr_dquote] @ '' ('' @ reason @ '')''"

definition recording_compile ::
  "(bytes \<Rightarrow> 'c option) \<Rightarrow> (bytes \<Rightarrow> bytes) \<Rightarrow> channel \<Rightarrow> bytes \<Rightarrow> bytes \<Rightarrow> overrides \<Rightarrow> (bytes + 'c) \<times> overrides" where
  "recording_compile engine why ch key fallback recorded =
     (let recorded' = om_emplace key fallback recorded
      in case base_compile ch engine key fallback of
           Some c \<Rightarrow> (Inr c, recorded')
         | None \<Rightarrow> (Inl (broken_literal ch key fallback (why fallback)), recorded'))"

text \<open>\<open>T::create\<close> of a set, up to the first exception.\<close>

fun create_set ::
  "(bytes \<Rightarrow> 'c option) \<Rightarrow> (bytes \<Rightarrow> bytes) \<Rightarrow> channel \<Rightarrow> (bytes \<times> bytes) list \<Rightarrow> overrides \<Rightarrow> (bytes + 'c list) \<times> overrides" where
  "create_set engine why ch [] recorded = (Inr [], recorded)"
| "create_set engine why ch ((key, fallback) # ds) recorded =
     (case recording_compile engine why ch key fallback recorded of
        (Inl e, recorded') \<Rightarrow> (Inl e, recorded')
      | (Inr c, recorded') \<Rightarrow>
          (case create_set engine why ch ds recorded' of
             (Inl e, r) \<Rightarrow> (Inl e, r)
           | (Inr cs, r) \<Rightarrow> (Inr (c # cs), r)))"

section \<open>The sink\<close>

record catalog_sink =
  cs_owner :: bytes
  cs_selectors :: overrides
  cs_patterns :: overrides
  cs_canonical :: "bytes option"

definition new_sink :: "bytes \<Rightarrow> catalog_sink" where
  "new_sink owner = \<lparr>cs_owner = owner, cs_selectors = [], cs_patterns = [], cs_canonical = None\<rparr>"

fun channel_of :: "channel \<Rightarrow> catalog_sink \<Rightarrow> overrides" where
  "channel_of Selectors s = cs_selectors s"
| "channel_of Patterns s = cs_patterns s"

fun set_channel :: "channel \<Rightarrow> overrides \<Rightarrow> catalog_sink \<Rightarrow> catalog_sink" where
  "set_channel Selectors m s = s\<lparr>cs_selectors := m\<rparr>"
| "set_channel Patterns m s = s\<lparr>cs_patterns := m\<rparr>"

text \<open>What was merged before the collision stays.\<close>

fun record_all :: "overrides \<Rightarrow> overrides \<Rightarrow> bytes \<Rightarrow> bytes option \<times> overrides" where
  "record_all into [] ch = (None, into)"
| "record_all into ((key, literal) # recorded) ch =
     (if om_contains into key
      then (Some (''key '' @ [chr_quote] @ key @ [chr_quote] @ '' collides across the owner'' @ [chr_quote] @ ''s '' @ ch @ '' sets''), into)
      else record_all (om_emplace key literal into) recorded ch)"

definition defaults_error :: "bytes \<Rightarrow> bytes \<Rightarrow> bytes" where
  "defaults_error owner reason = ''catalog defaults of '' @ [chr_quote] @ owner @ [chr_quote] @ '': '' @ reason"

definition emplace_set ::
  "(bytes \<Rightarrow> 'c option) \<Rightarrow> (bytes \<Rightarrow> bytes) \<Rightarrow> channel \<Rightarrow> (bytes \<times> bytes) list \<Rightarrow> catalog_sink \<Rightarrow> bytes option \<times> catalog_sink" where
  "emplace_set engine why ch ds s =
     (case create_set engine why ch ds [] of
        (Inl e, _) \<Rightarrow> (Some (defaults_error (cs_owner s) e), s)
      | (Inr _, recorded) \<Rightarrow>
          (case record_all (channel_of ch s) recorded (channel_name ch) of
             (e, into) \<Rightarrow> (map_option (defaults_error (cs_owner s)) e, set_channel ch into s)))"

definition set_canonical_base_url :: "bytes \<Rightarrow> catalog_sink \<Rightarrow> bytes option \<times> catalog_sink" where
  "set_canonical_base_url url s =
     (if cs_canonical s \<noteq> None then (Some (defaults_error (cs_owner s) ''canonical_base_url set twice''), s)
      else (None, s\<lparr>cs_canonical := Some url\<rparr>))"

text \<open>The body of an \<open>emplace_catalog\<close>.\<close>

datatype catalog_default = DeclareSet channel "(bytes \<times> bytes) list" | DeclareCanonical bytes

fun declare_default ::
  "(bytes \<Rightarrow> 'c option) \<Rightarrow> (bytes \<Rightarrow> bytes) \<Rightarrow> catalog_default \<Rightarrow> catalog_sink \<Rightarrow> bytes option \<times> catalog_sink" where
  "declare_default engine why (DeclareSet ch ds) s = emplace_set engine why ch ds s"
| "declare_default engine why (DeclareCanonical url) s = set_canonical_base_url url s"

fun emplace_catalog ::
  "(bytes \<Rightarrow> 'c option) \<Rightarrow> (bytes \<Rightarrow> bytes) \<Rightarrow> catalog_default list \<Rightarrow> catalog_sink \<Rightarrow> bytes option \<times> catalog_sink" where
  "emplace_catalog engine why [] s = (None, s)"
| "emplace_catalog engine why (d # ds) s =
     (case declare_default engine why d s of
        (Some e, s') \<Rightarrow> (Some e, s')
      | (None, s') \<Rightarrow> emplace_catalog engine why ds s')"

section \<open>What is recorded\<close>

lemma base_compile_fallback [simp]: "base_compile ch engine key fallback = engine fallback"
  by (cases ch) (simp_all add: selector_compile_def regex_compile_def empty_selector_source_def empty_regex_source_def Let_def)

definition literals_compile :: "(bytes \<Rightarrow> 'c option) \<Rightarrow> (bytes \<times> bytes) list \<Rightarrow> bool" where
  "literals_compile engine ds \<longleftrightarrow> list_all (\<lambda>(k, l). engine l \<noteq> None) ds"

lemma create_set_result:
  "(\<exists>cs. fst (create_set engine why ch ds recorded) = Inr cs) \<longleftrightarrow> literals_compile engine ds"
  by (induction engine why ch ds recorded rule: create_set.induct)
    (auto simp: recording_compile_def literals_compile_def Let_def split: option.splits prod.splits sum.splits)

lemma create_set_recorded:
  "literals_compile engine ds \<Longrightarrow> om_wf recorded \<Longrightarrow>
   om_wf (snd (create_set engine why ch ds recorded)) \<and>
   (\<forall>k. lookup (snd (create_set engine why ch ds recorded)) k =
      (case lookup recorded k of Some l \<Rightarrow> Some l | None \<Rightarrow> map_of ds k))"
proof (induction engine why ch ds recorded rule: create_set.induct)
  case (2 engine why ch key fallback ds recorded)
  then obtain c where c: "engine fallback = Some c" and rest: "literals_compile engine ds"
    by (auto simp: literals_compile_def)
  let ?r = "om_emplace key fallback recorded"
  have compile: "recording_compile engine why ch key fallback recorded = (Inr c, ?r)"
    using c by (simp add: recording_compile_def)
  have "snd (create_set engine why ch ((key, fallback) # ds) recorded) = snd (create_set engine why ch ds ?r)"
    by (simp add: compile split: prod.splits sum.splits)
  moreover have "om_wf (snd (create_set engine why ch ds ?r)) \<and>
      (\<forall>k. lookup (snd (create_set engine why ch ds ?r)) k = (case lookup ?r k of Some l \<Rightarrow> Some l | None \<Rightarrow> map_of ds k))"
    using 2(1) [OF compile [symmetric] refl rest] 2(3) by blast
  ultimately show ?case using 2(3) by (simp add: lookup_om_emplace split: option.splits)
qed (simp split: option.splits)

lemma record_all_merges:
  "om_wf into \<Longrightarrow> om_wf recorded \<Longrightarrow>
   (fst (record_all into recorded ch) = None \<longleftrightarrow> (\<forall>k. lookup into k = None \<or> lookup recorded k = None)) \<and>
   om_wf (snd (record_all into recorded ch)) \<and>
   (fst (record_all into recorded ch) = None \<longrightarrow>
     (\<forall>k. lookup (snd (record_all into recorded ch)) k = (case lookup into k of Some l \<Rightarrow> Some l | None \<Rightarrow> lookup recorded k)))"
proof (induction recorded arbitrary: into)
  case (Cons entry recorded)
  obtain key literal where entry: "entry = (key, literal)" by (cases entry)
  have rest: "om_wf recorded" "lookup recorded key = None"
    using Cons.prems(2) unfolding entry by (auto simp: om_wf_Cons lookup_None)
  have split: "lookup (entry # recorded) j = (if j = key then Some literal else lookup recorded j)" for j
    by (simp add: entry lookup_def)
  show ?case
  proof (cases "lookup into key")
    case (Some l)
    have "record_all into (entry # recorded) ch = (fst (record_all into (entry # recorded) ch), into) \<and>
        fst (record_all into (entry # recorded) ch) \<noteq> None"
      using Some by (simp add: entry om_contains_def)
    moreover have "\<not> (\<forall>k. lookup into k = None \<or> lookup (entry # recorded) k = None)"
      using Some split by (intro notI) (drule spec [of _ key], simp)
    ultimately show ?thesis using Cons.prems(1) by (metis snd_conv)
  next
    case None
    let ?into = "om_emplace key literal into"
    have step: "record_all into (entry # recorded) ch = record_all ?into recorded ch"
      using None by (simp add: entry om_contains_def)
    have look: "lookup ?into j = (if j = key then Some literal else lookup into j)" for j
      using None Cons.prems(1) by (simp add: lookup_om_emplace)
    have ih: "(fst (record_all ?into recorded ch) = None \<longleftrightarrow> (\<forall>k. lookup ?into k = None \<or> lookup recorded k = None)) \<and>
        om_wf (snd (record_all ?into recorded ch)) \<and>
        (fst (record_all ?into recorded ch) = None \<longrightarrow>
          (\<forall>k. lookup (snd (record_all ?into recorded ch)) k = (case lookup ?into k of Some l \<Rightarrow> Some l | None \<Rightarrow> lookup recorded k)))"
      by (rule Cons.IH) (simp_all add: Cons.prems(1) rest(1))
    have "(\<forall>k. lookup ?into k = None \<or> lookup recorded k = None) \<longleftrightarrow> (\<forall>k. lookup into k = None \<or> lookup (entry # recorded) k = None)"
      unfolding look split using None rest(2) by auto
    moreover have "(case lookup ?into k of Some l \<Rightarrow> Some l | None \<Rightarrow> lookup recorded k) =
        (case lookup into k of Some l \<Rightarrow> Some l | None \<Rightarrow> lookup (entry # recorded) k)" for k
      unfolding look split using None by simp
    ultimately show ?thesis unfolding step using ih by simp
  qed
qed (simp split: option.splits)

section \<open>A whole declaration\<close>

definition sets_of :: "channel \<Rightarrow> catalog_default list \<Rightarrow> (bytes \<times> bytes) list list" where
  "sets_of ch ds = concat (map (\<lambda>d. case d of DeclareSet c decls \<Rightarrow> if c = ch then [decls] else [] | DeclareCanonical _ \<Rightarrow> []) ds)"

definition canonicals :: "catalog_default list \<Rightarrow> bytes list" where
  "canonicals ds = concat (map (\<lambda>d. case d of DeclareSet _ _ \<Rightarrow> [] | DeclareCanonical url \<Rightarrow> [url]) ds)"

definition keys_of :: "(bytes \<times> bytes) list list \<Rightarrow> bytes list" where
  "keys_of sets = concat (map (\<lambda>decls. remdups (map fst decls)) sets)"

lemma sets_of_simps [simp]:
  "sets_of ch [] = []" "sets_of ch (DeclareCanonical url # ds) = sets_of ch ds"
  "sets_of ch (DeclareSet c decls # ds) = (if c = ch then decls # sets_of ch ds else sets_of ch ds)"
  by (simp_all add: sets_of_def)

lemma canonicals_simps [simp]:
  "canonicals [] = []" "canonicals (DeclareCanonical url # ds) = url # canonicals ds" "canonicals (DeclareSet c decls # ds) = canonicals ds"
  by (simp_all add: canonicals_def)

lemma keys_of_simps [simp]: "keys_of [] = []" "keys_of (decls # sets) = remdups (map fst decls) @ keys_of sets"
  by (simp_all add: keys_of_def)

definition sink_ok :: "catalog_sink \<Rightarrow> bool" where
  "sink_ok s \<longleftrightarrow> om_wf (cs_selectors s) \<and> om_wf (cs_patterns s)"

lemma sink_ok_channel: "sink_ok s \<Longrightarrow> om_wf (channel_of ch s)"
  by (cases ch) (simp_all add: sink_ok_def)

lemma sink_ok_set: "sink_ok s \<Longrightarrow> om_wf m \<Longrightarrow> sink_ok (set_channel ch m s)"
  by (cases ch) (simp_all add: sink_ok_def)

lemma channel_of_set: "channel_of c (set_channel ch m s) = (if c = ch then m else channel_of c s)"
  by (cases c; cases ch) simp_all

lemma canonical_set [simp]: "cs_canonical (set_channel ch m s) = cs_canonical s"
  by (cases ch) simp_all

lemma channel_of_canonical: "channel_of ch (s\<lparr>cs_canonical := u\<rparr>) = channel_of ch s"
  by (cases ch) simp_all

lemma emplace_set_records:
  assumes "sink_ok s"
  shows "(fst (emplace_set engine why ch decls s) = None \<longleftrightarrow>
      literals_compile engine decls \<and> (\<forall>k. lookup (channel_of ch s) k = None \<or> map_of decls k = None)) \<and>
    sink_ok (snd (emplace_set engine why ch decls s)) \<and> cs_canonical (snd (emplace_set engine why ch decls s)) = cs_canonical s \<and>
    (fst (emplace_set engine why ch decls s) = None \<longrightarrow>
      (\<forall>c k. lookup (channel_of c (snd (emplace_set engine why ch decls s))) k =
        (if c = ch then (case lookup (channel_of ch s) k of Some l \<Rightarrow> Some l | None \<Rightarrow> map_of decls k) else lookup (channel_of c s) k)))"
proof (cases "literals_compile engine decls")
  case False
  then obtain e r where "create_set engine why ch decls [] = (Inl e, r)"
    using create_set_result [of engine why ch decls "[]"] by (cases "create_set engine why ch decls []"; cases "fst (create_set engine why ch decls [])") auto
  then show ?thesis using False assms by (simp add: emplace_set_def)
next
  case True
  then obtain cs r where r: "create_set engine why ch decls [] = (Inr cs, r)"
    using create_set_result [of engine why ch decls "[]"] by (metis prod.collapse)
  have rec: "om_wf r" "\<And>k. lookup r k = map_of decls k"
    using create_set_recorded [OF True, of "[]" why ch] r by simp_all
  obtain e into where into: "record_all (channel_of ch s) r (channel_name ch) = (e, into)" by (metis prod.exhaust)
  have merged: "e = None \<longleftrightarrow> (\<forall>k. lookup (channel_of ch s) k = None \<or> map_of decls k = None)" "om_wf into"
      "e = None \<Longrightarrow> lookup into k = (case lookup (channel_of ch s) k of Some l \<Rightarrow> Some l | None \<Rightarrow> map_of decls k)" for k
    using record_all_merges [OF sink_ok_channel [OF assms] rec(1), of ch "channel_name ch", unfolded rec(2)] into by simp_all
  have "emplace_set engine why ch decls s = (map_option (defaults_error (cs_owner s)) e, set_channel ch into s)"
    by (simp add: emplace_set_def r into)
  then show ?thesis using True merged(1,2,3) assms by (auto simp: sink_ok_set channel_of_set)
qed

lemma emplace_catalog_records:
  assumes "sink_ok s"
  shows "(fst (emplace_catalog engine why ds s) = None \<longleftrightarrow>
      (\<forall>ch. distinct (keys_of (sets_of ch ds)) \<and> list_all (literals_compile engine) (sets_of ch ds) \<and>
        (\<forall>k \<in> set (keys_of (sets_of ch ds)). lookup (channel_of ch s) k = None)) \<and>
      (canonicals ds = [] \<or> cs_canonical s = None \<and> length (canonicals ds) = 1)) \<and>
    (fst (emplace_catalog engine why ds s) = None \<longrightarrow>
      (\<forall>ch k. lookup (channel_of ch (snd (emplace_catalog engine why ds s))) k =
        (case lookup (channel_of ch s) k of Some l \<Rightarrow> Some l | None \<Rightarrow> map_of (concat (sets_of ch ds)) k)) \<and>
      cs_canonical (snd (emplace_catalog engine why ds s)) = (case canonicals ds of [] \<Rightarrow> cs_canonical s | url # _ \<Rightarrow> Some url))"
  using assms
proof (induction ds arbitrary: s)
  case (Cons d ds)
  show ?case
  proof (cases d)
    case (DeclareCanonical url)
    let ?s = "s\<lparr>cs_canonical := Some url\<rparr>"
    have ok: "sink_ok ?s" "\<And>ch. channel_of ch ?s = channel_of ch s"
      using Cons.prems channel_of_canonical by (simp_all add: sink_ok_def)
    show ?thesis
      using Cons.IH [OF ok(1)] DeclareCanonical by (auto simp: set_canonical_base_url_def ok(2) split: list.splits cong: option.case_cong)
  next
    case (DeclareSet c decls)
    obtain e s' where s': "emplace_set engine why c decls s = (e, s')" by (metis prod.exhaust)
    have records: "(e = None \<longleftrightarrow> literals_compile engine decls \<and> (\<forall>k. lookup (channel_of c s) k = None \<or> map_of decls k = None))"
        "sink_ok s'" "cs_canonical s' = cs_canonical s"
        "e = None \<Longrightarrow> lookup (channel_of ch s') k =
          (if ch = c then (case lookup (channel_of c s) k of Some l \<Rightarrow> Some l | None \<Rightarrow> map_of decls k) else lookup (channel_of ch s) k)" for ch k
      using emplace_set_records [OF Cons.prems, of engine why c decls] s' by simp_all
    have keys: "(\<forall>k. lookup (channel_of c s) k = None \<or> map_of decls k = None) \<longleftrightarrow>
        (\<forall>k \<in> fst ` set decls. lookup (channel_of c s) k = None)"
      by (metis domIff dom_map_of_conv_image_fst)
    show ?thesis
    proof (cases e)
      case (Some x)
      then show ?thesis using records(1) DeclareSet s' unfolding keys by (auto split: if_splits)
    next
      case None
      have new: "(\<forall>k \<in> set ks. lookup (channel_of c s') k = None) \<longleftrightarrow>
          (\<forall>k \<in> set ks. lookup (channel_of c s) k = None) \<and> fst ` set decls \<inter> set ks = {}" for ks
        unfolding records(4) [OF None] by (auto simp: map_of_eq_None_iff split: option.splits)
      have step: "emplace_catalog engine why (d # ds) s = emplace_catalog engine why ds s'"
        using DeclareSet s' None by simp
      have old: "ch \<noteq> c \<Longrightarrow> lookup (channel_of ch s') k = lookup (channel_of ch s) k" for ch k
        using records(4) [OF None] by simp
      have fresh: "literals_compile engine decls" "\<forall>k \<in> fst ` set decls. lookup (channel_of c s) k = None"
        using records(1) None keys by simp_all
      note ih = Cons.IH [OF records(2), unfolded records(3)]
      let ?keys = "\<lambda>ch ds s. distinct (keys_of (sets_of ch ds)) \<and> list_all (literals_compile engine) (sets_of ch ds) \<and>
        (\<forall>k \<in> set (keys_of (sets_of ch ds)). lookup (channel_of ch s) k = None)"
      have "?keys ch ds s' = ?keys ch (d # ds) s" for ch
        using fresh by (cases "ch = c") (auto simp: DeclareSet new old)
      moreover have "(case lookup (channel_of ch s') k of Some l \<Rightarrow> Some l | None \<Rightarrow> map_of (concat (sets_of ch ds)) k) =
          (case lookup (channel_of ch s) k of Some l \<Rightarrow> Some l | None \<Rightarrow> map_of (concat (sets_of ch (d # ds))) k)" for ch k
        unfolding records(4) [OF None] by (simp add: DeclareSet map_add_def split: option.splits)
      ultimately show ?thesis unfolding step using ih DeclareSet by simp
    qed
  qed
qed (simp split: option.splits)

lemma map_of_sets:
  "distinct (keys_of sets) \<Longrightarrow> decls \<in> set sets \<Longrightarrow> distinct (map fst decls) \<Longrightarrow> (k, l) \<in> set decls \<Longrightarrow> map_of (concat sets) k = Some l"
proof (induction sets)
  case (Cons first sets)
  show ?case
  proof (cases "decls = first")
    case True
    then show ?thesis using Cons.prems by (simp add: map_add_Some_iff)
  next
    case False
    then have "decls \<in> set sets" using Cons.prems by simp
    then have "k \<in> set (keys_of sets)" using Cons.prems(4) by (force simp: keys_of_def)
    then have "map_of first k = None" using Cons.prems(1) by (auto simp: map_of_eq_None_iff)
    then show ?thesis using Cons \<open>decls \<in> set sets\<close> by (simp add: map_add_Some_iff)
  qed
qed simp

section \<open>Properties\<close>

text \<open>The sources the dumped defaults make, when they are served as overrides.\<close>

fun dumped_compile :: "channel \<Rightarrow> (bytes \<Rightarrow> 'c option) \<Rightarrow> catalog_sink \<Rightarrow> bytes \<Rightarrow> bytes \<Rightarrow> 'c option" where
  "dumped_compile Selectors engine s key fallback = selector_compile engine (flat_selector_source (cs_selectors s)) key fallback"
| "dumped_compile Patterns engine s key fallback = regex_compile engine (flat_regex_source (cs_patterns s)) key fallback"

lemma dumped_compile_same:
  "lookup (channel_of ch s) key = Some literal \<Longrightarrow> dumped_compile ch engine s key literal = engine literal"
  by (cases ch) (auto simp: selector_compile_def regex_compile_def flat_selector_source_def flat_regex_source_def Let_def split: option.splits)

lemma new_sink_empty: "sink_ok (new_sink owner)" "channel_of ch (new_sink owner) = []" "cs_canonical (new_sink owner) = None"
  by (simp_all add: sink_ok_def new_sink_def) (cases ch; simp)

lemma catalog_defaults_lookup:
  assumes "emplace_catalog engine why ds (new_sink owner) = (None, s)"
  shows "lookup (channel_of ch s) k = map_of (concat (sets_of ch ds)) k"
  using emplace_catalog_records [OF new_sink_empty(1), of engine why ds owner] assms by (simp add: new_sink_empty)

text \<open>C33: the dump of an owner's defaults. It succeeds exactly when every built-in literal compiles, no key is
  declared by two sets of a channel and at most one canonical URL is; then each table holds the
  literals as declared, the first of a key its own set repeats, and the URL. Serving the dump back as
  overrides changes nothing: a set that repeats no key compiles to what its built-in literals
  compile to.\<close>

theorem catalog_defaults:
  assumes "emplace_catalog engine why ds (new_sink owner) = (e, s)"
  shows "(e = None \<longleftrightarrow> (\<forall>ch. distinct (keys_of (sets_of ch ds)) \<and> list_all (literals_compile engine) (sets_of ch ds)) \<and>
      length (canonicals ds) \<le> 1) \<and>
    (e = None \<longrightarrow> (\<forall>ch k. lookup (channel_of ch s) k = map_of (concat (sets_of ch ds)) k) \<and>
      (case canonicals ds of [] \<Rightarrow> cs_canonical s = None | url # _ \<Rightarrow> cs_canonical s = Some url) \<and>
      (\<forall>ch. \<forall>decls \<in> set (sets_of ch ds). distinct (map fst decls) \<longrightarrow>
        (\<forall>(key, literal) \<in> set decls. dumped_compile ch engine s key literal = engine literal)))"
proof -
  note records = emplace_catalog_records [OF new_sink_empty(1), of engine why ds owner, unfolded assms new_sink_empty fst_conv snd_conv]
  have outcome: "e = None \<longleftrightarrow> (\<forall>ch. distinct (keys_of (sets_of ch ds)) \<and> list_all (literals_compile engine) (sets_of ch ds)) \<and>
      length (canonicals ds) \<le> 1"
    using records by (cases "canonicals ds") auto
  moreover have "lookup (channel_of ch s) k = map_of (concat (sets_of ch ds)) k" if "e = None" for ch k
    using records that by simp
  moreover have "case canonicals ds of [] \<Rightarrow> cs_canonical s = None | url # _ \<Rightarrow> cs_canonical s = Some url" if "e = None"
    using records that by (simp split: list.splits)
  moreover have "dumped_compile ch engine s key literal = engine literal"
    if "e = None" "decls \<in> set (sets_of ch ds)" "distinct (map fst decls)" "(key, literal) \<in> set decls" for ch decls key literal
    using map_of_sets [OF _ that(2-4)] outcome records that(1) by (intro dumped_compile_same) simp
  ultimately show ?thesis by blast
qed

text \<open>Two sets of selectors with different keys, and a canonical URL.\<close>

theorem catalog_defaults_witness:
  "fst (emplace_catalog (\<lambda>l. if l = [] then None else Some l) (\<lambda>_. ''bad'')
     [DeclareSet Selectors [(''title'', ''h1''), (''link'', ''a'')], DeclareSet Selectors [(''card'', ''.card'')], DeclareCanonical ''https://a.b'']
     (new_sink ''site'')) = None"
proof -
  let ?ds = "[DeclareSet Selectors [(''title'', ''h1''), (''link'', ''a'')], DeclareSet Selectors [(''card'', ''.card'')],
    DeclareCanonical ''https://a.b'']"
  have "distinct (keys_of (sets_of ch ?ds)) \<and> list_all (literals_compile (\<lambda>l. if l = [] then None else Some l)) (sets_of ch ?ds)" for ch
    by (cases ch) (simp_all add: literals_compile_def)
  then show ?thesis
    using catalog_defaults [OF surjective_pairing, of "\<lambda>l. if l = [] then None else Some l" "\<lambda>_. ''bad''" ?ds "''site''"] by simp
qed

text \<open>A key that one set declares twice keeps its first literal without a complaint.\<close>

lemma repeated_key_first_literal:
  "emplace_catalog engine why [DeclareSet ch [(k, a), (k, b)]] (new_sink owner) = (None, s) \<Longrightarrow> lookup (channel_of ch s) k = Some a"
  by (simp add: catalog_defaults_lookup del: emplace_catalog.simps)

end
