(* ===== verification/File_Cache.thy ===== *)
theory File_Cache
  imports Requests Decimal
begin

text \<open>
  \<open>include/aniparse/testing/FileCachingClient.hpp\<close>: a client that answers from files and asks another client
  for what has no file yet. The hash of the standard library is a parameter, and so is the client
  behind it; the directory is the map from the file names to their contents, and writing to it succeeds.
\<close>

section \<open>File names\<close>

definition isalnum :: "char \<Rightarrow> bool" where
  "isalnum c \<longleftrightarrow> is_digit c \<or> is_upper c \<or> is_lower c"

definition cache_key :: "bytes \<Rightarrow> url_parameters \<Rightarrow> bytes \<Rightarrow> bytes" where
  "cache_key url params body = url @ concat (map (\<lambda>(name, v). ''&'' @ name @ ''='' @ v) params) @ body"

definition readable_tail :: "bytes \<Rightarrow> bytes" where
  "readable_tail url =
     (let readable = map (\<lambda>c. if isalnum c then c else CHR ''_'') url
      in if 60 < length readable then drop (length readable - 60) readable else readable)"

definition cache_name :: "(bytes \<Rightarrow> nat) \<Rightarrow> bytes \<Rightarrow> url_parameters \<Rightarrow> bytes \<Rightarrow> bytes" where
  "cache_name hash url params body = readable_tail url @ ''_'' @ nat_to_dec (hash (cache_key url params body)) @ ''.resp''"

text \<open>The file of a request; a multipart request has none.\<close>

definition request_file :: "(bytes \<Rightarrow> nat) \<Rightarrow> client_request \<Rightarrow> bytes option" where
  "request_file hash r =
     (case r of
        GetReq g \<Rightarrow> Some (cache_name hash (gr_url g) (gr_params g) [])
      | PostReq p \<Rightarrow> Some (cache_name hash (po_url p) (po_params p) (po_body p))
      | MultipartReq _ \<Rightarrow> None)"

section \<open>Serving\<close>

type_synonym directory = "bytes \<Rightarrow> bytes option"

definition replayed :: "bytes \<Rightarrow> response_data" where
  "replayed body = \<lparr>rd_status_code = 200, rd_body = body, rd_headers = [], rd_effective_url = None\<rparr>"

definition success_body :: "request_error + response_data \<Rightarrow> bytes option" where
  "success_body answer =
     (case answer of
        Inl _ \<Rightarrow> None
      | Inr d \<Rightarrow> if 200 \<le> rd_status_code d \<and> rd_status_code d < 300 then Some (rd_body d) else None)"

definition serve :: "bytes \<Rightarrow> (request_error + response_data) \<Rightarrow> directory \<Rightarrow> (request_error + response_data) \<times> directory" where
  "serve file answer dir =
     (case dir file of
        Some body \<Rightarrow> (Inr (replayed body), dir)
      | None \<Rightarrow> (answer, case success_body answer of Some body \<Rightarrow> dir(file \<mapsto> body) | None \<Rightarrow> dir))"

text \<open>\<open>do_request\<close>, with what the client behind it would answer.\<close>

definition cached_request ::
  "(bytes \<Rightarrow> nat) \<Rightarrow> 'j transport \<Rightarrow> 'j option \<Rightarrow> client_request \<Rightarrow> directory \<Rightarrow> (request_error + response_data) \<times> directory" where
  "cached_request hash upstream jar r dir =
     (case request_file hash r of
        None \<Rightarrow> (upstream r jar, dir)
      | Some file \<Rightarrow> serve file (upstream r jar) dir)"

fun cached_requests ::
  "(bytes \<Rightarrow> nat) \<Rightarrow> 'j transport \<Rightarrow> 'j option \<Rightarrow> client_request list \<Rightarrow> directory \<Rightarrow> (request_error + response_data) list \<times> directory" where
  "cached_requests hash upstream jar [] dir = ([], dir)"
| "cached_requests hash upstream jar (r # rs) dir =
     (case cached_request hash upstream jar r dir of
        (answer, dir') \<Rightarrow> (case cached_requests hash upstream jar rs dir' of (answers, dir'') \<Rightarrow> (answer # answers, dir'')))"

section \<open>What is served\<close>

text \<open>The first request before this one that has its file and succeeds.\<close>

definition served_by :: "(bytes \<Rightarrow> nat) \<Rightarrow> 'j transport \<Rightarrow> 'j option \<Rightarrow> client_request list \<Rightarrow> bytes \<Rightarrow> client_request option" where
  "served_by hash upstream jar before file =
     find (\<lambda>r. request_file hash r = Some file \<and> success_body (upstream r jar) \<noteq> None) before"

definition directory_of :: "(bytes \<Rightarrow> nat) \<Rightarrow> 'j transport \<Rightarrow> 'j option \<Rightarrow> client_request list \<Rightarrow> directory" where
  "directory_of hash upstream jar before =
     (\<lambda>file. Option.bind (served_by hash upstream jar before file) (\<lambda>r. success_body (upstream r jar)))"

definition expected_answer ::
  "(bytes \<Rightarrow> nat) \<Rightarrow> 'j transport \<Rightarrow> 'j option \<Rightarrow> client_request list \<Rightarrow> client_request \<Rightarrow> request_error + response_data" where
  "expected_answer hash upstream jar before r =
     (case Option.bind (request_file hash r) (directory_of hash upstream jar before) of
        Some body \<Rightarrow> Inr (replayed body)
      | None \<Rightarrow> upstream r jar)"

lemma find_snoc: "find P (xs @ [x]) = (case find P xs of Some y \<Rightarrow> Some y | None \<Rightarrow> if P x then Some x else None)"
  by (induction xs) simp_all

lemma served_by_SomeD:
  "served_by hash upstream jar before file = Some r \<Longrightarrow>
   r \<in> set before \<and> request_file hash r = Some file \<and> (\<exists>body. success_body (upstream r jar) = Some body)"
  by (auto simp: served_by_def find_Some_iff)

lemma success_body_Some:
  "success_body answer = Some body \<Longrightarrow> \<exists>d. answer = Inr d \<and> 200 \<le> rd_status_code d \<and> rd_status_code d < 300 \<and> body = rd_body d"
  by (auto simp: success_body_def split: sum.splits if_splits)

lemma cached_request_step:
  "cached_request hash upstream jar r (directory_of hash upstream jar before) =
     (expected_answer hash upstream jar before r, directory_of hash upstream jar (before @ [r]))"
proof (cases "request_file hash r")
  case None
  then have "served_by hash upstream jar (before @ [r]) name = served_by hash upstream jar before name" for name
    by (simp add: served_by_def find_snoc split: option.splits)
  then show ?thesis using None by (simp add: cached_request_def expected_answer_def directory_of_def)
next
  case (Some name)
  show ?thesis
  proof (cases "served_by hash upstream jar before name")
    case None
    then have cold: "directory_of hash upstream jar before name = None" by (simp add: directory_of_def)
    have "served_by hash upstream jar (before @ [r]) f = (if f = name \<and> success_body (upstream r jar) \<noteq> None then Some r
        else served_by hash upstream jar before f)" for f
      using None Some by (auto simp: served_by_def find_snoc split: option.splits)
    then have "directory_of hash upstream jar (before @ [r]) =
        (case success_body (upstream r jar) of Some body \<Rightarrow> (directory_of hash upstream jar before)(name \<mapsto> body)
          | None \<Rightarrow> directory_of hash upstream jar before)"
      by (auto simp: directory_of_def fun_eq_iff split: option.splits)
    then show ?thesis using Some cold by (simp add: cached_request_def serve_def expected_answer_def)
  next
    case warm: (Some q)
    then obtain body where body: "directory_of hash upstream jar before name = Some body"
      using served_by_SomeD [OF warm] by (auto simp: directory_of_def)
    have "served_by hash upstream jar (before @ [r]) f = served_by hash upstream jar before f" for f
      using warm Some by (auto simp: served_by_def find_snoc split: option.splits)
    then show ?thesis using Some body by (simp add: cached_request_def serve_def expected_answer_def directory_of_def)
  qed
qed

lemma cached_requests_answers:
  "cached_requests hash upstream jar rs (directory_of hash upstream jar before) =
     (map (\<lambda>i. expected_answer hash upstream jar (before @ take i rs) (rs ! i)) [0..<length rs],
      directory_of hash upstream jar (before @ rs))"
proof (induction rs arbitrary: before)
  case (Cons r rs)
  have "map (\<lambda>i. expected_answer hash upstream jar (before @ take i (r # rs)) ((r # rs) ! i)) [0..<length (r # rs)] =
      expected_answer hash upstream jar before r #
      map (\<lambda>i. expected_answer hash upstream jar (before @ [r] @ take i rs) (rs ! i)) [0..<length rs]"
    by (simp add: upt_conv_Cons map_Suc_upt [symmetric] del: upt_Suc)
  then show ?case using Cons.IH [of "before @ [r]"] by (simp add: cached_request_step)
qed simp

lemma directory_of_Nil: "directory_of hash upstream jar [] = (\<lambda>_. None)"
  by (simp add: directory_of_def served_by_def fun_eq_iff)

section \<open>Properties\<close>

text \<open>A caching client over an empty directory and a client behind it that answers a request the same way every time.
  A request is answered from the first successful request before it that has the same file, with
  status 200 and its body, and otherwise by the client behind it, errors and refusals included. So
  where different requests have different files every successful body is the one asked for. They do
  not always: whatever the hash, one parameter whose value spells out another, a body that spells out a
  parameter, and a POST without a body share the file of the request they spell.\<close>

theorem file_cache_serves:
  assumes "cached_requests hash upstream jar rs (\<lambda>_. None) = (answers, dir)"
  shows "length answers = length rs \<and>
    (\<forall>i < length rs.
       (case Option.bind (request_file hash (rs ! i)) (served_by hash upstream jar (take i rs)) of
          None \<Rightarrow> answers ! i = upstream (rs ! i) jar
        | Some q \<Rightarrow> q \<in> set (take i rs) \<and> request_file hash q = request_file hash (rs ! i) \<and>
            (\<exists>d. upstream q jar = Inr d \<and> 200 \<le> rd_status_code d \<and> rd_status_code d < 300 \<and> answers ! i = Inr (replayed (rd_body d))))) \<and>
    ((\<forall>q \<in> set rs. \<forall>r \<in> set rs. request_file hash q = request_file hash r \<longrightarrow> request_file hash q \<noteq> None \<longrightarrow> q = r) \<longrightarrow>
       (\<forall>i < length rs. success_body (answers ! i) = success_body (upstream (rs ! i) jar))) \<and>
    cache_name hash url [(a, v @ ''&'' @ b @ ''='' @ w)] [] = cache_name hash url [(a, v), (b, w)] [] \<and>
    cache_name hash url [] (''&'' @ a @ ''='' @ v) = cache_name hash url [(a, v)] []"
proof -
  have eq: "answers = map (\<lambda>i. expected_answer hash upstream jar (take i rs) (rs ! i)) [0..<length rs]"
    using cached_requests_answers [of hash upstream jar rs "[]"] assms by (simp add: directory_of_Nil)
  have nth: "answers ! i = expected_answer hash upstream jar (take i rs) (rs ! i)" if "i < length rs" for i
    using that by (simp add: eq)
  have each: "case Option.bind (request_file hash (rs ! i)) (served_by hash upstream jar (take i rs)) of
      None \<Rightarrow> answers ! i = upstream (rs ! i) jar
    | Some q \<Rightarrow> q \<in> set (take i rs) \<and> request_file hash q = request_file hash (rs ! i) \<and>
        (\<exists>d. upstream q jar = Inr d \<and> 200 \<le> rd_status_code d \<and> rd_status_code d < 300 \<and> answers ! i = Inr (replayed (rd_body d)))" if "i < length rs" for i
  proof (cases "Option.bind (request_file hash (rs ! i)) (served_by hash upstream jar (take i rs))")
    case None
    then show ?thesis
      by (cases "request_file hash (rs ! i)") (simp_all add: nth [OF that] expected_answer_def directory_of_def)
  next
    case (Some q)
    then obtain name where name: "request_file hash (rs ! i) = Some name" "served_by hash upstream jar (take i rs) name = Some q"
      by (auto simp: bind_eq_Some_conv)
    from served_by_SomeD [OF name(2)] show ?thesis
      using name success_body_Some [of "upstream q jar"] by (auto simp: nth [OF that] expected_answer_def directory_of_def)
  qed
  have "success_body (answers ! i) = success_body (upstream (rs ! i) jar)"
    if inj: "\<forall>q \<in> set rs. \<forall>r \<in> set rs. request_file hash q = request_file hash r \<longrightarrow> request_file hash q \<noteq> None \<longrightarrow> q = r"
      and i: "i < length rs" for i
  proof (cases "Option.bind (request_file hash (rs ! i)) (served_by hash upstream jar (take i rs))")
    case None
    then show ?thesis using each [OF i] by simp
  next
    case (Some q)
    then have q: "q \<in> set (take i rs)" "request_file hash q = request_file hash (rs ! i)"
      "\<exists>d. upstream q jar = Inr d \<and> 200 \<le> rd_status_code d \<and> rd_status_code d < 300 \<and> answers ! i = Inr (replayed (rd_body d))" using each [OF i] by simp_all
    have "q \<in> set rs" using q(1) by (rule in_set_takeD)
    moreover have "request_file hash q \<noteq> None" using q(2) Some by (auto simp: bind_eq_Some_conv)
    ultimately have "q = rs ! i" using bspec [OF bspec [OF inj] nth_mem [OF i]] q(2) by blast
    then show ?thesis using q(3) by (auto simp: success_body_def replayed_def)
  qed
  then show ?thesis using each by (simp add: eq cache_name_def cache_key_def)
qed

text \<open>Two requests that differ in the place of an ampersand: the second is answered with the first one's body.\<close>

definition echo :: "unit transport" where
  "echo r jar = Inr \<lparr>rd_status_code = 200, rd_body = (case r of GetReq g \<Rightarrow> concat (map snd (gr_params g)) | _ \<Rightarrow> []),
     rd_headers = [], rd_effective_url = None\<rparr>"

definition get_with :: "url_parameters \<Rightarrow> client_request" where
  "get_with params = GetReq \<lparr>gr_url = ''u'', gr_params = params, gr_headers = [], gr_method = Get\<rparr>"

theorem file_cache_serves_witness:
  "fst (cached_requests (\<lambda>_. 0) echo None [get_with [(''a'', ''1&b=2'')], get_with [(''a'', ''1''), (''b'', ''2'')]] (\<lambda>_. None)) ! 1 =
     Inr (replayed ''1&b=2'')"
proof -
  let ?rs = "[get_with [(''a'', ''1&b=2'')], get_with [(''a'', ''1''), (''b'', ''2'')]]"
  obtain answers dir where run: "cached_requests (\<lambda>_. 0) echo None ?rs (\<lambda>_. None) = (answers, dir)" by (metis prod.exhaust)
  have "request_file (\<lambda>_. 0) (?rs ! 1) = request_file (\<lambda>_. 0) (?rs ! 0)"
    by (simp add: request_file_def get_with_def cache_name_def cache_key_def)
  then have "Option.bind (request_file (\<lambda>_. 0) (?rs ! 1)) (served_by (\<lambda>_. 0) echo None (take 1 ?rs)) = Some (?rs ! 0)"
    by (simp add: served_by_def request_file_def get_with_def echo_def success_body_def)
  then have "\<exists>d. echo (?rs ! 0) None = Inr d \<and> answers ! 1 = Inr (replayed (rd_body d))"
    using file_cache_serves [OF run, THEN conjunct2, THEN conjunct1, THEN spec, of 1] by auto
  then have "answers ! 1 = Inr (replayed ''1&b=2'')" by (simp add: get_with_def echo_def success_body_def)
  then show ?thesis unfolding run fst_conv .
qed

end
