(* ===== verification/Dom.thy ===== *)
theory Dom
  imports Prelude
begin

text \<open>
  \<open>src/html/DOMNode.cpp\<close>, \<open>src/html/DOMElement.cpp\<close> and \<open>src/html/DOMAttributes.cpp\<close>: the views and
  iterators over the node graph that lexbor builds. A \<open>lxb_dom_node_t*\<close> is an address or null, the
  graph is a store from addresses to nodes, and the iterators follow its links as the code does,
  so a walk may not return: it is a partial function with \<open>None\<close> for not returning. The theorems
  hold where the store links a tree the way a parsed document does; the search functions of an
  element are then the first, or all, of its descendants in document order.
\<close>

section \<open>Nodes\<close>

type_synonym addr = nat
type_synonym pointer = "addr option"

datatype node_kind = Element | TextNode | DoctypeNode | OtherNode

text \<open>
  The fields of a node the code reads, and lexbor's answers about an element: its tag id and
  upper case name, the values of its class and id attributes, its attributes in order; and the
  character data of a text node.
\<close>

record node =
  n_kind :: node_kind
  n_first_child :: pointer
  n_next :: pointer
  n_prev :: pointer
  n_parent :: pointer
  n_owned :: bool
  n_tag_id :: nat
  n_tag_name :: bytes
  n_class :: bytes
  n_id :: bytes
  n_attrs :: "(bytes \<times> bytes) list"
  n_text :: bytes

type_synonym store = "addr \<Rightarrow> node"

text \<open>A thrown \<open>std::runtime_error\<close>.\<close>

datatype node_error = NotAnElement | NotAText

definition is_element :: "store \<Rightarrow> addr \<Rightarrow> bool" where
  "is_element d a \<longleftrightarrow> n_kind (d a) = Element"

definition is_text :: "store \<Rightarrow> addr \<Rightarrow> bool" where
  "is_text d a \<longleftrightarrow> n_kind (d a) = TextNode"

definition as_element :: "store \<Rightarrow> addr \<Rightarrow> node_error + addr" where
  "as_element d a = (if is_element d a then Inr a else Inl NotAnElement)"

definition as_text :: "store \<Rightarrow> addr \<Rightarrow> node_error + bytes" where
  "as_text d a = (if is_text d a then Inr (n_text (d a)) else Inl NotAText)"

section \<open>Walking all nodes\<close>

text \<open>The loop both walks share: up to the nearest node with a next sibling, or the root, or null.\<close>

partial_function (option) climb :: "store \<Rightarrow> addr \<Rightarrow> pointer \<Rightarrow> pointer option" where
  "climb d root p =
     (case p of
        None \<Rightarrow> Some None
      | Some a \<Rightarrow> if n_next (d a) = None \<and> a \<noteq> root then climb d root (n_parent (d a)) else Some (Some a))"

definition node_next :: "store \<Rightarrow> addr \<Rightarrow> addr \<Rightarrow> pointer option" where
  "node_next d root a =
     (if n_first_child (d a) \<noteq> None then Some (n_first_child (d a))
      else Option.bind (climb d root (Some a)) (\<lambda>p.
        Some (case (if p = Some root then None else p) of
            None \<Rightarrow> None
          | Some b \<Rightarrow> if n_next (d b) \<noteq> None then n_next (d b) else Some b)))"

text \<open>The nodes a range-for over the walk iterator visits from position \<open>p\<close> on.\<close>

partial_function (option) node_walk :: "store \<Rightarrow> addr \<Rightarrow> pointer \<Rightarrow> addr list option" where
  "node_walk d root p =
     (case p of
        None \<Rightarrow> Some []
      | Some a \<Rightarrow>
          Option.bind (node_next d root a) (\<lambda>q.
            Option.bind (node_walk d root q) (\<lambda>xs. Some (a # xs))))"

definition walk_nodes :: "store \<Rightarrow> pointer \<Rightarrow> addr list option" where
  "walk_nodes d r = (case r of None \<Rightarrow> Some [] | Some root \<Rightarrow> node_walk d root (n_first_child (d root)))"

section \<open>Walking the elements\<close>

definition elem_next :: "store \<Rightarrow> addr \<Rightarrow> addr \<Rightarrow> pointer option" where
  "elem_next d root a =
     map_option (\<lambda>q. if q = Some root then None else q)
       (if n_first_child (d a) \<noteq> None then Some (n_first_child (d a))
        else Option.bind (climb d root (Some a)) (\<lambda>p.
          Some (case p of None \<Rightarrow> None | Some b \<Rightarrow> if b \<noteq> root then n_next (d b) else p)))"

text \<open>\<open>walk_until_element\<close>, on construction.\<close>

partial_function (option) until_element :: "store \<Rightarrow> addr \<Rightarrow> pointer \<Rightarrow> pointer option" where
  "until_element d root p =
     (case p of
        None \<Rightarrow> Some None
      | Some a \<Rightarrow>
          if a \<noteq> root \<and> \<not> is_element d a
          then Option.bind (elem_next d root a) (\<lambda>q. until_element d root q)
          else Some p)"

text \<open>\<open>operator++\<close> and its do-while loop.\<close>

partial_function (option) elem_step :: "store \<Rightarrow> addr \<Rightarrow> addr \<Rightarrow> pointer option" where
  "elem_step d root a =
     Option.bind (elem_next d root a) (\<lambda>q.
       case q of
         None \<Rightarrow> Some None
       | Some b \<Rightarrow> if \<not> is_element d b then elem_step d root b else Some (Some b))"

definition elem_incr :: "store \<Rightarrow> addr \<Rightarrow> pointer \<Rightarrow> pointer option" where
  "elem_incr d root p = (case p of None \<Rightarrow> Some None | Some a \<Rightarrow> elem_step d root a)"

definition elem_begin :: "store \<Rightarrow> addr \<Rightarrow> pointer option" where
  "elem_begin d root = until_element d root (n_first_child (d root))"

text \<open>\<open>std::find_if\<close> over the iterator, and the collecting loop.\<close>

partial_function (option) find_if :: "store \<Rightarrow> addr \<Rightarrow> (addr \<Rightarrow> bool) \<Rightarrow> pointer \<Rightarrow> pointer option" where
  "find_if d root P p =
     (case p of
        None \<Rightarrow> Some None
      | Some a \<Rightarrow>
          if P a then Some (Some a)
          else Option.bind (elem_incr d root p) (\<lambda>q. find_if d root P q))"

partial_function (option) collect_from :: "store \<Rightarrow> addr \<Rightarrow> (addr \<Rightarrow> bool) \<Rightarrow> pointer \<Rightarrow> addr list \<Rightarrow> addr list option" where
  "collect_from d root P p out =
     (case p of
        None \<Rightarrow> Some out
      | Some a \<Rightarrow>
          Option.bind (elem_incr d root p) (\<lambda>q.
            collect_from d root P q (if P a then out @ [a] else out)))"

definition find_matching :: "store \<Rightarrow> pointer \<Rightarrow> (addr \<Rightarrow> bool) \<Rightarrow> pointer option" where
  "find_matching d e P =
     (case e of
        None \<Rightarrow> Some None
      | Some root \<Rightarrow> Option.bind (elem_begin d root) (find_if d root P))"

definition collect_matching :: "store \<Rightarrow> pointer \<Rightarrow> (addr \<Rightarrow> bool) \<Rightarrow> addr list option" where
  "collect_matching d e P =
     (case e of
        None \<Rightarrow> Some []
      | Some root \<Rightarrow> Option.bind (elem_begin d root) (\<lambda>p. collect_from d root P p []))"

section \<open>Direct children\<close>

text \<open>\<open>DOMElementIterator\<close>: over the sibling links, elements only.\<close>

partial_function (option) iterate_until_element :: "store \<Rightarrow> pointer \<Rightarrow> pointer option" where
  "iterate_until_element d p =
     (case p of
        None \<Rightarrow> Some None
      | Some a \<Rightarrow> if \<not> is_element d a then iterate_until_element d (n_next (d a)) else Some p)"

definition children_begin :: "store \<Rightarrow> pointer \<Rightarrow> pointer option" where
  "children_begin d e = iterate_until_element d (case e of None \<Rightarrow> None | Some a \<Rightarrow> n_first_child (d a))"

definition child_incr :: "store \<Rightarrow> pointer \<Rightarrow> pointer option" where
  "child_incr d p = (case p of None \<Rightarrow> Some None | Some a \<Rightarrow> iterate_until_element d (n_next (d a)))"

partial_function (option) child_decr :: "store \<Rightarrow> pointer \<Rightarrow> pointer option" where
  "child_decr d p =
     (case p of
        None \<Rightarrow> Some None
      | Some a \<Rightarrow>
          (case n_prev (d a) of
             None \<Rightarrow> Some None
           | Some b \<Rightarrow> if \<not> is_element d b then child_decr d (Some b) else Some (Some b)))"

partial_function (option) children_walk :: "store \<Rightarrow> pointer \<Rightarrow> addr list option" where
  "children_walk d p =
     (case p of
        None \<Rightarrow> Some []
      | Some a \<Rightarrow>
          Option.bind (child_incr d p) (\<lambda>q.
            Option.bind (children_walk d q) (\<lambda>xs. Some (a # xs))))"

definition child_elements :: "store \<Rightarrow> pointer \<Rightarrow> addr list option" where
  "child_elements d e = Option.bind (children_begin d e) (children_walk d)"

section \<open>Trees in the store\<close>

text \<open>
  What a parsed document is: the first-child, next, previous and parent links of the store spell
  out a tree of addresses, and no node occurs twice in it.
\<close>

datatype dtree = DNode (root_of: addr) (subtrees: "dtree list")

fun preorder :: "dtree \<Rightarrow> addr list" where
  "preorder (DNode a ts) = a # concat (map preorder ts)"

definition descendants :: "dtree \<Rightarrow> addr list" where
  "descendants t = concat (map preorder (subtrees t))"

definition head_of :: "dtree list \<Rightarrow> pointer" where
  "head_of ts = (case ts of [] \<Rightarrow> None | t # _ \<Rightarrow> Some (root_of t))"

lemma head_of_simps [simp]: "head_of [] = None" "head_of (t # ts) = Some (root_of t)"
  by (simp_all add: head_of_def)

fun linked :: "store \<Rightarrow> dtree \<Rightarrow> bool"
  and linked_list :: "store \<Rightarrow> addr \<Rightarrow> pointer \<Rightarrow> dtree list \<Rightarrow> bool" where
  "linked d (DNode a ts) \<longleftrightarrow> n_first_child (d a) = head_of ts \<and> linked_list d a None ts"
| "linked_list d p before [] \<longleftrightarrow> True"
| "linked_list d p before (t # ts) \<longleftrightarrow>
     n_parent (d (root_of t)) = Some p \<and> n_prev (d (root_of t)) = before \<and>
     n_next (d (root_of t)) = head_of ts \<and> linked d t \<and> linked_list d p (Some (root_of t)) ts"

definition tree_at :: "store \<Rightarrow> dtree \<Rightarrow> bool" where
  "tree_at d t \<longleftrightarrow> linked d t \<and> distinct (preorder t)"

lemma preorder_root: "preorder t = root_of t # descendants t"
  by (cases t) (simp add: descendants_def)

lemma root_in_preorder [simp]: "root_of t \<in> set (preorder t)"
  by (simp add: preorder_root)

lemma tree_at_root: "tree_at d t \<Longrightarrow> root_of t \<notin> set (descendants t)"
  by (simp add: tree_at_def preorder_root)

definition ptr :: "addr list \<Rightarrow> pointer" where
  "ptr xs = (case xs of [] \<Rightarrow> None | a # _ \<Rightarrow> Some a)"

lemma ptr_simps [simp]: "ptr [] = None" "ptr (a # xs) = Some a"
  by (simp_all add: ptr_def)

section \<open>The walks follow the document order\<close>

text \<open>
  Both walk iterators move the same way: into the first child, else to what \<open>skip\<close> gives, the next
  sibling of the node or of its nearest ancestor below the root that has one. That is their
  contract, and from it a walk visits the descendants in preorder.
\<close>

definition skip :: "store \<Rightarrow> addr \<Rightarrow> addr \<Rightarrow> pointer option" where
  "skip d root a =
     Option.bind (climb d root (Some a)) (\<lambda>p.
       Some (case p of None \<Rightarrow> None | Some b \<Rightarrow> if b = root then None else n_next (d b)))"

lemma skip_root: "skip d root root = Some None"
  by (simp add: skip_def climb.simps)

lemma skip_next: "a \<noteq> root \<Longrightarrow> n_next (d a) = Some b \<Longrightarrow> skip d root a = Some (Some b)"
  by (simp add: skip_def climb.simps)

lemma skip_up: "a \<noteq> root \<Longrightarrow> n_next (d a) = None \<Longrightarrow> n_parent (d a) = Some p \<Longrightarrow> skip d root a = skip d root p"
  by (simp add: skip_def climb.simps [of d root "Some a"])

locale tree_step =
  fixes step :: "store \<Rightarrow> addr \<Rightarrow> addr \<Rightarrow> pointer option"
  assumes step_child: "n_first_child (d a) = Some b \<Longrightarrow> b \<noteq> root \<Longrightarrow> step d root a = Some (Some b)"
    and step_skip: "n_first_child (d a) = None \<Longrightarrow> skip d root a = Some q \<Longrightarrow> q \<noteq> Some root \<Longrightarrow>
      step d root a = Some q"
begin

inductive visits :: "store \<Rightarrow> addr \<Rightarrow> pointer \<Rightarrow> addr list \<Rightarrow> bool" for d root where
  visits_end: "visits d root None []"
| visits_step: "step d root a = Some q \<Longrightarrow> visits d root q xs \<Longrightarrow> visits d root (Some a) (a # xs)"

lemma visits_ptr: "visits d root p xs \<Longrightarrow> p = ptr xs"
  by (induction rule: visits.induct) simp_all

lemma visits_tree:
  "linked d t \<Longrightarrow> root \<notin> set (preorder t) \<Longrightarrow> skip d root (root_of t) = Some q \<Longrightarrow> q \<noteq> Some root \<Longrightarrow>
     visits d root q xs \<Longrightarrow> visits d root (Some (root_of t)) (preorder t @ xs)"
  and visits_list:
  "linked_list d p before ts \<Longrightarrow> root \<notin> set (concat (map preorder ts)) \<Longrightarrow> skip d root p = Some q \<Longrightarrow>
     q \<noteq> Some root \<Longrightarrow> visits d root q xs \<Longrightarrow> ts \<noteq> [] \<Longrightarrow>
     visits d root (head_of ts) (concat (map preorder ts) @ xs)"
proof (induction d t and d p before ts arbitrary: q xs and q xs rule: linked_linked_list.induct)
  case (1 d a ts)
  show ?case
  proof (cases ts)
    case Nil
    then show ?thesis using 1 by (auto intro!: visits_step step_skip)
  next
    case (Cons u us)
    then have "root_of u \<noteq> root" using 1 root_in_preorder [of u] by auto
    then have "step d root a = Some (head_of ts)"
      using 1 Cons by (auto intro!: step_child)
    moreover have "visits d root (head_of ts) (concat (map preorder ts) @ xs)"
      using 1 Cons by simp
    ultimately show ?thesis by (simp add: visits_step)
  qed
next
  case (2 d p before)
  then show ?case by simp
next
  case (3 d p before t ts)
  have "root_of t \<noteq> root" using 3 by (auto simp: preorder_root)
  show ?case
  proof (cases ts)
    case Nil
    then have "skip d root (root_of t) = Some q"
      using 3 \<open>root_of t \<noteq> root\<close> by (simp add: skip_up)
    then show ?thesis using 3 Nil by simp
  next
    case (Cons u us)
    then have "skip d root (root_of t) = Some (head_of ts)"
      using 3 \<open>root_of t \<noteq> root\<close> by (simp add: skip_next)
    moreover have "head_of ts \<noteq> Some root" using 3 Cons root_in_preorder [of u] by auto
    moreover have "visits d root (head_of ts) (concat (map preorder ts) @ xs)"
      using 3 Cons by simp
    ultimately show ?thesis using 3 by simp
  qed
qed

lemma visits_descendants:
  assumes "tree_at d t"
  shows "visits d (root_of t) (n_first_child (d (root_of t))) (descendants t)"
proof (cases t)
  case (DNode a ts)
  show ?thesis
  proof (cases "ts = []")
    case True
    then show ?thesis using assms DNode by (simp add: tree_at_def descendants_def visits_end)
  next
    case False
    then have "visits d a (head_of ts) (concat (map preorder ts) @ [])"
      using assms DNode by (intro visits_list [OF _ _ skip_root]) (auto simp: tree_at_def visits_end)
    then show ?thesis using assms DNode by (simp add: tree_at_def descendants_def)
  qed
qed

end

lemma climb_stops: "climb d root p = Some (Some b) \<Longrightarrow> b = root \<or> n_next (d b) \<noteq> None"
proof -
  have "climb d root p = Some q \<Longrightarrow> \<forall>b. q = Some b \<longrightarrow> b = root \<or> n_next (d b) \<noteq> None" for q
  proof (rule climb.raw_induct [where P = "\<lambda>d root p q. \<forall>b. q = Some b \<longrightarrow> b = root \<or> n_next (d b) \<noteq> None"])
    fix f d root p q
    assume "\<And>d root p q. f d root p = Some q \<Longrightarrow> \<forall>b. q = Some b \<longrightarrow> b = root \<or> n_next (d b) \<noteq> None"
      and "(case p of None \<Rightarrow> Some None
        | Some a \<Rightarrow> if n_next (d a) = None \<and> a \<noteq> root then f d root (n_parent (d a)) else Some (Some a)) = Some q"
    then show "\<forall>b. q = Some b \<longrightarrow> b = root \<or> n_next (d b) \<noteq> None"
      by (fastforce split: option.splits if_splits)
  qed
  then show "climb d root p = Some (Some b) \<Longrightarrow> ?thesis" by blast
qed

interpretation node_step: tree_step node_next
proof
  fix d :: store and a b root
  assume "n_first_child (d a) = Some b"
  then show "node_next d root a = Some (Some b)" by (simp add: node_next_def)
next
  fix d :: store and a root q
  assume leaf: "n_first_child (d a) = None" and skip: "skip d root a = Some q" and "q \<noteq> Some root"
  obtain p where p: "climb d root (Some a) = Some p"
    and q: "q = (case p of None \<Rightarrow> None | Some b \<Rightarrow> if b = root then None else n_next (d b))"
    using skip by (auto simp: skip_def bind_eq_Some_conv)
  have "p = Some b \<Longrightarrow> b \<noteq> root \<Longrightarrow> n_next (d b) \<noteq> None" for b
    using climb_stops p by blast
  then show "node_next d root a = Some q"
    by (cases p) (simp_all add: node_next_def leaf p q)
qed

interpretation element_step: tree_step elem_next
proof
  fix d :: store and a b root
  assume "n_first_child (d a) = Some b" "b \<noteq> root"
  then show "elem_next d root a = Some (Some b)" by (simp add: elem_next_def)
next
  fix d :: store and a root q
  assume leaf: "n_first_child (d a) = None" and skip: "skip d root a = Some q" and other: "q \<noteq> Some root"
  obtain p where p: "climb d root (Some a) = Some p"
    and q: "q = (case p of None \<Rightarrow> None | Some b \<Rightarrow> if b = root then None else n_next (d b))"
    using skip by (auto simp: skip_def bind_eq_Some_conv)
  show "elem_next d root a = Some q"
    using other by (cases p) (auto simp: elem_next_def leaf p q split: if_splits)
qed

lemma node_walk_visits: "node_step.visits d root p xs \<Longrightarrow> node_walk d root p = Some xs"
  by (induction rule: node_step.visits.induct) (simp_all add: node_walk.simps [of d root "Some _"] node_walk.simps [of d root None])

lemma walk_nodes_descendants: "tree_at d t \<Longrightarrow> walk_nodes d (Some (root_of t)) = Some (descendants t)"
  by (simp add: walk_nodes_def node_walk_visits node_step.visits_descendants)

lemma until_element_visits:
  "element_step.visits d root p xs \<Longrightarrow> root \<notin> set xs \<Longrightarrow>
     until_element d root p = Some (ptr (dropWhile (\<lambda>a. \<not> is_element d a) xs))"
  by (induction rule: element_step.visits.induct)
    (simp_all add: until_element.simps [of d root "Some _"] until_element.simps [of d root None])

lemma elem_step_visits:
  "element_step.visits d root p xs \<Longrightarrow> p = Some a \<Longrightarrow>
     elem_step d root a = Some (ptr (dropWhile (\<lambda>a. \<not> is_element d a) (tl xs)))"
proof (induction arbitrary: a rule: element_step.visits.induct)
  case (visits_step b q xs)
  have "q = ptr xs" by (rule element_step.visits_ptr) (rule visits_step.hyps)
  then show ?case using visits_step
    by (cases xs) (simp_all add: elem_step.simps [of d root a])
qed simp

lemma find_if_visits:
  "element_step.visits d root p xs \<Longrightarrow>
     find_if d root P (ptr (dropWhile (\<lambda>a. \<not> is_element d a) xs)) = Some (find P (filter (is_element d) xs))"
proof (induction rule: element_step.visits.induct)
  case visits_end
  then show ?case by (simp add: find_if.simps)
next
  case (visits_step a q xs)
  have "elem_step d root a = Some (ptr (dropWhile (\<lambda>a. \<not> is_element d a) xs))"
    using elem_step_visits [OF element_step.visits.visits_step [OF visits_step.hyps]] by simp
  then show ?case using visits_step.IH
    by (simp add: find_if.simps [of d root P "Some a"] elem_incr_def)
qed

lemma collect_from_visits:
  "element_step.visits d root p xs \<Longrightarrow>
     collect_from d root P (ptr (dropWhile (\<lambda>a. \<not> is_element d a) xs)) out =
       Some (out @ filter P (filter (is_element d) xs))"
proof (induction arbitrary: out rule: element_step.visits.induct)
  case visits_end
  then show ?case by (simp add: collect_from.simps)
next
  case (visits_step a q xs)
  have "elem_step d root a = Some (ptr (dropWhile (\<lambda>a. \<not> is_element d a) xs))"
    using elem_step_visits [OF element_step.visits.visits_step [OF visits_step.hyps]] by simp
  then show ?case using visits_step.IH
    by (simp add: collect_from.simps [of d root P "Some a"] elem_incr_def)
qed

lemma elem_begin_visits:
  assumes "tree_at d t"
  shows "elem_begin d (root_of t) = Some (ptr (dropWhile (\<lambda>a. \<not> is_element d a) (descendants t)))"
  unfolding elem_begin_def
  by (rule until_element_visits [OF element_step.visits_descendants [OF assms] tree_at_root [OF assms]])

lemma find_matching_tree:
  "tree_at d t \<Longrightarrow> find_matching d (Some (root_of t)) P = Some (find P (filter (is_element d) (descendants t)))"
  by (simp add: find_matching_def elem_begin_visits find_if_visits [OF element_step.visits_descendants])

lemma collect_matching_tree:
  "tree_at d t \<Longrightarrow> collect_matching d (Some (root_of t)) P = Some (filter P (filter (is_element d) (descendants t)))"
  by (simp add: collect_matching_def elem_begin_visits collect_from_visits [OF element_step.visits_descendants])

section \<open>Child iteration\<close>

lemma iterate_until_child:
  "linked_list d p before ts \<Longrightarrow>
     iterate_until_element d (head_of ts) = Some (head_of (dropWhile (\<lambda>t. \<not> is_element d (root_of t)) ts))"
proof (induction ts arbitrary: before)
  case (Cons t ts)
  then have "iterate_until_element d (head_of ts) = Some (head_of (dropWhile (\<lambda>t. \<not> is_element d (root_of t)) ts))"
    by auto
  then show ?case using Cons.prems by (simp add: iterate_until_element.simps [of d "Some _"])
qed (simp add: iterate_until_element.simps)

lemma children_walk_elements:
  "linked_list d p before ts \<Longrightarrow>
     children_walk d (head_of (dropWhile (\<lambda>t. \<not> is_element d (root_of t)) ts)) =
       Some (filter (is_element d) (map root_of ts))"
proof (induction ts arbitrary: before)
  case Nil
  then show ?case by (simp add: children_walk.simps)
next
  case (Cons t ts)
  then have "iterate_until_element d (head_of ts) = Some (head_of (dropWhile (\<lambda>t. \<not> is_element d (root_of t)) ts))"
    by (auto intro: iterate_until_child)
  then show ?case using Cons
    by (auto simp: children_walk.simps [of d "Some _"] child_incr_def)
qed

lemma child_elements_tree:
  "tree_at d t \<Longrightarrow> child_elements d (Some (root_of t)) = Some (filter (is_element d) (map root_of (subtrees t)))"
  by (cases t) (auto simp: child_elements_def children_begin_def tree_at_def iterate_until_child children_walk_elements)

text \<open>A small document: a \<open>div\<close> holding a text and a \<open>p\<close> with a text and a \<open>br\<close>.\<close>

definition blank_node :: node where
  "blank_node =
     \<lparr>n_kind = OtherNode, n_first_child = None, n_next = None, n_prev = None, n_parent = None, n_owned = True,
      n_tag_id = 0, n_tag_name = [], n_class = [], n_id = [], n_attrs = [], n_text = []\<rparr>"

definition sample_store :: store where
  "sample_store =
     (\<lambda>_. blank_node)
       (0 := blank_node\<lparr>n_kind := Element, n_first_child := Some 1, n_tag_id := 1, n_tag_name := ''DIV''\<rparr>,
        1 := blank_node\<lparr>n_kind := TextNode, n_next := Some 2, n_parent := Some 0, n_text := '' a ''\<rparr>,
        2 := blank_node\<lparr>n_kind := Element, n_first_child := Some 3, n_prev := Some 1, n_parent := Some 0,
               n_tag_id := 2, n_tag_name := ''P'', n_class := ''x y'', n_attrs := [(''class'', ''x y'')]\<rparr>,
        3 := blank_node\<lparr>n_kind := TextNode, n_next := Some 4, n_parent := Some 2, n_text := ''b  c''\<rparr>,
        4 := blank_node\<lparr>n_kind := Element, n_prev := Some 3, n_parent := Some 2, n_tag_id := 3, n_tag_name := ''BR''\<rparr>)"

definition sample_tree :: dtree where
  "sample_tree = DNode 0 [DNode 1 [], DNode 2 [DNode 3 [], DNode 4 []]]"

lemma sample_tree_at: "tree_at sample_store sample_tree"
  by (simp add: tree_at_def sample_store_def sample_tree_def blank_node_def)

lemma sample_root [simp]: "root_of sample_tree = 0"
  and sample_descendants [simp]: "descendants sample_tree = [1, 2, 3, 4]"
  by (simp_all add: sample_tree_def descendants_def)

text \<open>C17: on a parsed document every walk ends. The node walk from an element visits its descendants in
  document order, each once and without the element itself; the walk from an invalid view visits
  nothing; the child iterator visits the child elements in order. The hypothesis is that the links
  of the store spell out a tree.\<close>

theorem walks_in_document_order:
  assumes "tree_at d t"
  shows "walk_nodes d (Some (root_of t)) = Some (descendants t) \<and> distinct (descendants t) \<and>
     root_of t \<notin> set (descendants t) \<and> walk_nodes d None = Some [] \<and>
     child_elements d (Some (root_of t)) = Some (filter (is_element d) (map root_of (subtrees t)))"
  using assms
  by (simp add: walk_nodes_descendants child_elements_tree tree_at_root)
    (simp add: walk_nodes_def tree_at_def preorder_root)

theorem walks_in_document_order_witness: "walk_nodes sample_store (Some 0) = Some [1, 2, 3, 4]"
  using walks_in_document_order [OF sample_tree_at] by simp

end
