(* ===== verification/Dom_Search.thy ===== *)
theory Dom_Search
  imports Dom
begin

text \<open>
  The searches of \<open>src/html/DOMElement.cpp\<close>: \<open>find\<close> and \<open>find_all\<close> by tag and by attribute, the class
  test, attribute access and \<open>DOMElementFinder\<close>. The tag table of the document is lexbor's and a
  parameter: a lookup from names to ids and the id of no tag.
\<close>

section \<open>Attributes\<close>

definition find_attr :: "store \<Rightarrow> pointer \<Rightarrow> bytes \<Rightarrow> (bytes \<times> bytes) option" where
  "find_attr d e name = (case e of None \<Rightarrow> None | Some a \<Rightarrow> find (\<lambda>attr. fst attr = name) (n_attrs (d a)))"

definition get_attr :: "store \<Rightarrow> pointer \<Rightarrow> bytes \<Rightarrow> bytes option" where
  "get_attr d e name = (case find_attr d e name of None \<Rightarrow> None | Some attr \<Rightarrow> Some (snd attr))"

section \<open>Classes\<close>

text \<open>The bytes \<open>" \t\n\f\r"\<close>.\<close>

definition class_delim :: "char \<Rightarrow> bool" where
  "class_delim c \<longleftrightarrow> c \<in> {CHR '' '', chr_tab, chr_lf, CHR 0x0C, chr_cr}"

definition find_first_of :: "(char \<Rightarrow> bool) \<Rightarrow> bytes \<Rightarrow> nat \<Rightarrow> nat option" where
  "find_first_of P s pos = find (\<lambda>i. P (s ! i)) [pos..<length s]"

lemma find_first_of_Some:
  "find_first_of P s pos = Some i \<longleftrightarrow> pos \<le> i \<and> i < length s \<and> P (s ! i) \<and> (\<forall>j. pos \<le> j \<and> j < i \<longrightarrow> \<not> P (s ! j))"
  by (simp add: find_first_of_def find_upt_Some)

function class_from :: "bytes \<Rightarrow> bytes \<Rightarrow> nat \<Rightarrow> bool" where
  "class_from full_class name i =
     (if i < length full_class then
        (case find_first_of class_delim full_class i of
           None \<Rightarrow> drop i full_class = name
         | Some j \<Rightarrow> take (j - i) (drop i full_class) = name \<or> class_from full_class name (Suc j))
      else False)"
  by pat_completeness auto
termination
  by (relation "measure (\<lambda>(full_class, name, i). length full_class - i)") (auto simp: find_first_of_Some)

declare class_from.simps [simp del]

definition contains_class :: "store \<Rightarrow> addr \<Rightarrow> bytes \<Rightarrow> bool" where
  "contains_class d a name = class_from (n_class (d a)) name 0"

section \<open>Searching\<close>

record tag_table =
  tag_lookup :: "bytes \<Rightarrow> nat"
  tag_undef :: nat

definition resolve_tag_id :: "tag_table \<Rightarrow> store \<Rightarrow> pointer \<Rightarrow> bytes \<Rightarrow> nat" where
  "resolve_tag_id tags d e tag =
     (case e of
        None \<Rightarrow> tag_undef tags
      | Some a \<Rightarrow> if \<not> n_owned (d a) then tag_undef tags else tag_lookup tags tag)"

datatype predicate_kind = ClassContains | ClassExact | IdExact | Attribute bytes

definition get_attr_value_predicate :: "bytes \<Rightarrow> bool \<Rightarrow> predicate_kind" where
  "get_attr_value_predicate name ignore_class_whitespaces =
     (if name = ''class'' then (if ignore_class_whitespaces then ClassContains else ClassExact)
      else if name = ''id'' then IdExact else Attribute name)"

primrec attr_value_matches :: "predicate_kind \<Rightarrow> store \<Rightarrow> bytes \<Rightarrow> addr \<Rightarrow> bool" where
  "attr_value_matches ClassContains d v a = contains_class d a v"
| "attr_value_matches ClassExact d v a = (n_class (d a) = v)"
| "attr_value_matches IdExact d v a = (n_id (d a) = v)"
| "attr_value_matches (Attribute name) d v a =
     (case find_attr d (Some a) name of None \<Rightarrow> False | Some attr \<Rightarrow> snd attr = v)"

definition find_tag :: "tag_table \<Rightarrow> store \<Rightarrow> pointer \<Rightarrow> bytes \<Rightarrow> pointer option" where
  "find_tag tags d e tag =
     (let tag_id = resolve_tag_id tags d e tag in find_matching d e (\<lambda>a. n_tag_id (d a) = tag_id))"

definition find_all_tag :: "tag_table \<Rightarrow> store \<Rightarrow> pointer \<Rightarrow> bytes \<Rightarrow> addr list option" where
  "find_all_tag tags d e tag =
     (let tag_id = resolve_tag_id tags d e tag in collect_matching d e (\<lambda>a. n_tag_id (d a) = tag_id))"

definition find_value :: "store \<Rightarrow> pointer \<Rightarrow> bytes \<Rightarrow> bytes \<Rightarrow> bool \<Rightarrow> pointer option" where
  "find_value d e attr v ignore_ws =
     find_matching d e (attr_value_matches (get_attr_value_predicate attr ignore_ws) d v)"

definition find_all_value :: "store \<Rightarrow> pointer \<Rightarrow> bytes \<Rightarrow> bytes \<Rightarrow> bool \<Rightarrow> addr list option" where
  "find_all_value d e attr v ignore_ws =
     collect_matching d e (attr_value_matches (get_attr_value_predicate attr ignore_ws) d v)"

text \<open>\<open>DOMElementFinder\<close>: a step is taken only from an element that was found.\<close>

definition finder_tag :: "tag_table \<Rightarrow> store \<Rightarrow> bytes \<Rightarrow> pointer \<Rightarrow> pointer option" where
  "finder_tag tags d tag e = (case e of None \<Rightarrow> Some None | Some _ \<Rightarrow> find_tag tags d e tag)"

definition finder_value :: "store \<Rightarrow> bytes \<Rightarrow> bytes \<Rightarrow> bool \<Rightarrow> pointer \<Rightarrow> pointer option" where
  "finder_value d attr v ignore_ws e = (case e of None \<Rightarrow> Some None | Some _ \<Rightarrow> find_value d e attr v ignore_ws)"

text \<open>
  \<open>query\<close> and \<open>query_all\<close>: lexbor's engine calls back with every matching node in turn until the
  callback says stop. The engine is a parameter: whether it could be created, and the nodes it
  reports below an element for a selector, each once or once per matching selector of a list.
\<close>

datatype callback_status = Proceed | Stop

record 'sel selector_engine =
  engine_created :: bool
  engine_reports :: "bool \<Rightarrow> addr \<Rightarrow> 'sel \<Rightarrow> addr list"

primrec run_callback :: "(addr \<Rightarrow> 'c \<Rightarrow> callback_status \<times> 'c) \<Rightarrow> addr list \<Rightarrow> 'c \<Rightarrow> 'c" where
  "run_callback cb [] ctx = ctx"
| "run_callback cb (a # as) ctx =
     (case cb a ctx of (Stop, ctx') \<Rightarrow> ctx' | (Proceed, ctx') \<Rightarrow> run_callback cb as ctx')"

definition query_first_cb :: "addr \<Rightarrow> pointer \<Rightarrow> callback_status \<times> pointer" where
  "query_first_cb a found = (Stop, Some a)"

definition query_all_cb :: "addr \<Rightarrow> addr list \<Rightarrow> callback_status \<times> addr list" where
  "query_all_cb a out = (Proceed, out @ [a])"

definition query :: "'sel selector_engine \<Rightarrow> pointer \<Rightarrow> 'sel option \<Rightarrow> pointer" where
  "query engine e selector =
     (case (e, selector) of
        (Some a, Some sel) \<Rightarrow>
          if \<not> engine_created engine then None
          else run_callback query_first_cb (engine_reports engine False a sel) None
      | _ \<Rightarrow> None)"

definition query_all :: "'sel selector_engine \<Rightarrow> pointer \<Rightarrow> 'sel option \<Rightarrow> addr list" where
  "query_all engine e selector =
     (case (e, selector) of
        (Some a, Some sel) \<Rightarrow>
          if \<not> engine_created engine then []
          else run_callback query_all_cb (engine_reports engine True a sel) []
      | _ \<Rightarrow> [])"

lemma run_query_all: "run_callback query_all_cb as out = out @ as"
  by (induction as arbitrary: out) (simp_all add: query_all_cb_def)

lemma query_reports:
  "engine_created engine \<Longrightarrow> query_all engine (Some a) (Some sel) = engine_reports engine True a sel"
  "engine_created engine \<Longrightarrow>
     query engine (Some a) (Some sel) = (case engine_reports engine False a sel of [] \<Rightarrow> None | b # _ \<Rightarrow> Some b)"
  by (simp_all add: query_all_def query_def run_query_all query_first_cb_def split: list.splits)

section \<open>Class tokens\<close>

text \<open>The same test over the text that is left, and what it means: the name stands between delimiters.\<close>

function class_in :: "bytes \<Rightarrow> bytes \<Rightarrow> bool" where
  "class_in name s =
     (if s = [] then False
      else takeWhile (\<lambda>c. \<not> class_delim c) s = name \<or>
        (if dropWhile (\<lambda>c. \<not> class_delim c) s = [] then False
         else class_in name (tl (dropWhile (\<lambda>c. \<not> class_delim c) s))))"
  by pat_completeness auto
termination
proof (relation "measure (\<lambda>(name, s). length s)", goal_cases)
  case (2 name s)
  have "length (dropWhile (\<lambda>c. \<not> class_delim c) s) \<le> length s" by (rule length_dropWhile_le)
  moreover from 2 have "0 < length s" by simp
  ultimately have "length (dropWhile (\<lambda>c. \<not> class_delim c) s) - 1 < length s" by linarith
  then show ?case by simp
qed auto

declare class_in.simps [simp del]

definition stands_in :: "bytes \<Rightarrow> bytes \<Rightarrow> bool" where
  "stands_in name s \<longleftrightarrow>
     (\<exists>u v. s = u @ name @ v \<and> (u = [] \<or> class_delim (last u)) \<and> (v = [] \<or> class_delim (hd v)))"

lemma class_from_drop: "class_from s name i = class_in name (drop i s)"
proof (induction s name i rule: class_from.induct)
  case (1 s name i)
  show ?case
  proof (cases "i < length s")
    case False
    then show ?thesis by (simp add: class_from.simps class_in.simps)
  next
    case True
    show ?thesis
    proof (cases "find_first_of class_delim s i")
      case None
      then have "\<forall>c \<in> set (drop i s). \<not> class_delim c"
        by (auto simp: find_first_of_def find_None_iff in_set_conv_nth)
      then have "takeWhile (\<lambda>c. \<not> class_delim c) (drop i s) = drop i s"
        and "dropWhile (\<lambda>c. \<not> class_delim c) (drop i s) = []" by (simp_all only: takeWhile_eq_all_conv dropWhile_eq_Nil_conv)
      then show ?thesis using True None
        by (simp add: class_from.simps [of s name i] class_in.simps [of name "drop i s"]
            del: takeWhile_eq_all_conv dropWhile_eq_Nil_conv)
    next
      case (Some j)
      then have j: "i \<le> j" "j < length s" "class_delim (s ! j)" "\<forall>k. i \<le> k \<and> k < j \<longrightarrow> \<not> class_delim (s ! k)"
        by (simp_all add: find_first_of_Some)
      define w where "w = take (j - i) (drop i s)"
      have split: "drop i s = w @ s ! j # drop (Suc j) s"
        unfolding w_def using j
        by (metis Cons_nth_drop_Suc append_take_drop_id drop_drop le_add_diff_inverse2)
      have "\<forall>c \<in> set w. \<not> class_delim c"
        using j by (auto simp: w_def in_set_conv_nth)
      then have "takeWhile (\<lambda>c. \<not> class_delim c) (drop i s) = w"
        and "dropWhile (\<lambda>c. \<not> class_delim c) (drop i s) = s ! j # drop (Suc j) s"
        unfolding split using j by (simp_all add: takeWhile_append2 dropWhile_append2)
      then show ?thesis using True Some 1 [OF True Some]
        by (simp add: class_from.simps [of s name i] class_in.simps [of name "drop i s"] w_def)
    qed
  qed
qed

lemma stands_in_word:
  assumes "\<forall>c \<in> set w. \<not> class_delim c" and "name \<noteq> []"
  shows "stands_in name w \<longleftrightarrow> w = name"
proof
  assume "stands_in name w"
  then obtain u v where w: "w = u @ name @ v" and "u = [] \<or> class_delim (last u)" "v = [] \<or> class_delim (hd v)"
    by (auto simp: stands_in_def)
  then have "u = []" "v = []" using assms by (auto dest: last_in_set hd_in_set)
  with w show "w = name" by simp
next
  assume "w = name"
  then have "w = [] @ name @ []" by simp
  then show "stands_in name w" unfolding stands_in_def by blast
qed

lemma stands_in_split:
  assumes w: "\<forall>c \<in> set w. \<not> class_delim c" and c: "class_delim c"
    and name: "name \<noteq> []" "\<forall>c \<in> set name. \<not> class_delim c"
  shows "stands_in name (w @ c # r) \<longleftrightarrow> w = name \<or> stands_in name r"
proof
  assume "stands_in name (w @ c # r)"
  then obtain u v where s: "w @ c # r = u @ name @ v" and u: "u = [] \<or> class_delim (last u)"
    and v: "v = [] \<or> class_delim (hd v)"
    by (auto simp: stands_in_def)
  show "w = name \<or> stands_in name r"
  proof (cases u)
    case Nil
    then have "w = takeWhile (\<lambda>c. \<not> class_delim c) (name @ v)"
      using s w c by (metis append_Nil takeWhile_append2 takeWhile.simps(2) append_Nil2)
    also have "\<dots> = name" using name v by (cases v) (auto simp: takeWhile_append2)
    finally show ?thesis by simp
  next
    case (Cons a u')
    then have "class_delim (last u)" using u by simp
    then have "\<not> length u \<le> length w"
      using s w Cons by (metis append_eq_append_conv_if append_take_drop_id in_set_takeD last_in_set list.distinct(1) take_all_iff append_eq_conv_conj)
    then obtain u2 where "u = w @ c # u2" and "r = u2 @ name @ v"
      using s by (auto simp: append_eq_append_conv2 append_eq_Cons_conv Cons_eq_append_conv)
    then have "r = u2 @ name @ v \<and> (u2 = [] \<or> class_delim (last u2))"
      using \<open>class_delim (last u)\<close> by (auto split: if_splits)
    then show ?thesis using v unfolding stands_in_def by blast
  qed
next
  assume "w = name \<or> stands_in name r"
  then show "stands_in name (w @ c # r)"
  proof
    assume "w = name"
    then have "w @ c # r = [] @ name @ c # r" by simp
    then show ?thesis unfolding stands_in_def using c by (metis list.sel(1))
  next
    assume "stands_in name r"
    then obtain u v where "r = u @ name @ v" "u = [] \<or> class_delim (last u)" "v = [] \<or> class_delim (hd v)"
      by (auto simp: stands_in_def)
    then have "w @ c # r = (w @ c # u) @ name @ v \<and> class_delim (last (w @ c # u)) \<and> (v = [] \<or> class_delim (hd v))"
      using c by auto
    then show ?thesis unfolding stands_in_def by blast
  qed
qed

lemma class_in_stands:
  "name \<noteq> [] \<Longrightarrow> \<forall>c \<in> set name. \<not> class_delim c \<Longrightarrow> class_in name s \<longleftrightarrow> stands_in name s"
proof (induction name s rule: class_in.induct)
  case (1 name s)
  define w where "w = takeWhile (\<lambda>c. \<not> class_delim c) s"
  have w: "\<forall>c \<in> set w. \<not> class_delim c" unfolding w_def by (metis set_takeWhileD)
  show ?case
  proof (cases "dropWhile (\<lambda>c. \<not> class_delim c) s")
    case Nil
    then have "s = w" unfolding w_def by (metis append_Nil2 takeWhile_dropWhile_id)
    then show ?thesis using 1 Nil stands_in_word [OF w 1(2)]
      by (auto simp: class_in.simps [of name s] w_def stands_in_def)
  next
    case (Cons c r)
    then have s: "s = w @ c # r" unfolding w_def by (metis takeWhile_dropWhile_id)
    have c: "class_delim c" using Cons by (metis dropWhile_eq_Cons_conv)
    have "class_in name r \<longleftrightarrow> stands_in name r" using 1 s Cons c by auto
    moreover have "class_in name s \<longleftrightarrow> w = name \<or> class_in name r"
      using s Cons by (auto simp: class_in.simps [of name s] w_def)
    ultimately show ?thesis using stands_in_split [OF w c 1(2,3)] s by simp
  qed
qed

lemma contains_class_stands:
  "name \<noteq> [] \<Longrightarrow> \<forall>c \<in> set name. \<not> class_delim c \<Longrightarrow> contains_class d a name \<longleftrightarrow> stands_in name (n_class (d a))"
  by (simp add: contains_class_def class_from_drop class_in_stands)

section \<open>What a search finds\<close>

text \<open>
  What the tag searches rely on: the table finds names whatever their case and gives different
  names different ids, and every element carries the id of its own name, which is not the id of no
  tag.
\<close>

definition tags_interned :: "tag_table \<Rightarrow> store \<Rightarrow> addr list \<Rightarrow> bool" where
  "tags_interned tags d as \<longleftrightarrow>
     (\<forall>x. tag_lookup tags (lower x) = tag_lookup tags x) \<and>
     (\<forall>x y. tag_lookup tags x = tag_lookup tags y \<and> tag_lookup tags x \<noteq> tag_undef tags \<longrightarrow> lower x = lower y) \<and>
     (\<forall>a \<in> set as. is_element d a \<longrightarrow>
        n_tag_id (d a) = tag_lookup tags (n_tag_name (d a)) \<and> n_tag_id (d a) \<noteq> tag_undef tags)"

text \<open>What the value searches rely on: the class and the id of an element are the values of these attributes.\<close>

definition attrs_cached :: "store \<Rightarrow> addr list \<Rightarrow> bool" where
  "attrs_cached d as \<longleftrightarrow>
     (\<forall>a \<in> set as. is_element d a \<longrightarrow>
        n_class (d a) = (case get_attr d (Some a) ''class'' of None \<Rightarrow> [] | Some v \<Rightarrow> v) \<and>
        n_id (d a) = (case get_attr d (Some a) ''id'' of None \<Rightarrow> [] | Some v \<Rightarrow> v))"

definition carries_value :: "store \<Rightarrow> bytes \<Rightarrow> bytes \<Rightarrow> bool \<Rightarrow> addr \<Rightarrow> bool" where
  "carries_value d attr v ignore_ws a \<longleftrightarrow>
     (case get_attr d (Some a) attr of
        None \<Rightarrow> v = [] \<and> attr \<in> {''class'', ''id''}
      | Some w \<Rightarrow> if attr = ''class'' \<and> ignore_ws then stands_in v w else w = v)"

lemma find_cong_set: "(\<And>x. x \<in> set xs \<Longrightarrow> P x = Q x) \<Longrightarrow> find P xs = find Q xs"
  by (induction xs) auto

lemma find_filter: "find P (filter Q xs) = find (\<lambda>x. Q x \<and> P x) xs"
  by (induction xs) auto

lemma find_matching_None [simp]: "find_matching d None P = Some None"
  and collect_matching_None [simp]: "collect_matching d None P = Some []"
  by (simp_all add: find_matching_def collect_matching_def)

lemma tag_id_matches:
  assumes "tags_interned tags d as" and "a \<in> set as" and "is_element d a"
  shows "n_tag_id (d a) = tag_lookup tags tag \<longleftrightarrow> lower (n_tag_name (d a)) = lower tag"
  using assms unfolding tags_interned_def by metis

lemma attr_value_matches_carries:
  assumes "attrs_cached d as" and "a \<in> set as" and "is_element d a"
    and "attr = ''class'' \<and> ignore_ws \<Longrightarrow> v \<noteq> [] \<and> (\<forall>c \<in> set v. \<not> class_delim c)"
  shows "attr_value_matches (get_attr_value_predicate attr ignore_ws) d v a \<longleftrightarrow> carries_value d attr v ignore_ws a"
proof -
  have c: "n_class (d a) = (case get_attr d (Some a) ''class'' of None \<Rightarrow> [] | Some v \<Rightarrow> v)"
    and i: "n_id (d a) = (case get_attr d (Some a) ''id'' of None \<Rightarrow> [] | Some v \<Rightarrow> v)"
    using assms(1-3) by (auto simp: attrs_cached_def)
  consider "attr = ''class''" "ignore_ws" | "attr = ''class''" "\<not> ignore_ws" | "attr = ''id''"
    | "attr \<noteq> ''class''" "attr \<noteq> ''id''" by blast
  then show ?thesis
  proof cases
    case 1
    then have v: "v \<noteq> []" "\<forall>c \<in> set v. \<not> class_delim c" using assms(4) by simp_all
    then have "\<not> stands_in v []" by (auto simp: stands_in_def)
    then show ?thesis using 1 v c
      by (auto simp: get_attr_value_predicate_def carries_value_def contains_class_stands split: option.splits)
  next
    case 2
    then show ?thesis using c by (auto simp: get_attr_value_predicate_def carries_value_def split: option.splits)
  next
    case 3
    then show ?thesis using i by (auto simp: get_attr_value_predicate_def carries_value_def split: option.splits)
  next
    case 4
    then show ?thesis by (auto simp: get_attr_value_predicate_def carries_value_def get_attr_def split: option.splits)
  qed
qed

text \<open>C18: the tag searches of an element. \<open>find\<close> gives the first and \<open>find_all\<close> every descendant element
  whose tag name is the asked one, letter case ignored, in document order; on an invalid view they
  give nothing. The hypotheses are a linked tree and lexbor's interning of tag names.\<close>

theorem tag_search_in_document_order:
  assumes "tree_at d t" and "tags_interned tags d (descendants t)" and "n_owned (d (root_of t))"
  shows "find_tag tags d (Some (root_of t)) tag =
       Some (find (\<lambda>a. is_element d a \<and> lower (n_tag_name (d a)) = lower tag) (descendants t)) \<and>
     find_all_tag tags d (Some (root_of t)) tag =
       Some (filter (\<lambda>a. is_element d a \<and> lower (n_tag_name (d a)) = lower tag) (descendants t)) \<and>
     find_tag tags d None tag = Some None \<and> find_all_tag tags d None tag = Some []"
  using assms(3)
  by (auto simp: find_tag_def find_all_tag_def resolve_tag_id_def find_matching_tree [OF assms(1)] find_filter
      collect_matching_tree [OF assms(1)] tag_id_matches [OF assms(2)]
      intro!: find_cong_set filter_cong)

definition sample_tags :: tag_table where
  "sample_tags =
     \<lparr>tag_lookup = (\<lambda>s. if lower s = ''div'' then 1 else if lower s = ''p'' then 2 else if lower s = ''br'' then 3 else 0),
      tag_undef = 0\<rparr>"

lemma sample_tags_interned: "tags_interned sample_tags sample_store [1, 2, 3, 4]"
proof -
  have names: "lower ''P'' = ''p''" "lower ''BR'' = ''br''" by code_simp+
  show ?thesis
    by (simp add: tags_interned_def sample_tags_def sample_store_def blank_node_def is_element_def names)
qed

theorem tag_search_in_document_order_witness:
  "find_tag sample_tags sample_store (Some 0) ''p'' = Some (Some 2)"
proof -
  have "lower ''P'' = ''p''" and "lower ''p'' = ''p''" by code_simp+
  then show ?thesis
    using tag_search_in_document_order [of sample_store sample_tree sample_tags "''p''"] sample_tree_at sample_tags_interned
    by (simp add: sample_store_def blank_node_def is_element_def)
qed

text \<open>The value searches of an element find, first or all in document order, the descendant elements
  that carry the value: the attribute equals it, or for a class searched as a token holds it
  between delimiters. For class and id an element without the attribute counts as one whose value
  is empty, so searching an id for the empty text finds the elements that have no id. The
  hypotheses are a linked tree, lexbor's class and id being these attributes, and a searched class
  token that is one token.\<close>

theorem value_search_in_document_order:
  assumes "tree_at d t" and "attrs_cached d (descendants t)"
    and "attr = ''class'' \<and> ignore_ws \<Longrightarrow> v \<noteq> [] \<and> (\<forall>c \<in> set v. \<not> class_delim c)"
  shows "find_value d (Some (root_of t)) attr v ignore_ws =
       Some (find (\<lambda>a. is_element d a \<and> carries_value d attr v ignore_ws a) (descendants t)) \<and>
     find_all_value d (Some (root_of t)) attr v ignore_ws =
       Some (filter (\<lambda>a. is_element d a \<and> carries_value d attr v ignore_ws a) (descendants t)) \<and>
     find_value d None attr v ignore_ws = Some None \<and> find_all_value d None attr v ignore_ws = Some []"
  by (auto simp: find_value_def find_all_value_def find_matching_tree [OF assms(1)] find_filter
      collect_matching_tree [OF assms(1)] attr_value_matches_carries [OF assms(2) _ _ assms(3)]
      intro!: find_cong_set filter_cong)

theorem value_search_in_document_order_witness:
  "find_value sample_store (Some 0) ''id'' [] False = Some (Some 2)"
proof -
  have "attrs_cached sample_store [1, 2, 3, 4]"
    by (simp add: attrs_cached_def get_attr_def find_attr_def sample_store_def blank_node_def)
  then show ?thesis
    using value_search_in_document_order [of sample_store sample_tree "''id''" False "[]"] sample_tree_at
    by (simp add: carries_value_def get_attr_def find_attr_def sample_store_def blank_node_def is_element_def)
qed

end
