(* ===== verification/Dom_Text.thy ===== *)
theory Dom_Text
  imports Dom
begin

text \<open>
  \<open>DOMElementView::text\<close> in \<open>src/html/DOMElement.cpp\<close>: the text of an element with its white space
  collapsed. Two passes over the node walk, one measuring and one filling a buffer of the measured
  size; a write behind the buffer's end is undefined behaviour, here \<open>None\<close>.
\<close>

section \<open>The two passes\<close>

text \<open>\<open>ElementTextGetterPredicate\<close>: whether the byte is kept, and the state \<open>is_last_blank\<close> after it.\<close>

definition getter_predicate :: "bool \<Rightarrow> char \<Rightarrow> bool \<times> bool" where
  "getter_predicate is_last_blank c =
     (if isspace c \<and> c \<noteq> CHR '' '' then (False, is_last_blank)
      else if c = CHR '' '' then (\<not> is_last_blank, True)
      else (True, False))"

fun measure_chars :: "bytes \<Rightarrow> bool \<Rightarrow> nat \<Rightarrow> bool \<times> nat" where
  "measure_chars [] b n = (b, n)"
| "measure_chars (c # cs) b n =
     (let (keep, b') = getter_predicate b c in measure_chars cs b' (n + (if keep then 1 else 0)))"

fun measure_nodes :: "store \<Rightarrow> addr list \<Rightarrow> bool \<Rightarrow> nat \<Rightarrow> nat" where
  "measure_nodes d [] b n = n"
| "measure_nodes d (a # as) b n =
     (if is_element d a then measure_nodes d as b (n + (if n_tag_name (d a) = ''BR'' then 1 else 0))
      else if \<not> is_text d a then measure_nodes d as b n
      else (let (b', n') = measure_chars (n_text (d a)) b n in measure_nodes d as b' n'))"

text \<open>\<open>*output_iterator++ = c\<close>: the position and the buffer.\<close>

type_synonym cursor = "nat \<times> bytes"

definition put_char :: "char \<Rightarrow> cursor \<Rightarrow> cursor option" where
  "put_char c w = (case w of (i, buf) \<Rightarrow> if i < length buf then Some (Suc i, buf[i := c]) else None)"

fun fill_chars :: "bytes \<Rightarrow> bool \<Rightarrow> cursor \<Rightarrow> (bool \<times> cursor) option" where
  "fill_chars [] b w = Some (b, w)"
| "fill_chars (c # cs) b w =
     (let (keep, b') = getter_predicate b c
      in if keep then Option.bind (put_char c w) (fill_chars cs b') else fill_chars cs b' w)"

fun fill_nodes :: "store \<Rightarrow> addr list \<Rightarrow> bool \<Rightarrow> cursor \<Rightarrow> cursor option" where
  "fill_nodes d [] b w = Some w"
| "fill_nodes d (a # as) b w =
     (if is_element d a
      then (if n_tag_name (d a) = ''BR'' then Option.bind (put_char chr_lf w) (fill_nodes d as b) else fill_nodes d as b w)
      else if \<not> is_text d a then fill_nodes d as b w
      else Option.bind (fill_chars (n_text (d a)) b w) (\<lambda>(b', w'). fill_nodes d as b' w'))"

text \<open>\<open>find_last_not_of(' ')\<close> and the \<open>erase\<close> behind it; a text of spaces only is left alone.\<close>

definition erase_trailing :: "bytes \<Rightarrow> bytes" where
  "erase_trailing s =
     (if \<forall>c \<in> set s. c = CHR '' '' then s else drop_back (\<lambda>c. c = CHR '' '') s)"

definition element_text :: "store \<Rightarrow> addr \<Rightarrow> bytes option" where
  "element_text d a =
     Option.bind (walk_nodes d (Some a)) (\<lambda>nodes.
       Option.bind (fill_nodes d nodes True (0, replicate (measure_nodes d nodes True 0) (CHR 0x00))) (\<lambda>(_, buf).
         Some (erase_trailing buf)))"

section \<open>The passes agree\<close>

text \<open>What both passes see: the kept bytes in order.\<close>

fun kept :: "bool \<Rightarrow> bytes \<Rightarrow> bytes" where
  "kept b [] = []"
| "kept b (c # cs) = (let (k, b') = getter_predicate b c in if k then c # kept b' cs else kept b' cs)"

fun blank_after :: "bool \<Rightarrow> bytes \<Rightarrow> bool" where
  "blank_after b [] = b"
| "blank_after b (c # cs) = blank_after (snd (getter_predicate b c)) cs"

fun rendered :: "store \<Rightarrow> bool \<Rightarrow> addr list \<Rightarrow> bytes" where
  "rendered d b [] = []"
| "rendered d b (a # as) =
     (if is_element d a then (if n_tag_name (d a) = ''BR'' then [chr_lf] else []) @ rendered d b as
      else if \<not> is_text d a then rendered d b as
      else kept b (n_text (d a)) @ rendered d (blank_after b (n_text (d a))) as)"

lemma measure_chars_kept: "measure_chars cs b n = (blank_after b cs, n + length (kept b cs))"
  by (induction cs b n rule: measure_chars.induct) (auto split: prod.splits)

lemma measure_nodes_rendered: "measure_nodes d as b n = n + length (rendered d b as)"
  by (induction d as b n rule: measure_nodes.induct) (simp_all add: measure_chars_kept)

lemma put_char_next [simp]:
  "put_char c (length out, out @ x # xs) = Some (Suc (length out), out @ c # xs)"
  by (simp add: put_char_def)

lemma fill_chars_kept:
  "length (kept b cs) \<le> length xs \<Longrightarrow>
     fill_chars cs b (length out, out @ xs) =
       Some (blank_after b cs, length (out @ kept b cs), (out @ kept b cs) @ drop (length (kept b cs)) xs)"
proof (induction cs arbitrary: b out xs)
  case (Cons c cs)
  obtain k b' where p: "getter_predicate b c = (k, b')" by fastforce
  show ?case
  proof (cases k)
    case True
    then have "xs \<noteq> []" using Cons.prems p by auto
    then show ?thesis using Cons.IH [of b' "tl xs" "out @ [c]"] Cons.prems p True
      by (cases xs) simp_all
  next
    case False
    then show ?thesis using Cons p by simp
  qed
qed simp

lemma fill_nodes_rendered:
  "length (rendered d b as) \<le> length xs \<Longrightarrow>
     fill_nodes d as b (length out, out @ xs) =
       Some (length (out @ rendered d b as), (out @ rendered d b as) @ drop (length (rendered d b as)) xs)"
proof (induction as arbitrary: b out xs)
  case (Cons a as)
  consider "is_element d a" "n_tag_name (d a) = ''BR''" | "is_element d a" "n_tag_name (d a) \<noteq> ''BR''"
    | "\<not> is_element d a" "\<not> is_text d a" | "\<not> is_element d a" "is_text d a" by blast
  then show ?case
  proof cases
    case 1
    then have "xs \<noteq> []" using Cons.prems by auto
    then show ?thesis using Cons.IH [of b "tl xs" "out @ [chr_lf]"] Cons.prems 1
      by (cases xs) simp_all
  next
    case 4
    let ?t = "n_text (d a)"
    have "length (kept b ?t) \<le> length xs" using Cons.prems 4 by simp
    then show ?thesis
      using Cons.IH [of "blank_after b ?t" "drop (length (kept b ?t)) xs" "out @ kept b ?t"] Cons.prems 4
      by (simp add: fill_chars_kept add.commute)
  qed (use Cons in simp_all)
qed simp

lemma element_text_rendered:
  "tree_at d t \<Longrightarrow> element_text d (root_of t) = Some (erase_trailing (rendered d True (descendants t)))"
  using fill_nodes_rendered [of d True "descendants t" "replicate (length (rendered d True (descendants t))) (CHR 0x00)" "[]"]
  by (simp add: element_text_def walk_nodes_descendants measure_nodes_rendered)

section \<open>What the text looks like\<close>

fun collapsed :: "bool \<Rightarrow> bytes \<Rightarrow> bool" where
  "collapsed b [] = True"
| "collapsed b (c # cs) = (if c = CHR '' '' then \<not> b \<and> collapsed True cs else collapsed False cs)"

lemma collapsed_weaken: "collapsed True s \<Longrightarrow> collapsed b s"
  by (cases s) auto

lemma collapsed_prefix: "collapsed b (xs @ ys) \<Longrightarrow> collapsed b xs"
  by (induction b xs rule: collapsed.induct) auto

lemma collapsed_adjacent: "collapsed b s \<Longrightarrow> Suc i < length s \<Longrightarrow> \<not> (s ! i = CHR '' '' \<and> s ! Suc i = CHR '' '')"
proof (induction b s arbitrary: i rule: collapsed.induct)
  case (2 b c cs)
  then show ?case by (cases i; cases cs) (auto split: if_splits)
qed simp

lemma collapsed_hd: "collapsed True s \<Longrightarrow> s \<noteq> [] \<Longrightarrow> hd s \<noteq> CHR '' ''"
  by (cases s) auto

lemma kept_Cons:
  "kept b (c # cs) =
     (if c = CHR '' '' then (if b then kept True cs else c # kept True cs)
      else if isspace c then kept b cs else c # kept False cs)"
  and blank_after_Cons:
  "blank_after b (c # cs) = (if c = CHR '' '' then blank_after True cs else if isspace c then blank_after b cs else blank_after False cs)"
  by (simp_all add: getter_predicate_def)

lemmas passes_simps = kept_Cons blank_after_Cons

lemma kept_collapsed:
  "collapsed (blank_after b cs) s \<Longrightarrow> collapsed b (filter (\<lambda>c. c \<noteq> chr_lf) (kept b cs) @ s)"
  by (induction cs arbitrary: b) (auto simp: passes_simps simp del: kept.simps(2) blank_after.simps(2) split: if_splits)

lemma rendered_collapsed: "collapsed b (filter (\<lambda>c. c \<noteq> chr_lf) (rendered d b as))"
  by (induction as arbitrary: b) (simp_all add: kept_collapsed)

lemma kept_chars: "c \<in> set (kept b cs) \<Longrightarrow> isspace c \<Longrightarrow> c = CHR '' ''"
  by (induction cs arbitrary: b) (auto simp: passes_simps simp del: kept.simps(2) split: if_splits)

lemma rendered_chars: "c \<in> set (rendered d b as) \<Longrightarrow> isspace c \<Longrightarrow> c = CHR '' '' \<or> c = chr_lf"
  by (induction as arbitrary: b) (auto dest: kept_chars split: if_splits)

lemma kept_words: "filter (\<lambda>c. \<not> isspace c) (kept b cs) = filter (\<lambda>c. \<not> isspace c) cs"
  by (induction cs arbitrary: b) (simp_all add: passes_simps del: kept.simps(2))

text \<open>The character data below an element, and its line breaks.\<close>

definition raw_text :: "store \<Rightarrow> addr list \<Rightarrow> bytes" where
  "raw_text d as = concat (map (\<lambda>a. n_text (d a)) (filter (is_text d) as))"

definition line_breaks :: "store \<Rightarrow> addr list \<Rightarrow> nat" where
  "line_breaks d as = length (filter (\<lambda>a. is_element d a \<and> n_tag_name (d a) = ''BR'') as)"

lemma rendered_words: "filter (\<lambda>c. \<not> isspace c) (rendered d b as) = filter (\<lambda>c. \<not> isspace c) (raw_text d as)"
  by (induction as arbitrary: b) (simp_all add: raw_text_def kept_words is_element_def is_text_def)

lemma kept_no_lf: "count_list (kept b cs) chr_lf = 0"
  using kept_chars [of chr_lf b cs] by (auto simp: count_list_0_iff)

lemma rendered_breaks: "count_list (rendered d b as) chr_lf = line_breaks d as"
  by (induction as arbitrary: b) (simp_all add: line_breaks_def kept_no_lf)

text \<open>A text that starts with no space is only spaces if it is empty, so the erase always applies.\<close>

lemma erase_trailing_collapsed:
  assumes "collapsed True (filter (\<lambda>c. c \<noteq> chr_lf) s)"
  shows "erase_trailing s = drop_back (\<lambda>c. c = CHR '' '') s"
proof (cases "\<forall>c \<in> set s. c = CHR '' ''")
  case True
  have "c \<noteq> chr_lf" if "c \<in> set s" for c
    using True [THEN bspec, OF that] by simp
  then have "filter (\<lambda>c. c \<noteq> chr_lf) s = s" by (intro filter_True) blast
  then have "collapsed True s" using assms by simp
  then have "s = []" using True by (cases s) simp_all
  then show ?thesis by (simp add: erase_trailing_def)
next
  case False
  then show ?thesis by (auto simp: erase_trailing_def)
qed

text \<open>C19: the text of an element. Both passes agree, so the buffer is filled exactly and nothing is
  written behind it. In the result no space leads, no space trails and no two spaces are adjacent,
  not even across a line break; the only other white space in it is one line feed for every
  \<open>BR\<close>; and its other bytes are those of the text nodes, in order. White space other than a space is
  dropped and not turned into one, so words that only a line feed separates are joined. The
  hypothesis is that the links of the store spell out a tree.\<close>

theorem element_text_collapsed:
  assumes "tree_at d t"
  shows "\<exists>s. element_text d (root_of t) = Some s \<and>
     (s = [] \<or> hd s \<noteq> CHR '' '' \<and> last s \<noteq> CHR '' '') \<and>
     (let r = filter (\<lambda>c. c \<noteq> chr_lf) s
      in \<forall>i. Suc i < length r \<longrightarrow> \<not> (r ! i = CHR '' '' \<and> r ! Suc i = CHR '' '')) \<and>
     (\<forall>c \<in> set s. isspace c \<longrightarrow> c = CHR '' '' \<or> c = chr_lf) \<and>
     count_list s chr_lf = line_breaks d (descendants t) \<and>
     filter (\<lambda>c. \<not> isspace c) s = filter (\<lambda>c. \<not> isspace c) (raw_text d (descendants t))"
proof -
  define full where "full = rendered d True (descendants t)"
  define s where "s = drop_back (\<lambda>c. c = CHR '' '') full"
  have tidy: "collapsed True (filter (\<lambda>c. c \<noteq> chr_lf) full)"
    unfolding full_def by (rule rendered_collapsed)
  obtain r where r: "full = s @ r" "\<forall>c \<in> set r. c = CHR '' ''"
    using drop_back_prefix [where s = full and P = "\<lambda>c. c = CHR '' ''"] unfolding s_def by auto
  have is_s: "element_text d (root_of t) = Some s"
    using element_text_rendered [OF assms] erase_trailing_collapsed [OF tidy] by (simp add: full_def s_def)
  have prefix: "collapsed True (filter (\<lambda>c. c \<noteq> chr_lf) s)"
    using tidy r(1) by (auto intro: collapsed_prefix)
  have "hd s \<noteq> CHR '' ''" if "s \<noteq> []"
    using prefix that by (cases s) (auto split: if_splits)
  moreover have "last s \<noteq> CHR '' ''" if "s \<noteq> []"
    using that unfolding s_def by (rule drop_back_last)
  moreover have "count_list s chr_lf = line_breaks d (descendants t)"
  proof -
    have "count_list r chr_lf = 0" using r(2) [THEN bspec, of chr_lf] by (simp add: count_list_0_iff) blast
    then show ?thesis using rendered_breaks [of d True "descendants t"] r(1) by (simp add: full_def)
  qed
  moreover have "filter (\<lambda>c. \<not> isspace c) s = filter (\<lambda>c. \<not> isspace c) (raw_text d (descendants t))"
  proof -
    have "isspace c" if "c \<in> set r" for c
      using r(2) [THEN bspec, OF that] by simp
    then have "filter (\<lambda>c. \<not> isspace c) r = []" by (simp add: filter_empty_conv)
    then show ?thesis using rendered_words [of d True "descendants t"] r(1) by (simp add: full_def)
  qed
  moreover have "\<forall>c \<in> set s. isspace c \<longrightarrow> c = CHR '' '' \<or> c = chr_lf"
    using rendered_chars [of _ d True "descendants t"] r(1) by (auto simp: full_def)
  moreover have "Suc i < length (filter (\<lambda>c. c \<noteq> chr_lf) s) \<longrightarrow>
      \<not> (filter (\<lambda>c. c \<noteq> chr_lf) s ! i = CHR '' '' \<and> filter (\<lambda>c. c \<noteq> chr_lf) s ! Suc i = CHR '' '')" for i
    using collapsed_adjacent [OF prefix] by blast
  ultimately show ?thesis using is_s unfolding Let_def by blast
qed

theorem element_text_collapsed_witness:
  "\<exists>s. element_text sample_store 0 = Some s \<and> count_list s chr_lf = 1"
proof -
  have "line_breaks sample_store [1, 2, 3, 4] = 1"
    by (simp add: line_breaks_def is_element_def sample_store_def blank_node_def)
  then show ?thesis using element_text_collapsed [OF sample_tree_at] by auto
qed

end
