(* ===== verification/Html_Text.thy ===== *)
theory Html_Text
  imports Dom_Search
begin

text \<open>
  \<open>src/utility/HtmlText.cpp\<close> and \<open>include/aniparse/types/Text.hpp\<close>: an HTML fragment as plain text
  with runs of styles, links and colours. Offsets are 32-bit ints, as the code narrows sizes to
  them. Parsing the fragment is lexbor's and a parameter.
\<close>

section \<open>Texts with runs\<close>

datatype style_kind = Bold | Italic | Strikethrough | Spoiler

record text_color =
  tc_red :: "8 word"
  tc_green :: "8 word"
  tc_blue :: "8 word"
  tc_alpha :: "8 word"

datatype run_data = Hyperlink bytes | TextStyle style_kind | TextColor text_color

record text_run =
  run_start :: int
  run_end :: int
  run_data :: run_data

record attributed =
  at_text :: bytes
  at_runs :: "text_run list"

section \<open>Colours\<close>

definition style_of :: "bytes \<Rightarrow> style_kind option" where
  "style_of tag =
     (if tag = ''i'' \<or> tag = ''em'' then Some Italic
      else if tag = ''b'' \<or> tag = ''strong'' then Some Bold
      else if tag = ''s'' \<or> tag = ''del'' \<or> tag = ''strike'' then Some Strikethrough
      else None)"

definition css_blank :: "char \<Rightarrow> bool" where
  "css_blank c \<longleftrightarrow> c = CHR '' '' \<or> c = chr_tab \<or> c = chr_lf \<or> c = chr_cr"

definition css_trim :: "bytes \<Rightarrow> bytes" where
  "css_trim = trim_by css_blank"

definition css_hex_digit :: "char \<Rightarrow> int" where
  "css_hex_digit c =
     (if is_digit c then int (code c) - 48
      else if 97 \<le> code c \<and> code c \<le> 102 then int (code c) - 97 + 10
      else if 65 \<le> code c \<and> code c \<le> 70 then int (code c) - 65 + 10
      else -1)"

definition color_component :: "bytes \<Rightarrow> nat \<Rightarrow> 8 word option" where
  "color_component v offset =
     (let high = css_hex_digit (v ! offset);
          low = (if length v \<le> 4 then high else css_hex_digit (v ! Suc offset))
      in if high < 0 \<or> low < 0 then None else Some (word_of_int (high * 16 + low)))"

definition color_value :: "bytes \<Rightarrow> text_color option" where
  "color_value text =
     (case css_trim text of
        [] \<Rightarrow> None
      | c # v \<Rightarrow>
          if length (c # v) < 4 \<or> c \<noteq> CHR ''#'' then None
          else if length v \<notin> {3, 4, 6, 8} then None
          else (let step = (if length v \<le> 4 then 1 else 2) in
            case (color_component v 0, color_component v step, color_component v (step * 2)) of
              (Some red, Some green, Some blue) \<Rightarrow>
                (case (if length v = 4 \<or> length v = 8 then color_component v (step * 3) else Some 255) of
                   None \<Rightarrow> None
                 | Some alpha \<Rightarrow> Some \<lparr>tc_red = red, tc_green = green, tc_blue = blue, tc_alpha = alpha\<rparr>)
            | _ \<Rightarrow> None))"

text \<open>The declarations of a style attribute, up to the first \<open>color\<close> with a colour value.\<close>

function style_color :: "bytes \<Rightarrow> text_color option" where
  "style_color declarations =
     (if declarations = [] then None
      else
        (let (raw, rest) = (case split_first (CHR '';'') declarations of None \<Rightarrow> (declarations, []) | Some s \<Rightarrow> s);
             next_color = style_color rest
         in case split_first (CHR '':'') (css_trim raw) of
              None \<Rightarrow> next_color
            | Some (name, v) \<Rightarrow>
                if css_trim name \<noteq> ''color'' then next_color
                else (case color_value v of Some color \<Rightarrow> Some color | None \<Rightarrow> next_color)))"
  by pat_completeness auto
termination
  by (relation "measure length") (auto split: option.splits dest: split_first_shorter)

definition color_of :: "store \<Rightarrow> addr \<Rightarrow> text_color option" where
  "color_of d a =
     (case Option.bind (get_attr d (Some a) ''color'') color_value of
        Some color \<Rightarrow> Some color
      | None \<Rightarrow> Option.bind (get_attr d (Some a) ''style'') style_color)"

section \<open>The walk\<close>

definition break_line :: "attributed \<Rightarrow> attributed" where
  "break_line out =
     (if at_text out \<noteq> [] \<and> last (at_text out) \<noteq> chr_lf then out\<lparr>at_text := at_text out @ [chr_lf]\<rparr> else out)"

text \<open>A \<open>br\<close>: a line feed, but at most two in a row.\<close>

definition line_feed :: "attributed \<Rightarrow> attributed" where
  "line_feed out =
     (let s = at_text out; n = length s
      in if n < 2 \<or> s ! (n - 1) \<noteq> chr_lf \<or> s ! (n - 2) \<noteq> chr_lf then out\<lparr>at_text := s @ [chr_lf]\<rparr> else out)"

definition append_text :: "bytes \<Rightarrow> attributed \<Rightarrow> attributed" where
  "append_text s out = out\<lparr>at_text := at_text out @ s\<rparr>"

text \<open>\<open>static_cast<int>(size)\<close>\<close>

definition int_of_size :: "nat \<Rightarrow> int" where
  "int_of_size n = sint (word_of_nat n :: 32 word)"

text \<open>The runs of an inline element, with the size of the text before it.\<close>

definition close_inline :: "store \<Rightarrow> addr \<Rightarrow> bytes \<Rightarrow> nat \<Rightarrow> attributed \<Rightarrow> attributed" where
  "close_inline d a tag before out =
     (let start = int_of_size before;
          stop = int_of_size (length (at_text out));
          run = (\<lambda>x. \<lparr>run_start = start, run_end = stop, run_data = x\<rparr>)
      in if stop \<le> start then out
         else out\<lparr>at_runs := at_runs out @
           (if tag = ''a'' then (case get_attr d (Some a) ''href'' of
              Some href \<Rightarrow> if href \<noteq> [] then [run (Hyperlink href)] else [] | None \<Rightarrow> []) else []) @
           (case style_of tag of Some kind \<Rightarrow> [run (TextStyle kind)] | None \<Rightarrow> []) @
           (case color_of d a of Some color \<Rightarrow> [run (TextColor color)] | None \<Rightarrow> [])\<rparr>)"

text \<open>The loop over a node's children from one child on.\<close>

partial_function (option) walk_from :: "store \<Rightarrow> pointer \<Rightarrow> attributed \<Rightarrow> attributed option" where
  "walk_from d child out =
     (case child of
        None \<Rightarrow> Some out
      | Some c \<Rightarrow>
          Option.bind
            (if is_text d c then Some (append_text (n_text (d c)) out)
             else if \<not> is_element d c then Some out
             else if lower (n_tag_name (d c)) = ''br'' then Some (line_feed out)
             else if lower (n_tag_name (d c)) \<in> {''p'', ''div'', ''li''}
             then Option.bind (walk_from d (n_first_child (d c)) (break_line out)) (\<lambda>inner. Some (break_line inner))
             else Option.bind (walk_from d (n_first_child (d c)) out) (\<lambda>inner.
               Some (close_inline d c (lower (n_tag_name (d c))) (length (at_text out)) inner)))
            (\<lambda>out'. walk_from d (n_next (d c)) out'))"

definition walk :: "store \<Rightarrow> addr \<Rightarrow> attributed \<Rightarrow> attributed option" where
  "walk d a out = walk_from d (n_first_child (d a)) out"

definition empty_text :: attributed where
  "empty_text = \<lparr>at_text = [], at_runs = []\<rparr>"

definition tidy_end :: "attributed \<Rightarrow> attributed" where
  "tidy_end out = out\<lparr>at_text := drop_back (\<lambda>c. c = chr_lf \<or> c = CHR '' '' \<or> c = chr_tab) (at_text out)\<rparr>"

definition from_html_element :: "store \<Rightarrow> pointer \<Rightarrow> attributed option" where
  "from_html_element d e =
     (case e of None \<Rightarrow> Some empty_text | Some a \<Rightarrow> Option.bind (walk d a empty_text) (\<lambda>out. Some (tidy_end out)))"

text \<open>
  The overload for a fragment. The parser is given the wrapped fragment and answers the node store
  and the body, or fails.
\<close>

definition wrapped :: "bytes \<Rightarrow> bytes" where
  "wrapped html = ''<!DOCTYPE html><html><body>'' @ html @ ''</body></html>''"

definition from_html :: "(bytes \<Rightarrow> (store \<times> pointer) option) \<Rightarrow> bytes \<Rightarrow> attributed option" where
  "from_html try_parse html =
     (case try_parse (wrapped html) of
        None \<Rightarrow> Some (append_text html empty_text)
      | Some (d, body) \<Rightarrow>
          Option.bind (case body of None \<Rightarrow> Some empty_text | Some a \<Rightarrow> walk d a empty_text) (\<lambda>out. Some (tidy_end out)))"

section \<open>Runs\<close>

text \<open>Runs within bounds, and runs that never cross: a later run follows an earlier one or encloses it.\<close>

definition runs_within :: "nat \<Rightarrow> nat \<Rightarrow> text_run list \<Rightarrow> bool" where
  "runs_within lo hi rs \<longleftrightarrow> (\<forall>r \<in> set rs. int lo \<le> run_start r \<and> run_start r < run_end r \<and> run_end r \<le> int hi)"

definition follows_or_encloses :: "text_run \<Rightarrow> text_run \<Rightarrow> bool" where
  "follows_or_encloses r q \<longleftrightarrow> run_end r \<le> run_start q \<or> (run_start q \<le> run_start r \<and> run_end r \<le> run_end q)"

definition properly_nested :: "text_run list \<Rightarrow> bool" where
  "properly_nested = sorted_wrt follows_or_encloses"

lemma runs_within_simps [simp]:
  "runs_within lo hi []"
  "runs_within lo hi (xs @ ys) \<longleftrightarrow> runs_within lo hi xs \<and> runs_within lo hi ys"
  by (auto simp: runs_within_def)

lemma runs_within_mono: "runs_within a b rs \<Longrightarrow> a' \<le> a \<Longrightarrow> b \<le> b' \<Longrightarrow> runs_within a' b' rs"
  unfolding runs_within_def by force

lemma properly_nested_Nil [simp]: "properly_nested []"
  by (simp add: properly_nested_def)

lemma properly_nested_append:
  "properly_nested xs \<Longrightarrow> properly_nested ys \<Longrightarrow> runs_within a b xs \<Longrightarrow> runs_within b c ys \<Longrightarrow> properly_nested (xs @ ys)"
  unfolding properly_nested_def sorted_wrt_append runs_within_def follows_or_encloses_def by force

lemma properly_nested_close:
  assumes "properly_nested xs" and "runs_within a b xs"
    and "\<forall>r \<in> set ys. run_start r = int a \<and> run_end r = int b"
  shows "properly_nested (xs @ ys)"
proof -
  have "follows_or_encloses r q" if "r \<in> set ys" "q \<in> set ys" for r q
    using bspec [OF assms(3) that(1)] bspec [OF assms(3) that(2)] by (simp add: follows_or_encloses_def)
  then have "sorted_wrt follows_or_encloses ys"
    by (simp add: sorted_wrt_iff_nth_less)
  moreover have "follows_or_encloses r q" if "r \<in> set xs" "q \<in> set ys" for r q
    using bspec [OF assms(3) that(2)] that(1) assms(2) by (simp add: runs_within_def follows_or_encloses_def)
  ultimately show ?thesis using assms(1) by (simp add: properly_nested_def sorted_wrt_append)
qed

lemma int_of_size_id:
  assumes "n < 2 ^ 31"
  shows "int_of_size n = int n"
proof -
  have "uint (word_of_nat n :: 32 word) = int n"
    using assms by (simp add: unsigned_of_nat take_bit_nat_eq_self)
  then show ?thesis
    using assms by (simp add: int_of_size_def sint_uint signed_take_bit_int_eq_self)
qed

text \<open>What a piece of the walk adds to a text.\<close>

definition adds :: "bytes \<Rightarrow> text_run list \<Rightarrow> attributed \<Rightarrow> attributed \<Rightarrow> bool" where
  "adds s rs out out' \<longleftrightarrow>
     at_text out' = at_text out @ s \<and> at_runs out' = at_runs out @ rs \<and>
     runs_within (length (at_text out)) (length (at_text out')) rs \<and> properly_nested rs"

lemma adds_refl: "adds [] [] out out"
  by (simp add: adds_def)

lemma adds_trans: "adds s rs a b \<Longrightarrow> adds t qs b c \<Longrightarrow> adds (s @ t) (rs @ qs) a c"
  unfolding adds_def by (auto intro: runs_within_mono properly_nested_append)

lemma adds_text: "adds s [] out (append_text s out)"
  by (simp add: adds_def append_text_def)

definition breaks :: "bytes \<Rightarrow> bool" where
  "breaks s \<longleftrightarrow> s = [] \<or> s = [chr_lf]"

lemma break_line_adds: "\<exists>s. breaks s \<and> adds s [] out (break_line out)"
  by (auto simp: break_line_def breaks_def adds_def)

lemma line_feed_adds: "\<exists>s. breaks s \<and> adds s [] out (line_feed out)"
  by (auto simp: line_feed_def breaks_def adds_def Let_def)

lemma close_inline_adds:
  assumes inner: "adds s rs out out'" and bound: "length (at_text out') < 2 ^ 31"
  shows "\<exists>qs. adds s (rs @ qs) out (close_inline d a tag (length (at_text out)) out')"
proof -
  let ?b = "length (at_text out)" and ?e = "length (at_text out')"
  have sizes: "int_of_size ?b = int ?b" "int_of_size ?e = int ?e"
    using inner bound by (auto simp: adds_def int_of_size_id)
  show ?thesis
  proof (cases "?e \<le> ?b")
    case True
    then have "close_inline d a tag ?b out' = out'" by (simp add: close_inline_def sizes)
    then show ?thesis using inner by (intro exI [of _ "[]"]) simp
  next
    case False
    let ?run = "\<lambda>x. \<lparr>run_start = int ?b, run_end = int ?e, run_data = x\<rparr>"
    define kinds where "kinds =
      (if tag = ''a'' then (case get_attr d (Some a) ''href'' of
         Some href \<Rightarrow> if href \<noteq> [] then [Hyperlink href] else [] | None \<Rightarrow> []) else []) @
      (case style_of tag of Some kind \<Rightarrow> [TextStyle kind] | None \<Rightarrow> []) @
      (case color_of d a of Some color \<Rightarrow> [TextColor color] | None \<Rightarrow> [])"
    define qs where "qs = map ?run kinds"
    have c: "close_inline d a tag ?b out' = out'\<lparr>at_runs := at_runs out' @ qs\<rparr>"
      using False unfolding qs_def kinds_def
      by (cases "get_attr d (Some a) ''href''"; cases "style_of tag"; cases "color_of d a")
        (simp_all add: close_inline_def sizes Let_def)
    have "set qs \<subseteq> range ?run" by (simp add: qs_def image_mono)
    then have qs: "run_start q = int ?b \<and> run_end q = int ?e" if in_qs: "q \<in> set qs" for q
    proof -
      obtain x where "q = ?run x" using in_qs \<open>set qs \<subseteq> range ?run\<close> by blast
      then show ?thesis by simp
    qed
    have "properly_nested (rs @ qs)"
      using inner qs by (auto simp: adds_def intro!: properly_nested_close)
    moreover have "runs_within ?b ?e qs" using qs False unfolding runs_within_def by simp
    ultimately show ?thesis using inner c by (auto simp: adds_def)
  qed
qed

section \<open>What the walk produces\<close>

text \<open>The text below a tree, as the walk descends, and a bound of what a tree can add to a text.\<close>

fun visible :: "store \<Rightarrow> dtree \<Rightarrow> bytes" where
  "visible d (DNode a ts) =
     (if is_text d a then n_text (d a)
      else if \<not> is_element d a \<or> lower (n_tag_name (d a)) = ''br'' then []
      else concat (map (visible d) ts))"

fun weight :: "store \<Rightarrow> dtree \<Rightarrow> nat" where
  "weight d (DNode a ts) = length (n_text (d a)) + 2 + sum_list (map (weight d) ts)"

definition same_text :: "bytes \<Rightarrow> bytes \<Rightarrow> bool" where
  "same_text s t \<longleftrightarrow> filter (\<lambda>c. c \<noteq> chr_lf) s = filter (\<lambda>c. c \<noteq> chr_lf) t"

lemma same_text_simps [simp]: "same_text s s" "breaks s \<Longrightarrow> same_text s []"
  by (auto simp: same_text_def breaks_def)

lemma same_text_append: "same_text s s' \<Longrightarrow> same_text t t' \<Longrightarrow> same_text (s @ t) (s' @ t')"
  by (simp add: same_text_def)

lemma breaks_length: "breaks s \<Longrightarrow> length s \<le> 1"
  by (auto simp: breaks_def)

text \<open>One child, whatever it is, adds text and runs; the inner walk is given as a hypothesis.\<close>

definition visit_child :: "store \<Rightarrow> addr \<Rightarrow> (attributed \<Rightarrow> attributed option) \<Rightarrow> attributed \<Rightarrow> attributed option" where
  "visit_child d c inner out =
     (if is_text d c then Some (append_text (n_text (d c)) out)
      else if \<not> is_element d c then Some out
      else if lower (n_tag_name (d c)) = ''br'' then Some (line_feed out)
      else if lower (n_tag_name (d c)) \<in> {''p'', ''div'', ''li''}
      then Option.bind (inner (break_line out)) (\<lambda>o'. Some (break_line o'))
      else Option.bind (inner out) (\<lambda>o'.
        Some (close_inline d c (lower (n_tag_name (d c))) (length (at_text out)) o')))"

lemma walk_from_Some:
  "walk_from d (Some c) out = Option.bind (visit_child d c (walk_from d (n_first_child (d c))) out) (walk_from d (n_next (d c)))"
  by (simp add: walk_from.simps [of d "Some c"] visit_child_def)

lemma walk_from_None [simp]: "walk_from d None out = Some out"
  by (simp add: walk_from.simps)

definition covers :: "(attributed \<Rightarrow> attributed option) \<Rightarrow> bytes \<Rightarrow> nat \<Rightarrow> bool" where
  "covers f v w \<longleftrightarrow>
     (\<forall>out. length (at_text out) + w < 2 ^ 31 \<longrightarrow>
        (\<exists>out' s rs. f out = Some out' \<and> adds s rs out out' \<and> length s \<le> w \<and> same_text s v))"

lemma coversD:
  assumes "covers f v w" and "length (at_text out) + w < 2 ^ 31"
  obtains out' s rs where "f out = Some out'" "adds s rs out out'" "length s \<le> w" "same_text s v"
  using assms unfolding covers_def by blast

lemma covers_bind:
  assumes "covers f v w" and "covers g v' w'"
  shows "covers (\<lambda>out. Option.bind (f out) g) (v @ v') (w + w')"
  unfolding covers_def
proof (intro allI impI)
  fix out :: attributed
  assume bound: "length (at_text out) + (w + w') < 2 ^ 31"
  then obtain o1 s rs where 1: "f out = Some o1" "adds s rs out o1" "length s \<le> w" "same_text s v"
    using coversD [OF assms(1)] by (metis add.assoc add_lessD1)
  then have "length (at_text o1) + w' < 2 ^ 31" using bound by (simp add: adds_def)
  then obtain o2 t qs where 2: "g o1 = Some o2" "adds t qs o1 o2" "length t \<le> w'" "same_text t v'"
    using coversD [OF assms(2)] by metis
  from 1 2 have "adds (s @ t) (rs @ qs) out o2 \<and> length (s @ t) \<le> w + w' \<and> same_text (s @ t) (v @ v')"
    by (simp add: adds_trans same_text_append)
  then show "\<exists>out' s rs. Option.bind (f out) g = Some out' \<and> adds s rs out out' \<and> length s \<le> w + w' \<and> same_text s (v @ v')"
    using 1 2 by auto
qed

lemma covers_weaken: "covers f v w \<Longrightarrow> w \<le> w' \<Longrightarrow> covers f v w'"
  unfolding covers_def by (meson add_le_cancel_left le_less_trans le_trans)

lemma covers_break: "covers (\<lambda>out. Some (break_line out)) [] 1"
  unfolding covers_def using break_line_adds breaks_length same_text_simps(2) by metis

lemma covers_feed: "covers (\<lambda>out. Some (line_feed out)) [] 1"
  unfolding covers_def using line_feed_adds breaks_length same_text_simps(2) by metis

lemma covers_close:
  assumes "covers f v w"
  shows "covers (\<lambda>out. Option.bind (f out) (\<lambda>o'. Some (close_inline d c tag (length (at_text out)) o'))) v w"
  unfolding covers_def
proof (intro allI impI)
  fix out :: attributed
  assume bound: "length (at_text out) + w < 2 ^ 31"
  with assms obtain o1 s rs where 1: "f out = Some o1" "adds s rs out o1" "length s \<le> w" "same_text s v"
    by (rule coversD)
  then have "length (at_text o1) < 2 ^ 31" using bound by (simp add: adds_def)
  then obtain qs where "adds s (rs @ qs) out (close_inline d c tag (length (at_text out)) o1)"
    using close_inline_adds [OF 1(2)] by blast
  then show "\<exists>out' s rs. Option.bind (f out) (\<lambda>o'. Some (close_inline d c tag (length (at_text out)) o')) = Some out' \<and>
      adds s rs out out' \<and> length s \<le> w \<and> same_text s v"
    using 1 by auto
qed

lemma visit_child_covers:
  assumes inner: "covers inner (concat (map (visible d) ts)) w"
  shows "covers (visit_child d c inner) (visible d (DNode c ts)) (length (n_text (d c)) + 2 + w)"
proof -
  consider "is_text d c" | "\<not> is_text d c" "\<not> is_element d c"
    | "\<not> is_text d c" "is_element d c" "lower (n_tag_name (d c)) = ''br''"
    | "\<not> is_text d c" "is_element d c" "lower (n_tag_name (d c)) \<in> {''p'', ''div'', ''li''}"
    | "\<not> is_text d c" "is_element d c" "lower (n_tag_name (d c)) \<notin> {''br'', ''p'', ''div'', ''li''}" by blast
  then show ?thesis
  proof cases
    case 1
    have "adds (n_text (d c)) [] out (append_text (n_text (d c)) out)" for out by (rule adds_text)
    then show ?thesis using 1 unfolding covers_def visit_child_def by fastforce
  next
    case 2
    then show ?thesis using adds_refl unfolding covers_def visit_child_def by fastforce
  next
    case 3
    then have "visit_child d c inner = (\<lambda>out. Some (line_feed out))" by (auto simp: visit_child_def)
    then show ?thesis using 3 covers_weaken [OF covers_feed] by simp
  next
    case 4
    then have v: "visit_child d c inner =
        (\<lambda>out. Option.bind (Option.bind (Some (break_line out)) inner) (\<lambda>o'. Some (break_line o')))"
      by (auto simp: visit_child_def)
    have "covers (\<lambda>out. Option.bind (Option.bind (Some (break_line out)) inner) (\<lambda>o'. Some (break_line o')))
        (concat (map (visible d) ts)) (1 + w + 1)"
      using covers_bind [OF covers_bind [OF covers_break inner] covers_break] by (simp only: append_Nil append_Nil2)
    then have "covers (visit_child d c inner) (concat (map (visible d) ts)) (length (n_text (d c)) + 2 + w)"
      unfolding v by (rule covers_weaken) simp
    then show ?thesis using 4 by auto
  next
    case 5
    then have v: "visit_child d c inner =
        (\<lambda>out. Option.bind (inner out) (\<lambda>o'. Some (close_inline d c (lower (n_tag_name (d c))) (length (at_text out)) o')))"
      by (auto simp: visit_child_def)
    have "covers (visit_child d c inner) (concat (map (visible d) ts)) (length (n_text (d c)) + 2 + w)"
      unfolding v by (rule covers_weaken [OF covers_close [OF inner]]) simp
    then show ?thesis using 5 by simp
  qed
qed

lemma walk_from_covers:
  "linked d t \<Longrightarrow> covers (walk_from d (n_first_child (d (root_of t)))) (concat (map (visible d) (subtrees t)))
     (sum_list (map (weight d) (subtrees t)))"
  and "linked_list d p before ts \<Longrightarrow>
     covers (walk_from d (head_of ts)) (concat (map (visible d) ts)) (sum_list (map (weight d) ts))"
proof (induction d t and d p before ts rule: linked_linked_list.induct)
  case (2 d p before)
  have "covers Some [] 0" unfolding covers_def using adds_refl by fastforce
  moreover have "walk_from d (head_of []) = Some" by auto
  ultimately show ?case by simp
next
  case (3 d p before t ts)
  obtain c us where t: "t = DNode c us" by (cases t)
  have "covers (visit_child d c (walk_from d (n_first_child (d c)))) (visible d t) (weight d t)"
    using visit_child_covers [of "walk_from d (n_first_child (d c))" d us] 3 t by simp
  moreover have "covers (walk_from d (n_next (d c))) (concat (map (visible d) ts)) (sum_list (map (weight d) ts))"
    using 3 t by simp
  ultimately have "covers (\<lambda>out. Option.bind (visit_child d c (walk_from d (n_first_child (d c))) out) (walk_from d (n_next (d c))))
      (visible d t @ concat (map (visible d) ts)) (weight d t + sum_list (map (weight d) ts))"
    by (rule covers_bind)
  moreover have "walk_from d (head_of (t # ts)) =
      (\<lambda>out. Option.bind (visit_child d c (walk_from d (n_first_child (d c))) out) (walk_from d (n_next (d c))))"
    using t by (auto simp: walk_from_Some)
  ultimately show ?case by (simp only: list.map concat.simps sum_list.Cons)
qed auto

lemma tidy_end_runs: "at_runs (tidy_end out) = at_runs out"
  by (simp add: tidy_end_def)

lemma tidy_end_prefix: "\<exists>r. at_text out = at_text (tidy_end out) @ r \<and> (\<forall>c \<in> set r. c \<in> {chr_lf, CHR '' '', chr_tab})"
  using drop_back_prefix [where s = "at_text out" and P = "\<lambda>c. c = chr_lf \<or> c = CHR '' '' \<or> c = chr_tab"]
  by (simp add: tidy_end_def)

text \<open>C20: converting an element never fails to return. Every run of the result lies within the walked
  text, is not empty, and two runs never cross: a later one follows the earlier or encloses it. The
  walked text is the visible text of the element up to line feeds, and the returned text is the
  walked one without the white space at its end. The hypotheses are a linked tree and less than
  two gigabytes of text and line breaks, the range of the 32-bit offsets.\<close>

theorem html_runs_well_formed:
  assumes "linked d t" and "weight d t < 2 ^ 31"
  shows "\<exists>out r. from_html_element d (Some (root_of t)) = Some (tidy_end out) \<and>
     runs_within 0 (length (at_text out)) (at_runs (tidy_end out)) \<and> properly_nested (at_runs (tidy_end out)) \<and>
     filter (\<lambda>c. c \<noteq> chr_lf) (at_text out) = filter (\<lambda>c. c \<noteq> chr_lf) (concat (map (visible d) (subtrees t))) \<and>
     at_text out = at_text (tidy_end out) @ r \<and> set r \<subseteq> {chr_lf, CHR '' '', chr_tab}"
proof -
  have "sum_list (map (weight d) (subtrees t)) < 2 ^ 31" using assms(2) by (cases t) simp
  then have "length (at_text empty_text) + sum_list (map (weight d) (subtrees t)) < 2 ^ 31"
    by (simp add: empty_text_def)
  then obtain out s rs where w: "walk_from d (n_first_child (d (root_of t))) empty_text = Some out"
    and a: "adds s rs empty_text out" and v: "same_text s (concat (map (visible d) (subtrees t)))"
    by (rule coversD [OF walk_from_covers(1) [OF assms(1)]])
  obtain r where "at_text out = at_text (tidy_end out) @ r" "set r \<subseteq> {chr_lf, CHR '' '', chr_tab}"
    using tidy_end_prefix [of out] unfolding subset_iff by blast
  moreover have "at_text out = s" "at_runs (tidy_end out) = rs" "runs_within 0 (length (at_text out)) rs" "properly_nested rs"
    using a by (auto simp: adds_def empty_text_def tidy_end_runs)
  moreover have "from_html_element d (Some (root_of t)) = Some (tidy_end out)"
    using w by (simp add: from_html_element_def walk_def)
  ultimately show ?thesis using v unfolding same_text_def
    by (intro exI [of _ out] exI [of _ r] conjI) (simp_all only:)
qed

text \<open>The fragment \<open><body><b>x </b></body>\<close>.\<close>

definition bold_store :: store where
  "bold_store =
     (\<lambda>_. blank_node)
       (0 := blank_node\<lparr>n_kind := Element, n_first_child := Some 1, n_tag_name := ''BODY''\<rparr>,
        1 := blank_node\<lparr>n_kind := Element, n_first_child := Some 2, n_parent := Some 0, n_tag_name := ''B''\<rparr>,
        2 := blank_node\<lparr>n_kind := TextNode, n_parent := Some 1, n_text := ''x ''\<rparr>)"

lemma bold_fields [simp]:
  "n_kind (bold_store 0) = Element" "n_first_child (bold_store 0) = Some 1" "n_tag_name (bold_store 0) = ''BODY''"
  "n_next (bold_store 0) = None"
  "n_kind (bold_store (Suc 0)) = Element" "n_first_child (bold_store (Suc 0)) = Some 2"
  "n_tag_name (bold_store (Suc 0)) = ''B''" "n_next (bold_store (Suc 0)) = None" "n_prev (bold_store (Suc 0)) = None"
  "n_parent (bold_store (Suc 0)) = Some 0" "n_text (bold_store (Suc 0)) = []" "n_attrs (bold_store (Suc 0)) = []"
  "n_kind (bold_store 2) = TextNode" "n_first_child (bold_store 2) = None" "n_next (bold_store 2) = None"
  "n_prev (bold_store 2) = None" "n_parent (bold_store 2) = Some 1" "n_text (bold_store 2) = ''x ''"
  "n_text (bold_store 0) = []"
  by (simp_all add: bold_store_def blank_node_def)

lemma bold_tree: "linked bold_store (DNode 0 [DNode 1 [DNode 2 []]])"
  by simp

theorem html_runs_well_formed_witness:
  "\<exists>out. from_html_element bold_store (Some 0) = Some (tidy_end out) \<and> filter (\<lambda>c. c \<noteq> chr_lf) (at_text out) = ''x ''"
proof -
  have "weight bold_store (DNode 0 [DNode 1 [DNode 2 []]]) < 2 ^ 31"
    and "lower ''B'' \<noteq> ''br''"
    by simp code_simp
  then show ?thesis using html_runs_well_formed [OF bold_tree]
    by (auto simp: is_text_def is_element_def)
qed

text \<open>The white space at the end is removed from the text only, so a run that ends in it is left
  ending behind the end of the returned text: \<open><b>x </b>\<close> becomes the single byte \<open>x\<close> with a bold
  run of two bytes.\<close>

theorem trailing_run_past_end:
  "from_html_element bold_store (Some 0) =
     Some \<lparr>at_text = ''x'', at_runs = [\<lparr>run_start = 0, run_end = 2, run_data = TextStyle Bold\<rparr>]\<rparr>"
proof -
  have b: "lower ''B'' = ''b''" by code_simp
  have inner: "walk_from bold_store (Some 2) empty_text = Some \<lparr>at_text = ''x '', at_runs = []\<rparr>"
    by (simp add: walk_from_Some visit_child_def is_text_def append_text_def empty_text_def)
  have color: "color_of bold_store 1 = None"
    by (simp add: color_of_def get_attr_def find_attr_def)
  have "walk_from bold_store (Some 1) empty_text =
      Some \<lparr>at_text = ''x '', at_runs = [\<lparr>run_start = 0, run_end = 2, run_data = TextStyle Bold\<rparr>]\<rparr>"
    using inner color b
    by (simp add: walk_from_Some [of _ "Suc 0"] visit_child_def close_inline_def style_of_def int_of_size_id is_text_def is_element_def
        empty_text_def Let_def)
  then show ?thesis
    by (simp add: from_html_element_def walk_def tidy_end_def drop_back_def)
qed

section \<open>Colour values\<close>

text \<open>CSS hex colours: three or four digits stand for themselves doubled, a missing alpha is opaque.\<close>

fun hex_pairs :: "bytes \<Rightarrow> 8 word list" where
  "hex_pairs (a # b # r) = word_of_int (css_hex_digit a * 16 + css_hex_digit b) # hex_pairs r"
| "hex_pairs r = []"

definition css_bytes :: "bytes \<Rightarrow> 8 word list" where
  "css_bytes v =
     hex_pairs (if length v \<le> 4 then concat (map (\<lambda>h. [h, h]) v) else v) @ (if length v \<in> {3, 6} then [255] else [])"

definition color_bytes :: "text_color \<Rightarrow> 8 word list" where
  "color_bytes c = [tc_red c, tc_green c, tc_blue c, tc_alpha c]"

lemma color_bytes_eq [simp]:
  "color_bytes c = [r, g, b, a] \<longleftrightarrow> c = \<lparr>tc_red = r, tc_green = g, tc_blue = b, tc_alpha = a\<rparr>"
  by (cases c) (simp add: color_bytes_def)

lemma color_value_hash:
  assumes "css_trim s = CHR ''#'' # v"
  shows "color_value s = Some c \<longleftrightarrow>
     length v \<in> {3, 4, 6, 8} \<and> (\<forall>h \<in> set v. 0 \<le> css_hex_digit h) \<and> color_bytes c = css_bytes v"
proof -
  consider "length v = 3" | "length v = 4" | "length v = 6" | "length v = 8" | "length v \<notin> {3, 4, 6, 8}" by blast
  then show ?thesis
  proof cases
    case 1
    then obtain x y z where v: "v = [x, y, z]" by (auto simp: numeral_eq_Suc length_Suc_conv)
    show ?thesis
      by (auto simp: color_value_def assms v color_component_def css_bytes_def not_less Let_def split: if_splits)
  next
    case 2
    then obtain x y z w where v: "v = [x, y, z, w]" by (auto simp: numeral_eq_Suc length_Suc_conv)
    show ?thesis
      by (auto simp: color_value_def assms v color_component_def css_bytes_def not_less Let_def split: if_splits)
  next
    case 3
    then obtain a b c d e f where v: "v = [a, b, c, d, e, f]" by (auto simp: numeral_eq_Suc length_Suc_conv)
    show ?thesis
      by (auto simp: color_value_def assms v color_component_def css_bytes_def not_less Let_def numeral_eq_Suc split: if_splits)
  next
    case 4
    then obtain a b c d e f g h where v: "v = [a, b, c, d, e, f, g, h]" by (auto simp: numeral_eq_Suc length_Suc_conv)
    show ?thesis
      by (auto simp: color_value_def assms v color_component_def css_bytes_def not_less Let_def numeral_eq_Suc split: if_splits)
  next
    case 5
    then show ?thesis by (auto simp: color_value_def assms)
  qed
qed

lemma color_value_None: "(\<forall>v. css_trim s \<noteq> CHR ''#'' # v) \<Longrightarrow> color_value s = None"
  by (auto simp: color_value_def split: list.splits)

text \<open>A colour value is recognised exactly when, white space around it aside, it is a \<open>#\<close> followed by
  three, four, six or eight hexadecimal digits, and it is the colour CSS gives such a value: short
  forms double their digits, and without an alpha the colour is opaque.\<close>

theorem color_value_is_css:
  "color_value s = Some c \<longleftrightarrow>
     (\<exists>v. css_trim s = CHR ''#'' # v \<and> length v \<in> {3, 4, 6, 8} \<and> list_all (\<lambda>h. 0 \<le> css_hex_digit h) v \<and>
        color_bytes c = css_bytes v)"
proof (cases "\<exists>v. css_trim s = CHR ''#'' # v")
  case True
  then show ?thesis using color_value_hash unfolding list_all_iff by force
next
  case False
  then show ?thesis using color_value_None unfolding list_all_iff by force
qed

end
