(* ===== verification/Html_Handles.thy ===== *)
theory Html_Handles
  imports Prelude
begin

text \<open>
  \<open>src/html/CompiledSelector.cpp\<close>, \<open>src/html/HTMLParser.cpp\<close> and \<open>src/html/HTMLDocument.cpp\<close>: four classes that
  each own one object of the lexbor library through a plain pointer, and what they compute with it. An
  object is a number, null is \<open>None\<close>, and \<open>cw_live\<close> are the objects lexbor has not been told to destroy.
\<close>

section \<open>Owning handles\<close>

text \<open>A variable of a class is alive with its pointer, or not alive (\<open>None\<close>).\<close>

record c_world =
  cw_vars :: "nat \<Rightarrow> nat option option"
  cw_live :: "nat set"
  cw_next :: nat
  cw_double_free :: bool

definition empty_world :: c_world where
  "empty_world = \<lparr>cw_vars = (\<lambda>_. None), cw_live = {}, cw_next = 0, cw_double_free = False\<rparr>"

definition pointer_of :: "c_world \<Rightarrow> nat \<Rightarrow> nat option" where
  "pointer_of w v = Option.bind (cw_vars w v) (\<lambda>p. p)"

text \<open>The destroy function of lexbor, behind the null check all four classes make.\<close>

definition release :: "nat option \<Rightarrow> c_world \<Rightarrow> c_world" where
  "release p w =
     (case p of
        None \<Rightarrow> w
      | Some a \<Rightarrow> if a \<in> cw_live w then w\<lparr>cw_live := cw_live w - {a}\<rparr> else w\<lparr>cw_double_free := True\<rparr>)"

definition set_pointer :: "nat \<Rightarrow> nat option \<Rightarrow> c_world \<Rightarrow> c_world" where
  "set_pointer v p w = w\<lparr>cw_vars := (cw_vars w)(v := Some p)\<rparr>"

text \<open>Construction from what lexbor returned: a fresh object, or null.\<close>

definition acquire :: "bool \<Rightarrow> nat \<Rightarrow> c_world \<Rightarrow> c_world" where
  "acquire created v w =
     (if created
      then (set_pointer v (Some (cw_next w)) w)\<lparr>cw_live := insert (cw_next w) (cw_live w), cw_next := Suc (cw_next w)\<rparr>
      else set_pointer v None w)"

text \<open>The move constructors: \<open>std::exchange\<close> leaves null behind.\<close>

definition move_construct :: "nat \<Rightarrow> nat \<Rightarrow> c_world \<Rightarrow> c_world" where
  "move_construct v u w = set_pointer u None (set_pointer v (pointer_of w u) w)"

text \<open>The move assignments of \<open>CompiledSelector\<close> and \<open>SelectorCompiler\<close> release what the target held.\<close>

definition selector_move_assign :: "nat \<Rightarrow> nat \<Rightarrow> c_world \<Rightarrow> c_world" where
  "selector_move_assign v u w =
     (if u = v then w else set_pointer u None (set_pointer v (pointer_of w u) (release (pointer_of w v) w)))"

text \<open>The move assignments of \<open>HTMLParser\<close> and \<open>HTMLDocument\<close> overwrite it.\<close>

definition document_move_assign :: "nat \<Rightarrow> nat \<Rightarrow> c_world \<Rightarrow> c_world" where
  "document_move_assign v u w =
     (if u = v then w else set_pointer u None (set_pointer v (pointer_of w u) w))"

definition destruct :: "nat \<Rightarrow> c_world \<Rightarrow> c_world" where
  "destruct v w = (release (pointer_of w v) w)\<lparr>cw_vars := (cw_vars w)(v := None)\<rparr>"

abbreviation alive :: "c_world \<Rightarrow> nat \<Rightarrow> bool" where
  "alive w v \<equiv> cw_vars w v \<noteq> None"

text \<open>What a program does with the variables of one class, whose move assignment is \<open>assign\<close>.\<close>

inductive handle_reachable :: "(nat \<Rightarrow> nat \<Rightarrow> c_world \<Rightarrow> c_world) \<Rightarrow> c_world \<Rightarrow> bool" for assign where
  no_handle: "handle_reachable assign empty_world"
| constructed: "handle_reachable assign w \<Longrightarrow> \<not> alive w v \<Longrightarrow> handle_reachable assign (acquire created v w)"
| move_constructed: "handle_reachable assign w \<Longrightarrow> \<not> alive w v \<Longrightarrow> alive w u \<Longrightarrow> handle_reachable assign (move_construct v u w)"
| move_assigned: "handle_reachable assign w \<Longrightarrow> alive w v \<Longrightarrow> alive w u \<Longrightarrow> handle_reachable assign (assign v u w)"
| destructed: "handle_reachable assign w \<Longrightarrow> alive w v \<Longrightarrow> handle_reachable assign (destruct v w)"

section \<open>The contract\<close>

definition owned :: "c_world \<Rightarrow> nat set" where
  "owned w = {a. \<exists>v. cw_vars w v = Some (Some a)}"

text \<open>No object has two owners, every owner's object lives, and nothing was destroyed twice.\<close>

definition handles_ok :: "c_world \<Rightarrow> bool" where
  "handles_ok w \<longleftrightarrow>
     (\<forall>v u a. cw_vars w v = Some (Some a) \<longrightarrow> cw_vars w u = Some (Some a) \<longrightarrow> v = u) \<and>
     owned w \<subseteq> cw_live w \<and> (\<forall>a \<in> cw_live w. a < cw_next w) \<and> \<not> cw_double_free w"

lemma handles_okI:
  assumes "\<And>v u a. cw_vars w v = Some (Some a) \<Longrightarrow> cw_vars w u = Some (Some a) \<Longrightarrow> v = u"
    and "\<And>v a. cw_vars w v = Some (Some a) \<Longrightarrow> a \<in> cw_live w" and "\<And>a. a \<in> cw_live w \<Longrightarrow> a < cw_next w" and "\<not> cw_double_free w"
  shows "handles_ok w"
  unfolding handles_ok_def owned_def using assms by blast

lemma handles_okD:
  assumes "handles_ok w"
  shows "cw_vars w v = Some (Some a) \<Longrightarrow> cw_vars w u = Some (Some a) \<Longrightarrow> v = u"
    and "cw_vars w v = Some (Some a) \<Longrightarrow> a \<in> cw_live w" and "a \<in> cw_live w \<Longrightarrow> a < cw_next w" and "\<not> cw_double_free w"
  using assms unfolding handles_ok_def owned_def by blast+

lemma handles_ok_empty: "handles_ok empty_world"
  by (simp add: handles_ok_def empty_world_def owned_def)

lemma handles_ok_release:
  assumes "handles_ok w" "cw_vars w v = Some p" "q = None \<or> q = Some None"
  shows "handles_ok ((release p w)\<lparr>cw_vars := (cw_vars w)(v := q)\<rparr>)"
proof (cases p)
  case None
  then show ?thesis using assms(3) by (intro handles_okI) (auto simp: release_def handles_okD(4) [OF assms(1)] split: if_splits dest: handles_okD(1-3) [OF assms(1)])
next
  case (Some a)
  then have a: "a \<in> cw_live w" "\<And>u. cw_vars w u = Some (Some a) \<Longrightarrow> u = v"
    using assms by (auto dest: handles_okD)
  then show ?thesis using Some assms(3)
    by (intro handles_okI) (auto simp: release_def handles_okD(4) [OF assms(1)] split: if_splits dest: handles_okD(1-3) [OF assms(1)])
qed

lemma handles_ok_acquire:
  assumes ok: "handles_ok w"
  shows "handles_ok (acquire created v w)"
proof (rule handles_okI)
  have fresh: "cw_vars w u \<noteq> Some (Some (cw_next w))" for u
    using handles_okD(2,3) [OF ok] by blast
  show "x = u" if "cw_vars (acquire created v w) x = Some (Some a)" "cw_vars (acquire created v w) u = Some (Some a)" for x u a
    using that fresh handles_okD(1) [OF ok] by (auto simp: acquire_def set_pointer_def split: if_splits)
  show "a \<in> cw_live (acquire created v w)" if "cw_vars (acquire created v w) x = Some (Some a)" for x a
    using that handles_okD(2) [OF ok] by (auto simp: acquire_def set_pointer_def split: if_splits)
  show "a < cw_next (acquire created v w)" if "a \<in> cw_live (acquire created v w)" for a
    using that handles_okD(3) [OF ok] by (auto simp: acquire_def set_pointer_def less_Suc_eq split: if_splits)
qed (use handles_okD(4) [OF ok] in \<open>simp add: acquire_def set_pointer_def\<close>)

text \<open>Handing the pointer of one variable to another that owns nothing.\<close>

lemma handles_ok_transfer:
  assumes ok: "handles_ok w" and empty: "pointer_of w v = None" and "alive w u" "v \<noteq> u"
  shows "handles_ok (set_pointer u None (set_pointer v (pointer_of w u) w))"
    "owned (set_pointer u None (set_pointer v (pointer_of w u) w)) = owned w"
proof -
  let ?w = "set_pointer u None (set_pointer v (pointer_of w u) w)"
  have vars: "cw_vars ?w x = Some (Some a) \<longleftrightarrow> (if x = u then False else if x = v then cw_vars w u = Some (Some a) else cw_vars w x = Some (Some a))" for x a
    using assms(3) by (auto simp: set_pointer_def pointer_of_def)
  show "handles_ok ?w"
  proof (rule handles_okI)
    show "x = y" if "cw_vars ?w x = Some (Some a)" "cw_vars ?w y = Some (Some a)" for x y a
      using that assms(4) unfolding vars by (metis handles_okD(1) [OF ok])
    show "a \<in> cw_live ?w" if "cw_vars ?w x = Some (Some a)" for x a
      using that handles_okD(2) [OF ok] unfolding vars by (simp add: set_pointer_def split: if_splits)
    show "a < cw_next ?w" if "a \<in> cw_live ?w" for a
      using that handles_okD(3) [OF ok] by (simp add: set_pointer_def)
  qed (use handles_okD(4) [OF ok] in \<open>simp add: set_pointer_def\<close>)
  have "cw_vars w v \<noteq> Some (Some a)" for a using empty by (auto simp: pointer_of_def)
  then show "owned ?w = owned w" using assms(4) unfolding owned_def vars by auto metis
qed

lemma pointer_of_alive: "alive w v \<Longrightarrow> cw_vars w v = Some (pointer_of w v)"
  by (auto simp: pointer_of_def)

lemma owned_release:
  assumes "handles_ok w" "alive w v" "q = None \<or> q = Some None"
  shows "owned ((release (pointer_of w v) w)\<lparr>cw_vars := (cw_vars w)(v := q)\<rparr>) = owned w - set_option (pointer_of w v)"
    and "cw_live ((release (pointer_of w v) w)\<lparr>cw_vars := (cw_vars w)(v := q)\<rparr>) = cw_live w - set_option (pointer_of w v)"
proof -
  have here: "cw_vars w v = Some (pointer_of w v)" using assms(2) by (rule pointer_of_alive)
  show "cw_live ((release (pointer_of w v) w)\<lparr>cw_vars := (cw_vars w)(v := q)\<rparr>) = cw_live w - set_option (pointer_of w v)"
    using handles_okD(2) [OF assms(1)] here by (cases "pointer_of w v") (auto simp: release_def)
  show "owned ((release (pointer_of w v) w)\<lparr>cw_vars := (cw_vars w)(v := q)\<rparr>) = owned w - set_option (pointer_of w v)"
  proof (rule set_eqI)
    fix a
    have vars: "cw_vars ((release (pointer_of w v) w)\<lparr>cw_vars := (cw_vars w)(v := q)\<rparr>) u = Some (Some a) \<longleftrightarrow>
        u \<noteq> v \<and> cw_vars w u = Some (Some a)" for u
      using assms(3) by auto
    have "(\<exists>u. u \<noteq> v \<and> cw_vars w u = Some (Some a)) \<longleftrightarrow> (\<exists>u. cw_vars w u = Some (Some a)) \<and> pointer_of w v \<noteq> Some a"
      using here by (metis handles_okD(1) [OF assms(1)] option.inject)
    then show "a \<in> owned ((release (pointer_of w v) w)\<lparr>cw_vars := (cw_vars w)(v := q)\<rparr>) \<longleftrightarrow>
        a \<in> owned w - set_option (pointer_of w v)"
      unfolding owned_def mem_Collect_eq vars by simp
  qed
qed

lemma owned_acquire:
  assumes "\<not> alive w v"
  shows "owned (acquire created v w) = owned w \<union> (if created then {cw_next w} else {})"
proof (rule set_eqI)
  fix a
  have vars: "cw_vars (acquire created v w) u = Some (Some a) \<longleftrightarrow>
      (if u = v then created \<and> a = cw_next w else cw_vars w u = Some (Some a))" for u
    by (auto simp: acquire_def set_pointer_def)
  show "a \<in> owned (acquire created v w) \<longleftrightarrow> a \<in> owned w \<union> (if created then {cw_next w} else {})"
    unfolding owned_def mem_Collect_eq vars using assms by (cases created) (auto, (metis option.distinct(1))+)
qed

lemma live_acquire: "cw_live (acquire created v w) = cw_live w \<union> (if created then {cw_next w} else {})"
  by (simp add: acquire_def set_pointer_def)

text \<open>A class whose move assignment keeps every object with one owner, and one that also loses none.\<close>

locale handle_class =
  fixes assign :: "nat \<Rightarrow> nat \<Rightarrow> c_world \<Rightarrow> c_world"
  assumes assign_ok: "handles_ok w \<Longrightarrow> alive w v \<Longrightarrow> alive w u \<Longrightarrow> handles_ok (assign v u w)"
begin

lemma handles_reachable_ok: "handle_reachable assign w \<Longrightarrow> handles_ok w"
proof (induction rule: handle_reachable.induct)
  case (move_constructed w v u)
  then have "pointer_of w v = None" "v \<noteq> u" by (auto simp: pointer_of_def)
  with move_constructed show ?case unfolding move_construct_def by (blast intro: handles_ok_transfer)
next
  case (destructed w v)
  then show ?case unfolding destruct_def
    by (intro handles_ok_release) (simp_all add: pointer_of_alive)
qed (simp_all add: handles_ok_empty handles_ok_acquire assign_ok)

end

locale leak_free_class = handle_class +
  assumes assign_keeps: "handles_ok w \<Longrightarrow> alive w v \<Longrightarrow> alive w u \<Longrightarrow> cw_live w \<subseteq> owned w \<Longrightarrow> cw_live (assign v u w) \<subseteq> owned (assign v u w)"
begin

lemma handles_reachable_owned: "handle_reachable assign w \<Longrightarrow> cw_live w = owned w"
proof -
  assume reach: "handle_reachable assign w"
  then have "cw_live w \<subseteq> owned w"
  proof (induction rule: handle_reachable.induct)
    case no_handle
    show ?case by (simp add: empty_world_def)
  next
    case (constructed w v created)
    then show ?case by (auto simp: owned_acquire live_acquire)
  next
    case (move_constructed w v u)
    then have "pointer_of w v = None" "v \<noteq> u" by (auto simp: pointer_of_def)
    from handles_ok_transfer(2) [OF handles_reachable_ok [OF move_constructed.hyps(1)] this(1) move_constructed.hyps(3) this(2)]
    show ?case using move_constructed.IH by (simp add: move_construct_def set_pointer_def)
  next
    case (destructed w v)
    then show ?case
      using owned_release [OF handles_reachable_ok [OF destructed.hyps(1)] destructed.hyps(2), of None] by (auto simp: destruct_def)
  qed (use assign_keeps handles_reachable_ok in blast)
  then show ?thesis using handles_reachable_ok [OF reach] by (auto simp: handles_ok_def)
qed

lemma nothing_left: "handle_reachable assign w \<Longrightarrow> (\<And>v. \<not> alive w v) \<Longrightarrow> cw_live w = {}"
  using handles_reachable_owned by (simp add: owned_def)

end

section \<open>The classes\<close>

lemma set_pointer_release:
  assumes "alive w v"
  shows "set_pointer v p (release q w) = set_pointer v p ((release q w)\<lparr>cw_vars := (cw_vars w)(v := Some None)\<rparr>)"
  by (auto simp: set_pointer_def release_def split: option.splits)

lemma selector_assign_facts:
  assumes "handles_ok w" "alive w v" "alive w u"
  shows "handles_ok (selector_move_assign v u w) \<and>
    (cw_live w \<subseteq> owned w \<longrightarrow> cw_live (selector_move_assign v u w) \<subseteq> owned (selector_move_assign v u w))"
proof (cases "u = v")
  case False
  let ?w = "(release (pointer_of w v) w)\<lparr>cw_vars := (cw_vars w)(v := Some None)\<rparr>"
  have ok: "handles_ok ?w" using assms(1,2) by (intro handles_ok_release) (simp_all add: pointer_of_alive)
  have empty: "pointer_of ?w v = None" "alive ?w u" "pointer_of ?w u = pointer_of w u"
    using assms(3) False by (simp_all add: pointer_of_def)
  have moved: "selector_move_assign v u w = set_pointer u None (set_pointer v (pointer_of ?w u) ?w)"
    using False set_pointer_release [OF assms(2)] by (simp add: selector_move_assign_def empty(3))
  note transfer = handles_ok_transfer [OF ok empty(1,2) False [symmetric]]
  have "cw_live (selector_move_assign v u w) = cw_live w - set_option (pointer_of w v)"
    using owned_release(2) [OF assms(1,2), of "Some None"] by (simp add: moved set_pointer_def)
  moreover have "owned (selector_move_assign v u w) = owned w - set_option (pointer_of w v)"
    using transfer(2) owned_release(1) [OF assms(1,2), of "Some None"] by (simp add: moved)
  ultimately show ?thesis using transfer(1) moved by auto
qed (simp add: selector_move_assign_def assms(1))

lemma document_assign_ok:
  assumes ok: "handles_ok w" and alive: "alive w v" "alive w u"
  shows "handles_ok (document_move_assign v u w)"
proof (cases "u = v")
  case False
  let ?w = "set_pointer v None w"
  have "handles_ok ?w"
    using handles_okD [OF ok] by (intro handles_okI) (auto simp: set_pointer_def split: if_splits)
  moreover have "pointer_of ?w v = None" "alive ?w u" "pointer_of ?w u = pointer_of w u"
    using alive False by (simp_all add: pointer_of_def set_pointer_def)
  moreover have "document_move_assign v u w = set_pointer u None (set_pointer v (pointer_of w u) ?w)"
    using False by (simp add: document_move_assign_def set_pointer_def)
  ultimately show ?thesis using handles_ok_transfer(1) [of ?w v u] False by simp
qed (simp add: document_move_assign_def ok)

interpretation selector_handles: leak_free_class selector_move_assign
  by unfold_locales (simp_all add: selector_assign_facts)

interpretation document_handles: handle_class document_move_assign
  by unfold_locales (rule document_assign_ok)

text \<open>C29: ownership. In every program over compiled selectors, or over selector compilers, the objects of lexbor
  that live are exactly the ones a variable owns, each owned by one variable, none is destroyed twice,
  and when the last variable is gone nothing is left. Over documents and over parsers nothing is
  destroyed twice or used after it was destroyed either. But a move assignment to one that holds an
  object forgets the object: a program of two documents leaves one behind for good.\<close>

theorem handle_ownership:
  "(handle_reachable selector_move_assign w \<longrightarrow> handles_ok w \<and> cw_live w = owned w \<and> ((\<forall>v. \<not> alive w v) \<longrightarrow> cw_live w = {})) \<and>
   (handle_reachable document_move_assign w \<longrightarrow> handles_ok w) \<and>
   (\<exists>w'. handle_reachable document_move_assign w' \<and> (\<forall>v. \<not> alive w' v) \<and> cw_live w' \<noteq> {})"
proof (intro conjI impI allI)
  let ?two = "acquire True 1 (acquire True 0 empty_world)"
  let ?moved = "document_move_assign 0 1 ?two"
  let ?gone = "destruct 0 (destruct 1 ?moved)"
  have vars: "cw_vars ?two = (\<lambda>_. None)(0 := Some (Some 0), 1 := Some (Some 1))" "cw_live ?two = {0, 1}"
    by (auto simp: acquire_def set_pointer_def empty_world_def)
  then have moved: "cw_vars ?moved = (\<lambda>_. None)(0 := Some (Some 1), 1 := Some None)" "cw_live ?moved = {0, 1}"
    by (auto simp: document_move_assign_def set_pointer_def pointer_of_def)
  then have half: "cw_vars (destruct 1 ?moved) = (\<lambda>_. None)(0 := Some (Some 1))" "cw_live (destruct 1 ?moved) = {0, 1}"
    by (auto simp: destruct_def release_def pointer_of_def)
  then have "cw_vars ?gone = (\<lambda>_. None)" "cw_live ?gone = {0}"
    by (auto simp: destruct_def [of 0] release_def pointer_of_def)
  moreover have "handle_reachable document_move_assign ?two"
    by (intro handle_reachable.constructed handle_reachable.no_handle) (auto simp: acquire_def set_pointer_def empty_world_def)
  then have "handle_reachable document_move_assign ?gone"
    using vars moved half by (intro handle_reachable.destructed handle_reachable.move_assigned) auto
  ultimately show "\<exists>w'. handle_reachable document_move_assign w' \<and> (\<forall>v. \<not> alive w' v) \<and> cw_live w' \<noteq> {}"
    by (intro exI [of _ ?gone]) simp
qed (simp_all add: selector_handles.handles_reachable_ok selector_handles.handles_reachable_owned document_handles.handles_reachable_ok owned_def)

theorem handle_ownership_witness:
  "cw_live (destruct 0 (acquire True 0 empty_world)) = {}"
proof -
  let ?w = "destruct 0 (acquire True 0 empty_world)"
  have "handle_reachable selector_move_assign ?w"
    by (intro handle_reachable.destructed handle_reachable.constructed handle_reachable.no_handle)
      (auto simp: acquire_def set_pointer_def empty_world_def)
  moreover have "\<forall>v. \<not> alive ?w v"
    by (auto simp: destruct_def acquire_def set_pointer_def empty_world_def)
  ultimately show ?thesis using handle_ownership [of ?w] by blast
qed

end
