(* ===== verification/Html_Document.thy ===== *)
theory Html_Document
  imports Dom_Search Html_Handles
begin

text \<open>
  \<open>src/html/HTMLParser.cpp\<close>, \<open>src/html/CompiledSelector.cpp\<close> and \<open>src/html/HTMLDocument.cpp\<close>: parsing a
  text and compiling a selector, which hand an object of lexbor to its owner or report an error, and
  the root element of a document, on which its queries run. What lexbor makes of a text is a
  parameter: whether it returned an object, and whether its status is OK.
\<close>

section \<open>Parsing and compiling\<close>

record lxb_answer =
  lxb_created :: bool
  lxb_status_ok :: bool

text \<open>The byte order mark that \<open>try_parse\<close> drops, when it is asked to.\<close>

definition utf8_bom :: bytes where
  "utf8_bom = map char_of [0xEF :: nat, 0xBB, 0xBF]"

definition parsed_text :: "bytes \<Rightarrow> bool \<Rightarrow> bytes" where
  "parsed_text input remove_bom = (if remove_bom \<and> take 3 input = utf8_bom then drop 3 input else input)"

text \<open>\<open>parse_selector\<close> and the parse of a document end alike: a partial object is destroyed on failure.\<close>

definition keep_if_ok :: "lxb_answer \<Rightarrow> c_world \<Rightarrow> nat option \<times> c_world" where
  "keep_if_ok answer w =
     (let p = (if lxb_created answer then Some (cw_next w) else None);
          w' = (if lxb_created answer
                then w\<lparr>cw_live := insert (cw_next w) (cw_live w), cw_next := Suc (cw_next w)\<rparr> else w)
      in if \<not> lxb_created answer \<or> \<not> lxb_status_ok answer then (None, release p w') else (p, w'))"

datatype html_error = HTMLParseError bytes | SelectorParseError bytes

text \<open>The result is built in variable \<open>v\<close>.\<close>

definition try_parse :: "(bytes \<Rightarrow> lxb_answer) \<Rightarrow> bytes \<Rightarrow> bool \<Rightarrow> nat \<Rightarrow> c_world \<Rightarrow> (html_error + nat) \<times> c_world" where
  "try_parse lexbor input remove_bom v w =
     (case keep_if_ok (lexbor (parsed_text input remove_bom)) w of
        (None, w') \<Rightarrow> (Inl (HTMLParseError ''Failed to parse HTML''), w')
      | (Some a, w') \<Rightarrow> (Inr v, set_pointer v (Some a) w'))"

definition parse_selector :: "(bytes \<Rightarrow> lxb_answer) \<Rightarrow> bool \<Rightarrow> bytes \<Rightarrow> c_world \<Rightarrow> nat option \<times> c_world" where
  "parse_selector lexbor has_parser selector w = (if \<not> has_parser then (None, w) else keep_if_ok (lexbor selector) w)"

definition try_compile :: "(bytes \<Rightarrow> lxb_answer) \<Rightarrow> bool \<Rightarrow> bytes \<Rightarrow> nat \<Rightarrow> c_world \<Rightarrow> (html_error + nat) \<times> c_world" where
  "try_compile lexbor has_parser selector v w =
     (case parse_selector lexbor has_parser selector w of
        (None, w') \<Rightarrow> (Inl (SelectorParseError (''invalid CSS selector: '' @ selector)), w')
      | (Some a, w') \<Rightarrow> (Inr v, set_pointer v (Some a) w'))"

text \<open>\<open>SelectorCompiler\<close>: a parser that cannot be initialised is destroyed and left null.\<close>

definition new_compiler :: "lxb_answer \<Rightarrow> nat \<Rightarrow> c_world \<Rightarrow> c_world" where
  "new_compiler answer v w = (case keep_if_ok answer w of (p, w') \<Rightarrow> set_pointer v p w')"

lemma keep_if_ok_cases:
  assumes "handles_ok w"
  shows "keep_if_ok answer w =
    (if lxb_created answer \<and> lxb_status_ok answer
     then (Some (cw_next w), w\<lparr>cw_live := insert (cw_next w) (cw_live w), cw_next := Suc (cw_next w)\<rparr>)
     else (None, if lxb_created answer then w\<lparr>cw_next := Suc (cw_next w)\<rparr> else w))"
proof -
  have "cw_next w \<notin> cw_live w" using handles_okD(3) [OF assms] by blast
  then show ?thesis by (auto simp: keep_if_ok_def release_def Let_def)
qed

lemma handles_ok_skip: "handles_ok w \<Longrightarrow> handles_ok (w\<lparr>cw_next := Suc (cw_next w)\<rparr>)"
  by (auto simp: handles_ok_def owned_def)

lemma set_pointer_acquire:
  "set_pointer v (Some (cw_next w)) (w\<lparr>cw_live := insert (cw_next w) (cw_live w), cw_next := Suc (cw_next w)\<rparr>) = acquire True v w"
  by (simp add: acquire_def set_pointer_def)

lemmas keep_defs = try_parse_def try_compile_def parse_selector_def set_pointer_acquire

section \<open>The document\<close>

text \<open>\<open>HTMLDocument::as_element\<close>; the result is \<open>None\<close> where the code dereferences null.\<close>

definition document_element :: "store \<Rightarrow> addr \<Rightarrow> pointer option" where
  "document_element d doc =
     (case n_first_child (d doc) of
        None \<Rightarrow> None
      | Some a \<Rightarrow> Some (if n_kind (d a) = DoctypeNode then n_next (d a) else Some a))"

definition document_query :: "'sel selector_engine \<Rightarrow> store \<Rightarrow> addr \<Rightarrow> 'sel option \<Rightarrow> pointer option" where
  "document_query engine d doc selector = map_option (\<lambda>e. query engine e selector) (document_element d doc)"

definition document_query_all :: "'sel selector_engine \<Rightarrow> store \<Rightarrow> addr \<Rightarrow> 'sel option \<Rightarrow> addr list option" where
  "document_query_all engine d doc selector = map_option (\<lambda>e. query_all engine e selector) (document_element d doc)"

text \<open>The title, of which lexbor gives null when there is none.\<close>

definition document_title :: "bytes option \<Rightarrow> bytes" where
  "document_title t = (case t of None \<Rightarrow> [] | Some name \<Rightarrow> name)"

text \<open>
  The children of a parsed document: lexbor puts comments and at most one doctype before the one
  element, and comments behind it.
\<close>

definition parsed_document :: "store \<Rightarrow> addr \<Rightarrow> dtree list \<Rightarrow> dtree \<Rightarrow> dtree list \<Rightarrow> bool" where
  "parsed_document d doc before html after \<longleftrightarrow>
     tree_at d (DNode doc (before @ html # after)) \<and> is_element d (root_of html) \<and>
     list_all (\<lambda>t. n_kind (d (root_of t)) \<in> {DoctypeNode, OtherNode}) before \<and>
     length (filter (\<lambda>t. n_kind (d (root_of t)) = DoctypeNode) before) \<le> 1"

lemma document_element_parsed:
  assumes "parsed_document d doc before html after"
  shows "document_element d doc =
    Some (case before of
       [] \<Rightarrow> Some (root_of html)
     | t # ts \<Rightarrow> if n_kind (d (root_of t)) = DoctypeNode then head_of (ts @ [html]) else Some (root_of t))"
proof -
  have first: "n_first_child (d doc) = head_of (before @ html # after)" and links: "linked_list d doc None (before @ html # after)"
    and elem: "n_kind (d (root_of html)) = Element"
    using assms by (simp_all add: parsed_document_def tree_at_def is_element_def)
  show ?thesis
  proof (cases before)
    case Nil
    then show ?thesis using first elem by (simp add: document_element_def)
  next
    case (Cons t ts)
    then have "n_next (d (root_of t)) = head_of (ts @ html # after)" using links by simp
    also have "\<dots> = head_of (ts @ [html])" by (cases ts) simp_all
    finally show ?thesis using first Cons by (simp add: document_element_def)
  qed
qed

lemma document_element_not_html:
  assumes "parsed_document d doc before html after"
    and "\<not> (before = [] \<or> (\<exists>t. before = [t] \<and> n_kind (d (root_of t)) = DoctypeNode))"
  shows "\<exists>t \<in> set before. document_element d doc = Some (Some (root_of t))"
proof (cases before)
  case (Cons t ts)
  then show ?thesis using assms by (cases ts) (auto simp: document_element_parsed [OF assms(1)])
qed (use assms(2) in simp)

lemma document_element_html:
  assumes "parsed_document d doc before html after"
    and "before = [] \<or> (\<exists>t. before = [t] \<and> n_kind (d (root_of t)) = DoctypeNode)"
  shows "document_element d doc = Some (Some (root_of html))"
  using assms(2) by (auto simp: document_element_parsed [OF assms(1)])

section \<open>Attributes\<close>

text \<open>
  \<open>src/html/DOMAttributes.cpp\<close>: the iterator over the attribute links of an element. Moving it from null is
  undefined, \<open>None\<close> here.
\<close>

record attr_node =
  a_name :: bytes
  a_value :: bytes
  a_next :: pointer
  a_prev :: pointer

type_synonym attr_store = "addr \<Rightarrow> attr_node"

text \<open>An element is its first attribute here, and a null view has none.\<close>

definition attrs_begin :: "pointer option \<Rightarrow> pointer" where
  "attrs_begin element = (case element of None \<Rightarrow> None | Some first_attr \<Rightarrow> first_attr)"

definition attrs_end :: pointer where
  "attrs_end = None"

definition attr_incr :: "attr_store \<Rightarrow> pointer \<Rightarrow> pointer option" where
  "attr_incr d p = map_option (\<lambda>a. a_next (d a)) p"

definition attr_decr :: "attr_store \<Rightarrow> pointer \<Rightarrow> pointer option" where
  "attr_decr d p = map_option (\<lambda>a. a_prev (d a)) p"

definition attr_at :: "attr_store \<Rightarrow> addr \<Rightarrow> bytes \<times> bytes" where
  "attr_at d a = (a_name (d a), a_value (d a))"

text \<open>A range-for over \<open>attributes()\<close>, from a position on.\<close>

partial_function (option) attrs_walk :: "attr_store \<Rightarrow> pointer \<Rightarrow> (bytes \<times> bytes) list option" where
  "attrs_walk d p =
     (case p of
        None \<Rightarrow> Some []
      | Some a \<Rightarrow> Option.bind (attr_incr d p) (\<lambda>q. Option.bind (attrs_walk d q) (\<lambda>xs. Some (attr_at d a # xs))))"

definition attributes :: "attr_store \<Rightarrow> pointer option \<Rightarrow> (bytes \<times> bytes) list option" where
  "attributes d element = attrs_walk d (attrs_begin element)"

text \<open>The links of an element spell out its attributes \<open>as\<close>.\<close>

fun attrs_linked :: "attr_store \<Rightarrow> pointer \<Rightarrow> addr list \<Rightarrow> bool" where
  "attrs_linked d before [] \<longleftrightarrow> True"
| "attrs_linked d before (a # as) \<longleftrightarrow> a_next (d a) = ptr as \<and> a_prev (d a) = before \<and> attrs_linked d (Some a) as"

lemma attrs_walk_linked: "attrs_linked d before as \<Longrightarrow> attrs_walk d (ptr as) = Some (map (attr_at d) as)"
proof (induction as arbitrary: before)
  case Nil
  show ?case by (simp add: attrs_walk.simps)
next
  case (Cons a as)
  then show ?case using Cons.IH [of "Some a"] by (simp add: attrs_walk.simps [of d "Some _"] attr_incr_def)
qed

lemma attr_steps_linked:
  "attrs_linked d before (xs @ a # b # ys) \<Longrightarrow> attr_incr d (Some a) = Some (Some b) \<and> attr_decr d (Some b) = Some (Some a)"
  by (induction xs arbitrary: before) (simp add: attr_incr_def attr_decr_def, metis append_Cons attrs_linked.simps(2))

section \<open>Properties\<close>

text \<open>A parse and a compilation either hand one fresh object, made from the text without its byte order mark,
  to the variable they build, or report an error and leave nothing behind: no object of lexbor is
  lost, whatever lexbor answers. A failed compilation names the selector, and without a parser every
  compilation fails.\<close>

theorem html_results:
  assumes "handles_ok w"
  shows "(case try_parse lexbor input remove_bom v w of
       (Inr u, w') \<Rightarrow> u = v \<and> w' = acquire True v w \<and> lxb_status_ok (lexbor (parsed_text input remove_bom))
     | (Inl e, w') \<Rightarrow> e = HTMLParseError ''Failed to parse HTML'' \<and> cw_live w' = cw_live w \<and> owned w' = owned w) \<and>
   (case try_compile lexbor has_parser input v w of
       (Inr u, w') \<Rightarrow> u = v \<and> w' = acquire True v w \<and> has_parser \<and> lxb_status_ok (lexbor input)
     | (Inl e, w') \<Rightarrow> e = SelectorParseError (''invalid CSS selector: '' @ input) \<and> cw_live w' = cw_live w \<and> owned w' = owned w) \<and>
   handles_ok (snd (try_parse lexbor input remove_bom v w)) \<and> handles_ok (snd (try_compile lexbor has_parser input v w)) \<and>
   parsed_text (utf8_bom @ input) True = input \<and> parsed_text input False = input"
proof (intro conjI)
  have same: "owned (w\<lparr>cw_next := k\<rparr>) = owned w" for k by (simp add: owned_def)
  show "case try_parse lexbor input remove_bom v w of
       (Inr u, w') \<Rightarrow> u = v \<and> w' = acquire True v w \<and> lxb_status_ok (lexbor (parsed_text input remove_bom))
     | (Inl e, w') \<Rightarrow> e = HTMLParseError ''Failed to parse HTML'' \<and> cw_live w' = cw_live w \<and> owned w' = owned w"
    by (simp add: keep_defs keep_if_ok_cases [OF assms] same)
  show "case try_compile lexbor has_parser input v w of
       (Inr u, w') \<Rightarrow> u = v \<and> w' = acquire True v w \<and> has_parser \<and> lxb_status_ok (lexbor input)
     | (Inl e, w') \<Rightarrow> e = SelectorParseError (''invalid CSS selector: '' @ input) \<and> cw_live w' = cw_live w \<and> owned w' = owned w"
    by (simp add: keep_defs keep_if_ok_cases [OF assms] same)
  show "handles_ok (snd (try_parse lexbor input remove_bom v w))" "handles_ok (snd (try_compile lexbor has_parser input v w))"
    using handles_ok_acquire [OF assms, of True v] handles_ok_skip [OF assms]
    by (simp_all add: keep_defs keep_if_ok_cases [OF assms] assms)
qed (simp_all add: parsed_text_def utf8_bom_def)

text \<open>The queries of a document. They search below the \<open>html\<close> element where nothing, or a doctype alone, comes
  before it. Where a comment stands before or behind the doctype they search below that comment,
  which \<open>as_element\<close> takes for an element: they find nothing.\<close>

theorem document_queries:
  assumes doc: "parsed_document d doc before html after" and leaves: "\<And>t. t \<in> set before \<Longrightarrow> subtrees t = []"
    and engine: "engine_created engine" "\<And>t every. t \<in> set (before @ html # after) \<Longrightarrow>
      set (engine_reports engine every (root_of t) sel) \<subseteq> {b \<in> set (preorder t). is_element d b}"
  shows "if before = [] \<or> (\<exists>t. before = [t] \<and> n_kind (d (root_of t)) = DoctypeNode)
    then document_query_all engine d doc (Some sel) = Some (engine_reports engine True (root_of html) sel) \<and>
      document_query engine d doc (Some sel) = Some (query engine (Some (root_of html)) (Some sel))
    else document_query_all engine d doc (Some sel) = Some [] \<and> document_query engine d doc (Some sel) = Some None"
proof (cases "before = [] \<or> (\<exists>t. before = [t] \<and> n_kind (d (root_of t)) = DoctypeNode)")
  case True
  then have "document_element d doc = Some (Some (root_of html))" by (rule document_element_html [OF doc])
  then show ?thesis using True
    by (simp add: document_query_def document_query_all_def query_reports(1) [OF engine(1)])
next
  case False
  then obtain t where t: "t \<in> set before" "document_element d doc = Some (Some (root_of t))"
    using document_element_not_html [OF doc] by blast
  then have "n_kind (d (root_of t)) \<noteq> Element" using doc by (auto simp: parsed_document_def list_all_iff)
  then have "engine_reports engine every (root_of t) sel = []" for every
    using engine(2) [of t every] leaves [OF t(1)] t(1)
    by (cases t) (auto simp: is_element_def subset_iff, metis all_not_in_conv set_empty)
  then have "document_query_all engine d doc (Some sel) = Some [] \<and> document_query engine d doc (Some sel) = Some None"
    using t(2) by (simp add: document_query_def document_query_all_def query_reports [OF engine(1)])
  then show ?thesis unfolding if_not_P [OF False] .
qed

text \<open>A document with a comment, its doctype and the small tree of \<open>sample_tree\<close>.\<close>

definition commented_store :: store where
  "commented_store =
     sample_store
       (10 := blank_node\<lparr>n_first_child := Some 11\<rparr>,
        11 := blank_node\<lparr>n_next := Some 12, n_parent := Some 10\<rparr>,
        12 := blank_node\<lparr>n_kind := DoctypeNode, n_next := Some 0, n_prev := Some 11, n_parent := Some 10\<rparr>,
        0 := (sample_store 0)\<lparr>n_prev := Some 12, n_parent := Some 10\<rparr>)"

definition all_below :: "unit selector_engine" where
  "all_below = \<lparr>engine_created = True, engine_reports = (\<lambda>_ a _. if a = 0 then [0, 2, 4] else [])\<rparr>"

theorem document_queries_witness:
  "document_query_all all_below commented_store 10 (Some ()) = Some []"
proof -
  have doc: "parsed_document commented_store 10 [DNode 11 [], DNode 12 []] sample_tree []"
    by (simp add: parsed_document_def tree_at_def sample_tree_def commented_store_def sample_store_def blank_node_def is_element_def)
  have reports: "set (engine_reports all_below every (root_of t) ()) \<subseteq> {b \<in> set (preorder t). is_element commented_store b}"
    if "t \<in> set ([DNode 11 [], DNode 12 []] @ sample_tree # [])" for t every
    using that by (auto simp: all_below_def sample_tree_def commented_store_def sample_store_def blank_node_def is_element_def)
  have leaves: "subtrees t = []" if "t \<in> set [DNode 11 [], DNode 12 []]" for t using that by auto
  have made: "engine_created all_below" by (simp add: all_below_def)
  have "if [DNode 11 [], DNode 12 []] = [] \<or>
        (\<exists>t. [DNode 11 [], DNode 12 []] = [t] \<and> n_kind (commented_store (root_of t)) = DoctypeNode)
      then document_query_all all_below commented_store 10 (Some ()) = Some (engine_reports all_below True (root_of sample_tree) ()) \<and>
        document_query all_below commented_store 10 (Some ()) = Some (query all_below (Some (root_of sample_tree)) (Some ()))
      else document_query_all all_below commented_store 10 (Some ()) = Some [] \<and>
        document_query all_below commented_store 10 (Some ()) = Some None"
    by (rule document_queries [OF doc leaves made reports])
  then show ?thesis by simp
qed

text \<open>A text with a byte order mark, and a selector that is refused.\<close>

theorem html_results_witness:
  "fst (try_parse (\<lambda>_. \<lparr>lxb_created = True, lxb_status_ok = True\<rparr>) (utf8_bom @ ''<p>'') True 3 empty_world) = Inr 3 \<and>
   fst (try_compile (\<lambda>_. \<lparr>lxb_created = True, lxb_status_ok = False\<rparr>) True ''>>'' 3 empty_world)
     = Inl (SelectorParseError ''invalid CSS selector: >>'')"
  using html_results [OF handles_ok_empty, where lexbor = "\<lambda>_. \<lparr>lxb_created = True, lxb_status_ok = True\<rparr>"
      and input = "utf8_bom @ ''<p>''" and v = 3]
    html_results [OF handles_ok_empty, where lexbor = "\<lambda>_. \<lparr>lxb_created = True, lxb_status_ok = False\<rparr>" and input = "''>>''" and v = 3]
  by (simp add: keep_defs keep_if_ok_cases [OF handles_ok_empty])

end
