(* ===== verification/Session.thy ===== *)
theory Session
  imports Requests Cookies Ordered_Map
begin

text \<open>
  Parser configurations and their sessions: \<open>RequestorContext\<close>'s constructor and derivations in
  \<open>src/ClientContext.cpp\<close>, \<open>make_config\<close> and \<open>export_auth\<close> in \<open>src/Parser.cpp\<close>, and
  \<open>src/types/Authentication.cpp\<close>. Configurations and cookie jars are shared objects, so they live in
  a heap and a \<open>shared_ptr\<close> is an index into it; a context is known by the configuration it holds.
  Jars are the library's own \<open>MemoryCookieJar\<close>.
\<close>

section \<open>The heap\<close>

type_synonym config_ref = nat
type_synonym jar_ref = nat

record session_heap =
  sh_configs :: "jar_ref parser_config list"
  sh_jars :: "memory_jar list"

definition config_at :: "session_heap \<Rightarrow> config_ref \<Rightarrow> jar_ref parser_config" where
  "config_at h c = sh_configs h ! c"

definition update_config :: "config_ref \<Rightarrow> (jar_ref parser_config \<Rightarrow> jar_ref parser_config) \<Rightarrow> session_heap \<Rightarrow> session_heap" where
  "update_config c f h = h\<lparr>sh_configs := (sh_configs h)[c := f (config_at h c)]\<rparr>"

definition make_shared_config :: "jar_ref parser_config \<Rightarrow> session_heap \<Rightarrow> config_ref \<times> session_heap" where
  "make_shared_config config h = (length (sh_configs h), h\<lparr>sh_configs := sh_configs h @ [config]\<rparr>)"

definition make_shared_jar :: "session_heap \<Rightarrow> jar_ref \<times> session_heap" where
  "make_shared_jar h = (length (sh_jars h), h\<lparr>sh_jars := sh_jars h @ [\<lparr>store_ref = []\<rparr>]\<rparr>)"

definition blank_config :: "'j parser_config" where
  "blank_config =
     \<lparr>pc_headers = [], pc_url_params = [], pc_cookie_jar = None, pc_flags = 0, pc_parser_id = [], pc_alt_link = 0, pc_modifiers = []\<rparr>"

section \<open>Contexts\<close>

text \<open>
  A client either makes a fresh jar on request or answers null, which the code allows; a context
  without a client is refused.
\<close>

record client =
  makes_jars :: bool

datatype context_error = ClientHasToBeValid

definition make_cookie_jar :: "client \<Rightarrow> session_heap \<Rightarrow> jar_ref option \<times> session_heap" where
  "make_cookie_jar client h =
     (if makes_jars client then (let (j, h') = make_shared_jar h in (Some j, h')) else (None, h))"

definition provision_jar :: "client \<Rightarrow> config_ref \<Rightarrow> session_heap \<Rightarrow> session_heap" where
  "provision_jar client c h =
     (case pc_cookie_jar (config_at h c) of
        Some _ \<Rightarrow> h
      | None \<Rightarrow> (let (jar, h') = make_cookie_jar client h in update_config c (\<lambda>config. config\<lparr>pc_cookie_jar := jar\<rparr>) h'))"

definition new_context :: "client option \<Rightarrow> config_ref option \<Rightarrow> session_heap \<Rightarrow> context_error + (config_ref \<times> session_heap)" where
  "new_context client config h =
     (let (c, h') = (case config of Some c \<Rightarrow> (c, h) | None \<Rightarrow> make_shared_config blank_config h)
      in case client of
           None \<Rightarrow> Inl ClientHasToBeValid
         | Some cl \<Rightarrow> Inr (c, provision_jar cl c h'))"

definition new_with_logger :: "client option \<Rightarrow> config_ref \<Rightarrow> session_heap \<Rightarrow> context_error + (config_ref \<times> session_heap)" where
  "new_with_logger client c h = new_context client (Some c) h"

definition new_with_config :: "client option \<Rightarrow> config_ref option \<Rightarrow> session_heap \<Rightarrow> context_error + (config_ref \<times> session_heap)" where
  "new_with_config client config h = new_context client config h"

definition context_set_alt_link :: "config_ref \<Rightarrow> nat \<Rightarrow> session_heap \<Rightarrow> session_heap" where
  "context_set_alt_link c i h = update_config c (\<lambda>config. config\<lparr>pc_alt_link := i\<rparr>) h"

section \<open>Credentials\<close>

datatype auth_channel = HeaderChannel | CookieChannel | UrlParamChannel

record auth_field =
  af_key :: bytes
  af_label :: bytes
  af_channel :: auth_channel
  af_target :: bytes
  af_value_template :: bytes
  af_secret :: bool

record auth_keys =
  ak_cookies :: "bytes list"
  ak_headers :: "bytes list"
  ak_url_params :: "bytes list"

record auth_state =
  as_cookies :: "cookie list"
  as_headers :: headers
  as_url_params :: "bytes smap"
  as_alt_link :: nat

definition no_keys :: auth_keys where
  "no_keys = \<lparr>ak_cookies = [], ak_headers = [], ak_url_params = []\<rparr>"

fun add_auth_key :: "auth_keys \<Rightarrow> auth_field \<Rightarrow> auth_keys" where
  "add_auth_key keys field =
     (case af_channel field of
        HeaderChannel \<Rightarrow> keys\<lparr>ak_headers := ak_headers keys @ [af_target field]\<rparr>
      | CookieChannel \<Rightarrow> keys\<lparr>ak_cookies := ak_cookies keys @ [af_target field]\<rparr>
      | UrlParamChannel \<Rightarrow> keys\<lparr>ak_url_params := ak_url_params keys @ [af_target field]\<rparr>)"

definition auth_keys_from_fields :: "auth_field list \<Rightarrow> auth_keys" where
  "auth_keys_from_fields fs = foldl add_auth_key no_keys fs"

text \<open>
  The parts of a parser used here: its identifier, its virtual \<open>configure\<close>, and the credential
  fields of its \<open>auth_info\<close> if it declares one.
\<close>

record session_parser =
  sp_identifier :: bytes
  sp_configure :: "jar_ref parser_config \<Rightarrow> jar_ref parser_config"
  sp_auth_fields :: "auth_field list option"

definition parser_auth_keys :: "session_parser \<Rightarrow> auth_keys" where
  "parser_auth_keys p = (case sp_auth_fields p of Some fs \<Rightarrow> auth_keys_from_fields fs | None \<Rightarrow> no_keys)"

definition make_config :: "session_parser \<Rightarrow> config_ref option \<Rightarrow> session_heap \<Rightarrow> config_ref option \<times> session_heap" where
  "make_config p base h =
     (case base of
        None \<Rightarrow> (None, h)
      | Some b \<Rightarrow>
          (let config = sp_configure p ((config_at h b)\<lparr>pc_cookie_jar := None, pc_parser_id := sp_identifier p\<rparr>);
               (c, h') = make_shared_config config h
           in (Some c, h')))"

definition pick_named :: "'v smap \<Rightarrow> bytes list \<Rightarrow> 'v smap" where
  "pick_named source names =
     foldl (\<lambda>picked name. case lookup source name of Some v \<Rightarrow> om_emplace name v picked | None \<Rightarrow> picked) [] names"

definition pick_named_cookies :: "cookie list \<Rightarrow> bytes list \<Rightarrow> cookie list" where
  "pick_named_cookies cs names = filter (\<lambda>c. ck_name c \<in> set names) cs"

definition export_headers :: "headers \<Rightarrow> bytes list \<Rightarrow> headers" where
  "export_headers hs names =
     foldl (\<lambda>out name. foldl (\<lambda>out v. headers_append out name v) out (headers_get_all hs name)) [] names"

definition export_auth :: "auth_keys \<Rightarrow> session_heap \<Rightarrow> config_ref \<Rightarrow> auth_state" where
  "export_auth keys h c =
     (let config = config_at h c in
      \<lparr>as_cookies = (case pc_cookie_jar config of
           Some j \<Rightarrow> pick_named_cookies (jar_cookies (sh_jars h ! j)) (ak_cookies keys) | None \<Rightarrow> []),
       as_headers = export_headers (pc_headers config) (ak_headers keys),
       as_url_params = pick_named (pc_url_params config) (ak_url_params keys),
       as_alt_link = pc_alt_link config\<rparr>)"

definition parser_export_auth :: "session_parser \<Rightarrow> session_heap \<Rightarrow> config_ref \<Rightarrow> auth_state" where
  "parser_export_auth p h c = export_auth (parser_auth_keys p) h c"

definition set_session_cookies :: "config_ref \<Rightarrow> cookie list \<Rightarrow> session_heap \<Rightarrow> session_heap" where
  "set_session_cookies c cs h =
     (case pc_cookie_jar (config_at h c) of
        Some j \<Rightarrow> h\<lparr>sh_jars := (sh_jars h)[j := foldl jar_set_cookie (sh_jars h ! j) cs]\<rparr>
      | None \<Rightarrow> h)"

definition import_auth :: "config_ref \<Rightarrow> auth_state \<Rightarrow> session_heap \<Rightarrow> session_heap" where
  "import_auth c st h =
     update_config c (\<lambda>config. config
       \<lparr>pc_headers := foldl (\<lambda>hs (name, v). headers_set hs name v) (pc_headers config) (as_headers st),
        pc_url_params := foldl (\<lambda>ps (name, v). om_put name v ps) (pc_url_params config) (as_url_params st),
        pc_alt_link := as_alt_link st\<rparr>) (set_session_cookies c (as_cookies st) h)"

section \<open>Sessions stay apart\<close>

definition session_cookies :: "session_heap \<Rightarrow> config_ref \<Rightarrow> cookie list" where
  "session_cookies h c = (case pc_cookie_jar (config_at h c) of Some j \<Rightarrow> jar_cookies (sh_jars h ! j) | None \<Rightarrow> [])"

text \<open>Every jar reference is valid, no two configurations hold the same jar, and the jars are jars.\<close>

definition session_ok :: "session_heap \<Rightarrow> bool" where
  "session_ok h \<longleftrightarrow>
     (\<forall>c < length (sh_configs h). \<forall>j. pc_cookie_jar (config_at h c) = Some j \<longrightarrow> j < length (sh_jars h)) \<and>
     (\<forall>c < length (sh_configs h). \<forall>c' < length (sh_configs h). \<forall>j.
        pc_cookie_jar (config_at h c) = Some j \<and> pc_cookie_jar (config_at h c') = Some j \<longrightarrow> c = c') \<and>
     (\<forall>jar \<in> set (sh_jars h). jar_invar jar)"

lemma session_okI:
  assumes "\<And>c j. c < length (sh_configs h) \<Longrightarrow> pc_cookie_jar (config_at h c) = Some j \<Longrightarrow> j < length (sh_jars h)"
    and "\<And>c c' j. c < length (sh_configs h) \<Longrightarrow> c' < length (sh_configs h) \<Longrightarrow>
      pc_cookie_jar (config_at h c) = Some j \<Longrightarrow> pc_cookie_jar (config_at h c') = Some j \<Longrightarrow> c = c'"
    and "\<And>jar. jar \<in> set (sh_jars h) \<Longrightarrow> jar_invar jar"
  shows "session_ok h"
  using assms unfolding session_ok_def by blast

lemma session_okD:
  assumes "session_ok h"
  shows "c < length (sh_configs h) \<Longrightarrow> pc_cookie_jar (config_at h c) = Some j \<Longrightarrow> j < length (sh_jars h)"
    and "c < length (sh_configs h) \<Longrightarrow> c' < length (sh_configs h) \<Longrightarrow>
      pc_cookie_jar (config_at h c) = Some j \<Longrightarrow> pc_cookie_jar (config_at h c') = Some j \<Longrightarrow> c = c'"
    and "jar \<in> set (sh_jars h) \<Longrightarrow> jar_invar jar"
  using assms unfolding session_ok_def by blast+

lemma config_at_update:
  "c < length (sh_configs h) \<Longrightarrow>
     config_at (update_config c f h) k = (if k = c then f (config_at h c) else config_at h k)"
  by (auto simp: config_at_def update_config_def nth_list_update)

lemma update_config_simps [simp]:
  "length (sh_configs (update_config c f h)) = length (sh_configs h)" "sh_jars (update_config c f h) = sh_jars h"
  by (simp_all add: update_config_def)

text \<open>The changes that keep the invariant: a jarless configuration added, a configuration changed but not
  its jar, a fresh jar given to a configuration that has none, and a jar changed to another jar.\<close>

lemma session_ok_add:
  assumes ok: "session_ok h" and "pc_cookie_jar config = None"
  shows "session_ok (snd (make_shared_config config h))"
proof -
  have at: "config_at (snd (make_shared_config config h)) k = (if k < length (sh_configs h) then config_at h k else config)"
    if "k < Suc (length (sh_configs h))" for k
    using that by (auto simp: make_shared_config_def config_at_def nth_append less_Suc_eq)
  have sizes: "length (sh_configs (snd (make_shared_config config h))) = Suc (length (sh_configs h))"
    "sh_jars (snd (make_shared_config config h)) = sh_jars h"
    by (simp_all add: make_shared_config_def)
  show ?thesis
    using session_okD [OF ok] assms(2) by (intro session_okI) (auto simp: at sizes split: if_splits)
qed

lemma session_ok_update:
  assumes ok: "session_ok h" and "c < length (sh_configs h)"
    and "pc_cookie_jar (f (config_at h c)) = pc_cookie_jar (config_at h c)"
  shows "session_ok (update_config c f h)"
proof -
  have "pc_cookie_jar (config_at (update_config c f h) k) = pc_cookie_jar (config_at h k)" for k
    using assms(2,3) by (simp add: config_at_update)
  then show ?thesis using session_okD [OF ok] by (intro session_okI) auto
qed

lemma make_shared_jar_simps:
  "fst (make_shared_jar h) = length (sh_jars h)" "sh_jars (snd (make_shared_jar h)) = sh_jars h @ [\<lparr>store_ref = []\<rparr>]"
  "sh_configs (snd (make_shared_jar h)) = sh_configs h" "config_at (snd (make_shared_jar h)) k = config_at h k"
  by (simp_all add: make_shared_jar_def config_at_def)

lemma provision_jar_cases:
  "provision_jar cl c h =
     (if pc_cookie_jar (config_at h c) \<noteq> None then h
      else if makes_jars cl
      then update_config c (\<lambda>config. config\<lparr>pc_cookie_jar := Some (length (sh_jars h))\<rparr>) (snd (make_shared_jar h))
      else update_config c (\<lambda>config. config\<lparr>pc_cookie_jar := None\<rparr>) h)"
  by (simp add: provision_jar_def make_cookie_jar_def make_shared_jar_def split: option.splits)

lemma session_ok_provision:
  assumes ok: "session_ok h" and c: "c < length (sh_configs h)"
  shows "session_ok (provision_jar cl c h)"
proof (cases "pc_cookie_jar (config_at h c) \<noteq> None \<or> \<not> makes_jars cl")
  case True
  then show ?thesis using ok c by (auto simp: provision_jar_cases intro: session_ok_update)
next
  case False
  let ?h = "update_config c (\<lambda>config. config\<lparr>pc_cookie_jar := Some (length (sh_jars h))\<rparr>) (snd (make_shared_jar h))"
  have at: "pc_cookie_jar (config_at ?h k) = (if k = c then Some (length (sh_jars h)) else pc_cookie_jar (config_at h k))" for k
    using c by (simp add: config_at_update make_shared_jar_simps)
  have "session_ok ?h"
  proof (rule session_okI)
    fix k j assume "k < length (sh_configs ?h)" "pc_cookie_jar (config_at ?h k) = Some j"
    then show "j < length (sh_jars ?h)"
      using session_okD(1) [OF ok, of k j] by (auto simp: at make_shared_jar_simps split: if_splits)
  next
    fix k k' j assume "k < length (sh_configs ?h)" "k' < length (sh_configs ?h)"
      "pc_cookie_jar (config_at ?h k) = Some j" "pc_cookie_jar (config_at ?h k') = Some j"
    then show "k = k'"
      using session_okD(1) [OF ok, of k j] session_okD(1) [OF ok, of k' j] session_okD(2) [OF ok, of k k' j]
      by (auto simp: at make_shared_jar_simps split: if_splits)
  next
    fix jar assume "jar \<in> set (sh_jars ?h)"
    then show "jar_invar jar"
      using session_okD(3) [OF ok, of jar] by (auto simp: make_shared_jar_simps jar_invar_def distinct_ids_def)
  qed
  then show ?thesis using False by (simp add: provision_jar_cases)
qed

lemma jar_invar_set_cookies: "jar_invar jar \<Longrightarrow> jar_invar (foldl jar_set_cookie jar cs)"
  by (induction cs arbitrary: jar) (auto simp: jar_invar_def jar_set_cookie_def distinct_store_set)

lemma set_session_cookies_simps [simp]:
  "sh_configs (set_session_cookies c cs h) = sh_configs h" "config_at (set_session_cookies c cs h) k = config_at h k"
  "length (sh_jars (set_session_cookies c cs h)) = length (sh_jars h)"
  by (simp_all add: set_session_cookies_def config_at_def split: option.splits)

lemma session_ok_cookies:
  assumes ok: "session_ok h" and c: "c < length (sh_configs h)"
  shows "session_ok (set_session_cookies c cs h)"
proof (rule session_okI)
  fix jar assume jar: "jar \<in> set (sh_jars (set_session_cookies c cs h))"
  show "jar_invar jar"
  proof (cases "pc_cookie_jar (config_at h c)")
    case None
    then show ?thesis using jar session_okD(3) [OF ok] by (simp add: set_session_cookies_def)
  next
    case (Some j)
    then have "j < length (sh_jars h)" using session_okD(1) [OF ok c] by blast
    then have "jar_invar (sh_jars h ! j)" using session_okD(3) [OF ok] nth_mem by blast
    then have "jar_invar (foldl jar_set_cookie (sh_jars h ! j) cs)" by (rule jar_invar_set_cookies)
    moreover have "jar = foldl jar_set_cookie (sh_jars h ! j) cs \<or> jar \<in> set (sh_jars h)"
      using jar Some set_update_subset_insert by (fastforce simp: set_session_cookies_def)
    ultimately show ?thesis using session_okD(3) [OF ok] by blast
  qed
qed (use session_okD [OF ok] in auto)

lemma session_ok_import:
  assumes "session_ok h" and "c < length (sh_configs h)"
  shows "session_ok (import_auth c st h)"
  unfolding import_auth_def by (rule session_ok_update) (simp_all add: assms session_ok_cookies)

text \<open>What a parser may do in \<open>configure\<close>: anything but hand the configuration a jar.\<close>

definition jar_neutral :: "session_parser \<Rightarrow> bool" where
  "jar_neutral p \<longleftrightarrow> (\<forall>config. pc_cookie_jar config = None \<longrightarrow> pc_cookie_jar (sp_configure p config) = None)"

lemma make_config_shared:
  "make_config p (Some b) h =
     (Some (length (sh_configs h)),
      snd (make_shared_config (sp_configure p ((config_at h b)\<lparr>pc_cookie_jar := None, pc_parser_id := sp_identifier p\<rparr>)) h))"
  by (simp add: make_config_def make_shared_config_def)

text \<open>
  The heaps a host can reach: it makes blank configurations, derives configurations of parsers,
  builds contexts on them, and through a context cookies are stored, sessions restored and the
  mirror selected.
\<close>

inductive session_reachable :: "session_heap \<Rightarrow> bool" where
  reach_start: "session_reachable \<lparr>sh_configs = [], sh_jars = []\<rparr>"
| reach_blank: "session_reachable h \<Longrightarrow> session_reachable (snd (make_shared_config blank_config h))"
| reach_derive: "session_reachable h \<Longrightarrow> b < length (sh_configs h) \<Longrightarrow> jar_neutral p \<Longrightarrow>
    session_reachable (snd (make_config p (Some b) h))"
| reach_context: "session_reachable h \<Longrightarrow> \<forall>b. base = Some b \<longrightarrow> b < length (sh_configs h) \<Longrightarrow>
    new_context cl base h = Inr (c, h') \<Longrightarrow> session_reachable h'"
| reach_cookies: "session_reachable h \<Longrightarrow> c < length (sh_configs h) \<Longrightarrow> session_reachable (set_session_cookies c cs h)"
| reach_import: "session_reachable h \<Longrightarrow> c < length (sh_configs h) \<Longrightarrow> session_reachable (import_auth c st h)"
| reach_alt_link: "session_reachable h \<Longrightarrow> c < length (sh_configs h) \<Longrightarrow> session_reachable (context_set_alt_link c i h)"

lemma session_ok_context:
  assumes "session_ok h" and "\<forall>b. base = Some b \<longrightarrow> b < length (sh_configs h)" and "new_context cl base h = Inr (c, h')"
  shows "session_ok h'"
proof (cases base)
  case None
  have "c = length (sh_configs h)" and h': "h' = provision_jar (the cl) c (snd (make_shared_config blank_config h))"
    using assms(3) None by (auto simp: new_context_def make_shared_config_def split: option.splits)
  then show ?thesis
    using session_ok_add [OF assms(1), of blank_config] unfolding h'
    by (intro session_ok_provision) (simp_all add: make_shared_config_def blank_config_def)
next
  case (Some b)
  then have "c = b" "h' = provision_jar (the cl) b h"
    using assms(3) by (auto simp: new_context_def split: option.splits)
  then show ?thesis using assms Some by (simp add: session_ok_provision)
qed

lemma reachable_session_ok: "session_reachable h \<Longrightarrow> session_ok h"
proof (induction rule: session_reachable.induct)
  case reach_start
  then show ?case by (simp add: session_ok_def)
next
  case (reach_blank h)
  then show ?case by (simp add: session_ok_add blank_config_def)
next
  case (reach_derive h b p)
  then show ?case by (simp add: make_config_shared session_ok_add jar_neutral_def)
next
  case (reach_context h base cl c h')
  then show ?case by (blast intro: session_ok_context)
next
  case (reach_cookies h c cs)
  then show ?case by (simp add: session_ok_cookies)
next
  case (reach_import h c st)
  then show ?case by (simp add: session_ok_import)
next
  case (reach_alt_link h c i)
  then show ?case by (simp add: context_set_alt_link_def session_ok_update)
qed

lemma other_session_kept:
  assumes ok: "session_ok h" and "c < length (sh_configs h)" "c' < length (sh_configs h)" "c \<noteq> c'"
  shows "session_cookies (set_session_cookies c cs h) c' = session_cookies h c'"
proof -
  have "pc_cookie_jar (config_at h c) = None \<or> pc_cookie_jar (config_at h c') \<noteq> pc_cookie_jar (config_at h c)"
    using session_okD(2) [OF ok assms(2,3)] assms(4) by auto
  then show ?thesis
    by (cases "pc_cookie_jar (config_at h c)"; cases "pc_cookie_jar (config_at h c')")
      (simp_all add: session_cookies_def set_session_cookies_def config_at_def)
qed


definition plain_parser :: session_parser where
  "plain_parser = \<lparr>sp_identifier = ''p'', sp_configure = (\<lambda>config. config), sp_auth_fields = None\<rparr>"

definition two_sessions :: session_heap where
  "two_sessions =
     \<lparr>sh_configs = [blank_config\<lparr>pc_cookie_jar := Some 0\<rparr>, blank_config\<lparr>pc_parser_id := ''p'', pc_cookie_jar := Some 1\<rparr>],
      sh_jars = [\<lparr>store_ref = []\<rparr>, \<lparr>store_ref = []\<rparr>]\<rparr>"

lemma two_sessions_reachable: "session_reachable two_sessions"
proof -
  let ?cl = "Some \<lparr>makes_jars = True\<rparr>"
  let ?h1 = "\<lparr>sh_configs = [blank_config\<lparr>pc_cookie_jar := Some 0\<rparr>], sh_jars = [\<lparr>store_ref = []\<rparr>]\<rparr> :: session_heap"
  have first: "new_context ?cl None \<lparr>sh_configs = [], sh_jars = []\<rparr> = Inr (0, ?h1)"
    by (simp add: new_context_def make_shared_config_def provision_jar_def make_cookie_jar_def make_shared_jar_def
        config_at_def update_config_def blank_config_def)
  have "session_reachable ?h1" by (rule reach_context [OF reach_start _ first]) simp
  then have derived: "session_reachable (snd (make_config plain_parser (Some 0) ?h1))"
    by (rule reach_derive) (simp_all add: jar_neutral_def plain_parser_def)
  have second: "new_context ?cl (Some 1) (snd (make_config plain_parser (Some 0) ?h1)) = Inr (1, two_sessions)"
    by (simp add: new_context_def make_config_def make_shared_config_def provision_jar_def make_cookie_jar_def
        make_shared_jar_def config_at_def update_config_def blank_config_def plain_parser_def two_sessions_def)
  show ?thesis by (rule reach_context [OF derived _ second]) (simp add: make_config_def make_shared_config_def)
qed


section \<open>Saving and restoring a session\<close>

text \<open>Cookies: a jar filled with cookies of different identities holds just them, in order.\<close>

lemma store_set_new: "\<forall>d \<in> set cs. \<not> same_identity d c \<Longrightarrow> store_set cs c = cs @ [c]"
  by (induction cs c rule: store_set.induct) auto

lemma fill_jar:
  "distinct_ids (store_ref jar @ cs) \<Longrightarrow> foldl jar_set_cookie jar cs = \<lparr>store_ref = store_ref jar @ cs\<rparr>"
proof (induction cs arbitrary: jar)
  case (Cons c cs)
  then have "\<forall>d \<in> set (store_ref jar). \<not> same_identity d c"
    by (auto simp: distinct_ids_def same_identity_iff) (metis imageI)
  then have "jar_set_cookie jar c = \<lparr>store_ref = store_ref jar @ [c]\<rparr>"
    by (simp add: jar_set_cookie_def store_set_new)
  then show ?case using Cons by simp
qed (cases jar; simp)

text \<open>Headers: the exported list, name by name.\<close>

lemma export_headers_concat:
  "export_headers hs names = concat (map (\<lambda>n. map (\<lambda>v. (n, v)) (headers_get_all hs n)) names)"
proof -
  have inner: "foldl (\<lambda>out v. headers_append out n v) out vs = out @ map (\<lambda>v. (n, v)) vs" for out n vs
    by (induction vs arbitrary: out) auto
  have "foldl (\<lambda>out name. foldl (\<lambda>out v. headers_append out name v) out (headers_get_all hs name)) out names =
      out @ concat (map (\<lambda>n. map (\<lambda>v. (n, v)) (headers_get_all hs n)) names)" for out
    by (induction names arbitrary: out) (simp_all add: inner)
  then show ?thesis by (simp add: export_headers_def)
qed

text \<open>Different header names, each with at most one value.\<close>

definition single_valued :: "headers \<Rightarrow> bytes list \<Rightarrow> bool" where
  "single_valued hs names \<longleftrightarrow> distinct (map lower names) \<and> (\<forall>n \<in> set names. length (headers_get_all hs n) \<le> 1)"

lemma get_all_of_exported:
  "headers_get_all (map (\<lambda>v. (n, v)) vs) m = (if iequal n m then vs else [])"
  by (induction vs) auto

lemma exported_absent:
  "lower m \<notin> lower ` set names \<Longrightarrow> headers_get_all (export_headers hs names) m = []"
  by (induction names) (auto simp: export_headers_concat get_all_of_exported iequal_iff)

lemma exported_get_all:
  "distinct (map lower names) \<Longrightarrow> n \<in> set names \<Longrightarrow> headers_get_all (export_headers hs names) n = headers_get_all hs n"
proof (induction names)
  case (Cons m names)
  show ?case
  proof (cases "n = m")
    case True
    then have "headers_get_all (export_headers hs names) n = []"
      using Cons.prems by (intro exported_absent) auto
    then show ?thesis using True by (simp add: export_headers_concat get_all_of_exported)
  next
    case False
    then have "lower m \<noteq> lower n" using Cons.prems by auto
    then show ?thesis using Cons False by (auto simp: export_headers_concat get_all_of_exported iequal_iff)
  qed
qed simp

lemma headers_set_new: "headers_get_all hs n = [] \<Longrightarrow> headers_set hs n v = hs @ [(n, v)]"
  by (auto simp: headers_set_def headers_erase_def headers_get_all_conv filter_empty_conv intro!: filter_True)

lemma import_exported_headers:
  assumes "single_valued hs names"
  shows "foldl (\<lambda>hs (name, v). headers_set hs name v) [] (export_headers hs names) = export_headers hs names"
  using assms
proof (induction names rule: rev_induct)
  case (snoc n names)
  have single: "single_valued hs names" "length (headers_get_all hs n) \<le> 1"
    using snoc.prems by (auto simp: single_valued_def)
  have absent: "headers_get_all (export_headers hs names) n = []"
    using snoc.prems by (intro exported_absent) (auto simp: single_valued_def)
  have e: "export_headers hs (names @ [n]) = export_headers hs names @ map (\<lambda>v. (n, v)) (headers_get_all hs n)"
    by (simp add: export_headers_concat)
  show ?case
  proof (cases "headers_get_all hs n")
    case Nil
    then show ?thesis using snoc.IH [OF single(1)] e by simp
  next
    case (Cons v vs)
    then have "vs = []" using single(2) by simp
    then show ?thesis using snoc.IH [OF single(1)] e Cons absent by (simp add: headers_set_new)
  qed
qed (simp add: export_headers_def)

lemma export_exported_headers:
  assumes "single_valued hs names"
  shows "export_headers (export_headers hs names) names = export_headers hs names"
proof -
  have "export_headers (export_headers hs names) names =
      concat (map (\<lambda>n. map (\<lambda>v. (n, v)) (headers_get_all (export_headers hs names) n)) names)"
    by (rule export_headers_concat)
  also have "\<dots> = concat (map (\<lambda>n. map (\<lambda>v. (n, v)) (headers_get_all hs n)) names)"
    using assms exported_get_all [of names _ hs] by (intro arg_cong [where f = concat] map_cong) (auto simp: single_valued_def)
  also have "\<dots> = export_headers hs names" by (rule export_headers_concat [symmetric])
  finally show ?thesis .
qed

text \<open>URL parameters: picked entries, in key order.\<close>

lemma om_ext:
  assumes "om_wf m" "om_wf n" "\<And>k. lookup m k = lookup n k"
  shows "m = n"
proof -
  have "set m = set n" using om_in_lookup [OF assms(1)] om_in_lookup [OF assms(2)] assms(3) by auto
  moreover have "inj_on fst (set m \<union> set n)"
    using om_wf_wf_assoc [OF assms(1)] \<open>set m = set n\<close> by (simp add: wf_assoc_def distinct_map)
  moreover have "sorted (map fst m)" "sorted (map fst n)" "distinct (map fst m)" "distinct (map fst n)"
    using assms(1,2) by (simp_all add: om_wf_def strict_sorted_iff)
  ultimately show ?thesis by (metis map_sorted_distinct_set_unique)
qed

lemma pick_named_snoc:
  "pick_named m (names @ [n]) =
     (case lookup m n of Some v \<Rightarrow> om_emplace n v (pick_named m names) | None \<Rightarrow> pick_named m names)"
  by (simp add: pick_named_def split: option.split)

lemma om_wf_pick_named: "om_wf (pick_named m names)"
  by (induction names rule: rev_induct) (auto simp: pick_named_snoc split: option.splits, simp add: pick_named_def)

lemma lookup_pick_named: "lookup (pick_named m names) k = (if k \<in> set names then lookup m k else None)"
proof (induction names rule: rev_induct)
  case (snoc n names)
  then show ?case by (auto simp: pick_named_snoc lookup_om_emplace om_wf_pick_named split: option.splits if_splits)
qed (simp add: pick_named_def)

lemma put_all_lookup:
  "om_wf acc \<Longrightarrow> wf_assoc ps \<Longrightarrow>
     om_wf (foldl (\<lambda>ps (name, v). om_put name v ps) acc ps) \<and>
     lookup (foldl (\<lambda>ps (name, v). om_put name v ps) acc ps) k = (case lookup ps k of Some v \<Rightarrow> Some v | None \<Rightarrow> lookup acc k)"
proof (induction ps arbitrary: acc)
  case (Cons e ps)
  obtain n v where e: "e = (n, v)" by (cases e)
  have "wf_assoc ps" "lookup ps n = None" using Cons.prems e by (auto simp: wf_assoc_def lookup_None)
  then show ?case using Cons.IH [of "om_put n v acc"] Cons.prems(1) e by (auto split: option.splits)
qed simp

lemma put_all_self: "om_wf ps \<Longrightarrow> foldl (\<lambda>ps (name, v). om_put name v ps) [] ps = ps"
  by (rule om_ext) (use put_all_lookup [of "[]" ps] in \<open>auto simp: om_wf_wf_assoc split: option.splits\<close>)

lemma pick_named_idem: "pick_named (pick_named m names) names = pick_named m names"
  by (rule om_ext) (simp_all add: om_wf_pick_named lookup_pick_named)

text \<open>C22: saving a session and restoring it. Importing an exported session into a configuration with an
  empty jar and without headers and parameters of its own, and exporting it again with the same
  keys, gives the same session; the imported headers answer each exported name with the values they
  had. The hypotheses are the invariant of the two heaps, parameters in key order, and that the
  exported header names differ and carry at most one value each.\<close>

theorem auth_roundtrip:
  assumes "session_ok h" "c < length (sh_configs h)" and "om_wf (pc_url_params (config_at h c))"
    and "single_valued (pc_headers (config_at h c)) (ak_headers keys)"
    and "session_ok h2" "t < length (sh_configs h2)" "pc_cookie_jar (config_at h2 t) \<noteq> None" "session_cookies h2 t = []"
    and "pc_headers (config_at h2 t) = []" "pc_url_params (config_at h2 t) = []"
  shows "export_auth keys (import_auth t (export_auth keys h c) h2) t = export_auth keys h c \<and>
     (\<forall>n \<in> set (ak_headers keys).
        headers_get_all (pc_headers (config_at (import_auth t (export_auth keys h c) h2) t)) n =
        headers_get_all (pc_headers (config_at h c)) n)"
proof -
  define st where "st = export_auth keys h c"
  let ?h3 = "import_auth t st h2"
  obtain j where j: "pc_cookie_jar (config_at h2 t) = Some j" using assms(7) by blast
  then have j_ok: "j < length (sh_jars h2)" using session_okD(1) [OF assms(5,6)] by blast
  have empty: "store_ref (sh_jars h2 ! j) = []"
    using assms(8) j by (simp add: session_cookies_def jar_cookies_def store_all_def)
  have ids: "distinct_ids (as_cookies st)"
  proof (cases "pc_cookie_jar (config_at h c)")
    case None
    then show ?thesis by (simp add: st_def export_auth_def distinct_ids_def Let_def)
  next
    case (Some i)
    then have "i < length (sh_jars h)" using session_okD(1) [OF assms(1,2)] by blast
    then have "jar_invar (sh_jars h ! i)" using session_okD(3) [OF assms(1)] nth_mem by blast
    then show ?thesis using Some
      by (simp add: st_def export_auth_def Let_def pick_named_cookies_def jar_cookies_def store_all_def jar_invar_def distinct_filter)
  qed
  have named: "filter (\<lambda>ck. ck_name ck \<in> set (ak_cookies keys)) (as_cookies st) = as_cookies st"
    by (auto simp: st_def export_auth_def Let_def pick_named_cookies_def split: option.splits)
  have config: "pc_headers (config_at ?h3 t) = as_headers st" "pc_url_params (config_at ?h3 t) = as_url_params st"
    "pc_alt_link (config_at ?h3 t) = as_alt_link st" "pc_cookie_jar (config_at ?h3 t) = Some j"
    using assms(3,4,6,9,10) j
    by (simp_all add: import_auth_def config_at_update st_def export_auth_def Let_def import_exported_headers put_all_self om_wf_pick_named)
  have jar: "jar_cookies (sh_jars ?h3 ! j) = as_cookies st"
    using j j_ok ids empty
    by (simp add: import_auth_def set_session_cookies_def fill_jar jar_cookies_def store_all_def)
  have "export_auth keys ?h3 t = st"
    using config jar named assms(4)
    by (simp add: export_auth_def [of keys ?h3] pick_named_cookies_def)
      (simp add: st_def export_auth_def Let_def pick_named_idem export_exported_headers)
  moreover have "\<forall>n \<in> set (ak_headers keys). headers_get_all (pc_headers (config_at ?h3 t)) n = headers_get_all (pc_headers (config_at h c)) n"
    using config(1) assms(4) exported_get_all
    by (auto simp: st_def export_auth_def Let_def single_valued_def)
  ultimately show ?thesis by (simp add: st_def)
qed

definition signed_in :: session_heap where
  "signed_in =
     \<lparr>sh_configs = [blank_config\<lparr>pc_headers := [(''Authorization'', ''Bearer x'')], pc_cookie_jar := Some 0\<rparr>],
      sh_jars = [\<lparr>store_ref = [sample_cookie]\<rparr>]\<rparr>"

definition sample_keys :: auth_keys where
  "sample_keys = \<lparr>ak_cookies = [''sid''], ak_headers = [''Authorization''], ak_url_params = []\<rparr>"

lemma signed_in_ok: "session_ok signed_in"
  by (simp add: session_ok_def signed_in_def config_at_def blank_config_def jar_invar_def distinct_ids_def)

theorem auth_roundtrip_witness:
  "export_auth sample_keys (import_auth 0 (export_auth sample_keys signed_in 0) two_sessions) 0 =
     export_auth sample_keys signed_in 0"
proof -
  have "iequal ''Authorization'' ''Authorization''" by simp
  then have "single_valued (pc_headers (config_at signed_in 0)) (ak_headers sample_keys)"
    by (simp add: single_valued_def signed_in_def sample_keys_def config_at_def blank_config_def)
  then show ?thesis
    using auth_roundtrip [OF signed_in_ok _ _ _ reachable_session_ok [OF two_sessions_reachable], of 0 sample_keys 0]
    by (simp add: signed_in_def two_sessions_def config_at_def blank_config_def session_cookies_def jar_cookies_def store_all_def)
qed

text \<open>Restoring is not the inverse of saving when a header has several values. Saving keeps them all,
  restoring sets them one after the other and each replaces the one before, so only the last is
  left.\<close>

theorem restore_keeps_last_value:
  assumes "pc_headers (config_at h c) = [(n, v), (n, w)]" and "t < length (sh_configs h)" and "pc_headers (config_at h t) = []"
    and "keys = \<lparr>ak_cookies = [], ak_headers = [n], ak_url_params = []\<rparr>"
  shows "as_headers (export_auth keys h c) = [(n, v), (n, w)] \<and>
     pc_headers (config_at (import_auth t (export_auth keys h c) h) t) = [(n, w)]"
  using assms
  by (simp add: export_auth_def Let_def export_headers_def import_auth_def config_at_update headers_set_def headers_erase_def)

theorem restore_keeps_last_value_witness:
  "let h = \<lparr>sh_configs = [blank_config\<lparr>pc_headers := [(''k'', ''1''), (''k'', ''2'')]\<rparr>, blank_config], sh_jars = []\<rparr>;
       keys = \<lparr>ak_cookies = [], ak_headers = [''k''], ak_url_params = []\<rparr>
   in pc_headers (config_at (import_auth 1 (export_auth keys h 0) h) 1) = [(''k'', ''2'')]"
  unfolding Let_def
  by (rule restore_keeps_last_value [THEN conjunct2]) (simp_all add: config_at_def blank_config_def)

text \<open>Deriving. A configuration derived for a parser and adopted by a context starts with a session of
  its own that is empty, whatever the base carries; the base and its session are left as they were;
  and contexts built on the derived configuration again, with another logger say, keep its session.
  Without a base there is no configuration, and without a client no context.\<close>

theorem derived_session_fresh:
  assumes "session_ok h" and "b < length (sh_configs h)" and "jar_neutral p"
    and "make_config p (Some b) h = (Some c, h1)" and "new_with_config (Some cl) (Some c) h1 = Inr (c', h2)"
  shows "c' = c \<and> c \<noteq> b \<and> session_cookies h2 c = [] \<and> config_at h2 b = config_at h b \<and> session_cookies h2 b = session_cookies h b \<and>
     (makes_jars cl \<longrightarrow> pc_cookie_jar (config_at h2 c) \<noteq> None \<and> new_with_logger (Some cl) c h2 = Inr (c, h2)) \<and>
     make_config p None h = (None, h) \<and> new_with_config None (Some c) h1 = Inl ClientHasToBeValid"
proof -
  let ?config = "sp_configure p ((config_at h b)\<lparr>pc_cookie_jar := None, pc_parser_id := sp_identifier p\<rparr>)"
  have c: "c = length (sh_configs h)" and h1: "h1 = snd (make_shared_config ?config h)"
    using assms(4) by (simp_all add: make_config_shared)
  have none: "pc_cookie_jar ?config = None" using assms(3) by (simp add: jar_neutral_def)
  have at: "config_at h1 c = ?config" "config_at h1 b = config_at h b" "sh_jars h1 = sh_jars h" "c < length (sh_configs h1)"
    using assms(2) by (simp_all add: h1 c make_shared_config_def config_at_def nth_append)
  have c': "c' = c" and h2: "h2 = provision_jar cl c h1"
    using assms(5) by (auto simp: new_with_config_def new_context_def)
  have jar: "pc_cookie_jar (config_at h2 c) = (if makes_jars cl then Some (length (sh_jars h)) else None)"
    using at none by (simp add: h2 provision_jar_cases config_at_update make_shared_jar_simps)
  have jars: "sh_jars h2 = (if makes_jars cl then sh_jars h @ [\<lparr>store_ref = []\<rparr>] else sh_jars h)"
    using at none by (simp add: h2 provision_jar_cases make_shared_jar_simps)
  have base: "config_at h2 b = config_at h b"
    using at assms(2) none c by (simp add: h2 provision_jar_cases config_at_update make_shared_jar_simps)
  have "pc_cookie_jar (config_at h b) = Some i \<Longrightarrow> i < length (sh_jars h)" for i
    using session_okD(1) [OF assms(1,2)] by blast
  then have "session_cookies h2 b = session_cookies h b"
    by (auto simp: session_cookies_def base jars nth_append split: option.splits)
  moreover have "session_cookies h2 c = []"
    by (simp add: session_cookies_def jar jars nth_append jar_cookies_def store_all_def)
  moreover have "provision_jar cl c h2 = h2" if "makes_jars cl"
    using jar that by (simp add: provision_jar_cases)
  ultimately show ?thesis
    using c' c base jar assms(2) by (simp add: new_with_logger_def new_with_config_def new_context_def make_config_def)
qed

theorem derived_session_fresh_witness:
  "session_cookies (snd (projr (new_with_config (Some \<lparr>makes_jars = True\<rparr>) (Some 1)
     (snd (make_config plain_parser (Some 0) signed_in))))) 1 = []"
proof -
  let ?h1 = "snd (make_config plain_parser (Some 0) signed_in)"
  let ?cl = "\<lparr>makes_jars = True\<rparr>"
  have first: "make_config plain_parser (Some 0) signed_in = (Some 1, ?h1)"
    by (simp add: make_config_def make_shared_config_def signed_in_def)
  have second: "new_with_config (Some ?cl) (Some 1) ?h1 = Inr (1, provision_jar ?cl 1 ?h1)"
    by (simp add: new_with_config_def new_context_def)
  show ?thesis
    using derived_session_fresh [OF signed_in_ok _ _ first second] second
    by (simp add: jar_neutral_def plain_parser_def signed_in_def)
qed

end
