(* ===== verification/Booru.thy ===== *)
theory Booru
  imports Session Mirrors Paging Search_Query Parser_Store Json Flags
begin

text \<open>
  \<open>src/engines/booru/\<close>: one implementation of an image source for the whole booru family. What differs
  between sites is data, the record \<open>booru_site\<close>; what differs between families is the engine, whose
  virtual methods build requests and map responses and are parameters here. Network tasks are
  outcomes, as in the theory of requests.
\<close>

section \<open>Sites and engines\<close>

text \<open>\<open>'i\<close> is the container metadata and \<open>'m\<close> the media leaf an engine maps posts to.\<close>

record ('i, 'm) booru_engine =
  be_api_headers :: headers
  be_supports_pools :: bool
  be_search_support :: search_compatibilities
  be_list_request :: "bytes \<Rightarrow> bytes \<Rightarrow> get_filters \<Rightarrow> get_request"
  be_posts_of :: "json \<Rightarrow> json list option"
  be_container_request :: "bytes \<Rightarrow> int \<Rightarrow> get_request"
  be_single_post :: "json \<Rightarrow> json_object option"
  be_post_info :: "json_object \<Rightarrow> bytes option \<Rightarrow> 'i"
  be_post_item :: "json_object \<Rightarrow> bytes option \<Rightarrow> 'm option"
  be_suggest_request :: "bytes \<Rightarrow> bytes \<Rightarrow> bytes option \<Rightarrow> get_request"
  be_parse_suggestions :: "json \<Rightarrow> search_suggestion list"
  be_post_id_from_url :: "parsed_url \<Rightarrow> int option"
  be_pool_id_from_url :: "parsed_url \<Rightarrow> int option"
  be_pool_request :: "bytes \<Rightarrow> int \<Rightarrow> get_request"
  be_pool_info :: "json_object \<Rightarrow> 'i"
  be_pool_items_request :: "bytes \<Rightarrow> int \<Rightarrow> get_filters \<Rightarrow> get_request"

record static_param_auth =
  spa_user_param :: bytes
  spa_key_param :: bytes

record ('i, 'm) booru_site =
  bs_identifier :: bytes
  bs_name :: bytes
  bs_primary_language :: bytes
  bs_domains :: "bytes list"
  bs_api_hosts :: "bytes list"
  bs_media_referer :: "bytes option"
  bs_engine :: "('i, 'm) booru_engine"
  bs_compatibilities :: strong_bitset
  bs_auth :: "static_param_auth option"

text \<open>What a getter uses of its context: the configuration, the mirror snapshot, the transport and the JSON parser.\<close>

record 'j booru_context =
  bx_config :: "'j parser_config"
  bx_snapshot :: "mirror_source option"
  bx_transport :: "'j transport"
  bx_parse :: "bytes \<Rightarrow> bytes + json"

definition site_base_url :: "('i, 'm) booru_site \<Rightarrow> 'j booru_context \<Rightarrow> bytes" where
  "site_base_url site cx = context_base_url (bx_snapshot cx) (bx_config cx) (bs_api_hosts site)"

definition fetch_json :: "'j booru_context \<Rightarrow> get_request \<Rightarrow> json outcome" where
  "fetch_json cx r = request_json (bx_parse cx) (bx_transport cx) (bx_config cx) (GetReq r)"

definition bind_outcome :: "'a outcome \<Rightarrow> ('a \<Rightarrow> 'b outcome) \<Rightarrow> 'b outcome" where
  "bind_outcome out k = (case out of Threw f \<Rightarrow> Threw f | Failed e \<Rightarrow> Failed e | Yielded x \<Rightarrow> k x)"

definition fail_with :: "request_error_code \<Rightarrow> bytes \<Rightarrow> 'a outcome" where
  "fail_with c message = Failed (make_response_error c message None [])"

lemma bind_outcome_simps [simp]:
  "bind_outcome (Yielded x) k = k x" "bind_outcome (Failed e) k = Failed e" "bind_outcome (Threw f) k = Threw f"
  by (simp_all add: bind_outcome_def)

section \<open>Container getters\<close>

text \<open>A getter of one post, with what a listing supplied, or of a pool. Ids are 32-bit ints.\<close>

datatype ('i, 'm) container_getter = PostGetter int "'i option" "'m option" | PoolGetter int

definition to_int32 :: "int \<Rightarrow> int" where
  "to_int32 i = sint (word_of_int i :: 32 word)"

definition invalid_image_container_id :: int where
  "invalid_image_container_id = 0"

definition fetch_post :: "('i, 'm) booru_site \<Rightarrow> 'j booru_context \<Rightarrow> int \<Rightarrow> ('i \<times> 'm option) outcome" where
  "fetch_post site cx i =
     bind_outcome (fetch_json cx (be_container_request (bs_engine site) (site_base_url site cx) i)) (\<lambda>json.
       case be_single_post (bs_engine site) json of
         None \<Rightarrow> fail_with NotFound ''booru post not found''
       | Some post \<Rightarrow> Yielded (be_post_info (bs_engine site) post (bs_media_referer site),
                               be_post_item (bs_engine site) post (bs_media_referer site)))"

fun preview_info :: "('i, 'm) container_getter \<Rightarrow> 'i option" where
  "preview_info (PostGetter i info item) = info"
| "preview_info (PoolGetter i) = None"

definition pool_info :: "('i, 'm) booru_site \<Rightarrow> 'j booru_context \<Rightarrow> int \<Rightarrow> 'i outcome" where
  "pool_info site cx i =
     bind_outcome (fetch_json cx (be_pool_request (bs_engine site) (site_base_url site cx) i)) (\<lambda>json.
       case if_object json of
         None \<Rightarrow> fail_with NotFound ''booru pool not found''
       | Some pool \<Rightarrow> Yielded (be_pool_info (bs_engine site) pool))"

fun getter_info :: "('i, 'm) booru_site \<Rightarrow> 'j booru_context \<Rightarrow> ('i, 'm) container_getter \<Rightarrow> 'i outcome" where
  "getter_info site cx (PostGetter i info item) = bind_outcome (fetch_post site cx i) (\<lambda>post. Yielded (fst post))"
| "getter_info site cx (PoolGetter i) = pool_info site cx i"

definition page_of :: "'m option \<Rightarrow> 'm page_results" where
  "page_of item =
     (case item of
        None \<Rightarrow> empty_page
      | Some x \<Rightarrow> \<lparr>results = [\<lparr>pi_item = x, pi_offset = 0\<rparr>], next_offset = 1, total_count = 1\<rparr>)"

text \<open>One post of a pool's page: a post without a servable file is skipped.\<close>

definition pool_step :: "('i, 'm) booru_site \<Rightarrow> get_filters \<Rightarrow> 'm page_results \<Rightarrow> json \<Rightarrow> 'm page_results" where
  "pool_step site filters got entry =
     (case Option.bind (if_object entry) (\<lambda>post. be_post_item (bs_engine site) post (bs_media_referer site)) of
        None \<Rightarrow> got
      | Some x \<Rightarrow> got\<lparr>results := results got @
          [\<lparr>pi_item = x, pi_offset = gf_from filters + int (length (results got))\<rparr>]\<rparr>)"

definition pool_items :: "('i, 'm) booru_site \<Rightarrow> 'j booru_context \<Rightarrow> int \<Rightarrow> get_filters \<Rightarrow> 'm page_results outcome" where
  "pool_items site cx i filters =
     bind_outcome (fetch_json cx (be_pool_items_request (bs_engine site) (site_base_url site cx) i filters)) (\<lambda>json.
       case be_posts_of (bs_engine site) json of
         None \<Rightarrow> Yielded empty_page
       | Some posts \<Rightarrow>
           (let got = foldl (pool_step site filters) empty_page posts
            in Yielded (got\<lparr>next_offset := gf_from filters + int (length (results got))\<rparr>)))"

fun getter_items :: "('i, 'm) booru_site \<Rightarrow> 'j booru_context \<Rightarrow> ('i, 'm) container_getter \<Rightarrow> get_filters \<Rightarrow> 'm page_results outcome" where
  "getter_items site cx (PostGetter i info item) filters =
     (if info \<noteq> None then Yielded (page_of item)
      else bind_outcome (fetch_post site cx i) (\<lambda>post. Yielded (page_of (snd post))))"
| "getter_items site cx (PoolGetter i) filters = pool_items site cx i filters"

definition pool_serialize :: "int \<Rightarrow> serialized_getter_data" where
  [simp]: "pool_serialize i = \<lparr>sg_url = ''pools/'' @ int_to_dec i, sg_params = []\<rparr>"

fun getter_serialize :: "('i, 'm) container_getter \<Rightarrow> serialized_getter_data" where
  "getter_serialize (PostGetter i info item) = \<lparr>sg_url = int_to_dec i, sg_params = []\<rparr>"
| "getter_serialize (PoolGetter i) = pool_serialize i"

section \<open>The root getter\<close>

text \<open>
  \<open>std::atol\<close> on a C string: white space, a sign, digits; no digits read as zero. A value outside of
  \<open>long\<close> is undefined behaviour, and \<open>wild\<close> is what is left there.
\<close>

definition c_atol :: "int \<Rightarrow> bytes \<Rightarrow> int" where
  "c_atol wild s =
     (let t = dropWhile isspace s;
          neg = (t \<noteq> [] \<and> hd t = CHR ''-'');
          u = (if neg \<or> (t \<noteq> [] \<and> hd t = CHR ''+'') then tl t else t);
          v = int (dec_value (takeWhile is_digit u));
          i = (if neg then - v else v)
      in if in_int64 i then i else wild)"

definition add_post :: "int \<Rightarrow> ('i, 'm) booru_site \<Rightarrow> get_filters \<Rightarrow> ('i, 'm) container_getter page_results \<Rightarrow> json \<Rightarrow>
    ('i, 'm) container_getter page_results" where
  "add_post wild site filters got entry =
     (case if_object entry of
        None \<Rightarrow> got
      | Some post \<Rightarrow>
          (let i = to_int32 (json_integer wild post ''id'')
           in if i = invalid_image_container_id then got
              else append_item got (gf_from filters)
                (PostGetter i (Some (be_post_info (bs_engine site) post (bs_media_referer site)))
                   (be_post_item (bs_engine site) post (bs_media_referer site)))))"

definition build_post_page :: "int \<Rightarrow> ('i, 'm) booru_site \<Rightarrow> json \<Rightarrow> get_filters \<Rightarrow> ('i, 'm) container_getter page_results" where
  "build_post_page wild site envelope filters =
     (case be_posts_of (bs_engine site) envelope of
        None \<Rightarrow> empty_page
      | Some posts \<Rightarrow> foldl (add_post wild site filters) empty_page posts)"

definition booru_suggest :: "('i, 'm) booru_site \<Rightarrow> 'j booru_context \<Rightarrow> bytes \<Rightarrow> bytes option \<Rightarrow> search_suggestion list outcome" where
  "booru_suggest site cx partial kind =
     bind_outcome (fetch_json cx (be_suggest_request (bs_engine site) (site_base_url site cx) partial kind))
       (\<lambda>json. Yielded (be_parse_suggestions (bs_engine site) json))"

definition booru_search :: "int \<Rightarrow> ('i, 'm) booru_site \<Rightarrow> 'j booru_context \<Rightarrow> search_request \<Rightarrow> get_filters \<Rightarrow>
    ('i, 'm) container_getter page_results outcome" where
  "booru_search wild site cx query filters =
     (let errors = validate_query (be_search_support (bs_engine site)) query filters in
      if errors \<noteq> [] then fail_with InvalidArguments (describe_search_query_errors errors)
      else bind_outcome (fetch_json cx (be_list_request (bs_engine site) (site_base_url site cx) (sr_query query) filters))
             (\<lambda>json. Yielded (build_post_page wild site json filters)))"

text \<open>\<open>validate_latest_filters\<close> against the empty declaration of the default \<open>latest_support\<close>.\<close>

definition validate_latest_filters :: "supported_sorts \<Rightarrow> get_filters \<Rightarrow> query_error list" where
  "validate_latest_filters supported filters = validate_sort supported (gf_sort filters)"

definition booru_latest :: "int \<Rightarrow> ('i, 'm) booru_site \<Rightarrow> 'j booru_context \<Rightarrow> get_filters \<Rightarrow>
    ('i, 'm) container_getter page_results outcome" where
  "booru_latest wild site cx filters =
     (let errors = validate_latest_filters [] filters in
      if errors \<noteq> [] then fail_with InvalidArguments (describe_search_query_errors errors)
      else bind_outcome (fetch_json cx (be_list_request (bs_engine site) (site_base_url site cx) [] filters))
             (\<lambda>json. Yielded (build_post_page wild site json filters)))"

definition booru_parse_url :: "('i, 'm) booru_site \<Rightarrow> parsed_url \<Rightarrow> ('i, 'm) container_getter outcome" where
  "booru_parse_url site url =
     (case (if be_supports_pools (bs_engine site) then be_pool_id_from_url (bs_engine site) url else None) of
        Some pool \<Rightarrow> Yielded (PoolGetter pool)
      | None \<Rightarrow>
          (case be_post_id_from_url (bs_engine site) url of
             Some post \<Rightarrow> Yielded (PostGetter post None None)
           | None \<Rightarrow> fail_with InvalidArguments ''URL addresses no booru post or pool''))"

definition booru_from_serialized :: "int \<Rightarrow> ('i, 'm) booru_site \<Rightarrow> serialized_getter_data \<Rightarrow> ('i, 'm) container_getter outcome" where
  "booru_from_serialized wild site saved =
     (if sg_url saved = [] then fail_with InvalidArguments ''serialized booru getter carries no id''
      else if be_supports_pools (bs_engine site) \<and> starts_with (sg_url saved) ''pools/''
      then Yielded (PoolGetter (to_int32 (c_atol wild (drop (length ''pools/'') (sg_url saved)))))
      else Yielded (PostGetter (to_int32 (c_atol wild (sg_url saved))) None None))"

section \<open>The parser\<close>

definition booru_suggest_getter :: "('i, 'm) booru_site \<Rightarrow> parsed_url \<Rightarrow> getter_type" where
  "booru_suggest_getter site url =
     (if be_post_id_from_url (bs_engine site) url \<noteq> None \<or>
         (be_supports_pools (bs_engine site) \<and> be_pool_id_from_url (bs_engine site) url \<noteq> None)
      then Images else Unknown)"

definition booru_compatibilities :: "('i, 'm) booru_site \<Rightarrow> flag_error + strong_bitset" where
  "booru_compatibilities site =
     (case flag supports_images_store of
        Inl e \<Rightarrow> Inl e
      | Inr f \<Rightarrow> Inr (sb_or BothNamed (bs_compatibilities site) f))"

definition booru_configure :: "('i, 'm) booru_site \<Rightarrow> 'j parser_config \<Rightarrow> 'j parser_config" where
  "booru_configure site config =
     config\<lparr>pc_headers := foldl (\<lambda>hs (name, v). headers_set hs name v) (pc_headers config) (be_api_headers (bs_engine site))\<rparr>"

datatype authentication_data = UserPassword bytes bytes bool | Token bytes bytes

definition booru_authenticate ::
  "('i, 'm) booru_site \<Rightarrow> config_ref \<Rightarrow> authentication_data \<Rightarrow> session_heap \<Rightarrow> config_ref outcome \<times> session_heap" where
  "booru_authenticate site c creds h =
     (case bs_auth site of
        None \<Rightarrow> (fail_with NotImplemented ''The parser cannot auth'', h)
      | Some auth \<Rightarrow>
          (case creds of
             Token token kind \<Rightarrow>
               (fail_with InvalidArguments ''booru credentials must be user id (username) + api key (password)'', h)
           | UserPassword username password requires_2fa \<Rightarrow>
               (let config = config_at h c;
                    params = om_put (spa_key_param auth) password (om_put (spa_user_param auth) username (pc_url_params config));
                    (c', h') = make_shared_config (config\<lparr>pc_url_params := params\<rparr>) h
                in (Yielded c', h'))))"

definition booru_auth_keys :: "('i, 'm) booru_site \<Rightarrow> auth_keys" where
  "booru_auth_keys site =
     (case bs_auth site of
        None \<Rightarrow> no_keys
      | Some auth \<Rightarrow> no_keys\<lparr>ak_url_params := [spa_key_param auth, spa_user_param auth]\<rparr>)"

section \<open>Restoring a getter\<close>

definition in_int32 :: "int \<Rightarrow> bool" where
  "in_int32 i \<longleftrightarrow> - (2 ^ 31) \<le> i \<and> i < 2 ^ 31"

lemma to_int32_id: "in_int32 i \<Longrightarrow> to_int32 i = i"
  unfolding to_int32_def in_int32_def by (simp add: signed_of_int signed_take_bit_int_eq_self)

lemma in_int32_int64: "in_int32 i \<Longrightarrow> in_int64 i"
  by (simp add: in_int32_def in_int64_def int64_min_def int64_max_def)

lemma digit_not_space: "is_digit c \<Longrightarrow> \<not> isspace c \<and> c \<noteq> CHR ''+'' \<and> c \<noteq> CHR ''p''"
proof -
  have "code (CHR ''+'') = 43" "code (CHR ''p'') = 112" by (simp_all add: code_def)
  then show "is_digit c \<Longrightarrow> ?thesis" unfolding is_digit_def isspace_def by auto
qed

lemma nat_to_dec_Cons: "\<exists>c cs. nat_to_dec n = c # cs \<and> is_digit c"
  using nat_to_dec_digits [of n] by (cases "nat_to_dec n") auto

lemma c_atol_int_to_dec:
  assumes "in_int64 i"
  shows "c_atol wild (int_to_dec i) = i"
proof (cases "i < 0")
  case True
  have "\<not> isspace (CHR ''-'')" by (simp add: isspace_def code_def)
  then show ?thesis using True assms by (simp add: c_atol_def int_to_dec_def)
next
  case False
  obtain c cs where n: "nat_to_dec (nat i) = c # cs" and c: "is_digit c" using nat_to_dec_Cons by blast
  have "c \<noteq> CHR ''-''" using c by auto
  moreover have "takeWhile is_digit cs = cs" using takeWhile_digits(1) [of "nat i"] n c by (metis list.inject takeWhile.simps(2))
  moreover have "dec_value (c # cs) = nat i" using dec_value_nat_to_dec [of "nat i"] n by simp
  ultimately show ?thesis using False assms c digit_not_space [OF c] n
    by (simp add: c_atol_def int_to_dec_def Let_def del: takeWhile_eq_all_conv)
qed

lemma id_not_pool: "\<not> starts_with (int_to_dec i) ''pools/''"
proof -
  have "hd (int_to_dec i) \<noteq> CHR ''p''"
    using nat_to_dec_Cons [of "nat i"] digit_not_space by (auto simp: int_to_dec_def)
  then show ?thesis by (cases "int_to_dec i") (auto simp: starts_with_def)
qed

text \<open>Saving and restoring a getter. A saved post restores to the getter of the same post, without what
  a listing had supplied, and in a family with pools a saved pool restores to the getter of the same
  pool; an empty text is refused. Any other text is taken as well: one with no number at its front
  restores to the post of id 0, the id that addresses nothing.\<close>

theorem booru_serialize_roundtrip:
  assumes "in_int32 i"
  shows "booru_from_serialized wild site (getter_serialize (PostGetter i info item)) = Yielded (PostGetter i None None) \<and>
     (be_supports_pools (bs_engine site) \<longrightarrow>
        booru_from_serialized wild site (getter_serialize (PoolGetter i)) = Yielded (PoolGetter i)) \<and>
     booru_from_serialized wild site \<lparr>sg_url = [], sg_params = ps\<rparr> =
       fail_with InvalidArguments ''serialized booru getter carries no id'' \<and>
     booru_from_serialized wild site \<lparr>sg_url = ''garbage'', sg_params = ps\<rparr> =
       Yielded (PostGetter invalid_image_container_id None None)"
proof -
  have g: "\<not> isspace (CHR ''g'')" "\<not> is_digit (CHR ''g'')" by (simp_all add: isspace_def is_digit_def code_def)
  have zero: "c_atol wild ''garbage'' = 0" using g by (simp add: c_atol_def in_int64_def int64_min_def int64_max_def)
  have prefix: "starts_with (''pools/'' @ s) ''pools/''" "\<not> starts_with ''garbage'' ''pools/''" for s
    by (simp_all add: starts_with_def)
  have zero_id: "to_int32 0 = 0" by (simp add: to_int32_def)
  have "drop (length ''pools/'') (''pools/'' @ s) = s" for s :: bytes by simp
  then show ?thesis
    using assms prefix
    by (cases "be_supports_pools (bs_engine site)")
      (simp_all only: booru_from_serialized_def getter_serialize.simps pool_serialize_def serialized_getter_data.simps id_not_pool
        c_atol_int_to_dec in_int32_int64 to_int32_id zero zero_id invalid_image_container_id_def int_to_dec_ne
        append_is_Nil_conv list.distinct simp_thms if_True if_False)
qed

section \<open>Listings\<close>

text \<open>The posts of a listing that become items: objects with an id other than zero.\<close>

definition listed_post :: "int \<Rightarrow> json \<Rightarrow> json_object option" where
  "listed_post wild entry =
     (case if_object entry of
        None \<Rightarrow> None
      | Some post \<Rightarrow> if to_int32 (json_integer wild post ''id'') = invalid_image_container_id then None else Some post)"

definition post_getter :: "int \<Rightarrow> ('i, 'm) booru_site \<Rightarrow> json_object \<Rightarrow> ('i, 'm) container_getter" where
  "post_getter wild site post =
     PostGetter (to_int32 (json_integer wild post ''id'')) (Some (be_post_info (bs_engine site) post (bs_media_referer site)))
       (be_post_item (bs_engine site) post (bs_media_referer site))"

lemma add_post_listed:
  "add_post wild site filters got entry =
     (case listed_post wild entry of None \<Rightarrow> got | Some post \<Rightarrow> append_item got (gf_from filters) (post_getter wild site post))"
  by (simp add: add_post_def listed_post_def post_getter_def Let_def split: option.splits)

lemma foldl_add_post:
  "foldl (add_post wild site filters) got entries =
     foldl (\<lambda>r x. append_item r (gf_from filters) x) got (map (post_getter wild site) (List.map_filter (listed_post wild) entries))"
  by (induction entries arbitrary: got) (simp_all add: add_post_listed List.map_filter_simps split: option.splits)

lemma empty_page_fields: "results empty_page = []" "next_offset empty_page = 0" "total_count empty_page = 0"
  by (simp_all add: empty_page_def)

lemma numbered_page:
  fixes xs :: "'a list" and b :: int
  defines "got \<equiv> foldl (\<lambda>r x. append_item r b x) empty_page xs"
  shows "map pi_item (results got) = xs" "map pi_offset (results got) = map (\<lambda>i. b + int i) [0..<length xs]"
    "next_offset got = (if xs = [] then 0 else b + int (length xs))"
  unfolding got_def
  by (cases "xs = []"; auto simp: foldl_append_item empty_page_def intro!: nth_equalityI)+

text \<open>Searching. A query the engine's declaration does not admit is refused without any request being
  made; a failed request fails the search; and otherwise the page holds a getter for every listed
  post, in the order of the response and with the metadata it came with, numbered consecutively from
  the start of the window. The numbers count the kept posts only, and a page of which no post is
  kept says to continue at offset 0.\<close>

theorem booru_search_lists:
  "(validate_query (be_search_support (bs_engine site)) query filters \<noteq> [] \<longrightarrow>
      (\<forall>cx :: 'j booru_context. \<exists>e. booru_search wild site cx query filters = Failed e \<and> re_code e = InvalidArguments)) \<and>
   (validate_query (be_search_support (bs_engine site)) query filters = [] \<longrightarrow>
      (\<forall>cx :: 'j booru_context. case fetch_json cx (be_list_request (bs_engine site) (site_base_url site cx) (sr_query query) filters) of
         Threw f \<Rightarrow> booru_search wild site cx query filters = Threw f
       | Failed e \<Rightarrow> booru_search wild site cx query filters = Failed e
       | Yielded json \<Rightarrow>
           (let kept = (case be_posts_of (bs_engine site) json of None \<Rightarrow> [] | Some posts \<Rightarrow> List.map_filter (listed_post wild) posts)
            in \<exists>got. booru_search wild site cx query filters = Yielded got \<and>
              map pi_item (results got) = map (post_getter wild site) kept \<and>
              map pi_offset (results got) = map (\<lambda>i. gf_from filters + int i) [0..<length kept] \<and>
              next_offset got = (if kept = [] then 0 else gf_from filters + int (length kept)))))"
proof (intro conjI impI allI)
  fix cx :: "'j booru_context"
  assume "validate_query (be_search_support (bs_engine site)) query filters \<noteq> []"
  then show "\<exists>e. booru_search wild site cx query filters = Failed e \<and> re_code e = InvalidArguments"
    by (simp add: booru_search_def fail_with_def make_response_error_def)
next
  fix cx :: "'j booru_context"
  assume ok: "validate_query (be_search_support (bs_engine site)) query filters = []"
  let ?fetched = "fetch_json cx (be_list_request (bs_engine site) (site_base_url site cx) (sr_query query) filters)"
  show "case ?fetched of
         Threw f \<Rightarrow> booru_search wild site cx query filters = Threw f
       | Failed e \<Rightarrow> booru_search wild site cx query filters = Failed e
       | Yielded json \<Rightarrow>
           (let kept = (case be_posts_of (bs_engine site) json of None \<Rightarrow> [] | Some posts \<Rightarrow> List.map_filter (listed_post wild) posts)
            in \<exists>got. booru_search wild site cx query filters = Yielded got \<and>
              map pi_item (results got) = map (post_getter wild site) kept \<and>
              map pi_offset (results got) = map (\<lambda>i. gf_from filters + int i) [0..<length kept] \<and>
              next_offset got = (if kept = [] then 0 else gf_from filters + int (length kept)))"
  proof (cases ?fetched)
    case (Yielded json)
    have "booru_search wild site cx query filters = Yielded (build_post_page wild site json filters)"
      using ok Yielded by (simp add: booru_search_def)
    then show ?thesis using Yielded
      by (cases "be_posts_of (bs_engine site) json")
        (simp_all add: build_post_page_def foldl_add_post numbered_page empty_page_fields Let_def)
  qed (simp_all add: booru_search_def ok)
qed

text \<open>
  A page of withheld posts: every post of the window is skipped, so the page is empty, which a reader
  takes for the end of the pool, and says to continue where it started.
\<close>

lemma pool_stops_at_withheld_page:
  assumes "fetch_json cx (be_pool_items_request (bs_engine site) (site_base_url site cx) i filters) = Yielded json"
    and "be_posts_of (bs_engine site) json = Some posts"
    and "\<forall>entry \<in> set posts. \<forall>post. if_object entry = Some post \<longrightarrow> be_post_item (bs_engine site) post (bs_media_referer site) = None"
  shows "getter_items site cx (PoolGetter i) filters = Yielded (empty_page\<lparr>next_offset := gf_from filters\<rparr>)"
proof -
  have "foldl (pool_step site filters) got posts = got" for got
    using assms(3) by (induction posts arbitrary: got) (auto simp: pool_step_def bind_eq_Some_conv split: option.splits)
  then show ?thesis using assms(1,2) by (simp add: pool_items_def empty_page_fields)
qed

section \<open>Signing in\<close>

text \<open>Signing in to a booru site. User id and key are stamped into the parameters of a new configuration,
  every other part of which is the caller's, and exporting the session with the site's keys saves
  exactly these two credentials; the caller's configuration is left as it was. A token is refused,
  and so is a site without a credential model. But the new configuration holds the caller's own
  cookie jar, so the two sessions are one: a cookie stored through the new configuration is a cookie
  of the caller's session too. The hypotheses are parameters in key order and two different
  parameter names.\<close>

theorem booru_sign_in:
  assumes "bs_auth site = Some auth" and "c < length (sh_configs h)" and "om_wf (pc_url_params (config_at h c))"
    and "spa_user_param auth \<noteq> spa_key_param auth"
    and "booru_authenticate site c (UserPassword user key twofa) h = (Yielded c', h')"
  shows "config_at h' c = config_at h c \<and> c' \<noteq> c \<and> pc_headers (config_at h' c') = pc_headers (config_at h c) \<and>
     (\<forall>k. lookup (as_url_params (export_auth (booru_auth_keys site) h' c')) k =
        (if k = spa_key_param auth then Some key else if k = spa_user_param auth then Some user else None)) \<and>
     as_cookies (export_auth (booru_auth_keys site) h' c') = [] \<and> as_headers (export_auth (booru_auth_keys site) h' c') = [] \<and>
     fst (booru_authenticate site c (Token t kind) h) \<noteq> Yielded c' \<and>
     pc_cookie_jar (config_at h' c') = pc_cookie_jar (config_at h c) \<and>
     session_cookies (set_session_cookies c' cs h') c = session_cookies (set_session_cookies c' cs h') c'"
proof -
  let ?config = "config_at h c"
  let ?params = "om_put (spa_key_param auth) key (om_put (spa_user_param auth) user (pc_url_params ?config))"
  have c': "c' = length (sh_configs h)" and h': "h' = snd (make_shared_config (?config\<lparr>pc_url_params := ?params\<rparr>) h)"
    using assms(1,5) by (auto simp: booru_authenticate_def make_shared_config_def Let_def)
  have new: "config_at h' c' = ?config\<lparr>pc_url_params := ?params\<rparr>"
    by (simp add: h' c' make_shared_config_def config_at_def)
  have old: "config_at h' c = ?config"
    using assms(2) by (simp add: h' make_shared_config_def config_at_def nth_append)
  have keys: "booru_auth_keys site = \<lparr>ak_cookies = [], ak_headers = [], ak_url_params = [spa_key_param auth, spa_user_param auth]\<rparr>"
    using assms(1) by (simp add: booru_auth_keys_def no_keys_def)
  have "lookup (as_url_params (export_auth (booru_auth_keys site) h' c')) k =
      (if k = spa_key_param auth then Some key else if k = spa_user_param auth then Some user else None)" for k
    using assms(3,4) by (auto simp: export_auth_def Let_def keys new lookup_pick_named)
  moreover have "as_cookies (export_auth (booru_auth_keys site) h' c') = []" "as_headers (export_auth (booru_auth_keys site) h' c') = []"
    by (auto simp: export_auth_def Let_def keys pick_named_cookies_def export_headers_def split: option.splits)
  moreover have "session_cookies (set_session_cookies c' cs h') c = session_cookies (set_session_cookies c' cs h') c'"
    by (simp add: session_cookies_def new old set_session_cookies_def config_at_def split: option.splits)
      (simp add: new [unfolded config_at_def] old [unfolded config_at_def])
  moreover have "fst (booru_authenticate site c (Token t kind) h) \<noteq> Yielded c'"
    using assms(1) by (simp add: booru_authenticate_def fail_with_def)
  ultimately show ?thesis using new old c' assms(2) by simp
qed

section \<open>A site\<close>

text \<open>A site whose listing is a bare array and whose posts carry no metadata, and a context that is answered one post.\<close>

definition blank_request :: get_request where
  "blank_request = \<lparr>gr_url = ''https://b.test/posts'', gr_params = [], gr_headers = [], gr_method = Get\<rparr>"

definition sample_engine :: "(unit, unit) booru_engine" where
  "sample_engine =
     \<lparr>be_api_headers = [], be_supports_pools = True,
      be_search_support = \<lparr>supported_filters = [], supported_sort_keys = [], search_flags = default_flags, suggestion_kinds = []\<rparr>,
      be_list_request = (\<lambda>base tags filters. blank_request), be_posts_of = if_array,
      be_container_request = (\<lambda>base i. blank_request), be_single_post = if_object,
      be_post_info = (\<lambda>post referer. ()), be_post_item = (\<lambda>post referer. Some ()),
      be_suggest_request = (\<lambda>base part kind. blank_request), be_parse_suggestions = (\<lambda>json. []),
      be_post_id_from_url = (\<lambda>url. None), be_pool_id_from_url = (\<lambda>url. None),
      be_pool_request = (\<lambda>base i. blank_request), be_pool_info = (\<lambda>pool. ()),
      be_pool_items_request = (\<lambda>base i filters. blank_request)\<rparr>"

definition sample_site :: "(unit, unit) booru_site" where
  "sample_site =
     \<lparr>bs_identifier = ''b'', bs_name = ''b'', bs_primary_language = ''en'', bs_domains = [''b.test''],
      bs_api_hosts = [''https://b.test''], bs_media_referer = None, bs_engine = sample_engine,
      bs_compatibilities = default_flags, bs_auth = Some \<lparr>spa_user_param = ''login'', spa_key_param = ''api_key''\<rparr>\<rparr>"

definition sample_answer :: json where
  "sample_answer = JArray [JObject [(''id'', JInt 7)], JObject [], JNull]"

definition answered :: "unit booru_context" where
  "answered =
     \<lparr>bx_config = blank_config, bx_snapshot = None,
      bx_transport = (\<lambda>r jar. Inr \<lparr>rd_status_code = 200, rd_body = [], rd_headers = [], rd_effective_url = None\<rparr>),
      bx_parse = (\<lambda>body. Inr sample_answer)\<rparr>"

lemma answered_fetch: "fetch_json answered r = Yielded sample_answer"
  by (cases r) (simp add: fetch_json_def answered_def request_json_def fetch_ok_def perform_def configured_request_def
      apply_config_to_def blank_config_def is_success_status_def)

theorem booru_serialize_roundtrip_witness:
  "booru_from_serialized 0 sample_site (getter_serialize (PoolGetter 12)) = Yielded (PoolGetter 12)"
proof -
  have "in_int32 12" by (simp add: in_int32_def)
  then show ?thesis
    using booru_serialize_roundtrip [of 12 0 sample_site] by (simp add: sample_site_def sample_engine_def)
qed

theorem booru_search_lists_witness:
  "\<exists>got. booru_search 0 sample_site answered \<lparr>sr_query = [], sr_filters = []\<rparr> default_filters = Yielded got \<and>
     map pi_item (results got) = [PostGetter 7 (Some ()) (Some ())] \<and> next_offset got = 1"
proof -
  have seven: "to_int32 7 = 7" "to_int32 0 = 0" by (simp_all add: to_int32_id in_int32_def)
  have clean: "validate_query (be_search_support (bs_engine sample_site)) \<lparr>sr_query = [], sr_filters = []\<rparr> default_filters = []"
    by (simp add: validate_query_def validate_search_query_def validate_sort_def default_filters_def)
  have kept: "List.map_filter (listed_post 0) [JObject [(''id'', JInt 7)], JObject [], JNull] = [[(''id'', JInt 7)]]"
    by (simp add: List.map_filter_simps listed_post_def json_integer_def seven invalid_image_container_id_def)
  have posts: "be_posts_of (bs_engine sample_site) sample_answer = Some [JObject [(''id'', JInt 7)], JObject [], JNull]"
    by (simp add: sample_site_def sample_engine_def sample_answer_def)
  have getter: "post_getter 0 sample_site [(''id'', JInt 7)] = PostGetter 7 (Some ()) (Some ())"
    by (simp add: post_getter_def json_integer_def seven sample_site_def sample_engine_def)
  have "gf_from default_filters = 0" by (simp add: default_filters_def)
  then show ?thesis
    using booru_search_lists [of sample_site "\<lparr>sr_query = [], sr_filters = []\<rparr>" default_filters 0,
        THEN conjunct2, THEN mp, OF clean, THEN spec, of answered]
    by (simp only: answered_fetch outcome.case posts option.case kept Let_def list.map getter list.size) auto
qed

theorem booru_sign_in_witness:
  "lookup (as_url_params (export_auth (booru_auth_keys sample_site)
     (snd (booru_authenticate sample_site 0 (UserPassword ''u'' ''k'' False) two_sessions)) 2)) ''login'' = Some ''u''"
proof -
  have "booru_authenticate sample_site 0 (UserPassword ''u'' ''k'' False) two_sessions =
      (Yielded 2, snd (booru_authenticate sample_site 0 (UserPassword ''u'' ''k'' False) two_sessions))"
    by (simp add: booru_authenticate_def make_shared_config_def sample_site_def two_sessions_def Let_def)
  from booru_sign_in [OF _ _ _ _ this, of "\<lparr>spa_user_param = ''login'', spa_key_param = ''api_key''\<rparr>"]
  show ?thesis by (simp add: sample_site_def two_sessions_def config_at_def blank_config_def om_wf_def)
qed

end
