(* ===== verification/Client_Config.thy ===== *)
theory Client_Config
  imports Requests Flags "HOL-Library.Word"
begin

text \<open>
  What the two HTTP backends share: the transport-wide configuration of
  \<open>include/aniparse/ClientContext.hpp\<close> and how a call of \<open>ClientContext::do_request\<close> can end.
\<close>

text \<open>\<open>verify_ssl\<close> is \<open>make_bit(0)\<close> of a 64-bit flag word; a default-constructed word has no bit set.\<close>

type_synonym client_config_flags = strong_bitset

definition verify_ssl :: client_config_flags where
  "verify_ssl = (case make_bit 64 0 of Inl e \<Rightarrow> sb_empty 64 | Inr b \<Rightarrow> b)"

record client_proxy =
  px_user :: bytes
  px_passwd :: bytes
  px_host :: bytes
  px_port :: "16 word"

record client_config =
  cc_proxy :: "client_proxy option"
  cc_max_retries :: "32 word option"
  cc_timeout :: "int option"
  cc_flags :: client_config_flags

text \<open>\<open>ClientConfig{}\<close>, and the same configuration with certificates verified.\<close>

definition default_client_config :: client_config where
  "default_client_config = \<lparr>cc_proxy = None, cc_max_retries = None, cc_timeout = None, cc_flags = sb_empty 64\<rparr>"

definition verifying_config :: client_config where
  "verifying_config = default_client_config\<lparr>cc_flags := sb_or LeftTemporary (sb_empty 64) verify_ssl\<rparr>"

lemma verify_ssl_bits: "wf_sb 64 verify_ssl" "sb_bits verify_ssl = {0}"
proof -
  have "(0 :: nat) < 64" by simp
  from make_bit_ok [OF this] obtain f where "make_bit 64 0 = Inr f" "wf_sb 64 f" "sb_bits f = {0}" by blast
  then show "wf_sb 64 verify_ssl" "sb_bits verify_ssl = {0}" by (simp_all only: verify_ssl_def sum.case)
qed

lemma has_verify_ssl:
  assumes "wf_sb 64 s"
  shows "sb_has s verify_ssl \<longleftrightarrow> 0 \<in> sb_bits s"
  using sb_has_bits [OF assms verify_ssl_bits(1)] verify_ssl_bits(2) by simp

lemma default_config_flags: "\<not> sb_has (cc_flags default_client_config) verify_ssl"
  by (simp add: default_client_config_def has_verify_ssl wf_sb_def sb_empty_def)

lemma verifying_config_flags: "sb_has (cc_flags verifying_config) verify_ssl"
proof -
  have "wf_sb 64 (sb_empty 64)" by (simp add: wf_sb_def sb_empty_def)
  from sb_or_bits [OF this verify_ssl_bits(1), of LeftTemporary] show ?thesis
    by (simp add: verifying_config_def has_verify_ssl verify_ssl_bits)
qed

section \<open>How a request ends\<close>

text \<open>A C++ exception (\<open>std::invalid_argument\<close> with its message), an error value, or the response.\<close>

datatype 'a backend_result = Raised bytes | Errored request_error | Done 'a

end
