(* ===== verification/Retry.thy ===== *)
theory Retry
  imports Prelude "HOL-Library.Word"
begin

text \<open>
  The retry loops of the two HTTP backends: \<open>with_retry\<close> of \<open>src/net/Client.cpp\<close> and
  \<open>perform_with_retry\<close> of \<open>src/net/UrlSessionClient.mm\<close>. The attempts are a sequence: the \<open>n\<close>-th one
  ends with \<open>operation n\<close>, an error or an answer, and each loop returns its result together with
  the number of attempts it made. Both loops count in a \<open>uint32_t\<close>.
\<close>

section \<open>The loops\<close>

type_synonym ('e, 'r) attempts = "nat \<Rightarrow> 'e + 'r"

definition retryable :: "('e \<Rightarrow> bool) \<Rightarrow> 'e + 'r \<Rightarrow> bool" where
  "retryable cancelled a = (case a of Inl e \<Rightarrow> \<not> cancelled e | Inr r \<Rightarrow> False)"

lemma retryable_simps [simp]: "retryable cancelled (Inl e) \<longleftrightarrow> \<not> cancelled e" "\<not> retryable cancelled (Inr r)"
  by (simp_all add: retryable_def)

text \<open>The curl loop returns the answer or rethrows the error; \<open>None\<close> is the \<open>logic_error\<close> behind it.\<close>

function with_retry :: "('e \<Rightarrow> bool) \<Rightarrow> 32 word \<Rightarrow> ('e, 'r) attempts \<Rightarrow> 32 word \<Rightarrow> nat \<Rightarrow> (('e + 'r) \<times> nat) option" where
  "with_retry cancelled max_retries operation i n =
     (if i \<le> max_retries then
        (case operation n of
           Inr r \<Rightarrow> Some (Inr r, Suc n)
         | Inl e \<Rightarrow>
             if cancelled e \<or> i = max_retries then Some (Inl e, Suc n)
             else with_retry cancelled max_retries operation (i + 1) (Suc n))
      else None)"
  by auto

lemma unat_bound: "unat (m :: 32 word) < 2 ^ 32"
  using unsigned_less [of m] by simp

lemma unat_next_word: "i < (m :: 32 word) \<Longrightarrow> unat (i + 1) = Suc (unat i)"
  using unat_bound [of m] by (simp add: unat_word_ariths word_less_nat_alt)

lemma unat_largest: "unat (-1 :: 32 word) = 2 ^ 32 - 1"
  by (simp add: unsigned_minus_1_eq_mask mask_eq_exp_minus_1)

lemma largest_word: "m + 1 \<le> (m :: 32 word) \<longleftrightarrow> m = -1"
proof (cases "Suc (unat m) < 2 ^ 32")
  case True
  then show ?thesis by (auto simp: unat_word_ariths word_le_nat_alt word_unat_eq_iff unat_largest)
next
  case False
  then have "unat m = 2 ^ 32 - 1" using unat_bound [of m] by simp
  then have "m = -1" by (simp add: word_unat_eq_iff unat_largest)
  then show ?thesis by simp
qed

termination with_retry
proof (relation "measure (\<lambda>(c, m, operation, i, n). Suc (unat m) - unat i)")
  fix cancelled :: "'e \<Rightarrow> bool" and m i :: "32 word" and operation :: "('e, 'r) attempts" and n e
  assume "i \<le> m" "\<not> (cancelled e \<or> i = m)"
  then have "i < m" by auto
  then show "((cancelled, m, operation, i + 1, Suc n), (cancelled, m, operation, i, n)) \<in>
      measure (\<lambda>(c, m, operation, i, n). Suc (unat m) - unat i)"
    by (simp add: unat_next_word word_less_nat_alt)
qed simp

declare with_retry.simps [simp del]

text \<open>The loop over \<open>NSURLSession\<close> keeps the last result; \<open>None\<close> is a loop that never returns.\<close>

partial_function (option) perform_with_retry ::
  "('e \<Rightarrow> bool) \<Rightarrow> 32 word \<Rightarrow> ('e, 'r) attempts \<Rightarrow> 32 word \<Rightarrow> nat \<Rightarrow> 'e + 'r \<Rightarrow> (('e + 'r) \<times> nat) option" where
  "perform_with_retry cancelled max_retries once attempt n result =
     (if attempt \<le> max_retries then
        (if \<not> retryable cancelled (once n) then Some (once n, Suc n)
         else perform_with_retry cancelled max_retries once (attempt + 1) (Suc n) (once n))
      else Some (result, n))"

section \<open>What a retry loop promises\<close>

text \<open>
  The contract of \<open>ClientConfig::max_retries\<close>: the loop stops at the first attempt that answered or
  was cancelled, and otherwise with the last one of the budget.
\<close>

definition settles :: "('e \<Rightarrow> bool) \<Rightarrow> nat \<Rightarrow> ('e, 'r) attempts \<Rightarrow> nat \<Rightarrow> bool" where
  "settles cancelled budget operation k \<longleftrightarrow>
     k \<le> budget \<and> (\<forall>j < k. retryable cancelled (operation j)) \<and> (k = budget \<or> \<not> retryable cancelled (operation k))"

lemma settles_unique: "settles c b f k \<Longrightarrow> settles c b f l \<Longrightarrow> k = l"
  unfolding settles_def by (metis linorder_neqE_nat order_le_less order_less_le_trans)

lemma settles_exists: "\<exists>k. settles c b f k"
proof (cases "\<exists>k < b. \<not> retryable c (f k)")
  case True
  define k where "k = (LEAST k. \<not> retryable c (f k))"
  from True have "\<not> retryable c (f k)" "k < b" "\<forall>j < k. retryable c (f j)"
    unfolding k_def by (metis (mono_tags, lifting) LeastI, metis (mono_tags, lifting) Least_le le_less_trans, metis not_less_Least)
  then show ?thesis unfolding settles_def by (intro exI [of _ k]) auto
qed (auto simp: settles_def)

locale retrying =
  fixes run :: "32 word \<Rightarrow> ('e, 'r) attempts \<Rightarrow> (('e + 'r) \<times> nat) option"
    and cancelled :: "'e \<Rightarrow> bool"
    and admitted :: "32 word \<Rightarrow> bool"
  assumes run_settles: "admitted m \<Longrightarrow> settles cancelled (unat m) operation k \<Longrightarrow> run m operation = Some (operation k, Suc k)"
begin

lemma run_returns: "admitted m \<Longrightarrow> \<exists>k. settles cancelled (unat m) f k \<and> run m f = Some (f k, Suc k)"
  using settles_exists run_settles by blast

lemma attempts_within_budget: "admitted m \<Longrightarrow> run m f = Some (a, n) \<Longrightarrow> 0 < n \<and> n \<le> Suc (unat m)"
  using run_returns [of m f] by (auto simp: settles_def)

lemma first_settled_attempt: "admitted m \<Longrightarrow> \<not> retryable cancelled (f 0) \<Longrightarrow> run m f = Some (f 0, 1)"
  using run_settles [of m f 0] by (simp add: settles_def)

lemma answer_kept_by_budget:
  assumes "admitted m" "admitted m'" "unat m \<le> unat m'" "run m f = Some (Inr r, n)"
  shows "run m' f = Some (Inr r, n)"
proof -
  obtain k where k: "settles cancelled (unat m) f k" "f k = Inr r" "n = Suc k"
    using run_returns [OF assms(1), of f] assms(4) by auto
  then have "settles cancelled (unat m') f k" using assms(3) by (auto simp: settles_def)
  then show ?thesis using run_settles [OF assms(2)] k by simp
qed

end

lemma with_retry_from:
  assumes "settles c (unat m) f k"
  shows "i \<le> m \<Longrightarrow> unat i = n \<Longrightarrow> n \<le> k \<Longrightarrow> with_retry c m f i n = Some (f k, Suc k)"
proof (induction "k - n" arbitrary: i n)
  case 0
  then have "n = k" by simp
  then show ?case using assms 0(2,3)
    by (cases "f k"; subst with_retry.simps) (auto simp: settles_def word_unat_eq_iff)
next
  case (Suc d)
  then have "n < k" by simp
  then have "retryable c (f n)" "unat i < unat m" using assms Suc.prems(2) by (auto simp: settles_def)
  then have "i < m" "\<exists>e. f n = Inl e \<and> \<not> c e"
    by (auto simp: word_less_nat_alt retryable_def split: sum.splits)
  moreover from this have "with_retry c m f (i + 1) (Suc n) = Some (f k, Suc k)"
    using Suc by (intro Suc.hyps(1)) (auto simp: unat_next_word word_le_nat_alt word_less_nat_alt)
  ultimately show ?case by (auto simp: with_retry.simps [of c m f i n])
qed

lemma perform_with_retry_from:
  assumes "settles c (unat m) f k" "m \<noteq> -1"
  shows "i \<le> m \<Longrightarrow> unat i = n \<Longrightarrow> n \<le> k \<Longrightarrow> perform_with_retry c m f i n r = Some (f k, Suc k)"
proof (induction "k - n" arbitrary: i n r)
  case 0
  then have n: "n = k" by simp
  have "\<not> m + 1 \<le> m" using assms(2) by (simp add: largest_word)
  moreover have "i = m" if "retryable c (f k)"
    using that assms(1) 0(3) n by (auto simp: settles_def word_unat_eq_iff)
  ultimately show ?case using 0(2) n by (auto simp: perform_with_retry.simps)
next
  case (Suc d)
  then have "n < k" by simp
  then have goes: "retryable c (f n)" "unat i < unat m" using assms(1) Suc.prems(2) by (auto simp: settles_def)
  then have "i < m" by (simp add: word_less_nat_alt)
  then have "perform_with_retry c m f (i + 1) (Suc n) (f n) = Some (f k, Suc k)"
    using Suc by (intro Suc.hyps(1)) (auto simp: unat_next_word word_le_nat_alt word_less_nat_alt)
  then show ?case using goes Suc.prems(1) by (simp add: perform_with_retry.simps [of c m f i n])
qed

interpretation curl_retry: retrying "\<lambda>m f. with_retry c m f 0 0" c "\<lambda>_. True"
  by unfold_locales (simp add: with_retry_from)

interpretation session_retry: retrying "\<lambda>m f. perform_with_retry c m f 0 0 r" c "\<lambda>m. m \<noteq> -1"
  by unfold_locales (simp add: perform_with_retry_from)

text \<open>With the largest budget the counter of the second loop wraps to zero before it exceeds the budget.\<close>

lemma perform_with_retry_diverges:
  assumes "\<And>j. retryable c (f j)"
  shows "perform_with_retry c (-1) f i n r = None"
proof (rule ccontr)
  assume "perform_with_retry c (-1) f i n r \<noteq> None"
  then obtain y where "perform_with_retry c (-1) f i n r = Some y" by blast
  moreover have "c' = c \<longrightarrow> m = -1 \<longrightarrow> g = f \<longrightarrow> False"
    if "perform_with_retry c' m g i n r = Some y" for c' m g
    using that
    by (rule perform_with_retry.raw_induct [rotated]) (auto simp: assms word_order.extremum split: if_splits)
  ultimately show False by blast
qed

section \<open>Properties\<close>

text \<open>C24: the retry budget. The curl loop always returns: it makes the attempts one after the other up to the
  first one that answered or was cancelled, and at most one more than the budget allows to repeat, and
  gives back the last one made. The loop over \<open>NSURLSession\<close> does the same for every budget but the
  largest one, \<open>2 ^ 32 - 1\<close>: with that one it never returns while the transport keeps failing.\<close>

theorem retry_loops_settle:
  "\<exists>k \<le> unat m. (\<forall>j < k. retryable c (f j)) \<and> (k = unat m \<or> \<not> retryable c (f k)) \<and>
     with_retry c m f 0 0 = Some (f k, Suc k) \<and>
     (m \<noteq> -1 \<longrightarrow> perform_with_retry c m f 0 0 r = Some (f k, Suc k)) \<and>
     ((\<forall>j. retryable c (f j)) \<longrightarrow> perform_with_retry c (-1) f 0 0 r = None)"
proof -
  obtain k where k: "settles c (unat m) f k" using settles_exists by blast
  then have "with_retry c m f 0 0 = Some (f k, Suc k)" by (rule curl_retry.run_settles [OF TrueI])
  moreover have "perform_with_retry c m f 0 0 r = Some (f k, Suc k)" if "m \<noteq> -1"
    using that k by (rule session_retry.run_settles)
  moreover have "perform_with_retry c (-1) f 0 0 r = None" if "\<forall>j. retryable c (f j)"
    using that by (simp add: perform_with_retry_diverges)
  moreover note k [unfolded settles_def]
  ultimately show ?thesis by (intro exI [of _ k] conjI impI) simp_all
qed

theorem retry_loops_settle_witness:
  "perform_with_retry (\<lambda>_. False) (-1) (\<lambda>_. Inl ()) 0 0 (Inl ()) = (None :: ((unit + unit) \<times> nat) option) \<and>
   (\<exists>k. with_retry (\<lambda>_. False) 4 (\<lambda>_. Inl ()) 0 0 = Some (Inl () :: unit + unit, Suc k) \<and> k \<le> 4)"
proof -
  have four: "unat (4 :: 32 word) = 4" by simp
  have always: "\<forall>j. retryable (\<lambda>_. False) ((\<lambda>_. Inl () :: unit + unit) j)" by simp
  from retry_loops_settle [of 4 "\<lambda>_. False" "\<lambda>_. Inl () :: unit + unit" "Inl ()"]
  show ?thesis by (elim exE conjE, intro conjI exI) (erule mp [OF _ always], assumption+, simp only: four)
qed

end
