(* ===== verification/Curl_Client.thy ===== *)
theory Curl_Client
  imports Client_Config Cookies Retry
begin

text \<open>
  \<open>src/net/Client.cpp\<close>: the HTTP backend over libcurl. What \<open>asyncnet\<close> and libcurl do is a parameter: a
  request is the value handed to them, an attempt ends with a curl error or a response, and the cookie
  engine behind a share handle is a state with the commands of \<open>CURLOPT_COOKIELIST\<close>.
\<close>

section \<open>The cookie jar\<close>

text \<open>\<open>ce_command\<close> runs a \<open>COOKIELIST\<close> text on the cookies of a share, \<open>ce_lines\<close> lists them.\<close>

record 's cookie_engine =
  ce_command :: "bytes \<Rightarrow> 's \<Rightarrow> 's"
  ce_lines :: "'s \<Rightarrow> bytes list"

definition curl_jar_serialize :: "'s cookie_engine \<Rightarrow> 's \<Rightarrow> bytes list" where
  "curl_jar_serialize ce share = ce_lines ce share"

fun first_named :: "int \<Rightarrow> bytes \<Rightarrow> bytes list \<Rightarrow> cookie option" where
  "first_named tps name [] = None"
| "first_named tps name (line # lines) =
     (case parse_netscape_line tps line of
        Some c \<Rightarrow> if ck_name c = name then Some c else first_named tps name lines
      | None \<Rightarrow> first_named tps name lines)"

definition curl_jar_find_cookie :: "int \<Rightarrow> 's cookie_engine \<Rightarrow> 's \<Rightarrow> bytes \<Rightarrow> cookie option" where
  "curl_jar_find_cookie tps ce share name = first_named tps name (curl_jar_serialize ce share)"

definition curl_jar_cookies :: "int \<Rightarrow> 's cookie_engine \<Rightarrow> 's \<Rightarrow> cookie list" where
  "curl_jar_cookies tps ce share =
     foldl (\<lambda>result line. case parse_netscape_line tps line of Some c \<Rightarrow> result @ [c] | None \<Rightarrow> result) []
       (curl_jar_serialize ce share)"

definition curl_jar_set_cookie :: "int \<Rightarrow> 's cookie_engine \<Rightarrow> 's \<Rightarrow> cookie \<Rightarrow> 's" where
  "curl_jar_set_cookie tps ce share c = ce_command ce (to_netscape_line tps c) share"

definition curl_jar_clear :: "'s cookie_engine \<Rightarrow> 's \<Rightarrow> 's" where
  "curl_jar_clear ce share = ce_command ce ''ALL'' share"

definition curl_jar_deserialize :: "'s cookie_engine \<Rightarrow> 's \<Rightarrow> bytes list \<Rightarrow> 's" where
  "curl_jar_deserialize ce share cookies =
     foldl (\<lambda>share c. ce_command ce c share) (ce_command ce ''ALL'' share) cookies"

section \<open>Requests\<close>

datatype form_part =
    ContentPart bytes bytes "bytes option"
  | FileBufferPart bytes bytes bytes "bytes option"
  | FilePart bytes bytes "bytes option"

datatype curl_body = CurlGet | CurlPost bytes | CurlForm "form_part list"

datatype curl_option = NoBody | CustomRequest bytes

text \<open>\<open>'s\<close> is a share handle. The options are set in the order of the list.\<close>

record 's curl_request =
  cq_url :: bytes
  cq_body :: curl_body
  cq_header_lines :: "bytes list"
  cq_params :: "(bytes \<times> bytes) list"
  cq_share :: "'s option"
  cq_options :: "curl_option list"

datatype ('s, 'o) jar_object = CurlJar 's | OtherJar 'o

definition apply_cookie_share :: "'s curl_request \<Rightarrow> ('s, 'o) jar_object option \<Rightarrow> 's curl_request" where
  "apply_cookie_share rq jar = rq\<lparr>cq_share := (case jar of Some (CurlJar share) \<Rightarrow> Some share | _ \<Rightarrow> None)\<rparr>"

fun apply_method :: "'s curl_request \<Rightarrow> http_method \<Rightarrow> request_error_code option \<times> 's curl_request" where
  "apply_method rq Get = (None, rq)"
| "apply_method rq Post = (None, rq)"
| "apply_method rq Head = (None, rq\<lparr>cq_options := cq_options rq @ [NoBody]\<rparr>)"
| "apply_method rq Put = (None, rq\<lparr>cq_options := cq_options rq @ [CustomRequest ''PUT'']\<rparr>)"
| "apply_method rq Patch = (None, rq\<lparr>cq_options := cq_options rq @ [CustomRequest ''PATCH'']\<rparr>)"
| "apply_method rq Delete = (None, rq\<lparr>cq_options := cq_options rq @ [CustomRequest ''DELETE'']\<rparr>)"
| "apply_method rq Options = (None, rq\<lparr>cq_options := cq_options rq @ [CustomRequest ''OPTIONS'']\<rparr>)"

definition to_asyncnet_params :: "url_parameters \<Rightarrow> (bytes \<times> bytes) list" where
  "to_asyncnet_params ps = foldl (\<lambda>result (key, v). result @ [(url_encode key, url_encode v)]) [] ps"

definition rename_message :: bytes where
  "rename_message = ''multipart File part cannot override the presented filename via curl; use a Buffer part for a custom name''"

fun to_curlpp_forms :: "multipart_part list \<Rightarrow> bytes + form_part list" where
  "to_curlpp_forms [] = Inr []"
| "to_curlpp_forms (part # form) =
     (case (case mp_source part of
              PartText v \<Rightarrow> Inr (ContentPart (mp_name part) v (mp_content_type part))
            | PartBuffer d \<Rightarrow>
                Inr (FileBufferPart (mp_name part) d (case mp_filename part of None \<Rightarrow> [] | Some f \<Rightarrow> f) (mp_content_type part))
            | PartFile path \<Rightarrow>
                if mp_filename part \<noteq> None then Inl rename_message
                else Inr (FilePart (mp_name part) path (mp_content_type part))) of
        Inl message \<Rightarrow> Inl message
      | Inr p \<Rightarrow> (case to_curlpp_forms form of Inl message \<Rightarrow> Inl message | Inr ps \<Rightarrow> Inr (p # ps)))"

definition finish_request ::
  "bytes \<Rightarrow> curl_body \<Rightarrow> headers \<Rightarrow> url_parameters \<Rightarrow> http_method \<Rightarrow> ('s, 'o) jar_object option \<Rightarrow> 's curl_request backend_result" where
  "finish_request url body hs ps verb jar =
     (let rq = \<lparr>cq_url = url_encode_uri url, cq_body = body, cq_header_lines = to_header_lines hs,
                cq_params = to_asyncnet_params ps, cq_share = None, cq_options = []\<rparr>
      in case apply_method (apply_cookie_share rq jar) verb of
           (Some method_error, _) \<Rightarrow> Errored (make_response_error method_error ''HTTP method not supported by this client'' None [])
         | (None, rq) \<Rightarrow> Done rq)"

fun curl_prepare :: "client_request \<Rightarrow> ('s, 'o) jar_object option \<Rightarrow> 's curl_request backend_result" where
  "curl_prepare (GetReq r) jar = finish_request (gr_url r) CurlGet (gr_headers r) (gr_params r) (gr_method r) jar"
| "curl_prepare (PostReq r) jar = finish_request (po_url r) (CurlPost (po_body r)) (po_headers r) (po_params r) (po_method r) jar"
| "curl_prepare (MultipartReq r) jar =
     (case to_curlpp_forms (mr_forms r) of
        Inl message \<Rightarrow> Raised message
      | Inr forms \<Rightarrow> finish_request (mr_url r) (CurlForm forms) (mr_headers r) (mr_params r) (mr_method r) jar)"

section \<open>Performing a request\<close>

record curl_error =
  cx_code :: int
  cx_what :: bytes

record curl_response =
  cp_status :: int
  cp_header_block :: bytes
  cp_effective_url :: bytes
  cp_text :: bytes

text \<open>\<open>cancelled_code\<close> is \<open>asyncnet::CancelledErrorCode\<close>.\<close>

definition curl_error_to_code :: "int \<Rightarrow> int \<Rightarrow> request_error_code" where
  "curl_error_to_code cancelled_code c = (if c = cancelled_code then Cancelled else NetworkError)"

definition curl_response_data :: "curl_response \<Rightarrow> response_data" where
  "curl_response_data response =
     \<lparr>rd_status_code = cp_status response, rd_body = cp_text response,
      rd_headers = parse_header_block (cp_header_block response),
      rd_effective_url = (if cp_effective_url response \<noteq> [] then Some (cp_effective_url response) else None)\<rparr>"

text \<open>What the session was told; \<open>None\<close> is an option that was not set, left at libcurl's default.\<close>

record curl_session =
  cs_timeout :: "int option"
  cs_proxy :: "bytes option"
  cs_proxy_port :: "16 word option"
  cs_proxy_user_pwd :: "bytes option"
  cs_ssl_verify_host :: "bool option"
  cs_ssl_verify_peer :: "bool option"

definition new_curl_session :: curl_session where
  "new_curl_session =
     \<lparr>cs_timeout = None, cs_proxy = None, cs_proxy_port = None, cs_proxy_user_pwd = None,
      cs_ssl_verify_host = None, cs_ssl_verify_peer = None\<rparr>"

record curl_client =
  cu_session :: curl_session
  cu_max_retries :: "32 word"

definition curl_default_max_retries :: "32 word" where
  "curl_default_max_retries = 4"

definition new_curl_client :: curl_client where
  "new_curl_client = \<lparr>cu_session = new_curl_session, cu_max_retries = curl_default_max_retries\<rparr>"

definition curl_set_config :: "client_config \<Rightarrow> curl_client \<Rightarrow> curl_client" where
  "curl_set_config config client =
     (let s0 = new_curl_session\<lparr>cs_timeout := cc_timeout config\<rparr>;
          s1 = (case cc_proxy config of
              None \<Rightarrow> s0
            | Some p \<Rightarrow> s0\<lparr>cs_proxy := Some (px_host p), cs_proxy_port := Some (px_port p),
                cs_proxy_user_pwd := Some (px_user p @ '':'' @ px_passwd p)\<rparr>);
          verify = sb_has (cc_flags config) verify_ssl
      in client\<lparr>cu_session := s1\<lparr>cs_ssl_verify_host := Some verify, cs_ssl_verify_peer := Some verify\<rparr>,
                cu_max_retries := (case cc_max_retries config of None \<Rightarrow> curl_default_max_retries | Some n \<Rightarrow> n)\<rparr>)"

type_synonym 's curl_transport = "curl_session \<Rightarrow> 's curl_request \<Rightarrow> nat \<Rightarrow> curl_error + curl_response"

definition curl_do_request ::
  "int \<Rightarrow> 's curl_transport \<Rightarrow> curl_client \<Rightarrow> client_request \<Rightarrow> ('s, 'o) jar_object option \<Rightarrow> response_data backend_result" where
  "curl_do_request cancelled_code net client r jar =
     (case curl_prepare r jar of
        Raised message \<Rightarrow> Raised message
      | Errored e \<Rightarrow> Errored e
      | Done rq \<Rightarrow>
          (case with_retry (\<lambda>e. cx_code e = cancelled_code) (cu_max_retries client) (net (cu_session client) rq) 0 0 of
             None \<Rightarrow> Raised ''with_retry: unreachable''
           | Some (Inr response, n) \<Rightarrow> Done (curl_response_data response)
           | Some (Inl e, n) \<Rightarrow> Errored (make_response_error (curl_error_to_code cancelled_code (cx_code e)) (cx_what e) None [])))"

section \<open>Lemmas\<close>

lemma curl_jar_cookies_parsed:
  "curl_jar_cookies tps ce share = List.map_filter (parse_netscape_line tps) (ce_lines ce share)"
proof -
  have "foldl (\<lambda>result line. case parse_netscape_line tps line of Some c \<Rightarrow> result @ [c] | None \<Rightarrow> result) acc lines =
      acc @ List.map_filter (parse_netscape_line tps) lines" for acc lines
    by (induction lines arbitrary: acc) (auto simp: List.map_filter_simps split: option.splits)
  then show ?thesis by (simp add: curl_jar_cookies_def curl_jar_serialize_def)
qed

lemma curl_jar_find_first:
  "curl_jar_find_cookie tps ce share name = List.find (\<lambda>c. ck_name c = name) (curl_jar_cookies tps ce share)"
proof -
  have "first_named tps name lines = List.find (\<lambda>c. ck_name c = name) (List.map_filter (parse_netscape_line tps) lines)" for lines
    by (induction lines) (auto simp: List.map_filter_simps split: option.splits)
  then show ?thesis by (simp add: curl_jar_find_cookie_def curl_jar_cookies_parsed curl_jar_serialize_def)
qed

lemma to_asyncnet_params_map: "to_asyncnet_params ps = map (\<lambda>(key, v). (url_encode key, url_encode v)) ps"
proof -
  have "foldl (\<lambda>result (key, v). result @ [(url_encode key, url_encode v)]) acc ps =
      acc @ map (\<lambda>(key, v). (url_encode key, url_encode v)) ps" for acc
    by (induction ps arbitrary: acc) auto
  then show ?thesis by (simp add: to_asyncnet_params_def)
qed

text \<open>The verb that goes out: what the options say, and otherwise what the kind of the body stands for.\<close>

definition option_verb :: "curl_option \<Rightarrow> bytes" where
  "option_verb opt = (case opt of NoBody \<Rightarrow> ''HEAD'' | CustomRequest verb \<Rightarrow> verb)"

definition wire_verb :: "'s curl_request \<Rightarrow> bytes" where
  "wire_verb rq =
     (if cq_options rq \<noteq> [] then option_verb (last (cq_options rq))
      else (case cq_body rq of CurlGet \<Rightarrow> ''GET'' | _ \<Rightarrow> ''POST''))"

lemma with_retry_mapped:
  assumes "settles c (unat m) f k"
  shows "with_retry c m f 0 0 = Some (f k, Suc k)"
  using assms by (rule curl_retry.run_settles [OF TrueI])

section \<open>Properties\<close>

definition curl_result :: "int \<Rightarrow> curl_error + curl_response \<Rightarrow> request_error + response_data" where
  "curl_result cancelled_code a =
     (case a of
        Inl e \<Rightarrow> Inl (make_response_error (curl_error_to_code cancelled_code (cx_code e)) (cx_what e) None [])
      | Inr response \<Rightarrow> Inr (curl_response_data response))"

text \<open>How a request over libcurl ends, for every retry budget. A form that renames a file is refused by an
  exception, before anything is sent. Otherwise the same request is attempted again and again up to the
  first attempt that was answered or cancelled, at most once more than the budget says; the answer is
  given back whatever its status, and the last error as \<open>Cancelled\<close> or \<open>NetworkError\<close> with the text
  of the transport. The exception behind the loop is never thrown.\<close>

theorem curl_request_outcome:
  "case curl_prepare r jar of
      Raised message \<Rightarrow> message = rename_message \<and> curl_do_request cancelled_code net client r jar = Raised message
    | Errored e \<Rightarrow> False
    | Done rq \<Rightarrow>
        (let at = net (cu_session client) rq
         in \<exists>k \<le> unat (cu_max_retries client). (\<forall>j < k. \<exists>e. at j = Inl e \<and> cx_code e \<noteq> cancelled_code) \<and>
           curl_do_request cancelled_code net client r jar =
             (case curl_result cancelled_code (at k) of Inl e \<Rightarrow> Errored e | Inr d \<Rightarrow> Done d) \<and>
           (k = unat (cu_max_retries client) \<or> (\<forall>e. at k = Inl e \<longrightarrow> cx_code e = cancelled_code)))"
proof (cases "curl_prepare r jar")
  case (Raised message)
  have "to_curlpp_forms form = Inl message \<Longrightarrow> message = rename_message" for form
    by (induction form arbitrary: message) (auto split: part_source.splits if_splits sum.splits)
  then have "message = rename_message" using Raised
    by (cases r) (auto simp: finish_request_def Let_def split: sum.splits prod.splits option.splits)
  then show ?thesis using Raised by (simp add: curl_do_request_def)
next
  case (Errored e)
  have "fst (apply_method rq verb) = None" for rq :: "'a curl_request" and verb by (cases verb) simp_all
  then have "finish_request url body hs ps verb jar \<noteq> Errored e" for url body hs ps verb
    by (auto simp: finish_request_def Let_def split: prod.splits option.splits) (metis fst_conv option.distinct(1))
  then show ?thesis using Errored by (cases r) (auto split: sum.splits)
next
  case (Done rq)
  define at where "at = net (cu_session client) rq"
  let ?c = "\<lambda>e. cx_code e = cancelled_code"
  obtain k where k: "settles ?c (unat (cu_max_retries client)) at k" using settles_exists by blast
  have "curl_do_request cancelled_code net client r jar =
      (case curl_result cancelled_code (at k) of Inl e \<Rightarrow> Errored e | Inr d \<Rightarrow> Done d)"
    using with_retry_mapped [OF k]
    by (simp add: curl_do_request_def Done at_def [symmetric] curl_result_def split: sum.splits)
  moreover have "retryable ?c a \<longleftrightarrow> (\<exists>e. a = Inl e \<and> \<not> ?c e)" for a :: "curl_error + curl_response"
    by (cases a) simp_all
  ultimately show ?thesis using k by (auto simp: Done at_def [symmetric] settles_def intro!: exI [of _ k])
qed

text \<open>A transport that is refused once and then answers 204.\<close>

definition refused_once :: "unit curl_transport" where
  "refused_once session rq n =
     (if n = 0 then Inl \<lparr>cx_code = 7, cx_what = ''refused''\<rparr>
      else Inr \<lparr>cp_status = 204, cp_header_block = [], cp_effective_url = [], cp_text = []\<rparr>)"

theorem curl_request_outcome_witness:
  "\<exists>d. curl_do_request 42 refused_once new_curl_client
      (GetReq \<lparr>gr_url = ''https://h.test/p'', gr_params = [], gr_headers = [], gr_method = Get\<rparr>) (None :: (unit, unit) jar_object option) = Done d \<and>
     rd_status_code d = 204"
proof -
  let ?r = "GetReq \<lparr>gr_url = ''https://h.test/p'', gr_params = [], gr_headers = [], gr_method = Get\<rparr>"
  obtain rq where rq: "curl_prepare ?r (None :: (unit, unit) jar_object option) = Done rq"
    by (simp add: finish_request_def Let_def)
  have budget: "unat (cu_max_retries new_curl_client) = 4" by (simp add: new_curl_client_def curl_default_max_retries_def)
  from curl_request_outcome [where r = ?r and jar = "None :: (unit, unit) jar_object option" and
      cancelled_code = 42 and net = refused_once and client = new_curl_client]
  obtain k where k: "k \<le> 4" "\<forall>j < k. \<exists>e. refused_once (cu_session new_curl_client) rq j = Inl e \<and> cx_code e \<noteq> 42"
    "curl_do_request 42 refused_once new_curl_client ?r (None :: (unit, unit) jar_object option) =
       (case curl_result 42 (refused_once (cu_session new_curl_client) rq k) of Inl e \<Rightarrow> Errored e | Inr d \<Rightarrow> Done d)"
    "k = 4 \<or> (\<forall>e. refused_once (cu_session new_curl_client) rq k = Inl e \<longrightarrow> cx_code e = 42)"
    unfolding rq backend_result.case Let_def budget by blast
  have "k = 1" using k(2,4) by (cases "k = 0") (auto simp: refused_once_def dest: spec [of _ 1])
  with k(3) show ?thesis by (simp add: refused_once_def curl_result_def curl_response_data_def)
qed

end
