(* ===== verification/Multipart.thy ===== *)
theory Multipart
  imports Requests
begin

text \<open>
  \<open>build_multipart_body\<close> of \<open>src/net/UrlSessionClient.mm\<close>: the body of a multipart form, written by hand,
  and a reader of such bodies as RFC 2046 and RFC 7578 lay them out. Reading a file is a parameter.
\<close>

section \<open>The writer\<close>

definition crlf :: bytes where
  "crlf = [chr_cr, chr_lf]"

definition base_name :: "bytes \<Rightarrow> bytes" where
  "base_name path = rev (takeWhile (\<lambda>c. c \<noteq> CHR ''/'' \<and> c \<noteq> chr_bslash) (rev path))"

definition octet_stream :: bytes where
  "octet_stream = ''application/octet-stream''"

definition presented_filename :: "multipart_part \<Rightarrow> bytes option" where
  "presented_filename part =
     (case mp_source part of PartFile path \<Rightarrow> Some (base_name path) | _ \<Rightarrow> mp_filename part)"

definition presented_type :: "multipart_part \<Rightarrow> bytes option" where
  "presented_type part =
     (case mp_content_type part of
        Some t \<Rightarrow> Some t
      | None \<Rightarrow> (case mp_source part of PartText _ \<Rightarrow> None | _ \<Rightarrow> Some octet_stream))"

definition disposition_prefix :: bytes where
  "disposition_prefix = ''Content-Disposition: form-data; name='' @ [chr_dquote]"

definition filename_prefix :: bytes where
  "filename_prefix = ''; filename='' @ [chr_dquote]"

definition type_prefix :: bytes where
  "type_prefix = ''Content-Type: ''"

definition part_head :: "multipart_part \<Rightarrow> bytes" where
  "part_head part =
     crlf @ disposition_prefix @ mp_name part @ [chr_dquote] @
     (case presented_filename part of None \<Rightarrow> [] | Some f \<Rightarrow> filename_prefix @ f @ [chr_dquote]) @ crlf @
     (case presented_type part of None \<Rightarrow> [] | Some t \<Rightarrow> type_prefix @ t @ crlf) @ crlf"

definition part_contents :: "(bytes \<Rightarrow> bytes option) \<Rightarrow> multipart_part \<Rightarrow> bytes + bytes" where
  "part_contents file part =
     (case mp_source part of
        PartText v \<Rightarrow> Inr v
      | PartBuffer d \<Rightarrow> Inr d
      | PartFile path \<Rightarrow>
          (case file path of None \<Rightarrow> Inl (''multipart File part is not readable: '' @ path) | Some c \<Rightarrow> Inr c))"

definition renamed_file :: "multipart_part \<Rightarrow> bool" where
  "renamed_file part \<longleftrightarrow> (case mp_source part of PartFile _ \<Rightarrow> mp_filename part \<noteq> None | _ \<Rightarrow> False)"

text \<open>\<open>Inl\<close> is the message of the \<open>std::invalid_argument\<close> that is thrown.\<close>

fun append_parts :: "(bytes \<Rightarrow> bytes option) \<Rightarrow> bytes \<Rightarrow> bytes \<Rightarrow> multipart_part list \<Rightarrow> bytes + bytes" where
  "append_parts file boundary body [] = Inr (body @ ''--'' @ boundary @ ''--'' @ crlf)"
| "append_parts file boundary body (part # form) =
     (if renamed_file part then Inl ''multipart File part cannot set an explicit filename; use a Buffer part''
      else
        (case part_contents file part of
           Inl message \<Rightarrow> Inl message
         | Inr contents \<Rightarrow> append_parts file boundary (body @ ''--'' @ boundary @ part_head part @ contents @ crlf) form))"

definition build_multipart_body :: "(bytes \<Rightarrow> bytes option) \<Rightarrow> multipart_part list \<Rightarrow> bytes \<Rightarrow> bytes + bytes" where
  "build_multipart_body file form boundary = append_parts file boundary [] form"

section \<open>A reader\<close>

definition strip_prefix :: "bytes \<Rightarrow> bytes \<Rightarrow> bytes option" where
  "strip_prefix p s = (if starts_with s p then Some (drop (length p) s) else None)"

function split_text :: "bytes \<Rightarrow> bytes \<Rightarrow> bytes list" where
  "split_text d s =
     (if d = [] then [s]
      else (case find_from d s 0 of None \<Rightarrow> [s] | Some i \<Rightarrow> take i s # split_text d (drop (i + length d) s)))"
  by auto

termination
proof (relation "measure (\<lambda>(d, s). length s)")
  fix d s :: bytes and i
  assume "d \<noteq> []" "find_from d s 0 = Some i"
  with find_from_bound [OF this(2)] show "((d, drop (i + length d) s), (d, s)) \<in> measure (\<lambda>(d, s). length s)"
    by (cases d) auto
qed simp

declare split_text.simps [simp del]

type_synonym form_field = "bytes \<times> bytes option \<times> bytes option \<times> bytes"

definition read_filename :: "bytes \<Rightarrow> bytes option \<times> bytes" where
  "read_filename t =
     (case Option.bind (strip_prefix filename_prefix t) (split_first chr_dquote) of
        None \<Rightarrow> (None, t) | Some (f, rest) \<Rightarrow> (Some f, rest))"

definition read_type :: "bytes \<Rightarrow> bytes option \<times> bytes" where
  "read_type t =
     (case Option.bind (strip_prefix type_prefix t) (split_first chr_cr) of
        None \<Rightarrow> (None, t) | Some (ty, rest) \<Rightarrow> (Some ty, drop 1 rest))"

definition read_part :: "bytes \<Rightarrow> form_field option" where
  "read_part t =
     Option.bind (strip_prefix (crlf @ disposition_prefix) t) (\<lambda>t.
     Option.bind (split_first chr_dquote t) (\<lambda>(name, t).
     let (filename, t) = read_filename t in
     Option.bind (strip_prefix crlf t) (\<lambda>t.
     let (type, t) = read_type t in
     map_option (\<lambda>contents. (name, filename, type, contents)) (strip_prefix crlf t))))"

definition read_multipart :: "bytes \<Rightarrow> bytes \<Rightarrow> form_field option list" where
  "read_multipart boundary body =
     map read_part (butlast (tl (split_text (crlf @ ''--'' @ boundary) (crlf @ body))))"

section \<open>Lemmas\<close>

lemma strip_prefix_append [simp]: "strip_prefix p (p @ s) = Some s"
  by (simp add: strip_prefix_def starts_with_def)

lemma strip_prefix_append' [simp]: "strip_prefix (p @ q) (p @ q @ s) = Some s"
  using strip_prefix_append [of "p @ q" s] by simp

lemma read_filename_part:
  "chr_dquote \<notin> set (case fo of None \<Rightarrow> [] | Some f \<Rightarrow> f) \<Longrightarrow>
   read_filename ((case fo of None \<Rightarrow> [] | Some f \<Rightarrow> filename_prefix @ f @ [chr_dquote]) @ crlf @ s) = (fo, crlf @ s)"
  by (cases fo)
    (simp_all add: read_filename_def split_first_append strip_prefix_def starts_with_def filename_prefix_def crlf_def)

lemma read_type_part:
  "chr_cr \<notin> set (case ty of None \<Rightarrow> [] | Some t \<Rightarrow> t) \<Longrightarrow>
   read_type ((case ty of None \<Rightarrow> [] | Some t \<Rightarrow> type_prefix @ t @ crlf) @ crlf @ s) = (ty, crlf @ s)"
  by (cases ty)
    (simp_all add: read_type_def split_first_append strip_prefix_def starts_with_def type_prefix_def crlf_def)

text \<open>The texts of a part that stand in its header lines.\<close>

definition plain_part :: "multipart_part \<Rightarrow> bool" where
  "plain_part part \<longleftrightarrow> chr_dquote \<notin> set (mp_name part) \<and>
     chr_dquote \<notin> set (case presented_filename part of None \<Rightarrow> [] | Some f \<Rightarrow> f) \<and>
     chr_cr \<notin> set (case presented_type part of None \<Rightarrow> [] | Some t \<Rightarrow> t)"

lemma read_part_head:
  "plain_part part \<Longrightarrow>
   read_part (part_head part @ contents) = Some (mp_name part, presented_filename part, presented_type part, contents)"
  unfolding plain_part_def read_part_def part_head_def
  by (simp add: split_first_append read_filename_part read_type_part)

text \<open>A delimiter that starts with its only carriage return cannot overlap what stands in front of it.\<close>

definition absent :: "bytes \<Rightarrow> bytes \<Rightarrow> bool" where
  "absent d t \<longleftrightarrow> find_from d t 0 = None"

lemma split_text_next:
  assumes "absent (c # d) t" "c \<notin> set d"
  shows "split_text (c # d) (t @ (c # d) @ rest) = t # split_text (c # d) rest"
proof -
  have "\<not> starts_with (drop j t @ (c # d) @ rest) (c # d)" if "j < length t" for j
  proof
    let ?u = "drop j t"
    assume front: "starts_with (?u @ (c # d) @ rest) (c # d)"
    show False
    proof (cases "length (c # d) \<le> length ?u")
      case True
      with front have "starts_with ?u (c # d)" by (simp add: starts_with_def)
      then show False using assms(1) that by (auto simp: absent_def find_from_None)
    next
      case False
      from front have "(c # d) ! length ?u = (?u @ (c # d) @ rest) ! length ?u"
        using False by (metis not_le nth_take starts_with_def)
      then have "(c # d) ! length ?u = c" by (simp add: nth_append)
      moreover obtain k where "length ?u = Suc k" using \<open>j < length t\<close> by (cases "length ?u") auto
      ultimately show False using False assms(2) by (auto simp: in_set_conv_nth)
    qed
  qed
  then have "find_from (c # d) (t @ (c # d) @ rest) 0 = Some (length t)"
    by (auto simp: find_from_Some starts_with_def)
  then show ?thesis by (subst split_text.simps) simp
qed

fun delimited :: "bytes \<Rightarrow> bytes list \<Rightarrow> bytes" where
  "delimited d [] = d @ ''--'' @ crlf"
| "delimited d (t # ts) = d @ t @ delimited d ts"

lemma absent_tail: "absent (crlf @ ''--'' @ b) (''--'' @ crlf)"
proof -
  have "\<not> starts_with (drop j (''--'' @ crlf)) (crlf @ ''--'' @ b)" for j
  proof
    assume front: "starts_with (drop j (''--'' @ crlf)) (crlf @ ''--'' @ b)"
    then have "length (crlf @ ''--'' @ b) \<le> length (drop j (''--'' @ crlf))"
      unfolding starts_with_iff by (metis length_append le_add1)
    then have "j = 0" by (simp add: crlf_def)
    with front show False by (simp add: starts_with_def crlf_def)
  qed
  then show ?thesis by (simp add: absent_def find_from_None)
qed

lemma split_delimited:
  assumes "chr_cr \<notin> set b" "list_all (absent (crlf @ ''--'' @ b)) (t # ts)"
  shows "split_text (crlf @ ''--'' @ b) (t @ delimited (crlf @ ''--'' @ b) ts) = t # ts @ [''--'' @ crlf]"
  using assms(2)
proof (induction ts arbitrary: t)
  case Nil
  have "split_text (crlf @ ''--'' @ b) (''--'' @ crlf) = [''--'' @ crlf]"
    using absent_tail [of b] by (subst split_text.simps) (simp add: absent_def)
  then show ?case
    using split_text_next [of chr_cr "chr_lf # ''--'' @ b" t "''--'' @ crlf"] Nil assms(1) by (simp add: crlf_def)
next
  case (Cons u ts)
  then show ?case
    using split_text_next [of chr_cr "chr_lf # ''--'' @ b" t "u @ delimited (crlf @ ''--'' @ b) ts"] assms(1)
    by (simp add: crlf_def)
qed

text \<open>What a form without a broken part is written as: its parts, each behind a delimiter.\<close>

definition sound_part :: "(bytes \<Rightarrow> bytes option) \<Rightarrow> multipart_part \<Rightarrow> bool" where
  "sound_part file part \<longleftrightarrow> \<not> renamed_file part \<and> \<not> isl (part_contents file part)"

definition part_text :: "(bytes \<Rightarrow> bytes option) \<Rightarrow> multipart_part \<Rightarrow> bytes" where
  "part_text file part = part_head part @ projr (part_contents file part)"

lemma append_parts_delimited:
  "list_all (sound_part file) form \<Longrightarrow>
   \<exists>body'. append_parts file boundary body form = Inr (body @ body') \<and>
     crlf @ body' = delimited (crlf @ ''--'' @ boundary) (map (part_text file) form)"
proof (induction form arbitrary: body)
  case (Cons part form)
  let ?next = "body @ ''--'' @ boundary @ part_text file part @ crlf"
  from Cons.prems have step: "append_parts file boundary body (part # form) = append_parts file boundary ?next form"
    by (cases "part_contents file part") (simp_all add: sound_part_def part_text_def)
  from Cons obtain body' where b: "append_parts file boundary ?next form = Inr (?next @ body')"
    "crlf @ body' = delimited (crlf @ ''--'' @ boundary) (map (part_text file) form)" by fastforce
  let ?rest = "''--'' @ boundary @ part_text file part @ crlf @ body'"
  have "append_parts file boundary body (part # form) = Inr (body @ ?rest)"
    unfolding step b(1) by simp
  moreover have "crlf @ ?rest = delimited (crlf @ ''--'' @ boundary) (map (part_text file) (part # form))"
    using b(2) by simp
  ultimately show ?case by blast
qed simp

lemma append_parts_error:
  "(\<exists>message. append_parts file boundary body form = Inl message) \<longleftrightarrow> \<not> list_all (sound_part file) form"
  by (induction form arbitrary: body) (auto simp: sound_part_def split: sum.splits)

section \<open>Properties\<close>

text \<open>C28: a form body reads back to the form. When no field name or file name holds a quotation mark, no
  content type a carriage return, and the delimiter stands in no part, the reader finds every part in
  order, with its name, the presented file name and content type, and its contents byte for byte. A
  form is refused exactly when a file part carries a name of its own or cannot be read.\<close>

theorem multipart_roundtrip:
  assumes "chr_cr \<notin> set boundary" and "list_all plain_part form"
    and "list_all (\<lambda>part. absent (crlf @ ''--'' @ boundary) (part_text file part)) form"
  shows "if list_all (sound_part file) form
    then \<exists>body. build_multipart_body file form boundary = Inr body \<and>
      read_multipart boundary body =
        map (\<lambda>part. Some (mp_name part, presented_filename part, presented_type part, projr (part_contents file part))) form
    else \<exists>message. build_multipart_body file form boundary = Inl message"
proof (cases "list_all (sound_part file) form")
  case True
  let ?d = "crlf @ ''--'' @ boundary" and ?texts = "map (part_text file) form"
  obtain body where body: "build_multipart_body file form boundary = Inr body" "crlf @ body = delimited ?d ?texts"
    using append_parts_delimited [OF True, of boundary "[]"] by (auto simp: build_multipart_body_def)
  have "absent ?d []" by (simp add: absent_def find_from_None starts_with_def crlf_def)
  then have "split_text ?d ([] @ delimited ?d ?texts) = [] # ?texts @ [''--'' @ crlf]"
    using assms(3) by (intro split_delimited assms(1)) (simp add: list_all_iff)
  then have "read_multipart boundary body = map read_part ?texts"
    by (simp add: read_multipart_def body)
  also have "\<dots> = map (\<lambda>part. Some (mp_name part, presented_filename part, presented_type part, projr (part_contents file part))) form"
    using assms(2) by (auto simp: part_text_def read_part_head list_all_iff)
  finally show ?thesis using True body(1) by auto
next
  case False
  then show ?thesis using append_parts_error unfolding build_multipart_body_def by simp
qed

text \<open>
  Names are written as they are. A text field whose name holds a quotation mark writes the very bytes
  of a field with a file name.
\<close>

theorem quoted_name_forges_filename:
  "build_multipart_body file [\<lparr>mp_name = n @ [chr_dquote] @ filename_prefix @ f, mp_source = PartText v, mp_filename = None, mp_content_type = ty\<rparr>] b =
   build_multipart_body file [\<lparr>mp_name = n, mp_source = PartText v, mp_filename = Some f, mp_content_type = ty\<rparr>] b"
  by (simp add: build_multipart_body_def part_head_def part_contents_def presented_filename_def presented_type_def renamed_file_def
      split: option.splits)

definition sample_form :: "multipart_part list" where
  "sample_form =
     [\<lparr>mp_name = ''a'', mp_source = PartText ''1'', mp_filename = None, mp_content_type = None\<rparr>,
      \<lparr>mp_name = ''b'', mp_source = PartFile ''/tmp/c.png'', mp_filename = None, mp_content_type = None\<rparr>]"

theorem multipart_roundtrip_witness:
  "\<exists>body. build_multipart_body (\<lambda>_. Some ''xyz'') sample_form ''B'' = Inr body \<and>
     read_multipart ''B'' body = [Some (''a'', None, None, ''1''), Some (''b'', Some ''c.png'', Some octet_stream, ''xyz'')]"
proof -
  have "chr_cr \<notin> set ''B''" by simp
  moreover have "list_all plain_part sample_form"
    by code_simp
  moreover have "list_all (\<lambda>part. absent (crlf @ ''--'' @ ''B'') (part_text (\<lambda>_. Some ''xyz'') part)) sample_form"
    by code_simp
  moreover have "list_all (sound_part (\<lambda>_. Some ''xyz'')) sample_form"
    by code_simp
  ultimately show ?thesis
    using multipart_roundtrip [of "''B''" sample_form "\<lambda>_. Some ''xyz''"]
    by (simp add: sample_form_def presented_filename_def presented_type_def part_contents_def base_name_def)
qed

end
