(* ===== verification/Url_Session.thy ===== *)
theory Url_Session
  imports Client_Config Cookies Retry Multipart
begin

text \<open>
  \<open>src/net/UrlSessionClient.mm\<close>: the HTTP backend over \<open>NSURLSession\<close>. An \<open>NSString*\<close> is the UTF-8
  bytes of the string or \<open>None\<close> for nil. What Foundation answers (its URL parser, its parser of
  \<open>Set-Cookie\<close>, the file system, the UUID of a call and the completions of a transfer) are parameters.
  An \<open>NSMutableURLRequest\<close> is what the code puts into it, the calls on its header fields in order.
\<close>

section \<open>Strings\<close>

fun continues :: "nat \<Rightarrow> bytes \<Rightarrow> bytes option" where
  "continues 0 s = Some s"
| "continues (Suc n) [] = None"
| "continues (Suc n) (c # s) = (if 128 \<le> code c \<and> code c < 192 then continues n s else None)"

lemma continues_shorter: "continues n s = Some r \<Longrightarrow> length r \<le> length s"
  by (induction n s rule: continues.induct) (auto split: if_splits)

text \<open>The well-formed byte sequences of UTF-8 (RFC 3629): no overlong form, no surrogate, at most U+10FFFF.\<close>

definition lead_continuations :: "char \<Rightarrow> bytes \<Rightarrow> nat option" where
  "lead_continuations c s =
     (let second = (case s of [] \<Rightarrow> 0 | d # _ \<Rightarrow> code d)
      in if code c < 128 then Some 0
         else if 194 \<le> code c \<and> code c < 224 then Some 1
         else if 224 \<le> code c \<and> code c < 240 then
           (if (code c = 224 \<and> second < 160) \<or> (code c = 237 \<and> 160 \<le> second) then None else Some 2)
         else if 240 \<le> code c \<and> code c < 245 then
           (if (code c = 240 \<and> second < 144) \<or> (code c = 244 \<and> 144 \<le> second) then None else Some 3)
         else None)"

function valid_utf8 :: "bytes \<Rightarrow> bool" where
  "valid_utf8 [] = True"
| "valid_utf8 (c # s) =
     (case Option.bind (lead_continuations c s) (\<lambda>n. continues n s) of None \<Rightarrow> False | Some rest \<Rightarrow> valid_utf8 rest)"
  by pat_completeness auto

termination
  by (relation "measure length") (auto simp: bind_eq_Some_conv dest: continues_shorter)

type_synonym ns_string = "bytes option"

definition to_ns :: "bytes \<Rightarrow> ns_string" where
  "to_ns t = (if valid_utf8 t then Some t else None)"

definition from_ns :: "ns_string \<Rightarrow> bytes" where
  "from_ns t = (case t of None \<Rightarrow> [] | Some utf8 \<Rightarrow> takeWhile (\<lambda>c. code c \<noteq> 0) utf8)"

definition from_data :: "bytes option \<Rightarrow> bytes" where
  "from_data d = (case d of None \<Rightarrow> [] | Some b \<Rightarrow> b)"

section \<open>What Foundation hands over\<close>

record ns_error =
  ne_domain :: bytes
  ne_code :: int
  ne_description :: ns_string

text \<open>An expiry date is given as the ticks of the system clock its interval since 1970 converts to.\<close>

record ns_cookie =
  nc_name :: ns_string
  nc_value :: ns_string
  nc_path :: ns_string
  nc_domain :: ns_string
  nc_secure :: bool
  nc_http_only :: bool
  nc_expires :: "int option"

record ns_url =
  nu_scheme :: ns_string
  nu_host :: ns_string
  nu_path :: ns_string

text \<open>The fields are the dictionary's entries in its order, \<open>None\<close> for a key or value that is no string.\<close>

type_synonym ns_fields = "(ns_string \<times> ns_string) list"

record ns_response =
  nr_status :: int
  nr_all_fields :: ns_fields
  nr_response_url :: "ns_string option"

record foundation =
  fd_url_with_string :: "ns_string \<Rightarrow> ns_url option"
  fd_cookies :: "ns_fields \<Rightarrow> ns_string \<Rightarrow> ns_cookie list"
  fd_contents_of_file :: "ns_string \<Rightarrow> bytes option"
  fd_uuid :: ns_string

definition url_error_domain :: bytes where
  "url_error_domain = ''NSURLErrorDomain''"

definition url_error_cancelled :: int where
  "url_error_cancelled = -999"

definition ns_error_to_code :: "ns_error \<Rightarrow> request_error_code" where
  "ns_error_to_code e =
     (if ne_domain e = url_error_domain \<and> ne_code e = url_error_cancelled then Cancelled else NetworkError)"

definition to_cookie :: "ns_cookie \<Rightarrow> cookie" where
  "to_cookie n =
     (let domain = from_ns (nc_domain n);
          dotted = starts_with domain ''.''
      in \<lparr>ck_name = from_ns (nc_name n), ck_value = from_ns (nc_value n),
          ck_domain = (if dotted then drop 1 domain else domain), ck_path = from_ns (nc_path n),
          ck_expires = nc_expires n, ck_secure = nc_secure n, ck_http_only = nc_http_only n,
          ck_include_subdomains = dotted\<rparr>)"

text \<open>\<open>response.URL.absoluteString\<close> is nil where the URL is.\<close>

definition to_response_data :: "ns_response \<Rightarrow> bytes option \<Rightarrow> response_data" where
  "to_response_data response body =
     (let headers = foldl (\<lambda>hs (key, v). if key \<noteq> None \<and> v \<noteq> None then headers_append hs (from_ns key) (from_ns v) else hs)
            [] (nr_all_fields response);
          effective_url = from_ns (Option.bind (nr_response_url response) (\<lambda>u. u))
      in \<lparr>rd_status_code = nr_status response, rd_body = from_data body, rd_headers = headers,
          rd_effective_url = (if effective_url \<noteq> [] then Some effective_url else None)\<rparr>)"

section \<open>The session\<close>

text \<open>A session together with its delegate. The delegate's properties are set before the session is built.\<close>

record ns_session =
  ss_verify_ssl :: bool
  ss_proxy_user :: ns_string
  ss_proxy_password :: ns_string
  ss_timeout :: "int option"
  ss_proxy :: "(ns_string \<times> 16 word) option"

record session_delegate =
  sd_verify_ssl :: bool
  sd_proxy_user :: ns_string
  sd_proxy_password :: ns_string

definition make_session :: "client_config \<Rightarrow> session_delegate \<Rightarrow> ns_session" where
  "make_session config delegate =
     \<lparr>ss_verify_ssl = sd_verify_ssl delegate, ss_proxy_user = sd_proxy_user delegate,
      ss_proxy_password = sd_proxy_password delegate, ss_timeout = cc_timeout config,
      ss_proxy = map_option (\<lambda>p. (to_ns (px_host p), px_port p)) (cc_proxy config)\<rparr>"

record session_client =
  uc_session :: ns_session
  uc_max_retries :: "32 word"

definition default_max_retries :: "32 word" where
  "default_max_retries = 4"

definition new_session_client :: session_client where
  "new_session_client =
     \<lparr>uc_session = make_session default_client_config \<lparr>sd_verify_ssl = True, sd_proxy_user = None, sd_proxy_password = None\<rparr>,
      uc_max_retries = default_max_retries\<rparr>"

definition session_set_config :: "client_config \<Rightarrow> session_client \<Rightarrow> session_client" where
  "session_set_config config client =
     (let blank = \<lparr>sd_verify_ssl = sb_has (cc_flags config) verify_ssl, sd_proxy_user = None, sd_proxy_password = None\<rparr>;
          delegate = (case cc_proxy config of
              None \<Rightarrow> blank
            | Some p \<Rightarrow> if px_user p \<noteq> [] then blank\<lparr>sd_proxy_user := to_ns (px_user p), sd_proxy_password := to_ns (px_passwd p)\<rparr>
                        else blank)
      in client\<lparr>uc_max_retries := (case cc_max_retries config of None \<Rightarrow> default_max_retries | Some n \<Rightarrow> n),
                uc_session := make_session config delegate\<rparr>)"

text \<open>\<open>NSURLSession:willPerformHTTPRedirection:\<close> continues with no request, whatever it is asked.\<close>

definition will_perform_redirection :: "ns_response \<Rightarrow> 'rq \<Rightarrow> 'rq option" where
  "will_perform_redirection response new_request = None"

datatype authentication_method = ServerTrust | HttpBasic | HttpDigest | Ntlm | OtherMethod

text \<open>\<open>ch_is_proxy\<close> is \<open>protectionSpace.isProxy\<close>: whether the challenger is the proxy. The delegate does not ask.\<close>

record 't challenge =
  ch_method :: authentication_method
  ch_server_trust :: "'t option"
  ch_previous_failures :: nat
  ch_is_proxy :: bool

datatype 't disposition = PerformDefaultHandling | UseTrust 't | UseCredential bytes ns_string

definition did_receive_challenge :: "ns_session \<Rightarrow> 't challenge \<Rightarrow> 't disposition" where
  "did_receive_challenge session challenge =
     (if ch_method challenge = ServerTrust then
        (case ch_server_trust challenge of
           None \<Rightarrow> PerformDefaultHandling
         | Some trust \<Rightarrow> if ss_verify_ssl session then PerformDefaultHandling else UseTrust trust)
      else
        (case ss_proxy_user session of
           None \<Rightarrow> PerformDefaultHandling
         | Some user \<Rightarrow>
             if ch_previous_failures challenge = 0 \<and> ch_method challenge \<in> {HttpBasic, HttpDigest, Ntlm}
             then UseCredential user (case ss_proxy_password session of None \<Rightarrow> Some [] | Some p \<Rightarrow> Some p)
             else PerformDefaultHandling))"

section \<open>Building a request\<close>

datatype field_call = SetField ns_string ns_string | AddField ns_string ns_string

record ns_request =
  nq_url :: ns_url
  nq_method :: bytes
  nq_body :: "bytes option"
  nq_fields :: "field_call list"

fun to_http_method :: "http_method \<Rightarrow> bytes option" where
  "to_http_method Get = Some ''GET''"
| "to_http_method Head = Some ''HEAD''"
| "to_http_method Post = Some ''POST''"
| "to_http_method Put = Some ''PUT''"
| "to_http_method Patch = Some ''PATCH''"
| "to_http_method Delete = Some ''DELETE''"
| "to_http_method Options = Some ''OPTIONS''"

definition build_url :: "bytes \<Rightarrow> url_parameters \<Rightarrow> bytes" where
  "build_url url params =
     (if params = [] then url_encode_uri url
      else url_encode_uri (url @ (if CHR ''?'' \<notin> set url then ''?'' else ''&'') @ to_urlencoded params))"

definition apply_headers :: "ns_request \<Rightarrow> headers \<Rightarrow> ns_request" where
  "apply_headers rq hs = foldl (\<lambda>rq (name, v). rq\<lparr>nq_fields := nq_fields rq @ [AddField (to_ns name) (to_ns v)]\<rparr>) rq hs"

text \<open>A jar that is not the library's own \<open>MemoryCookieJar\<close>, or none, is \<open>None\<close>. A message to a nil scheme answers zero, \<open>NSOrderedSame\<close>.\<close>

definition cookie_step :: "bytes \<Rightarrow> cookie \<Rightarrow> bytes" where
  "cookie_step header c = (if header \<noteq> [] then header @ ''; '' else header) @ ck_name c @ ''='' @ ck_value c"

definition url_is_secure :: "ns_url \<Rightarrow> bool" where
  "url_is_secure url = (case nu_scheme url of None \<Rightarrow> True | Some scheme \<Rightarrow> equals_ignore_case scheme ''https'')"

definition apply_cookies :: "int \<Rightarrow> headers \<Rightarrow> ns_request \<Rightarrow> memory_jar option \<Rightarrow> ns_request \<times> memory_jar option" where
  "apply_cookies now hs rq jar =
     (case jar of
        None \<Rightarrow> (rq, None)
      | Some j \<Rightarrow>
          (if headers_contains hs ''Cookie'' then (rq, Some j)
           else
             (let url = nq_url rq;
                  path = from_ns (nu_path url);
                  (cookies, stored) = cookies_for now (store_ref j) (from_ns (nu_host url))
                    (if path = [] then ''/'' else path) (url_is_secure url);
                  j' = j\<lparr>store_ref := stored\<rparr>
              in if cookies = [] then (rq, Some j')
                 else (rq\<lparr>nq_fields := nq_fields rq @ [SetField (Some ''Cookie'') (to_ns (foldl cookie_step [] cookies))]\<rparr>, Some j'))))"

definition harvest_cookies :: "foundation \<Rightarrow> ns_response \<Rightarrow> memory_jar option \<Rightarrow> memory_jar option" where
  "harvest_cookies fd response jar =
     (case (jar, nr_response_url response) of
        (Some j, Some url) \<Rightarrow>
          Some (foldl (\<lambda>j n. j\<lparr>store_ref := store_set (store_ref j) (to_cookie n)\<rparr>) j (fd_cookies fd (nr_all_fields response) url))
      | _ \<Rightarrow> jar)"

definition plain_request :: "ns_url \<Rightarrow> bytes \<Rightarrow> bytes option \<Rightarrow> ns_request" where
  "plain_request url verb body = \<lparr>nq_url = url, nq_method = verb, nq_body = body, nq_fields = []\<rparr>"

text \<open>The two guards every kind of request starts with.\<close>

definition with_target ::
  "foundation \<Rightarrow> http_method \<Rightarrow> bytes \<Rightarrow> url_parameters \<Rightarrow> (bytes \<Rightarrow> ns_url \<Rightarrow> ns_request backend_result) \<Rightarrow> ns_request backend_result" where
  "with_target fd verb url params build =
     (case to_http_method verb of
        None \<Rightarrow> Errored (make_response_error NotImplemented ''unsupported HTTP method'' None [])
      | Some name \<Rightarrow>
          (case fd_url_with_string fd (to_ns (build_url url params)) of
             None \<Rightarrow> Errored (make_response_error InvalidArguments (''malformed request URL: '' @ url) None [])
           | Some target \<Rightarrow> build name target))"

definition form_boundary :: "foundation \<Rightarrow> bytes" where
  "form_boundary fd = ''----aniparse'' @ from_ns (fd_uuid fd)"

fun prepare_request :: "foundation \<Rightarrow> client_request \<Rightarrow> ns_request backend_result" where
  "prepare_request fd (GetReq r) =
     with_target fd (gr_method r) (gr_url r) (gr_params r) (\<lambda>name target.
       Done (apply_headers (plain_request target name None) (gr_headers r)))"
| "prepare_request fd (PostReq r) =
     with_target fd (po_method r) (po_url r) (po_params r) (\<lambda>name target.
       Done (apply_headers (plain_request target name (Some (po_body r))) (po_headers r)))"
| "prepare_request fd (MultipartReq r) =
     with_target fd (mr_method r) (mr_url r) (mr_params r) (\<lambda>name target.
       let boundary = form_boundary fd in
       case build_multipart_body (\<lambda>path. fd_contents_of_file fd (to_ns path)) (mr_forms r) boundary of
         Inl message \<Rightarrow> Raised message
       | Inr body \<Rightarrow>
           Done (apply_headers
             ((plain_request target name (Some body))
                \<lparr>nq_fields := [SetField (Some ''Content-Type'') (to_ns (''multipart/form-data; boundary='' @ boundary))]\<rparr>)
             (mr_headers r)))"

section \<open>Performing it\<close>

text \<open>How one attempt ends: stopped before it began, with an error, or with a response.\<close>

datatype completion = StopRequested | Broke ns_error | Landed ns_response "bytes option"

fun completed_result :: "completion \<Rightarrow> request_error + response_data" where
  "completed_result StopRequested = Inl (make_response_error Cancelled ''request cancelled'' None [])"
| "completed_result (Broke e) = Inl (make_response_error (ns_error_to_code e) (from_ns (ne_description e)) None [])"
| "completed_result (Landed response data) = Inr (to_response_data response data)"

fun completed_jar :: "foundation \<Rightarrow> completion \<Rightarrow> memory_jar option \<Rightarrow> memory_jar option" where
  "completed_jar fd (Landed response data) jar = harvest_cookies fd response jar"
| "completed_jar fd _ jar = jar"

definition was_cancelled :: "request_error \<Rightarrow> bool" where
  "was_cancelled e \<longleftrightarrow> re_code e = Cancelled"

text \<open>
  The transport: how the \<open>n\<close>-th attempt at a request on a session ends. \<open>None\<close> is a request that never
  returns.
\<close>

type_synonym ns_transport = "ns_session \<Rightarrow> ns_request \<Rightarrow> nat \<Rightarrow> completion"

definition no_attempt :: "request_error + response_data" where
  "no_attempt = Inl (make_response_error NetworkError ''no attempt made'' None [])"

definition session_do_request ::
  "foundation \<Rightarrow> ns_transport \<Rightarrow> session_client \<Rightarrow> int \<Rightarrow> client_request \<Rightarrow> memory_jar option \<Rightarrow>
   (response_data backend_result \<times> memory_jar option) option" where
  "session_do_request fd net client now r jar =
     (case prepare_request fd r of
        Raised message \<Rightarrow> Some (Raised message, jar)
      | Errored e \<Rightarrow> Some (Errored e, jar)
      | Done rq \<Rightarrow>
          (let (sent, jar') = apply_cookies now (rq_headers r) rq jar;
               attempts = net (uc_session client) sent
           in map_option (\<lambda>(result, n).
                (case result of Inl e \<Rightarrow> Errored e | Inr d \<Rightarrow> Done d, foldl (\<lambda>j k. completed_jar fd (attempts k) j) jar' [0..<n]))
              (perform_with_retry was_cancelled (uc_max_retries client) (\<lambda>n. completed_result (attempts n)) 0 0 no_attempt)))"

section \<open>The request URL\<close>

text \<open>The query of a URL: what stands behind the first question mark, up to a fragment.\<close>

definition url_query :: "bytes \<Rightarrow> bytes" where
  "url_query u = (case split_first CHR ''?'' (takeWhile (\<lambda>c. c \<noteq> CHR ''#'') u) of None \<Rightarrow> [] | Some (_, q) \<Rightarrow> q)"

lemma url_encode_uri_append: "url_encode_uri (a @ b) = url_encode_uri a @ url_encode_uri b"
  by (simp add: url_encode_uri_map)

lemma url_encode_uri_form [simp]: "url_encode_uri (to_urlencoded ps) = to_urlencoded ps"
proof (rule url_encode_uri_id)
  have "is_uri_character c" if "is_unreserved c \<or> c \<in> set ''%&=''" for c
    using that by (auto simp: is_uri_character_def)
  then show "\<forall>c \<in> set (to_urlencoded ps). is_uri_character c"
    using form_alphabet by blast
qed

lemma to_urlencoded_Nil [simp]: "to_urlencoded [] = []"
  by (simp add: to_urlencoded_def)

lemma mark_kept:
  assumes "is_uri_character c" "\<not> is_unreserved c" "c \<noteq> CHR ''%''"
  shows "c \<in> set (url_encode_uri s) \<longleftrightarrow> c \<in> set s"
proof
  assume "c \<in> set (url_encode_uri s)"
  then show "c \<in> set s"
    unfolding url_encode_uri_map using assms(2,3) by (auto dest: escape_byte_alphabet split: if_splits)
qed (use assms(1) in \<open>force simp: url_encode_uri_map\<close>)

lemma query_marks_kept [simp]:
  "CHR ''?'' \<in> set (url_encode_uri s) \<longleftrightarrow> CHR ''?'' \<in> set s" "CHR ''#'' \<in> set (url_encode_uri s) \<longleftrightarrow> CHR ''#'' \<in> set s"
  by (rule mark_kept; simp add: is_uri_character_def is_unreserved_def is_digit_def is_upper_def is_lower_def code_def)+

lemma marks_not_in_form [simp]: "CHR ''?'' \<notin> set (to_urlencoded ps)" "CHR ''#'' \<notin> set (to_urlencoded ps)"
  using form_alphabet [of _ ps]
  by (force simp: is_unreserved_def is_digit_def is_upper_def is_lower_def code_def)+

lemma build_url_eq:
  "build_url url params = url_encode_uri url @
     (if params = [] then [] else (if CHR ''?'' \<notin> set url then ''?'' else ''&'') @ to_urlencoded params)"
proof -
  have "url_encode_uri ''?'' = ''?''" "url_encode_uri ''&'' = ''&''"
    by (simp_all add: is_uri_character_def)
  then show ?thesis by (auto simp: build_url_def url_encode_uri_append simp del: url_encode_uri.simps)
qed

lemma takeWhile_absent: "c \<notin> set a \<Longrightarrow> takeWhile (\<lambda>x. x \<noteq> c) a = a"
  by (auto simp: takeWhile_eq_all_conv)

text \<open>The query a request carries. Behind a URL without a query and a fragment, the query that goes out
  reads back to exactly the parameters of the request; behind a URL that has a query already, they are
  appended to it. But the text is appended at the very end: when the URL has a fragment, the parameters
  become part of the fragment and the query that goes out is the one the URL had.\<close>

theorem session_url_query:
  "(CHR ''#'' \<notin> set url \<and> CHR ''?'' \<notin> set url \<longrightarrow> read_form (url_query (build_url url params)) = params) \<and>
   (CHR ''#'' \<notin> set url \<and> CHR ''?'' \<in> set url \<longrightarrow>
      url_query (build_url url params) = url_query (url_encode_uri url) @ (if params = [] then [] else ''&'' @ to_urlencoded params)) \<and>
   (CHR ''#'' \<in> set url \<longrightarrow> url_query (build_url url params) = url_query (url_encode_uri url))"
proof (intro conjI impI)
  assume a: "CHR ''#'' \<notin> set url \<and> CHR ''?'' \<notin> set url"
  then have "url_query (build_url url params) = to_urlencoded params"
    by (cases "params = []")
      (simp_all add: url_query_def build_url_eq takeWhile_absent split_first_append split_first_absent)
  then show "read_form (url_query (build_url url params)) = params" by (simp add: form_reads_back)
next
  assume a: "CHR ''#'' \<notin> set url \<and> CHR ''?'' \<in> set url"
  then obtain u q where u: "url_encode_uri url = u @ CHR ''?'' # q" "CHR ''?'' \<notin> set u"
    using query_marks_kept(1) split_list_first by metis
  moreover have "CHR ''#'' \<notin> set (url_encode_uri url)" using a by simp
  ultimately show "url_query (build_url url params) =
      url_query (url_encode_uri url) @ (if params = [] then [] else ''&'' @ to_urlencoded params)"
    using a by (simp add: url_query_def build_url_eq takeWhile_absent split_first_append)
next
  assume "CHR ''#'' \<in> set url"
  then have "takeWhile (\<lambda>c. c \<noteq> CHR ''#'') (build_url url params) = takeWhile (\<lambda>c. c \<noteq> CHR ''#'') (url_encode_uri url)"
    unfolding build_url_eq by (intro takeWhile_append1) simp_all
  then show "url_query (build_url url params) = url_query (url_encode_uri url)"
    by (simp add: url_query_def)
qed

theorem session_url_query_witness:
  "read_form (url_query (build_url ''http://h/p'' [(''k'', ''a b'')])) = [(''k'', ''a b'')] \<and>
   url_query (build_url ''http://h/p#top'' [(''k'', ''v'')]) = url_query (url_encode_uri ''http://h/p#top'')"
  using session_url_query [of "''http://h/p''" "[(''k'', ''a b'')]"] session_url_query [of "''http://h/p#top''" "[(''k'', ''v'')]"]
  by simp

section \<open>Cookies of a request\<close>

definition request_path :: "ns_url \<Rightarrow> bytes" where
  "request_path url = (let path = from_ns (nu_path url) in if path = [] then ''/'' else path)"

text \<open>RFC 6265 on the library's cookies: whether one may go out with a request to the URL.\<close>

definition in_scope :: "int \<Rightarrow> ns_url \<Rightarrow> cookie \<Rightarrow> bool" where
  "in_scope now url c \<longleftrightarrow>
     (let host = lower (from_ns (nu_host url)); domain = lower (bare_domain c)
      in domain \<noteq> [] \<and> (host = domain \<or> covers_subdomains c \<and> (\<exists>sub. host = sub @ CHR ''.'' # domain))) \<and>
     (ck_path c \<in> {[], ''/''} \<or> rfc6265_path_match (ck_path c) (request_path url)) \<and>
     (ck_secure c \<longrightarrow> url_is_secure url) \<and> (case ck_expires c of None \<Rightarrow> True | Some t \<Rightarrow> now < t)"

fun cookie_text :: "cookie list \<Rightarrow> bytes" where
  "cookie_text [] = []"
| "cookie_text [c] = ck_name c @ ''='' @ ck_value c"
| "cookie_text (c # d # cs) = ck_name c @ ''='' @ ck_value c @ ''; '' @ cookie_text (d # cs)"

lemma cookie_text_Cons:
  "cookie_text (c # cs) = ck_name c @ ''='' @ ck_value c @ (if cs = [] then [] else ''; '' @ cookie_text cs)"
  by (cases cs) simp_all

lemma foldl_cookie_step: "header \<noteq> [] \<Longrightarrow> foldl cookie_step header cs = header @ (if cs = [] then [] else ''; '' @ cookie_text cs)"
  by (induction cs arbitrary: header) (simp_all add: cookie_step_def cookie_text_Cons del: cookie_text.simps(2,3))

lemma cookie_header: "foldl cookie_step [] cs = cookie_text cs"
  by (cases cs) (simp_all add: cookie_step_def foldl_cookie_step cookie_text_Cons del: cookie_text.simps(2,3))

lemma request_path_nonempty: "request_path url \<noteq> []"
  by (simp add: request_path_def Let_def)

lemma cookies_for_in_scope:
  "cookies_for now cs (from_ns (nu_host url)) (request_path url) (url_is_secure url) =
     (filter (in_scope now url) cs, filter (\<lambda>c. \<not> is_expired c now) cs)"
proof -
  have "cookie_path_matches c (request_path url) \<longleftrightarrow> ck_path c \<in> {[], ''/''} \<or> rfc6265_path_match (ck_path c) (request_path url)" for c
    using path_matches_iff [of c "request_path url"] request_path_nonempty
    by (cases "ck_path c \<in> {[], ''/''}") (auto simp: cookie_path_matches_def)
  then have "(\<not> is_expired c now \<and> (if ck_secure c \<and> \<not> url_is_secure url then False
      else cookie_domain_matches c (from_ns (nu_host url)) \<and> cookie_path_matches c (request_path url))) \<longleftrightarrow> in_scope now url c" for c
    by (auto simp: in_scope_def Let_def domain_matches_iff is_expired_def not_le split: option.splits)
  then show ?thesis
    by (auto simp: cookies_for_def Let_def conj_commute intro: filter_cong)
qed

text \<open>The cookies a request carries. A request that states no Cookie header of its own gets one with
  exactly the cookies of the jar that RFC 6265 lets go to its host, path and transport and that have
  not expired, in the order of the jar, as pairs separated by a semicolon and a blank; with no such
  cookie nothing is added. The jar drops its expired cookies and keeps all others. A URL without a
  scheme counts as a secure one.\<close>

theorem session_cookies_sent:
  assumes "\<not> headers_contains hs ''Cookie''"
  shows "apply_cookies now hs rq (Some j) =
     (let sent = filter (in_scope now (nq_url rq)) (store_ref j)
      in (if sent = [] then rq
          else rq\<lparr>nq_fields := nq_fields rq @ [SetField (Some ''Cookie'') (to_ns (cookie_text sent))]\<rparr>,
          Some (j\<lparr>store_ref := filter (\<lambda>c. \<not> is_expired c now) (store_ref j)\<rparr>))) \<and>
     (nu_scheme (nq_url rq) = None \<longrightarrow> url_is_secure (nq_url rq))"
  using assms cookies_for_in_scope [of now "store_ref j" "nq_url rq"]
  by (simp add: apply_cookies_def Let_def request_path_def cookie_header url_is_secure_def)

section \<open>How a request ends\<close>

lemma completed_jar_broke:
  "(\<And>k. k \<in> set ks \<Longrightarrow> retryable was_cancelled (completed_result (at k))) \<Longrightarrow> foldl (\<lambda>j k. completed_jar fd (at k) j) jar ks = jar"
proof (induction ks arbitrary: jar)
  case (Cons k ks)
  have "retryable was_cancelled (completed_result (at k))" by (rule Cons.prems) simp
  then have "completed_jar fd (at k) jar = jar" by (cases "at k") auto
  with Cons show ?case by simp
qed simp

lemma retryable_completed:
  "retryable was_cancelled (completed_result a) \<longleftrightarrow> (\<exists>e. a = Broke e \<and> ns_error_to_code e = NetworkError)"
  by (cases a) (auto simp: was_cancelled_def make_response_error_def ns_error_to_code_def)

text \<open>C26: how a request ends, for every retry budget but the largest. A verb or a URL that cannot be sent and
  a broken form are reported without any attempt and without touching the jar. Otherwise the attempts
  go out one after the other, all of the same request, up to the first one that landed or was
  cancelled, or to the budget; what the last one gave is the result, a response whatever its status,
  and only the response that is handed out has its cookies put into the jar.\<close>

theorem session_request_outcome:
  assumes "uc_max_retries client \<noteq> -1"
  shows "case prepare_request fd r of
      Raised message \<Rightarrow> session_do_request fd net client now r jar = Some (Raised message, jar)
    | Errored e \<Rightarrow> session_do_request fd net client now r jar = Some (Errored e, jar)
    | Done rq \<Rightarrow>
        (let (sent, jar') = apply_cookies now (rq_headers r) rq jar; at = net (uc_session client) sent
         in \<exists>k \<le> unat (uc_max_retries client). (\<forall>j < k. \<exists>e. at j = Broke e \<and> ns_error_to_code e = NetworkError) \<and>
           session_do_request fd net client now r jar = Some
             (case at k of
                Landed response data \<Rightarrow> (Done (to_response_data response data), harvest_cookies fd response jar')
              | StopRequested \<Rightarrow> (Errored (make_response_error Cancelled ''request cancelled'' None []), jar')
              | Broke e \<Rightarrow> (Errored (make_response_error (ns_error_to_code e) (from_ns (ne_description e)) None []), jar')) \<and>
           (k = unat (uc_max_retries client) \<or> (\<forall>e. at k = Broke e \<longrightarrow> ns_error_to_code e = Cancelled)))"
proof (cases "prepare_request fd r")
  case (Done rq)
  obtain sent jar' where sent: "apply_cookies now (rq_headers r) rq jar = (sent, jar')" by fastforce
  define at where "at = net (uc_session client) sent"
  from session_retry.run_returns [OF assms, of was_cancelled "\<lambda>n. completed_result (at n)" no_attempt]
  obtain k where k: "settles was_cancelled (unat (uc_max_retries client)) (\<lambda>n. completed_result (at n)) k"
    "perform_with_retry was_cancelled (uc_max_retries client) (\<lambda>n. completed_result (at n)) 0 0 no_attempt =
       Some (completed_result (at k), Suc k)" by blast
  have before: "\<forall>j < k. retryable was_cancelled (completed_result (at j))" using k(1) by (simp add: settles_def)
  have "foldl (\<lambda>j k. completed_jar fd (at k) j) jar' [0..<Suc k] = completed_jar fd (at k) jar'"
    using before completed_jar_broke [of "[0..<k]" at fd jar'] by simp
  then have "session_do_request fd net client now r jar = Some
      (case completed_result (at k) of Inl e \<Rightarrow> Errored e | Inr d \<Rightarrow> Done d, completed_jar fd (at k) jar')"
    by (simp add: session_do_request_def Done sent k(2) at_def [symmetric] del: upt_Suc)
  moreover have "k \<le> unat (uc_max_retries client)"
    "k = unat (uc_max_retries client) \<or> (\<forall>e. at k = Broke e \<longrightarrow> ns_error_to_code e = Cancelled)"
    using k(1) retryable_completed [of "at k"] by (auto simp: settles_def ns_error_to_code_def)
  ultimately show ?thesis
    using before by (auto simp: Done sent at_def [symmetric] retryable_completed intro!: exI [of _ k] split: completion.splits)
qed (simp_all add: session_do_request_def)

section \<open>Whom the delegate trusts\<close>


definition sample_challenge :: "unit challenge" where
  "sample_challenge = \<lparr>ch_method = ServerTrust, ch_server_trust = Some (), ch_previous_failures = 0, ch_is_proxy = False\<rparr>"


section \<open>A session\<close>

definition sample_url :: ns_url where
  "sample_url = \<lparr>nu_scheme = Some ''https'', nu_host = Some ''h.test'', nu_path = Some ''/p''\<rparr>"

definition sample_cookie :: cookie where
  "sample_cookie =
     \<lparr>ck_name = ''sid'', ck_value = ''1'', ck_domain = ''H.test'', ck_path = ''/'', ck_expires = Some 10,
      ck_secure = True, ck_http_only = True, ck_include_subdomains = False\<rparr>"

lemma sample_cookie_in_scope: "in_scope 5 sample_url sample_cookie" "\<not> is_expired sample_cookie 5"
proof -
  have "from_ns (Some ''h.test'') = ''h.test''" by (simp add: from_ns_def code_def)
  moreover have "bare_domain sample_cookie = ''H.test''"
    by (simp add: bare_domain_def sample_cookie_def starts_with_def)
  moreover have "lower ''H.test'' = lower ''h.test''" by code_simp
  moreover have "url_is_secure sample_url"
    by (simp add: url_is_secure_def sample_url_def equals_ignore_case_iff)
  ultimately show "in_scope 5 sample_url sample_cookie"
    by (simp add: in_scope_def Let_def sample_url_def) (simp add: sample_cookie_def)
qed (simp add: is_expired_def sample_cookie_def)

theorem session_cookies_sent_witness:
  "nq_fields (fst (apply_cookies 5 [] (plain_request sample_url ''GET'' None) (Some \<lparr>store_ref = [sample_cookie]\<rparr>))) =
     [SetField (Some ''Cookie'') (Some ''sid=1'')]"
proof -
  have "to_ns (cookie_text [sample_cookie]) = Some ''sid=1''"
    by (simp add: sample_cookie_def to_ns_def lead_continuations_def code_def)
  moreover have "\<not> headers_contains [] ''Cookie''" by (simp add: headers_contains_def find_index_def)
  ultimately show ?thesis
    using session_cookies_sent [of "[]" 5 "plain_request sample_url ''GET'' None" "\<lparr>store_ref = [sample_cookie]\<rparr>"]
      sample_cookie_in_scope
    by (simp add: plain_request_def Let_def del: cookie_text.simps)
qed

definition sample_foundation :: foundation where
  "sample_foundation =
     \<lparr>fd_url_with_string = (\<lambda>_. Some sample_url), fd_cookies = (\<lambda>fields url. []),
      fd_contents_of_file = (\<lambda>path. None), fd_uuid = Some ''u''\<rparr>"

text \<open>A transport whose first attempt breaks and whose second one lands.\<close>

definition second_try :: ns_transport where
  "second_try session rq n =
     (if n = 0 then Broke \<lparr>ne_domain = url_error_domain, ne_code = -1001, ne_description = Some ''timed out''\<rparr>
      else Landed \<lparr>nr_status = 503, nr_all_fields = [], nr_response_url = None\<rparr> (Some ''busy''))"

theorem session_request_outcome_witness:
  "\<exists>d. session_do_request sample_foundation second_try new_session_client 5
      (GetReq \<lparr>gr_url = ''https://h.test/p'', gr_params = [], gr_headers = [], gr_method = Get\<rparr>) None = Some (Done d, None) \<and>
     rd_status_code d = 503 \<and> rd_body d = ''busy''"
proof -
  let ?r = "GetReq \<lparr>gr_url = ''https://h.test/p'', gr_params = [], gr_headers = [], gr_method = Get\<rparr>"
  let ?rq = "plain_request sample_url ''GET'' None"
  have budget: "uc_max_retries new_session_client \<noteq> -1" "unat (uc_max_retries new_session_client) = 4"
    by (simp_all add: new_session_client_def default_max_retries_def)
  have prepared: "prepare_request sample_foundation ?r = Done ?rq"
    by (simp add: with_target_def sample_foundation_def apply_headers_def)
  have unchanged: "apply_cookies 5 (rq_headers ?r) ?rq None = (?rq, None)" by (simp add: apply_cookies_def)
  from session_request_outcome [where client = new_session_client and fd = sample_foundation and r = ?r and net = second_try and now = 5 and jar = None, OF budget(1)]
  obtain k where k: "k \<le> 4" "\<forall>j < k. \<exists>e. second_try (uc_session new_session_client) ?rq j = Broke e \<and> ns_error_to_code e = NetworkError"
    "session_do_request sample_foundation second_try new_session_client 5 ?r None = Some
       (case second_try (uc_session new_session_client) ?rq k of
          Landed response data \<Rightarrow> (Done (to_response_data response data), harvest_cookies sample_foundation response None)
        | StopRequested \<Rightarrow> (Errored (make_response_error Cancelled ''request cancelled'' None []), None)
        | Broke e \<Rightarrow> (Errored (make_response_error (ns_error_to_code e) (from_ns (ne_description e)) None []), None))"
    "k = 4 \<or> (\<forall>e. second_try (uc_session new_session_client) ?rq k = Broke e \<longrightarrow> ns_error_to_code e = Cancelled)"
    unfolding prepared backend_result.case unchanged Let_def prod.case budget(2) by blast
  have "k = 1"
    using k(2,4) by (cases "k = 0") (auto simp: second_try_def ns_error_to_code_def url_error_cancelled_def dest: spec [of _ 1])
  with k(3) show ?thesis
    by (simp add: second_try_def to_response_data_def from_data_def harvest_cookies_def Let_def)
qed

end
