(* ===== verification/Backends.thy ===== *)
theory Backends
  imports Curl_Client Url_Session
begin

text \<open>
  The two HTTP backends side by side. The library promises that they are interchangeable, chosen where
  the client is built with nothing above able to tell the difference.
\<close>

section \<open>The verb of a request\<close>

fun rq_method :: "client_request \<Rightarrow> http_method" where
  "rq_method (GetReq r) = gr_method r"
| "rq_method (PostReq r) = po_method r"
| "rq_method (MultipartReq r) = mr_method r"

fun rq_url :: "client_request \<Rightarrow> bytes" where
  "rq_url (GetReq r) = gr_url r"
| "rq_url (PostReq r) = po_url r"
| "rq_url (MultipartReq r) = mr_url r"

fun bodyless :: "client_request \<Rightarrow> bool" where
  "bodyless (GetReq r) \<longleftrightarrow> True"
| "bodyless _ \<longleftrightarrow> False"

fun verb_name :: "http_method \<Rightarrow> bytes" where
  "verb_name Get = ''GET''"
| "verb_name Head = ''HEAD''"
| "verb_name Post = ''POST''"
| "verb_name Put = ''PUT''"
| "verb_name Patch = ''PATCH''"
| "verb_name Delete = ''DELETE''"
| "verb_name Options = ''OPTIONS''"

text \<open>POST on the bodyless kind, and GET on a kind with a body.\<close>

definition verb_against_kind :: "client_request \<Rightarrow> bool" where
  "verb_against_kind r \<longleftrightarrow> (if bodyless r then rq_method r = Post else rq_method r = Get)"

lemma with_target_Done:
  "with_target fd verb url ps build = Done rq \<longleftrightarrow>
     (\<exists>name target. to_http_method verb = Some name \<and> fd_url_with_string fd (to_ns (build_url url ps)) = Some target \<and> build name target = Done rq)"
  by (auto simp: with_target_def split: option.splits)

lemma to_http_method_name [simp]: "to_http_method verb = Some (verb_name verb)"
  by (cases verb) simp_all

lemma apply_headers_fields:
  "apply_headers rq hs = rq\<lparr>nq_fields := nq_fields rq @ map (\<lambda>(name, v). AddField (to_ns name) (to_ns v)) hs\<rparr>"
proof (induction hs arbitrary: rq)
  case (Cons h hs)
  then show ?case by (cases h) (simp add: apply_headers_def)
qed (simp add: apply_headers_def)

lemma session_prepared:
  assumes "prepare_request fd r = Done sq"
  shows "nq_method sq = verb_name (rq_method r) \<and> fd_url_with_string fd (to_ns (build_url (rq_url r) (rq_params r))) = Some (nq_url sq)"
proof (cases r)
  case (MultipartReq q)
  with assms show ?thesis
    by (cases "build_multipart_body (\<lambda>path. fd_contents_of_file fd (to_ns path)) (mr_forms q) (form_boundary fd)")
      (auto simp: with_target_Done apply_headers_fields plain_request_def Let_def)
qed (use assms in \<open>auto simp: with_target_Done apply_headers_fields plain_request_def\<close>)

lemma finish_request_fields:
  "\<exists>rq. finish_request url body hs ps verb jar = Done rq \<and> cq_url rq = url_encode_uri url \<and> cq_body rq = body \<and>
     cq_params rq = to_asyncnet_params ps \<and> cq_header_lines rq = to_header_lines hs \<and>
     wire_verb rq = (if verb = Get \<or> verb = Post then (case body of CurlGet \<Rightarrow> ''GET'' | _ \<Rightarrow> ''POST'') else verb_name verb)"
  by (cases verb)
    (simp_all add: finish_request_def Let_def apply_cookie_share_def wire_verb_def option_verb_def split: curl_body.splits)

lemma curl_prepared:
  assumes "curl_prepare r jar = Done rq"
  shows "cq_url rq = url_encode_uri (rq_url r) \<and> cq_params rq = to_asyncnet_params (rq_params r) \<and>
    cq_header_lines rq = to_header_lines (rq_headers r) \<and>
    wire_verb rq = (if verb_against_kind r then (if bodyless r then ''GET'' else ''POST'') else verb_name (rq_method r))"
proof -
  have "finish_request url body hs ps verb jar = Done rq \<Longrightarrow>
      cq_url rq = url_encode_uri url \<and> cq_params rq = to_asyncnet_params ps \<and> cq_header_lines rq = to_header_lines hs \<and>
      wire_verb rq = (if verb = Get \<or> verb = Post then (case body of CurlGet \<Rightarrow> ''GET'' | _ \<Rightarrow> ''POST'') else verb_name verb)"
    for url body hs ps verb
    using finish_request_fields [of url body hs ps verb jar] by auto
  then show ?thesis using assms
    by (cases r) (fastforce simp: verb_against_kind_def split: sum.splits)+
qed

text \<open>What the backends put on the wire for one request. Both send the percent-encoded URL, and the
  parameters over libcurl decode to those of the request, in order. \<open>NSURLSession\<close> sends the verb the
  request asks for; libcurl sends the same one except in two cases, where it replaces it silently: POST
  on a request without a body goes out as GET, and GET on a request with a body as POST.\<close>

theorem request_verbs:
  assumes "curl_prepare r jar = Done rq" and "prepare_request fd r = Done sq"
  shows "cq_url rq = url_encode_uri (rq_url r) \<and>
    map (\<lambda>(key, v). (url_decode key, url_decode v)) (cq_params rq) = rq_params r \<and>
    nq_method sq = verb_name (rq_method r) \<and>
    (wire_verb rq = nq_method sq \<longleftrightarrow> \<not> verb_against_kind r) \<and>
    (verb_against_kind r \<longrightarrow> wire_verb rq = (if bodyless r then ''GET'' else ''POST''))"
proof -
  have "verb_against_kind r \<Longrightarrow> verb_name (rq_method r) \<noteq> (if bodyless r then ''GET'' else ''POST'')"
    by (auto simp: verb_against_kind_def split: if_splits)
  then show ?thesis
    using session_prepared [OF assms(2)] curl_prepared [OF assms(1)]
    by (auto simp: to_asyncnet_params_map comp_def url_roundtrip case_prod_beta)
qed

section \<open>The outcome of a request\<close>

fun same_outcome :: "'a backend_result \<Rightarrow> 'a backend_result \<Rightarrow> bool" where
  "same_outcome (Raised _) (Raised _) \<longleftrightarrow> True"
| "same_outcome (Errored e) (Errored e') \<longleftrightarrow> e = e'"
| "same_outcome (Done d) (Done d') \<longleftrightarrow> d = d'"
| "same_outcome _ _ \<longleftrightarrow> False"

lemma retryable_result:
  "retryable (\<lambda>e. cx_code e = cancelled_code) a \<longleftrightarrow> retryable was_cancelled (curl_result cancelled_code a)"
  by (cases a) (auto simp: curl_result_def was_cancelled_def make_response_error_def curl_error_to_code_def)

fun rq_forms :: "client_request \<Rightarrow> multipart_part list" where
  "rq_forms (MultipartReq r) = mr_forms r"
| "rq_forms _ = []"

definition readable_part :: "foundation \<Rightarrow> multipart_part \<Rightarrow> bool" where
  "readable_part fd part \<longleftrightarrow> (case mp_source part of PartFile path \<Rightarrow> fd_contents_of_file fd (to_ns path) \<noteq> None | _ \<Rightarrow> True)"

lemma renamed_source:
  "mp_source part = PartText v \<Longrightarrow> \<not> renamed_file part" "mp_source part = PartBuffer d \<Longrightarrow> \<not> renamed_file part"
  "mp_source part = PartFile path \<Longrightarrow> renamed_file part \<longleftrightarrow> mp_filename part \<noteq> None"
  by (simp_all add: renamed_file_def)

lemma curl_forms_error: "(\<exists>message. to_curlpp_forms form = Inl message) \<longleftrightarrow> list_ex renamed_file form"
proof (induction form)
  case (Cons part form)
  then show ?case
    by (cases "mp_source part"; cases "to_curlpp_forms form") (auto simp: renamed_source)
qed simp

lemma session_form_error:
  "list_all (readable_part fd) form \<Longrightarrow>
   (\<exists>message. build_multipart_body (\<lambda>path. fd_contents_of_file fd (to_ns path)) form b = Inl message) \<longleftrightarrow> list_ex renamed_file form"
proof -
  have "readable_part fd part \<Longrightarrow> sound_part (\<lambda>path. fd_contents_of_file fd (to_ns path)) part \<longleftrightarrow> \<not> renamed_file part" for part
    by (cases "mp_source part") (auto simp: sound_part_def readable_part_def part_contents_def)
  then show "list_all (readable_part fd) form \<Longrightarrow> ?thesis"
    unfolding build_multipart_body_def append_parts_error by (auto simp: list_all_iff list_ex_iff)
qed

text \<open>Where the URL is well formed and the files are readable the two backends prepare a request or refuse its form alike.\<close>

lemma prepared_alike:
  assumes "fd_url_with_string fd (to_ns (build_url (rq_url r) (rq_params r))) \<noteq> None"
    and "list_all (readable_part fd) (rq_forms r)"
  shows "(\<exists>m m'. curl_prepare r jar = Raised m \<and> prepare_request fd r = Raised m') \<or>
    (\<exists>rq sq. curl_prepare r jar = Done rq \<and> prepare_request fd r = Done sq)"
proof -
  obtain target where target: "fd_url_with_string fd (to_ns (build_url (rq_url r) (rq_params r))) = Some target"
    using assms(1) by blast
  have finished: "\<exists>rq. finish_request url body hs ps verb jar = Done rq" for url body hs ps verb
    using finish_request_fields by blast
  show ?thesis
  proof (cases r)
    case (MultipartReq q)
    let ?file = "\<lambda>path. fd_contents_of_file fd (to_ns path)"
    have "(\<exists>m. to_curlpp_forms (mr_forms q) = Inl m) \<longleftrightarrow> (\<exists>m. build_multipart_body ?file (mr_forms q) (form_boundary fd) = Inl m)"
      using assms(2) MultipartReq by (simp add: curl_forms_error session_form_error)
    then show ?thesis using MultipartReq target finished
      by (cases "to_curlpp_forms (mr_forms q)"; cases "build_multipart_body ?file (mr_forms q) (form_boundary fd)")
        (auto simp: with_target_def Let_def)
  qed (use target finished in \<open>auto simp: with_target_def\<close>)
qed


text \<open>Two networks that answer everything with 200.\<close>

definition curl_answers :: "unit curl_transport" where
  "curl_answers session rq n = Inr \<lparr>cp_status = 200, cp_header_block = [], cp_effective_url = [], cp_text = ''ok''\<rparr>"

definition session_answers :: ns_transport where
  "session_answers session rq n = Landed \<lparr>nr_status = 200, nr_all_fields = [], nr_response_url = None\<rparr> (Some ''ok'')"

definition sample_get :: client_request where
  "sample_get = GetReq \<lparr>gr_url = ''https://h.test/p'', gr_params = [(''q'', ''a b'')], gr_headers = [], gr_method = Post\<rparr>"


theorem request_verbs_witness:
  "\<exists>rq sq. curl_prepare sample_get (None :: (unit, unit) jar_object option) = Done rq \<and>
     prepare_request sample_foundation sample_get = Done sq \<and> wire_verb rq = ''GET'' \<and> nq_method sq = ''POST''"
proof -
  obtain rq where rq: "curl_prepare sample_get (None :: (unit, unit) jar_object option) = Done rq"
    by (simp add: sample_get_def finish_request_def Let_def)
  obtain sq where sq: "prepare_request sample_foundation sample_get = Done sq"
    by (simp add: sample_get_def with_target_def sample_foundation_def)
  have "verb_against_kind sample_get" "bodyless sample_get" "verb_name (rq_method sample_get) = ''POST''"
    by (simp_all add: verb_against_kind_def sample_get_def)
  then show ?thesis using request_verbs [OF rq sq] rq sq by auto
qed

end
