(* ===== verification/Transfer_Race.thy ===== *)
theory Transfer_Race
  imports Main
begin

text \<open>
  \<open>TransferState\<close> and \<open>TransferAwaiter\<close> of \<open>src/net/UrlSessionClient.mm\<close>: one transfer between the coroutine
  that awaits it and the completion block of the session, which runs on another thread. A step is one
  access to what the two share. \<open>dropping\<close> says whether the task that owns the coroutine may be
  destroyed while the coroutine is parked; \<open>v\<close> is what the block delivers.
\<close>

section \<open>The two sides\<close>

datatype stage = Running | Suspended | Completed | Abandoned

text \<open>
  The awaiting frame: not yet in \<open>await_suspend\<close>; the task resumed; the stop callback armed; parked;
  carrying on behind the \<open>co_await\<close>; destroyed.
\<close>

datatype waiter = Created | Started | Armed | Parked | Continuing | Gone

text \<open>The completion block: not called; the result written; the stage claimed and a resume owed; returned.\<close>

datatype block_side = Idle | Wrote | Owes | Finished

record 'r transfer =
  tf_stage :: stage
  tf_result :: "'r option"
  tf_waiter :: waiter
  tf_block :: block_side
  tf_received :: "'r option"
  tf_resumes :: nat
  tf_dangling :: bool

definition fresh_transfer :: "'r transfer" where
  "fresh_transfer =
     \<lparr>tf_stage = Running, tf_result = None, tf_waiter = Created, tf_block = Idle, tf_received = None,
      tf_resumes = 0, tf_dangling = False\<rparr>"

text \<open>\<open>tf_dangling\<close> records a resume of a frame that is gone.\<close>

inductive transfer_step :: "bool \<Rightarrow> 'r \<Rightarrow> 'r transfer \<Rightarrow> 'r transfer \<Rightarrow> bool" for dropping :: bool and v :: 'r where
  start: "tf_waiter t = Created \<Longrightarrow> transfer_step dropping v t (t\<lparr>tf_waiter := Started\<rparr>)"
| arm: "tf_waiter t = Started \<Longrightarrow> transfer_step dropping v t (t\<lparr>tf_waiter := Armed\<rparr>)"
| park: "tf_waiter t = Armed \<Longrightarrow> tf_stage t = Running \<Longrightarrow>
    transfer_step dropping v t (t\<lparr>tf_stage := Suspended, tf_waiter := Parked\<rparr>)"
| carry_on: "tf_waiter t = Armed \<Longrightarrow> tf_stage t \<noteq> Running \<Longrightarrow> transfer_step dropping v t (t\<lparr>tf_waiter := Continuing\<rparr>)"
| write_result: "tf_waiter t \<noteq> Created \<Longrightarrow> tf_block t = Idle \<Longrightarrow>
    transfer_step dropping v t (t\<lparr>tf_result := Some v, tf_block := Wrote\<rparr>)"
| claim: "tf_block t = Wrote \<Longrightarrow>
    transfer_step dropping v t (t\<lparr>tf_stage := Completed, tf_block := (if tf_stage t = Suspended then Owes else Finished)\<rparr>)"
| resume: "tf_block t = Owes \<Longrightarrow>
    transfer_step dropping v t
      (t\<lparr>tf_block := Finished, tf_resumes := Suc (tf_resumes t), tf_dangling := (tf_dangling t \<or> tf_waiter t \<noteq> Parked),
         tf_waiter := (if tf_waiter t = Parked then Continuing else tf_waiter t)\<rparr>)"
| leave: "tf_waiter t = Continuing \<Longrightarrow>
    transfer_step dropping v t (t\<lparr>tf_received := tf_result t, tf_stage := Abandoned, tf_waiter := Gone\<rparr>)"
| drop_task: "dropping \<Longrightarrow> tf_waiter t = Parked \<Longrightarrow>
    transfer_step dropping v t (t\<lparr>tf_stage := Abandoned, tf_waiter := Gone\<rparr>)"

inductive_cases transfer_stepE: "transfer_step dropping v t t'"

text \<open>The states a transfer can get into, with the number of steps made.\<close>

inductive transfer_run :: "bool \<Rightarrow> 'r \<Rightarrow> nat \<Rightarrow> 'r transfer \<Rightarrow> bool" for dropping :: bool and v :: 'r where
  fresh: "transfer_run dropping v 0 fresh_transfer"
| next_step: "transfer_run dropping v n t \<Longrightarrow> transfer_step dropping v t t' \<Longrightarrow> transfer_run dropping v (Suc n) t'"

section \<open>The invariant\<close>

definition transfer_ok :: "bool \<Rightarrow> 'r \<Rightarrow> 'r transfer \<Rightarrow> bool" where
  "transfer_ok dropping v t \<longleftrightarrow>
     (tf_stage t = Running \<longleftrightarrow> tf_waiter t \<in> {Created, Started, Armed} \<and> tf_block t \<in> {Idle, Wrote}) \<and>
     (tf_stage t = Suspended \<longleftrightarrow> tf_waiter t = Parked \<and> tf_block t \<in> {Idle, Wrote}) \<and>
     (tf_waiter t = Created \<longrightarrow> tf_block t = Idle) \<and>
     (tf_block t \<noteq> Idle \<longrightarrow> tf_result t = Some v) \<and>
     (tf_waiter t = Continuing \<longrightarrow> tf_block t = Finished) \<and>
     (tf_waiter t = Parked \<longrightarrow> tf_block t \<noteq> Finished) \<and>
     (tf_block t = Owes \<longrightarrow> tf_waiter t = Parked \<or> tf_waiter t = Gone \<and> dropping) \<and>
     (tf_waiter t = Gone \<and> \<not> dropping \<longrightarrow> tf_block t = Finished \<and> tf_received t = Some v) \<and>
     (tf_received t \<noteq> None \<longrightarrow> tf_received t = Some v) \<and>
     tf_resumes t \<le> 1 \<and> (tf_block t \<noteq> Finished \<longrightarrow> tf_resumes t = 0) \<and> (tf_dangling t \<longrightarrow> dropping)"

lemma transfer_okD:
  assumes "transfer_ok dropping v t"
  shows "tf_waiter t = Created \<longrightarrow> tf_block t = Idle"
    and "tf_waiter t = Parked \<longrightarrow> tf_block t \<noteq> Finished"
    and "tf_waiter t = Gone \<and> \<not> dropping \<longrightarrow> tf_block t = Finished \<and> tf_received t = Some v"
    and "tf_received t \<noteq> None \<longrightarrow> tf_received t = Some v"
    and "tf_resumes t \<le> 1" and "tf_dangling t \<longrightarrow> dropping"
  using assms by - (unfold transfer_ok_def, (elim conjE, assumption)+)

lemma transfer_ok_fresh: "transfer_ok dropping v fresh_transfer"
  by (simp add: transfer_ok_def fresh_transfer_def)

lemma transfer_ok_step: "transfer_step dropping v t t' \<Longrightarrow> transfer_ok dropping v t \<Longrightarrow> transfer_ok dropping v t'"
  by (erule transfer_stepE; cases "tf_block t") (simp_all add: transfer_ok_def, auto)

lemma transfer_run_ok: "transfer_run dropping v n t \<Longrightarrow> transfer_ok dropping v t"
  by (induction rule: transfer_run.induct) (auto intro: transfer_ok_fresh transfer_ok_step)

text \<open>Every step uses up one of seven: four of the frame, three of the block.\<close>

fun waiter_left :: "waiter \<Rightarrow> nat" where
  "waiter_left Created = 4"
| "waiter_left Started = 3"
| "waiter_left Armed = 2"
| "waiter_left Parked = 1"
| "waiter_left Continuing = 1"
| "waiter_left Gone = 0"

fun block_left :: "block_side \<Rightarrow> nat" where
  "block_left Idle = 3"
| "block_left Wrote = 2"
| "block_left Owes = 1"
| "block_left Finished = 0"

lemma transfer_step_progress:
  "transfer_step dropping v t t' \<Longrightarrow>
   waiter_left (tf_waiter t') + block_left (tf_block t') < waiter_left (tf_waiter t) + block_left (tf_block t)"
  by (erule transfer_stepE) auto

lemma transfer_run_length: "transfer_run dropping v n t \<Longrightarrow> n + waiter_left (tf_waiter t) + block_left (tf_block t) \<le> 7"
proof (induction rule: transfer_run.induct)
  case (next_step n t t')
  then show ?case using transfer_step_progress by fastforce
qed (simp add: fresh_transfer_def)

text \<open>A transfer is stuck only when the frame is gone and the block has returned.\<close>

lemma transfer_stuck:
  assumes "transfer_ok dropping v t" and "\<And>t'. \<not> transfer_step dropping v t t'"
  shows "tf_waiter t = Gone \<and> tf_block t = Finished"
proof -
  have "tf_waiter t \<noteq> Created" by (rule notI, rule notE [OF assms(2)], erule transfer_step.start)
  moreover have "tf_waiter t \<noteq> Started" by (rule notI, rule notE [OF assms(2)], erule transfer_step.arm)
  moreover have "tf_waiter t \<noteq> Continuing" by (rule notI, rule notE [OF assms(2)], erule transfer_step.leave)
  moreover have "tf_waiter t \<noteq> Armed"
    using transfer_step.park [of t dropping v] transfer_step.carry_on [of t dropping v] assms(2) by metis
  moreover have "tf_block t \<noteq> Wrote" by (rule notI, rule notE [OF assms(2)], erule transfer_step.claim)
  moreover have "tf_block t \<noteq> Owes" by (rule notI, rule notE [OF assms(2)], erule transfer_step.resume)
  moreover have "tf_block t \<noteq> Idle" if "tf_waiter t \<noteq> Created"
    by (rule notI, rule notE [OF assms(2)], rule transfer_step.write_result [OF that])
  ultimately show ?thesis using transfer_okD(1,2) [OF assms(1)]
    by (cases "tf_waiter t"; cases "tf_block t") simp_all
qed

section \<open>Properties\<close>

text \<open>C25: a transfer wakes its coroutine exactly as it should. As long as the task is not dropped while its
  coroutine is parked, then in every interleaving of the two sides the coroutine is resumed at most
  once and never after it is gone, it reads nothing but what the block delivered, no run is longer than
  seven steps, and a run that cannot go on has handed the result over: no wake-up is lost.\<close>

theorem transfer_delivers:
  assumes "transfer_run False v n t"
  shows "tf_resumes t \<le> 1 \<and> \<not> tf_dangling t \<and> tf_received t \<in> {None, Some v} \<and> n \<le> 7 \<and>
    ((\<nexists>t'. transfer_step False v t t') \<longrightarrow> tf_waiter t = Gone \<and> tf_block t = Finished \<and> tf_received t = Some v)"
proof -
  have ok: "transfer_ok False v t" by (rule transfer_run_ok [OF assms])
  have "tf_waiter t = Gone \<and> tf_block t = Finished" if "\<nexists>t'. transfer_step False v t t'"
    using transfer_stuck [OF ok] that by blast
  moreover have "n \<le> 7" using transfer_run_length [OF assms] by simp
  moreover note transfer_okD(5) [OF ok]
  moreover have "\<not> tf_dangling t" using transfer_okD(6) [OF ok] by simp
  moreover have "tf_received t \<in> {None, Some v}" using transfer_okD(4) [OF ok] by auto
  moreover have "tf_received t = Some v" if "tf_waiter t = Gone" using transfer_okD(3) [OF ok] that by simp
  ultimately show ?thesis by blast
qed

text \<open>The coroutine is parked and the block has claimed the stage: it owes the resume, and has not made it yet.\<close>

definition owed_transfer :: "'r \<Rightarrow> 'r transfer" where
  "owed_transfer v = fresh_transfer\<lparr>tf_stage := Completed, tf_result := Some v, tf_waiter := Parked, tf_block := Owes\<rparr>"

lemma owed_reached: "transfer_run dropping v 5 (owed_transfer v)"
proof -
  let ?started = "fresh_transfer\<lparr>tf_waiter := Started\<rparr> :: 'a transfer"
  let ?armed = "fresh_transfer\<lparr>tf_waiter := Armed\<rparr> :: 'a transfer"
  let ?parked = "fresh_transfer\<lparr>tf_stage := Suspended, tf_waiter := Parked\<rparr> :: 'a transfer"
  let ?wrote = "?parked\<lparr>tf_result := Some v, tf_block := Wrote\<rparr>"
  have "transfer_step dropping v fresh_transfer ?started"
    by (rule transfer_step.start) (simp add: fresh_transfer_def)
  moreover have "transfer_step dropping v ?started ?armed"
    using transfer_step.arm [of ?started] by (simp add: fresh_transfer_def)
  moreover have "transfer_step dropping v ?armed ?parked"
    using transfer_step.park [of ?armed] by (simp add: fresh_transfer_def)
  moreover have "transfer_step dropping v ?parked ?wrote"
    by (rule transfer_step.write_result) (simp_all add: fresh_transfer_def)
  moreover have "transfer_step dropping v ?wrote (owed_transfer v)"
    using transfer_step.claim [of ?wrote] by (simp add: fresh_transfer_def owed_transfer_def)
  ultimately have "transfer_run dropping v (Suc (Suc (Suc (Suc (Suc 0))))) (owed_transfer v)"
    by (meson transfer_run.fresh transfer_run.next_step)
  then show ?thesis by (simp add: numeral_eq_Suc)
qed

text \<open>
  A dropped task. Between claiming the stage and resuming, the block holds nothing that keeps the frame:
  when the task is destroyed there, the stage is marked abandoned too late to be seen and the block
  resumes a frame that is gone.
\<close>

theorem dropped_transfer_resumes_gone_frame:
  "\<exists>n t. transfer_run True v n t \<and> tf_dangling t \<and> tf_received t = None"
proof -
  let ?dropped = "(owed_transfer v)\<lparr>tf_stage := Abandoned, tf_waiter := Gone\<rparr>"
  let ?resumed = "?dropped\<lparr>tf_block := Finished, tf_resumes := 1, tf_dangling := True\<rparr>"
  have "transfer_step True v (owed_transfer v) ?dropped"
    by (rule transfer_step.drop_task) (simp_all add: owed_transfer_def)
  moreover have "transfer_step True v ?dropped ?resumed"
    using transfer_step.resume [of ?dropped True v] by (simp add: owed_transfer_def fresh_transfer_def)
  ultimately have "transfer_run True v (Suc (Suc 5)) ?resumed"
    by (meson owed_reached transfer_run.next_step)
  moreover have "tf_dangling ?resumed" "tf_received ?resumed = None" by (simp_all add: owed_transfer_def fresh_transfer_def)
  ultimately show ?thesis by blast
qed

theorem transfer_delivers_witness:
  "tf_resumes (owed_transfer (7 :: nat)) \<le> 1 \<and> \<not> tf_dangling (owed_transfer (7 :: nat))"
  using transfer_delivers [OF owed_reached, of "7 :: nat"] by blast

end
