(* ===== verification/Republishable.thy ===== *)
theory Republishable
  imports Main
begin

text \<open>
  \<open>include/aniparse/cache/Republishable.hpp\<close>, \<open>include/aniparse/utility/AtomicSharedPtr.hpp\<close> and
  \<open>include/aniparse/cache/EnsurePublished.hpp\<close>: a cached value that serves a seed until a fetched snapshot
  is published, and the two ways of warming it, by any number of concurrent callers. A shared pointer is
  its object or \<open>None\<close> for null; each load and store of the cell is one step, as its mutex makes it.
\<close>

section \<open>The cell\<close>

record 't republishable =
  rp_seed :: "'t option"
  rp_cell :: "'t option"

definition republishable_create :: "'t republishable" where
  "republishable_create = \<lparr>rp_seed = None, rp_cell = None\<rparr>"

definition republishable_seeded :: "'t option \<Rightarrow> 't republishable" where
  "republishable_seeded seed = \<lparr>rp_seed = seed, rp_cell = None\<rparr>"

text \<open>The move constructor: the seed is moved out of the source, its cell is only loaded.\<close>

definition republishable_move :: "'t republishable \<Rightarrow> 't republishable \<times> 't republishable" where
  "republishable_move other = (\<lparr>rp_seed = rp_seed other, rp_cell = rp_cell other\<rparr>, other\<lparr>rp_seed := None\<rparr>)"

definition snapshot_of :: "'t republishable \<Rightarrow> 't option" where
  "snapshot_of r = (case rp_cell r of Some current \<Rightarrow> Some current | None \<Rightarrow> rp_seed r)"

definition is_fetched :: "'t republishable \<Rightarrow> bool" where
  "is_fetched r \<longleftrightarrow> rp_cell r \<noteq> None"

definition publish :: "'t option \<Rightarrow> 't republishable \<Rightarrow> 't republishable" where
  "publish v r = r\<lparr>rp_cell := v\<rparr>"

section \<open>Warming it\<close>

text \<open>
  Where a caller of \<open>ensure_published\<close> or \<open>ensure_published_or_seed\<close> is: about to ask \<open>is_fetched\<close>, about
  to read the snapshot, waiting for its fetch, about to publish, returned. An error is a value of \<open>'e\<close>.
\<close>

datatype ('e, 't) caller = Checking | Reading | Fetching | Publishing "'t option" | Returned "'e + 't option"

record ('e, 't) warming =
  wm_value :: "'t republishable"
  wm_callers :: "('e, 't) caller list"

text \<open>
  \<open>fetch i\<close> is how the fetch of caller \<open>i\<close> ends, if it is made, and \<open>lenient i\<close> says that the caller uses
  \<open>ensure_published_or_seed\<close>.
\<close>

inductive warm_step :: "(nat \<Rightarrow> 'e + 't option) \<Rightarrow> (nat \<Rightarrow> bool) \<Rightarrow> ('e, 't) warming \<Rightarrow> ('e, 't) warming \<Rightarrow> bool"
  for fetch :: "nat \<Rightarrow> 'e + 't option" and lenient :: "nat \<Rightarrow> bool" where
  found_warm: "i < length (wm_callers w) \<Longrightarrow> wm_callers w ! i = Checking \<Longrightarrow> is_fetched (wm_value w) \<Longrightarrow>
    warm_step fetch lenient w (w\<lparr>wm_callers := (wm_callers w)[i := Reading]\<rparr>)"
| found_cold: "i < length (wm_callers w) \<Longrightarrow> wm_callers w ! i = Checking \<Longrightarrow> \<not> is_fetched (wm_value w) \<Longrightarrow>
    warm_step fetch lenient w (w\<lparr>wm_callers := (wm_callers w)[i := Fetching]\<rparr>)"
| read_snapshot: "i < length (wm_callers w) \<Longrightarrow> wm_callers w ! i = Reading \<Longrightarrow>
    warm_step fetch lenient w (w\<lparr>wm_callers := (wm_callers w)[i := Returned (Inr (snapshot_of (wm_value w)))]\<rparr>)"
| fetched: "i < length (wm_callers w) \<Longrightarrow> wm_callers w ! i = Fetching \<Longrightarrow> fetch i = Inr v \<Longrightarrow>
    warm_step fetch lenient w (w\<lparr>wm_callers := (wm_callers w)[i := Publishing v]\<rparr>)"
| fetch_failed: "i < length (wm_callers w) \<Longrightarrow> wm_callers w ! i = Fetching \<Longrightarrow> fetch i = Inl e \<Longrightarrow> \<not> lenient i \<Longrightarrow>
    warm_step fetch lenient w (w\<lparr>wm_callers := (wm_callers w)[i := Returned (Inl e)]\<rparr>)"
| fall_back: "i < length (wm_callers w) \<Longrightarrow> wm_callers w ! i = Fetching \<Longrightarrow> fetch i = Inl e \<Longrightarrow> lenient i \<Longrightarrow>
    warm_step fetch lenient w (w\<lparr>wm_callers := (wm_callers w)[i := Returned (Inr (snapshot_of (wm_value w)))]\<rparr>)"
| store_snapshot: "i < length (wm_callers w) \<Longrightarrow> wm_callers w ! i = Publishing v \<Longrightarrow>
    warm_step fetch lenient w
      (w\<lparr>wm_value := publish v (wm_value w), wm_callers := (wm_callers w)[i := Returned (Inr v)]\<rparr>)"

inductive_cases warm_stepE: "warm_step fetch lenient w w'"

definition cold_start :: "'t option \<Rightarrow> nat \<Rightarrow> ('e, 't) warming" where
  "cold_start seed n = \<lparr>wm_value = republishable_seeded seed, wm_callers = replicate n Checking\<rparr>"

inductive warm_run :: "(nat \<Rightarrow> 'e + 't option) \<Rightarrow> (nat \<Rightarrow> bool) \<Rightarrow> 't option \<Rightarrow> nat \<Rightarrow> nat \<Rightarrow> ('e, 't) warming \<Rightarrow> bool"
  for fetch :: "nat \<Rightarrow> 'e + 't option" and lenient :: "nat \<Rightarrow> bool" and seed :: "'t option" and n :: nat where
  cold: "warm_run fetch lenient seed n 0 (cold_start seed n)"
| next_warm: "warm_run fetch lenient seed n k w \<Longrightarrow> warm_step fetch lenient w w' \<Longrightarrow> warm_run fetch lenient seed n (Suc k) w'"

section \<open>The invariant\<close>

text \<open>What the callers may hold: nothing but what a fetch gave or, for a lenient one, the seed.\<close>

definition fetched_value :: "(nat \<Rightarrow> 'e + 't option) \<Rightarrow> nat \<Rightarrow> 't option \<Rightarrow> bool" where
  "fetched_value fetch n v \<longleftrightarrow> v \<noteq> None \<and> (\<exists>k < n. fetch k = Inr v)"

fun caller_ok :: "(nat \<Rightarrow> 'e + 't option) \<Rightarrow> (nat \<Rightarrow> bool) \<Rightarrow> 't option \<Rightarrow> nat \<Rightarrow> 't republishable \<Rightarrow> nat \<Rightarrow> ('e, 't) caller \<Rightarrow> bool" where
  "caller_ok fetch lenient seed n r i Checking = True"
| "caller_ok fetch lenient seed n r i Reading = is_fetched r"
| "caller_ok fetch lenient seed n r i Fetching = True"
| "caller_ok fetch lenient seed n r i (Publishing v) = (fetch i = Inr v)"
| "caller_ok fetch lenient seed n r i (Returned (Inl e)) = (fetch i = Inl e \<and> \<not> lenient i)"
| "caller_ok fetch lenient seed n r i (Returned (Inr v)) =
     (fetched_value fetch n v \<or> v = seed \<and> lenient i \<and> (\<exists>e. fetch i = Inl e))"

definition warm_ok :: "(nat \<Rightarrow> 'e + 't option) \<Rightarrow> (nat \<Rightarrow> bool) \<Rightarrow> 't option \<Rightarrow> nat \<Rightarrow> ('e, 't) warming \<Rightarrow> bool" where
  "warm_ok fetch lenient seed n w \<longleftrightarrow>
     length (wm_callers w) = n \<and> rp_seed (wm_value w) = seed \<and>
     (rp_cell (wm_value w) = None \<or> fetched_value fetch n (rp_cell (wm_value w))) \<and>
     (\<forall>i < n. caller_ok fetch lenient seed n (wm_value w) i (wm_callers w ! i))"

lemma caller_ok_publish:
  "caller_ok fetch lenient seed n r i c \<Longrightarrow> v \<noteq> None \<Longrightarrow> caller_ok fetch lenient seed n (publish v r) i c"
  by (cases "(fetch, lenient, seed, n, r, i, c)" rule: caller_ok.cases) (auto simp: is_fetched_def publish_def)

lemma warm_ok_update:
  "warm_ok fetch lenient seed n w \<Longrightarrow> caller_ok fetch lenient seed n (wm_value w) i c \<Longrightarrow>
   warm_ok fetch lenient seed n (w\<lparr>wm_callers := (wm_callers w)[i := c]\<rparr>)"
proof -
  assume ok: "warm_ok fetch lenient seed n w" and c: "caller_ok fetch lenient seed n (wm_value w) i c"
  have "caller_ok fetch lenient seed n (wm_value w) j ((wm_callers w)[i := c] ! j)" if "j < n" for j
    using ok c that by (cases "j = i") (simp_all add: warm_ok_def)
  then show ?thesis using ok by (simp add: warm_ok_def)
qed

lemma warm_ok_publish:
  "warm_ok fetch lenient seed n w \<Longrightarrow> fetched_value fetch n v \<Longrightarrow> warm_ok fetch lenient seed n (w\<lparr>wm_value := publish v (wm_value w)\<rparr>)"
  by (auto simp: warm_ok_def fetched_value_def intro: caller_ok_publish) (auto simp: publish_def)

lemma warm_ok_caller:
  "warm_ok fetch lenient seed n w \<Longrightarrow> i < length (wm_callers w) \<Longrightarrow> wm_callers w ! i = c \<Longrightarrow>
   i < n \<and> caller_ok fetch lenient seed n (wm_value w) i c"
  by (auto simp: warm_ok_def)

lemma warm_ok_step:
  assumes "warm_step fetch lenient w w'" and "warm_ok fetch lenient seed n w" and "\<And>k. fetch k \<noteq> Inr None"
  shows "warm_ok fetch lenient seed n w'"
  using assms(1)
proof cases
  case (read_snapshot i)
  then have "is_fetched (wm_value w)" using warm_ok_caller [OF assms(2)] by fastforce
  then have "fetched_value fetch n (snapshot_of (wm_value w))"
    using assms(2) by (auto simp: warm_ok_def is_fetched_def snapshot_of_def)
  then show ?thesis using read_snapshot assms(2) by (auto intro: warm_ok_update)
next
  case (fall_back i e)
  have "fetched_value fetch n (snapshot_of (wm_value w)) \<or> snapshot_of (wm_value w) = seed"
    using assms(2) by (auto simp: warm_ok_def snapshot_of_def split: option.splits)
  then show ?thesis using fall_back assms(2) by (auto intro!: warm_ok_update)
next
  case (store_snapshot i v)
  then have "i < n" "fetch i = Inr v" using warm_ok_caller [OF assms(2)] by fastforce+
  then have v: "fetched_value fetch n v" using assms(3) [of i] by (auto simp: fetched_value_def)
  from warm_ok_publish [OF assms(2) v] have "warm_ok fetch lenient seed n
      ((w\<lparr>wm_value := publish v (wm_value w)\<rparr>)\<lparr>wm_callers := (wm_callers w)[i := Returned (Inr v)]\<rparr>)"
    by (intro warm_ok_update [of _ _ _ _ "w\<lparr>wm_value := publish v (wm_value w)\<rparr>", simplified]) (simp_all add: v)
  then show ?thesis using store_snapshot by simp
qed (use assms(2) in \<open>auto intro: warm_ok_update\<close>)

lemma warm_run_ok: "warm_run fetch lenient seed n k w \<Longrightarrow> (\<And>j. fetch j \<noteq> Inr None) \<Longrightarrow> warm_ok fetch lenient seed n w"
proof (induction rule: warm_run.induct)
  case cold
  show ?case by (simp add: warm_ok_def cold_start_def republishable_seeded_def)
qed (blast intro: warm_ok_step)

text \<open>Every caller makes at most three steps.\<close>

fun caller_left :: "('e, 't) caller \<Rightarrow> nat" where
  "caller_left Checking = 3"
| "caller_left Reading = 1"
| "caller_left Fetching = 2"
| "caller_left (Publishing v) = 1"
| "caller_left (Returned r) = 0"

abbreviation steps_left :: "('e, 't) warming \<Rightarrow> nat" where
  "steps_left w \<equiv> sum_list (map caller_left (wm_callers w))"

lemma left_update:
  assumes "i < length cs" "caller_left c < caller_left (cs ! i)"
  shows "sum_list (map caller_left (cs[i := c])) < sum_list (map caller_left cs)"
proof -
  have "map caller_left cs ! i \<le> sum_list (map caller_left cs)" using assms(1) by (intro elem_le_sum_list) simp
  then show ?thesis using assms by (simp add: map_update sum_list_update)
qed

lemma warm_step_progress: "warm_step fetch lenient w w' \<Longrightarrow> steps_left w' < steps_left w"
  by (erule warm_stepE) (simp_all add: left_update)

lemma warm_run_length: "warm_run fetch lenient seed n k w \<Longrightarrow> k + steps_left w \<le> 3 * n"
proof (induction rule: warm_run.induct)
  case (next_warm k w w')
  then show ?case using warm_step_progress by fastforce
qed (simp add: cold_start_def sum_list_replicate)

lemma caller_moves:
  assumes "i < length (wm_callers w)" and "\<And>r. wm_callers w ! i \<noteq> Returned r"
  shows "\<exists>w'. warm_step fetch lenient w w'"
proof (cases "wm_callers w ! i")
  case Checking
  then show ?thesis using found_warm [OF assms(1) Checking] found_cold [OF assms(1) Checking] by blast
next
  case Reading
  then show ?thesis using read_snapshot [OF assms(1) Reading] by blast
next
  case Fetching
  show ?thesis
  proof (cases "fetch i")
    case (Inl e)
    then show ?thesis using assms(1) Fetching fetch_failed [where i = i and fetch = fetch and e = e and lenient = lenient and w = w]
        fall_back [where i = i and fetch = fetch and e = e and lenient = lenient and w = w] by blast
  next
    case (Inr v)
    then show ?thesis using assms(1) Fetching fetched [where i = i and fetch = fetch and v = v and lenient = lenient and w = w] by blast
  qed
next
  case (Publishing v)
  then show ?thesis using store_snapshot [OF assms(1) Publishing] by blast
qed (use assms(2) in blast)

lemma warm_stays:
  assumes "warm_step fetch lenient w w'" "is_fetched (wm_value w)" "warm_ok fetch lenient seed n w" "\<And>k. fetch k \<noteq> Inr None"
  shows "is_fetched (wm_value w')"
  using assms(1)
proof cases
  case (store_snapshot i v)
  then have "fetch i = Inr v" using warm_ok_caller [OF assms(3)] by fastforce
  then show ?thesis using store_snapshot assms(4) [of i] by (auto simp: is_fetched_def publish_def)
qed (use assms(2) in simp_all)

section \<open>Properties\<close>

text \<open>C30: warming a cached value from any number of callers. Provided a fetch that succeeds gives an object,
  in every interleaving a caller that has returned holds what some caller's fetch gave, or its own error
  when it is strict, or the seed when it falls back after its own fetch failed. Nobody waits for
  another: a caller that has not returned can go on, and all of them have returned after at most three
  steps each. Once a snapshot is published the value stays warm.\<close>

theorem warming_serves:
  assumes "warm_run fetch lenient seed n k w" and "\<And>j. fetch j \<noteq> Inr None"
  shows "k \<le> 3 * n \<and> length (wm_callers w) = n \<and>
    (\<forall>i < n. case wm_callers w ! i of
       Returned (Inl e) \<Rightarrow> fetch i = Inl e \<and> \<not> lenient i
     | Returned (Inr v) \<Rightarrow> fetched_value fetch n v \<or> v = seed \<and> lenient i \<and> (\<exists>e. fetch i = Inl e)
     | _ \<Rightarrow> \<exists>w'. warm_step fetch lenient w w') \<and>
    (\<forall>w'. warm_step fetch lenient w w' \<longrightarrow> is_fetched (wm_value w) \<longrightarrow> is_fetched (wm_value w'))"
proof -
  have ok: "warm_ok fetch lenient seed n w" using assms by (rule warm_run_ok)
  have "case wm_callers w ! i of
       Returned (Inl e) \<Rightarrow> fetch i = Inl e \<and> \<not> lenient i
     | Returned (Inr v) \<Rightarrow> fetched_value fetch n v \<or> v = seed \<and> lenient i \<and> (\<exists>e. fetch i = Inl e)
     | _ \<Rightarrow> \<exists>w'. warm_step fetch lenient w w'" (is "?holds i") if "i < n" for i
  proof -
    have call: "caller_ok fetch lenient seed n (wm_value w) i (wm_callers w ! i)" and len: "i < length (wm_callers w)"
      using ok that by (simp_all add: warm_ok_def)
    show ?thesis
    proof (cases "\<exists>r. wm_callers w ! i = Returned r")
      case True
      then obtain r where "wm_callers w ! i = Returned r" by blast
      with call show ?thesis by (cases r) simp_all
    next
      case False
      then have "\<exists>w'. warm_step fetch lenient w w'" using caller_moves [OF len] by blast
      with False show ?thesis by (cases "wm_callers w ! i") simp_all
    qed
  qed
  then have "\<forall>i < n. ?holds i" by blast
  moreover have "k \<le> 3 * n" using warm_run_length [OF assms(1)] by simp
  moreover have "length (wm_callers w) = n" using ok by (simp add: warm_ok_def)
  moreover have "\<forall>w'. warm_step fetch lenient w w' \<longrightarrow> is_fetched (wm_value w) \<longrightarrow> is_fetched (wm_value w')"
    by (intro allI impI) (rule warm_stays [OF _ _ ok assms(2)])
  ultimately show ?thesis by (intro conjI)
qed

text \<open>A fetch that succeeds with a null pointer is taken for a success, and leaves the value cold.\<close>

lemma null_stays_cold: "\<not> is_fetched (publish None r)"
  by (simp add: is_fetched_def publish_def)

text \<open>Two lenient callers: the first fetches and publishes, the second finds the value warm.\<close>

definition warm_example :: "(unit, nat) warming" where
  "warm_example = \<lparr>wm_value = \<lparr>rp_seed = Some 1, rp_cell = Some 7\<rparr>, wm_callers = [Returned (Inr (Some 7)), Returned (Inr (Some 7))]\<rparr>"

abbreviation first_fetches :: "nat \<Rightarrow> unit + nat option" where
  "first_fetches \<equiv> \<lambda>k. if k = 0 then Inr (Some 7) else Inl ()"

lemma warm_example_run: "warm_run first_fetches (\<lambda>_. True) (Some 1) 2 5 warm_example"
proof -
  define at where "at r cs = \<lparr>wm_value = \<lparr>rp_seed = Some 1, rp_cell = r\<rparr>, wm_callers = cs\<rparr>" for r and cs :: "(unit, nat) caller list"
  let ?run = "warm_run first_fetches (\<lambda>_. True) (Some 1) 2"
  note at = at_def is_fetched_def publish_def snapshot_of_def
  have "cold_start (Some 1) 2 = at None [Checking, Checking]"
    by (simp add: at cold_start_def republishable_seeded_def numeral_2_eq_2)
  then have "?run 0 (at None [Checking, Checking])" using warm_run.cold by metis
  from next_warm [OF this found_cold [of 0]] have "?run 1 (at None [Fetching, Checking])" by (simp add: at)
  from next_warm [OF this fetched [of 0]] have "?run 2 (at None [Publishing (Some 7), Checking])" by (simp add: at numeral_2_eq_2)
  from next_warm [OF this store_snapshot [of 0]] have "?run 3 (at (Some 7) [Returned (Inr (Some 7)), Checking])" by (simp add: at numeral_3_eq_3 numeral_2_eq_2)
  from next_warm [OF this found_warm [of 1]] have "?run 4 (at (Some 7) [Returned (Inr (Some 7)), Reading])" by (simp add: at eval_nat_numeral)
  from next_warm [OF this read_snapshot [of 1]] show ?thesis by (simp add: at warm_example_def eval_nat_numeral)
qed

theorem warming_serves_witness:
  "fetched_value first_fetches 2 (Some (7 :: nat))"
proof -
  have "case wm_callers warm_example ! 1 of
       Returned (Inl e) \<Rightarrow> first_fetches 1 = Inl e \<and> \<not> True
     | Returned (Inr v) \<Rightarrow> fetched_value first_fetches 2 v \<or> v = Some 1 \<and> True \<and> (\<exists>e. first_fetches 1 = Inl e)
     | _ \<Rightarrow> \<exists>w'. warm_step first_fetches (\<lambda>_. True) warm_example w'"
    by (rule warming_serves [OF warm_example_run, THEN conjunct2, THEN conjunct2, THEN conjunct1, THEN spec, THEN mp]) simp_all
  then show ?thesis by (simp add: warm_example_def)
qed

end
