(* ===== verification/Tasks.thy ===== *)
theory Tasks
  imports Main
begin

text \<open>
  \<open>include/aniparse/net/vendor/CancellingTask.hpp\<close>: the coroutine tasks every getter returns. A coroutine is
  an address with its frame; awaiting a task and finishing one transfer control from frame to frame,
  one at a time. The body of a coroutine is what it does between its suspension points: it returns,
  throws, or awaits a task it creates and goes on with that task's result, an exception included. The
  second part has the promises of network tasks: which stop state and which progress counters they share.
\<close>

section \<open>Coroutines\<close>

datatype ('e, 'v) body = Return 'v | Throw 'e | AwaitTask "('e, 'v) body" "'e + 'v \<Rightarrow> ('e, 'v) body"

text \<open>The variant in a promise, and what \<open>result\<close> gives for it: a missing value is an exception, too.\<close>

datatype ('e, 'v) storage = Unset | Stored 'v | Caught 'e

definition promise_result :: "'e \<Rightarrow> ('e, 'v) storage \<Rightarrow> 'e + 'v" where
  "promise_result unset s = (case s of Stored v \<Rightarrow> Inr v | Caught e \<Rightarrow> Inl e | Unset \<Rightarrow> Inl unset)"

text \<open>Where a coroutine is: before a piece of its body, suspended in an await, or at its final suspension.\<close>

datatype ('e, 'v) point = Ready "('e, 'v) body" | Awaiting nat "'e + 'v \<Rightarrow> ('e, 'v) body" | Finished

record ('e, 'v) frame =
  fr_point :: "('e, 'v) point"
  fr_storage :: "('e, 'v) storage"
  fr_continuation :: "nat option"

record ('e, 'v) machine =
  mc_frames :: "nat \<Rightarrow> ('e, 'v) frame option"
  mc_running :: "nat option"
  mc_next :: nat

text \<open>Creation: the body is not entered before the task is awaited or resumed.\<close>

definition fresh_frame :: "('e, 'v) body \<Rightarrow> ('e, 'v) frame" where
  "fresh_frame c = \<lparr>fr_point = Ready c, fr_storage = Unset, fr_continuation = None\<rparr>"

definition create_task :: "('e, 'v) body \<Rightarrow> ('e, 'v) machine \<Rightarrow> nat \<times> ('e, 'v) machine" where
  "create_task c m =
     (mc_next m, m\<lparr>mc_frames := (mc_frames m)(mc_next m \<mapsto> fresh_frame c), mc_next := Suc (mc_next m)\<rparr>)"

text \<open>\<open>Awaitable::await_suspend\<close>: the awaiting coroutine becomes the continuation, and the awaited one runs.\<close>

definition await_suspend :: "nat \<Rightarrow> nat \<Rightarrow> ('e, 'v) machine \<Rightarrow> ('e, 'v) machine" where
  "await_suspend i j m =
     m\<lparr>mc_frames := (mc_frames m)(j := map_option (\<lambda>f. f\<lparr>fr_continuation := Some i\<rparr>) (mc_frames m j)), mc_running := Some j\<rparr>"

text \<open>The final suspension: the result is in the promise, and control goes to the continuation or back to the caller.\<close>

definition finish :: "nat \<Rightarrow> ('e, 'v) frame \<Rightarrow> ('e, 'v) storage \<Rightarrow> ('e, 'v) machine \<Rightarrow> ('e, 'v) machine" where
  "finish i f s m =
     m\<lparr>mc_frames := (mc_frames m)(i \<mapsto> f\<lparr>fr_point := Finished, fr_storage := s\<rparr>), mc_running := fr_continuation f\<rparr>"

text \<open>
  What the running coroutine does next; \<open>None\<close> where nothing runs or the code is undefined. When an
  await is over the temporary task is destroyed, with its frame.
\<close>

definition task_step :: "'e \<Rightarrow> ('e, 'v) machine \<Rightarrow> ('e, 'v) machine option" where
  "task_step unset m =
     (case mc_running m of
        None \<Rightarrow> None
      | Some i \<Rightarrow>
          (case mc_frames m i of
             None \<Rightarrow> None
           | Some f \<Rightarrow>
               (case fr_point f of
                  Ready (Return v) \<Rightarrow> Some (finish i f (Stored v) m)
                | Ready (Throw e) \<Rightarrow> Some (finish i f (Caught e) m)
                | Ready (AwaitTask c k) \<Rightarrow>
                    (case create_task c m of
                       (j, m') \<Rightarrow>
                         Some (await_suspend i j (m'\<lparr>mc_frames := (mc_frames m')(i \<mapsto> f\<lparr>fr_point := Awaiting j k\<rparr>)\<rparr>)))
                | Awaiting j k \<Rightarrow>
                    (case mc_frames m j of
                       None \<Rightarrow> None
                     | Some g \<Rightarrow>
                         Some (m\<lparr>mc_frames := (mc_frames m)(j := None, i \<mapsto> f\<lparr>fr_point := Ready (k (promise_result unset (fr_storage g)))\<rparr>)\<rparr>))
                | Finished \<Rightarrow> None)))"

fun task_run :: "'e \<Rightarrow> nat \<Rightarrow> ('e, 'v) machine \<Rightarrow> ('e, 'v) machine option" where
  "task_run unset 0 m = Some m"
| "task_run unset (Suc n) m = Option.bind (task_step unset m) (task_run unset n)"

text \<open>\<open>CancellingTask::resume\<close> of a task that has not started, from outside every coroutine.\<close>

definition start_task :: "nat \<Rightarrow> ('e, 'v) machine \<Rightarrow> ('e, 'v) machine" where
  "start_task i m = m\<lparr>mc_running := Some i\<rparr>"

section \<open>Tasks are their outcomes\<close>

text \<open>What a body means: an awaited task is called, like a function.\<close>

primrec outcome_of :: "('e, 'v) body \<Rightarrow> 'e + 'v" where
  "outcome_of (Return v) = Inr v"
| "outcome_of (Throw e) = Inl e"
| "outcome_of (AwaitTask c k) = (outcome_of \<circ> k) (outcome_of c)"

definition store_outcome :: "'e + 'v \<Rightarrow> ('e, 'v) storage" where
  "store_outcome r = (case r of Inr v \<Rightarrow> Stored v | Inl e \<Rightarrow> Caught e)"

lemma promise_result_store [simp]: "promise_result unset (store_outcome r) = r"
  by (cases r) (simp_all add: promise_result_def store_outcome_def)

definition machine_ok :: "('e, 'v) machine \<Rightarrow> bool" where
  "machine_ok m \<longleftrightarrow> (\<forall>j \<ge> mc_next m. mc_frames m j = None)"

lemma task_run_add: "task_run unset a m = Some m' \<Longrightarrow> task_run unset (a + b) m = task_run unset b m'"
  by (induction a arbitrary: m) (auto split: bind_splits)

lemma task_run_trans: "task_run unset a m = Some m' \<Longrightarrow> task_run unset b m' = Some m'' \<Longrightarrow> task_run unset (a + b) m = Some m''"
  by (simp add: task_run_add)

text \<open>From a frame at the beginning of a body to its end: nothing else changes, and no frame is left behind.\<close>

lemma body_runs:
  assumes "machine_ok m" "mc_running m = Some i" "mc_frames m i = Some f" "fr_point f = Ready c"
  shows "\<exists>n m'. task_run unset n m = Some m' \<and> machine_ok m' \<and> mc_running m' = fr_continuation f \<and>
    mc_frames m' = (mc_frames m)(i \<mapsto> f\<lparr>fr_point := Finished, fr_storage := store_outcome (outcome_of c)\<rparr>)"
  using assms
proof (induction c arbitrary: m i f)
  case (Return v)
  then have run: "task_run unset (Suc 0) m = Some (finish i f (Stored v) m)" by (simp add: task_step_def)
  have ok: "machine_ok (finish i f (Stored v) m)" using Return by (auto simp: machine_ok_def finish_def)
  show ?case
  proof (intro exI conjI)
    show "task_run unset (Suc 0) m = Some (finish i f (Stored v) m)" by (rule run)
  qed (use ok in \<open>auto simp: finish_def store_outcome_def\<close>)
next
  case (Throw e)
  then have run: "task_run unset (Suc 0) m = Some (finish i f (Caught e) m)" by (simp add: task_step_def)
  have ok: "machine_ok (finish i f (Caught e) m)" using Throw by (auto simp: machine_ok_def finish_def)
  show ?case
  proof (intro exI conjI)
    show "task_run unset (Suc 0) m = Some (finish i f (Caught e) m)" by (rule run)
  qed (use ok in \<open>auto simp: finish_def store_outcome_def\<close>)
next
  case (AwaitTask c k)
  let ?j = "mc_next m"
  let ?child = "(fresh_frame c)\<lparr>fr_continuation := Some i\<rparr>"
  let ?f = "f\<lparr>fr_point := Awaiting ?j k\<rparr>"
  let ?m1 = "m\<lparr>mc_frames := (mc_frames m)(?j \<mapsto> ?child, i \<mapsto> ?f), mc_running := Some ?j, mc_next := Suc ?j\<rparr>"
  have j: "mc_frames m ?j = None" using AwaitTask.prems(1) by (simp add: machine_ok_def)
  then have neq: "?j \<noteq> i" using AwaitTask.prems(3) by auto
  have first: "task_run unset 1 m = Some ?m1"
    using AwaitTask.prems neq by (simp add: task_step_def create_task_def await_suspend_def fun_upd_twist)
  have ok1: "machine_ok ?m1" using AwaitTask.prems(1,3) neq by (auto simp: machine_ok_def)
  have "\<exists>n m'. task_run unset n ?m1 = Some m' \<and> machine_ok m' \<and> mc_running m' = fr_continuation ?child \<and>
      mc_frames m' = (mc_frames ?m1)(?j \<mapsto> ?child\<lparr>fr_point := Finished, fr_storage := store_outcome (outcome_of c)\<rparr>)"
    using neq by (intro AwaitTask.IH(1) [OF ok1]) (simp_all add: fresh_frame_def)
  then obtain n2 m2 where m2: "task_run unset n2 ?m1 = Some m2" "machine_ok m2" "mc_running m2 = Some i"
      "mc_frames m2 = (mc_frames m)(?j \<mapsto> ?child\<lparr>fr_point := Finished, fr_storage := store_outcome (outcome_of c)\<rparr>, i \<mapsto> ?f)"
    using neq by (auto simp: fun_upd_twist)
  let ?g = "f\<lparr>fr_point := Ready (k (outcome_of c))\<rparr>"
  let ?m3 = "m2\<lparr>mc_frames := (mc_frames m)(i \<mapsto> ?g)\<rparr>"
  have third: "task_run unset 1 m2 = Some ?m3"
    using m2(3,4) neq j by (simp add: task_step_def fun_upd_twist fun_upd_idem)
  have ok3: "machine_ok ?m3" using m2(2,4) AwaitTask.prems(1) by (auto simp: machine_ok_def split: if_splits)
  have "\<exists>n m'. task_run unset n ?m3 = Some m' \<and> machine_ok m' \<and> mc_running m' = fr_continuation ?g \<and>
      mc_frames m' = (mc_frames ?m3)(i \<mapsto> ?g\<lparr>fr_point := Finished, fr_storage := store_outcome (outcome_of (k (outcome_of c)))\<rparr>)"
    using m2(3) by (intro AwaitTask.IH(2) [OF _ ok3]) simp_all
  then obtain n4 m4 where m4: "task_run unset n4 ?m3 = Some m4" "machine_ok m4" "mc_running m4 = fr_continuation f"
      "mc_frames m4 = (mc_frames m)(i \<mapsto> f\<lparr>fr_point := Finished, fr_storage := store_outcome (outcome_of (AwaitTask c k))\<rparr>)"
    by auto
  have "task_run unset (1 + (n2 + (1 + n4))) m = Some m4"
    by (rule task_run_trans [OF first task_run_trans [OF m2(1) task_run_trans [OF third m4(1)]]])
  then show ?case using m4 by blast
qed

section \<open>Stop states and progress\<close>

text \<open>
  A promise of a network task: the stop state its \<open>stop_source\<close> refers to, and two counters, each its own
  number or a pointer to the number inside another promise.
\<close>

datatype counter = Own int | Shared nat

datatype progress = ReadBytes | TotalBytes

record task_promise =
  tp_source :: nat
  tp_counter :: "progress \<Rightarrow> counter"

record task_heap =
  th_promises :: "nat \<Rightarrow> task_promise option"
  th_stopped :: "nat set"
  th_sources :: nat

definition new_promise :: "nat \<Rightarrow> task_heap \<Rightarrow> task_heap" where
  "new_promise i h =
     h\<lparr>th_promises := (th_promises h)(i \<mapsto> \<lparr>tp_source = th_sources h, tp_counter = (\<lambda>_. Own 0)\<rparr>), th_sources := Suc (th_sources h)\<rparr>"

text \<open>The promise in which a counter lives.\<close>

definition counter_home :: "task_heap \<Rightarrow> progress \<Rightarrow> nat \<Rightarrow> nat" where
  "counter_home h w i = (case th_promises h i of Some p \<Rightarrow> (case tp_counter p w of Own _ \<Rightarrow> i | Shared j \<Rightarrow> j) | None \<Rightarrow> i)"

text \<open>Its value; \<open>None\<close> where the pointer leads to no number, because the promise is gone or has been connected since.\<close>

definition progress_bytes :: "task_heap \<Rightarrow> progress \<Rightarrow> nat \<Rightarrow> int option" where
  "progress_bytes h w i =
     (case th_promises h (counter_home h w i) of
        Some p \<Rightarrow> (case tp_counter p w of Own n \<Rightarrow> Some n | Shared _ \<Rightarrow> None)
      | None \<Rightarrow> None)"

definition set_progress_bytes :: "progress \<Rightarrow> nat \<Rightarrow> int \<Rightarrow> task_heap \<Rightarrow> task_heap" where
  "set_progress_bytes w i n h =
     h\<lparr>th_promises := (th_promises h)(counter_home h w i :=
        map_option (\<lambda>p. p\<lparr>tp_counter := (tp_counter p)(w := Own n)\<rparr>) (th_promises h (counter_home h w i)))\<rparr>"

definition request_stop :: "nat \<Rightarrow> task_heap \<Rightarrow> task_heap" where
  "request_stop i h = (case th_promises h i of Some p \<Rightarrow> h\<lparr>th_stopped := insert (tp_source p) (th_stopped h)\<rparr> | None \<Rightarrow> h)"

definition stop_requested :: "nat \<Rightarrow> task_heap \<Rightarrow> bool" where
  "stop_requested i h \<longleftrightarrow> (case th_promises h i of Some p \<Rightarrow> tp_source p \<in> th_stopped h | None \<Rightarrow> False)"

definition connect_with :: "nat \<Rightarrow> nat \<Rightarrow> task_heap \<Rightarrow> task_heap" where
  "connect_with i other h =
     (case th_promises h other of
        Some q \<Rightarrow> h\<lparr>th_promises := (th_promises h)(i \<mapsto>
          \<lparr>tp_source = tp_source q, tp_counter = (\<lambda>w. Shared (counter_home h w other))\<rparr>)\<rparr>
      | None \<Rightarrow> h)"

definition destroy_promise :: "nat \<Rightarrow> task_heap \<Rightarrow> task_heap" where
  "destroy_promise i h = h\<lparr>th_promises := (th_promises h)(i := None)\<rparr>"

definition empty_heap :: task_heap where
  "empty_heap = \<lparr>th_promises = (\<lambda>_. None), th_stopped = {}, th_sources = 0\<rparr>"

text \<open>
  What a program does that connects a task before the task has connected others, as the documentation
  asks, and destroys it after them: no promise points to it then.
\<close>

definition unreferenced :: "task_heap \<Rightarrow> nat \<Rightarrow> bool" where
  "unreferenced h i \<longleftrightarrow> (\<forall>j p w. th_promises h j = Some p \<longrightarrow> tp_counter p w \<noteq> Shared i)"

inductive connected_heap :: "task_heap \<Rightarrow> bool" where
  no_task: "connected_heap empty_heap"
| created: "connected_heap h \<Longrightarrow> th_promises h i = None \<Longrightarrow> connected_heap (new_promise i h)"
| connected: "connected_heap h \<Longrightarrow> th_promises h i \<noteq> None \<Longrightarrow> th_promises h other \<noteq> None \<Longrightarrow> i \<noteq> other \<Longrightarrow> unreferenced h i \<Longrightarrow>
    connected_heap (connect_with i other h)"
| destroyed: "connected_heap h \<Longrightarrow> unreferenced h i \<Longrightarrow> connected_heap (destroy_promise i h)"
| stopped: "connected_heap h \<Longrightarrow> connected_heap (request_stop i h)"
| progressed: "connected_heap h \<Longrightarrow> th_promises h i \<noteq> None \<Longrightarrow> connected_heap (set_progress_bytes w i n h)"

text \<open>Every promise is a root with its own counters, or refers to a root with both; the roots are told apart by their stop states.\<close>

definition is_root :: "task_promise \<Rightarrow> bool" where
  "is_root p \<longleftrightarrow> (\<forall>w. \<exists>n. tp_counter p w = Own n)"

definition heap_ok :: "task_heap \<Rightarrow> bool" where
  "heap_ok h \<longleftrightarrow>
     (\<forall>i p. th_promises h i = Some p \<longrightarrow> tp_source p < th_sources h \<and>
        (is_root p \<or> (\<exists>r q. th_promises h r = Some q \<and> is_root q \<and> tp_source q = tp_source p \<and> (\<forall>w. tp_counter p w = Shared r)))) \<and>
     (\<forall>i j p q. th_promises h i = Some p \<longrightarrow> th_promises h j = Some q \<longrightarrow> is_root p \<longrightarrow> is_root q \<longrightarrow> tp_source p = tp_source q \<longrightarrow> i = j)"

lemma heap_ok_sources: "heap_ok h \<Longrightarrow> th_promises h i = Some p \<Longrightarrow> tp_source p < th_sources h"
  by (simp add: heap_ok_def)

lemma heap_ok_roots:
  "heap_ok h \<Longrightarrow> th_promises h i = Some p \<Longrightarrow> th_promises h j = Some q \<Longrightarrow> is_root p \<Longrightarrow> is_root q \<Longrightarrow> tp_source p = tp_source q \<Longrightarrow> i = j"
  unfolding heap_ok_def by blast

text \<open>The root of a promise: its home for both counters.\<close>

lemma heap_ok_home:
  assumes "heap_ok h" "th_promises h i = Some p"
  obtains q where "th_promises h (counter_home h w i) = Some q" "is_root q" "tp_source q = tp_source p"
    "\<forall>w'. counter_home h w' i = counter_home h w i"
proof (cases "is_root p")
  case True
  then have "counter_home h w' i = i" for w'
    using assms(2) by (auto simp: counter_home_def is_root_def split: counter.splits dest: spec [of _ w'])
  then show thesis using that [of p] True assms(2) by simp
next
  case False
  then obtain r q where r: "th_promises h r = Some q" "is_root q" "tp_source q = tp_source p" "\<forall>w. tp_counter p w = Shared r"
    using assms unfolding heap_ok_def by blast
  then have "counter_home h w' i = r" for w' using assms(2) by (simp add: counter_home_def)
  then show thesis using that [of q] r by simp
qed

lemma heap_okI:
  assumes "\<And>i p. th_promises h i = Some p \<Longrightarrow> tp_source p < th_sources h"
    and "\<And>i p. th_promises h i = Some p \<Longrightarrow> \<not> is_root p \<Longrightarrow>
      \<exists>r q. th_promises h r = Some q \<and> is_root q \<and> tp_source q = tp_source p \<and> (\<forall>w. tp_counter p w = Shared r)"
    and "\<And>i j p q. th_promises h i = Some p \<Longrightarrow> th_promises h j = Some q \<Longrightarrow> is_root p \<Longrightarrow> is_root q \<Longrightarrow> tp_source p = tp_source q \<Longrightarrow> i = j"
  shows "heap_ok h"
  unfolding heap_ok_def using assms by blast

lemma heap_ok_attached:
  "heap_ok h \<Longrightarrow> th_promises h i = Some p \<Longrightarrow> \<not> is_root p \<Longrightarrow>
   \<exists>r q. th_promises h r = Some q \<and> is_root q \<and> tp_source q = tp_source p \<and> (\<forall>w. tp_counter p w = Shared r)"
  unfolding heap_ok_def by blast

lemma heap_ok_new: "heap_ok h \<Longrightarrow> th_promises h i = None \<Longrightarrow> heap_ok (new_promise i h)"
proof (rule heap_okI)
  assume ok: "heap_ok h" and none: "th_promises h i = None"
  let ?new = "\<lparr>tp_source = th_sources h, tp_counter = (\<lambda>_. Own 0)\<rparr>"
  have get: "th_promises (new_promise i h) j = (if j = i then Some ?new else th_promises h j)" for j
    by (simp add: new_promise_def)
  have root: "is_root ?new" by (simp add: is_root_def)
  show "tp_source p < th_sources (new_promise i h)" if "th_promises (new_promise i h) j = Some p" for j p
    using that heap_ok_sources [OF ok] by (auto simp: get new_promise_def less_Suc_eq split: if_splits)
  show "\<exists>r q. th_promises (new_promise i h) r = Some q \<and> is_root q \<and> tp_source q = tp_source p \<and> (\<forall>w. tp_counter p w = Shared r)"
    if p: "th_promises (new_promise i h) j = Some p" "\<not> is_root p" for j p
  proof -
    have "th_promises h j = Some p" using p root by (auto simp: get split: if_splits)
    from heap_ok_attached [OF ok this p(2)] obtain r q where
      "th_promises h r = Some q" "is_root q" "tp_source q = tp_source p" "\<forall>w. tp_counter p w = Shared r" by blast
    moreover from this have "r \<noteq> i" using none by auto
    ultimately show ?thesis using get by metis
  qed
  show "j = k" if "th_promises (new_promise i h) j = Some p" "th_promises (new_promise i h) k = Some q" "is_root p" "is_root q"
      "tp_source p = tp_source q" for j k p q
  proof -
    have fresh: "tp_source g \<noteq> th_sources h" if "th_promises h l = Some g" for l g
      using heap_ok_sources [OF ok that] by simp
    show ?thesis using that fresh [of j p] fresh [of k q] heap_ok_roots [OF ok, of j p k q]
      by (cases "j = i"; cases "k = i") (auto simp: get)
  qed
qed

lemma heap_ok_connect:
  assumes ok: "heap_ok h" and other: "th_promises h other \<noteq> None" and neq: "i \<noteq> other" and free: "unreferenced h i"
  shows "heap_ok (connect_with i other h)"
proof (rule heap_okI)
  obtain q where q: "th_promises h other = Some q" using other by blast
  obtain g where g: "th_promises h (counter_home h ReadBytes other) = Some g" "is_root g" "tp_source g = tp_source q"
      "\<forall>w. counter_home h w other = counter_home h ReadBytes other"
    by (rule heap_ok_home [OF ok q, of ReadBytes])
  let ?r = "counter_home h ReadBytes other"
  let ?new = "\<lparr>tp_source = tp_source q, tp_counter = (\<lambda>w. Shared ?r)\<rparr>"
  have get: "th_promises (connect_with i other h) j = (if j = i then Some ?new else th_promises h j)" for j
  proof -
    have "(\<lambda>w. Shared (counter_home h w other)) = (\<lambda>w. Shared ?r)" by (intro ext) (metis g(4))
    then show ?thesis using q by (simp only: connect_with_def option.case) simp
  qed
  have sources: "th_sources (connect_with i other h) = th_sources h" using q by (simp add: connect_with_def)
  have r: "?r \<noteq> i"
    using neq free q unfolding unreferenced_def counter_home_def by (auto split: counter.splits)
  have new: "\<not> is_root ?new" by (simp add: is_root_def)
  show "tp_source p < th_sources (connect_with i other h)" if "th_promises (connect_with i other h) j = Some p" for j p
    using that heap_ok_sources [OF ok] q unfolding sources by (auto simp: get split: if_splits)
  show "\<exists>r q. th_promises (connect_with i other h) r = Some q \<and> is_root q \<and> tp_source q = tp_source p \<and> (\<forall>w. tp_counter p w = Shared r)"
    if p: "th_promises (connect_with i other h) j = Some p" "\<not> is_root p" for j p
  proof (cases "j = i")
    case True
    then have "p = ?new" using p(1) by (simp add: get)
    moreover have "th_promises (connect_with i other h) ?r = Some g" using g(1) r by (simp add: get)
    ultimately show ?thesis using g(2,3) by auto
  next
    case False
    then have p': "th_promises h j = Some p" using p(1) by (simp add: get)
    from heap_ok_attached [OF ok this p(2)] obtain r' q' where
      r': "th_promises h r' = Some q'" "is_root q'" "tp_source q' = tp_source p" "\<forall>w. tp_counter p w = Shared r'" by blast
    moreover have "r' \<noteq> i" using free p' r'(4) unfolding unreferenced_def by blast
    ultimately show ?thesis using get by metis
  qed
  show "j = k" if "th_promises (connect_with i other h) j = Some p" "th_promises (connect_with i other h) k = Some q'" "is_root p" "is_root q'"
      "tp_source p = tp_source q'" for j k p q'
    using that new heap_ok_roots [OF ok] by (auto simp: get split: if_splits)
qed

lemma heap_ok_destroy: "heap_ok h \<Longrightarrow> unreferenced h i \<Longrightarrow> heap_ok (destroy_promise i h)"
proof (rule heap_okI)
  assume ok: "heap_ok h" and free: "unreferenced h i"
  have get: "th_promises (destroy_promise i h) j = (if j = i then None else th_promises h j)" for j
    by (simp add: destroy_promise_def)
  show "tp_source p < th_sources (destroy_promise i h)" if "th_promises (destroy_promise i h) j = Some p" for j p
    using that heap_ok_sources [OF ok] by (auto simp: get destroy_promise_def split: if_splits)
  show "\<exists>r q. th_promises (destroy_promise i h) r = Some q \<and> is_root q \<and> tp_source q = tp_source p \<and> (\<forall>w. tp_counter p w = Shared r)"
    if p: "th_promises (destroy_promise i h) j = Some p" "\<not> is_root p" for j p
  proof -
    have p': "th_promises h j = Some p" using p(1) by (simp add: get split: if_splits)
    from heap_ok_attached [OF ok this p(2)] obtain r q where
      r: "th_promises h r = Some q" "is_root q" "tp_source q = tp_source p" "\<forall>w. tp_counter p w = Shared r" by blast
    moreover have "r \<noteq> i" using free p' r(4) unfolding unreferenced_def by blast
    ultimately show ?thesis using get by metis
  qed
  show "j = k" if "th_promises (destroy_promise i h) j = Some p" "th_promises (destroy_promise i h) k = Some q" "is_root p" "is_root q"
      "tp_source p = tp_source q" for j k p q
    using that heap_ok_roots [OF ok] by (auto simp: get split: if_splits)
qed

text \<open>Writing a counter, at its home.\<close>

lemma set_progress_get:
  assumes "heap_ok h" "th_promises h i = Some p"
  obtains q where "th_promises h (counter_home h w i) = Some q" "is_root q"
    "\<forall>j. th_promises (set_progress_bytes w i n h) j =
      (if j = counter_home h w i then Some (q\<lparr>tp_counter := (tp_counter q)(w := Own n)\<rparr>) else th_promises h j)"
    "is_root (q\<lparr>tp_counter := (tp_counter q)(w := Own n)\<rparr>)"
proof -
  obtain q where q: "th_promises h (counter_home h w i) = Some q" "is_root q"
    using heap_ok_home [OF assms, of w] by blast
  moreover have "th_promises (set_progress_bytes w i n h) j =
      (if j = counter_home h w i then Some (q\<lparr>tp_counter := (tp_counter q)(w := Own n)\<rparr>) else th_promises h j)" for j
    using q(1) by (simp add: set_progress_bytes_def)
  moreover have "is_root (q\<lparr>tp_counter := (tp_counter q)(w := Own n)\<rparr>)" using q(2) by (simp add: is_root_def)
  ultimately show thesis using that [of q] by blast
qed

lemma heap_ok_progress: "heap_ok h \<Longrightarrow> th_promises h i = Some p0 \<Longrightarrow> heap_ok (set_progress_bytes w i n h)"
proof (rule heap_okI)
  assume ok: "heap_ok h" and i: "th_promises h i = Some p0"
  let ?h = "set_progress_bytes w i n h" and ?home = "counter_home h w i"
  obtain g where g: "th_promises h ?home = Some g" "is_root g"
    and get': "\<forall>j. th_promises ?h j = (if j = ?home then Some (g\<lparr>tp_counter := (tp_counter g)(w := Own n)\<rparr>) else th_promises h j)"
    and new: "is_root (g\<lparr>tp_counter := (tp_counter g)(w := Own n)\<rparr>)"
    by (rule set_progress_get [OF ok i, of w n])
  note get = get' [rule_format]
  have old: "\<exists>q. th_promises h j = Some q \<and> tp_source q = tp_source p \<and> (is_root p \<longleftrightarrow> is_root q) \<and> (\<not> is_root p \<longrightarrow> q = p)"
    if "th_promises ?h j = Some p" for j p
    using that g new by (auto simp: get split: if_splits)
  show "tp_source p < th_sources ?h" if "th_promises ?h j = Some p" for j p
  proof -
    have "th_sources ?h = th_sources h" by (simp add: set_progress_bytes_def)
    then show ?thesis using old [OF that] heap_ok_sources [OF ok] by metis
  qed
  show "\<exists>r q. th_promises ?h r = Some q \<and> is_root q \<and> tp_source q = tp_source p \<and> (\<forall>w. tp_counter p w = Shared r)"
    if p: "th_promises ?h j = Some p" "\<not> is_root p" for j p
  proof -
    have "th_promises h j = Some p" using old [OF p(1)] p(2) by auto
    from heap_ok_attached [OF ok this p(2)] obtain r q where
      r: "th_promises h r = Some q" "is_root q" "tp_source q = tp_source p" "\<forall>w. tp_counter p w = Shared r" by blast
    then have "\<exists>q'. th_promises ?h r = Some q' \<and> is_root q' \<and> tp_source q' = tp_source q" using g(1) new get by (auto split: if_splits)
    then show ?thesis using r by metis
  qed
  show "j = k" if "th_promises ?h j = Some p" "th_promises ?h k = Some q" "is_root p" "is_root q" "tp_source p = tp_source q" for j k p q
    using old [OF that(1)] old [OF that(2)] that(3-5) heap_ok_roots [OF ok] by metis
qed

lemma heap_ok_stop: "heap_ok h \<Longrightarrow> heap_ok (request_stop i h)"
  by (auto simp: heap_ok_def request_stop_def split: option.splits)

lemma connected_heap_ok: "connected_heap h \<Longrightarrow> heap_ok h"
proof (induction rule: connected_heap.induct)
  case no_task
  show ?case by (simp add: heap_ok_def empty_heap_def)
qed (auto intro: heap_ok_new heap_ok_connect heap_ok_destroy heap_ok_stop heap_ok_progress)

section \<open>Properties\<close>

text \<open>C34: a task is its outcome. Whatever a body awaits, however deep, starting its task runs it to the end in
  finitely many steps, each awaited task once and in order, and leaves in its promise what calling the
  bodies like functions gives, exceptions included; then control is back with the caller, and no
  frame is left but the task's own.\<close>

theorem task_is_outcome:
  assumes "machine_ok m" and "create_task c m = (i, m')"
  shows "\<exists>n m''. task_run unset n (start_task i m') = Some m'' \<and> mc_running m'' = None \<and> machine_ok m'' \<and>
    (\<forall>j. j \<noteq> i \<longrightarrow> mc_frames m'' j = mc_frames m j) \<and>
    (\<exists>f. mc_frames m'' i = Some f \<and> fr_point f = Finished \<and> promise_result unset (fr_storage f) = outcome_of c)"
proof -
  have i: "i = mc_next m" and m': "m' = m\<lparr>mc_frames := (mc_frames m)(mc_next m \<mapsto> fresh_frame c), mc_next := Suc (mc_next m)\<rparr>"
    using assms(2) by (auto simp: create_task_def)
  have "machine_ok (start_task i m')" using assms(1) by (auto simp: machine_ok_def start_task_def i m')
  from body_runs [OF this, of i "fresh_frame c" c unset]
  obtain n m'' where "task_run unset n (start_task i m') = Some m''" "machine_ok m''" "mc_running m'' = None"
      "mc_frames m'' = (mc_frames (start_task i m'))(i \<mapsto> (fresh_frame c)\<lparr>fr_point := Finished, fr_storage := store_outcome (outcome_of c)\<rparr>)"
    by (auto simp: start_task_def i m' fresh_frame_def)
  then show ?thesis by (intro exI conjI) (auto simp: start_task_def i m')
qed

text \<open>C35: connected tasks. As long as a task is connected before it has connected others, and destroyed after
  them, a request to stop one task reaches exactly the tasks that are connected with it, however many
  tasks are between them, a progress one of them reports is the progress of all of them and of no
  other, and no counter is ever lost.\<close>

theorem connected_tasks:
  assumes "connected_heap h" and "th_promises h i \<noteq> None" and "th_promises h j \<noteq> None"
  shows "(stop_requested j (request_stop i h) \<longleftrightarrow> stop_requested j h \<or> counter_home h w i = counter_home h w j) \<and>
    progress_bytes (set_progress_bytes w i n h) w' j =
      (if w' = w \<and> counter_home h w i = counter_home h w j then Some n else progress_bytes h w' j) \<and>
    progress_bytes h w j \<noteq> None \<and>
    (i \<noteq> j \<longrightarrow> unreferenced h i \<longrightarrow> counter_home (connect_with i j h) w i = counter_home h w j)"
proof -
  have ok: "heap_ok h" using assms(1) by (rule connected_heap_ok)
  obtain p q where p: "th_promises h i = Some p" and q: "th_promises h j = Some q" using assms(2,3) by blast
  obtain gi where gi: "th_promises h (counter_home h w i) = Some gi" "is_root gi" "tp_source gi = tp_source p"
      "\<forall>w'. counter_home h w' i = counter_home h w i"
    by (rule heap_ok_home [OF ok p, of w])
  obtain gj where gj: "th_promises h (counter_home h w j) = Some gj" "is_root gj" "tp_source gj = tp_source q"
      "\<forall>w'. counter_home h w' j = counter_home h w j"
    by (rule heap_ok_home [OF ok q, of w])
  have same: "tp_source p = tp_source q \<longleftrightarrow> counter_home h w i = counter_home h w j"
    using gi gj heap_ok_roots [OF ok gi(1) gj(1)] by auto
  have stop: "stop_requested j (request_stop i h) \<longleftrightarrow> stop_requested j h \<or> counter_home h w i = counter_home h w j"
    using p q same by (auto simp: stop_requested_def request_stop_def)
  have some: "progress_bytes h w j \<noteq> None"
    using gj(1,2) by (auto simp: progress_bytes_def is_root_def split: counter.splits dest: spec [of _ w])
  let ?h = "set_progress_bytes w i n h"
  have get: "th_promises ?h k = (if k = counter_home h w i then Some (gi\<lparr>tp_counter := (tp_counter gi)(w := Own n)\<rparr>) else th_promises h k)" for k
    using gi(1) by (simp add: set_progress_bytes_def)
  have home: "counter_home ?h w' j = counter_home h w' j" for w'
  proof (cases "j = counter_home h w i")
    case True
    then have "q = gi" using q gi(1) by simp
    then show ?thesis using q True gi(2) by (auto simp: counter_home_def get is_root_def split: counter.splits dest: spec [of _ w'])
  next
    case False
    then show ?thesis by (simp add: counter_home_def get)
  qed
  have "progress_bytes ?h w' j = (if w' = w \<and> counter_home h w i = counter_home h w j then Some n else progress_bytes h w' j)"
    using gi(1) gj(1) spec [OF gj(4), of w'] by (auto simp: progress_bytes_def home get)
  moreover have "counter_home (connect_with i j h) w i = counter_home h w j"
    using q by (simp add: connect_with_def counter_home_def)
  ultimately show ?thesis using stop some by blast
qed

text \<open>A task that connects others before it is connected itself: a request to stop its root does not reach them, and
  the pointers they hold lead to no number any more.\<close>

lemma late_connection_orphans:
  fixes h :: task_heap
  defines "h \<equiv> connect_with 1 0 (connect_with 2 1 (new_promise 2 (new_promise 1 (new_promise 0 empty_heap))))"
  shows "\<not> stop_requested 2 (request_stop 0 h)" and "progress_bytes h ReadBytes 2 = None"
  by (simp_all add: h_def connect_with_def new_promise_def empty_heap_def stop_requested_def request_stop_def
      progress_bytes_def counter_home_def)

text \<open>A task that awaits two others, the second of which throws, and catches.\<close>

definition empty_machine :: "(bool, nat) machine" where
  "empty_machine = \<lparr>mc_frames = (\<lambda>_. None), mc_running = None, mc_next = 0\<rparr>"

definition catching_body :: "(bool, nat) body" where
  "catching_body = AwaitTask (Return 20) (\<lambda>a. AwaitTask (Throw True)
     (\<lambda>b. case (a, b) of (Inr x, Inl _) \<Rightarrow> Return (x + 1) | _ \<Rightarrow> Throw False))"

theorem task_is_outcome_witness:
  "\<exists>n m f. task_run False n (start_task 0 (snd (create_task catching_body empty_machine))) = Some m \<and>
     mc_frames m 0 = Some f \<and> promise_result False (fr_storage f) = Inr 21"
proof -
  have "machine_ok empty_machine" by (simp add: machine_ok_def empty_machine_def)
  moreover have "create_task catching_body empty_machine = (0, snd (create_task catching_body empty_machine))"
    by (simp add: create_task_def empty_machine_def)
  moreover have "outcome_of catching_body = Inr 21" by (simp add: catching_body_def)
  ultimately show ?thesis
    using task_is_outcome [of empty_machine catching_body 0 "snd (create_task catching_body empty_machine)" False] by auto
qed

text \<open>A root, a task connected with it, and one connected with that: a request to stop the root reaches the last.\<close>

theorem connected_tasks_witness:
  "stop_requested 2 (request_stop 0 (connect_with 2 1 (new_promise 2 (connect_with 1 0 (new_promise 1 (new_promise 0 empty_heap))))))"
proof -
  let ?h = "connect_with 2 1 (new_promise 2 (connect_with 1 0 (new_promise 1 (new_promise 0 empty_heap))))"
  have "connected_heap ?h"
    by (intro connected_heap.connected connected_heap.created connected_heap.no_task)
      (auto simp: unreferenced_def connect_with_def new_promise_def empty_heap_def counter_home_def split: if_splits)
  then show ?thesis
    using connected_tasks [of ?h 0 2 ReadBytes] by (simp add: connect_with_def new_promise_def empty_heap_def counter_home_def)
qed

end
