(* ===== verification/Listing_Walk.thy ===== *)
theory Listing_Walk
  imports Booru
begin

text \<open>
  Listings read page by page to their end, over the page-numbered endpoints of \<open>Paging\<close> and the
  listings of \<open>Booru\<close>: a locale states what a listing endpoint owes its reader, and its lemmas say when a
  walk ends, what it delivers, and when it delivers everything.
\<close>

section \<open>Walking a listing\<close>

text \<open>
  How a caller reads a whole listing (\<open>include/aniparse/types/Pagination.hpp\<close>): the \<open>next_offset\<close> of
  each page is the \<open>from\<close> of the next request, and the first empty page ends the walk. A walk that
  never meets one does not return, so it is a partial function.
\<close>

partial_function (option) walk :: "(int \<Rightarrow> 'a page_results outcome) \<Rightarrow> int \<Rightarrow> 'a page_item list outcome option" where
  "walk fetch from =
     (case fetch from of
        Threw f \<Rightarrow> Some (Threw f)
      | Failed e \<Rightarrow> Some (Failed e)
      | Yielded p \<Rightarrow>
          (if results p = [] then Some (Yielded [])
           else Option.bind (walk fetch (next_offset p))
             (\<lambda>rest. Some (bind_outcome rest (\<lambda>items. Yielded (results p @ items))))))"

text \<open>A page that is not empty and says to continue where it began is read for ever.\<close>

lemma walk_stuck:
  assumes "fetch from = Yielded p" "results p \<noteq> []" "next_offset p = from"
  shows "walk fetch from = None"
proof -
  have "walk f n = Some y \<Longrightarrow> f = fetch \<longrightarrow> n \<noteq> from" for f n y
  proof (erule walk.raw_induct [where P = "\<lambda>f n y. f = fetch \<longrightarrow> n \<noteq> from", rotated], intro impI notI)
    fix w f n y
    assume ih: "\<And>f n y. w f n = Some y \<Longrightarrow> f = fetch \<longrightarrow> n \<noteq> from" and "f = fetch" "n = from"
      and "(case f n of Threw x \<Rightarrow> Some (Threw x) | Failed e \<Rightarrow> Some (Failed e)
        | Yielded p \<Rightarrow> if results p = [] then Some (Yielded [])
            else Option.bind (w f (next_offset p)) (\<lambda>rest. Some (bind_outcome rest (\<lambda>items. Yielded (results p @ items))))) = Some y"
    then obtain z where "w fetch from = Some z" using assms by (auto split: Option.bind_splits)
    then show False using ih by blast
  qed
  then show ?thesis by (cases "walk fetch from") auto
qed

section \<open>The contract of a listing endpoint\<close>

text \<open>
  \<open>fetch c from\<close> answers a request at offset \<open>from\<close>; behind it stands the list \<open>raw c\<close> of what the source
  lists, of which the request sees the \<open>win c from\<close> entries from \<open>from\<close> on and delivers those that
  \<open>keep c\<close> can map. Offsets count what is delivered.
\<close>

definition kept :: "('b \<Rightarrow> 'a option) \<Rightarrow> 'b list \<Rightarrow> 'a list" where
  "kept f xs = List.map_filter f xs"

lemma kept_append [simp]: "kept f (xs @ ys) = kept f xs @ kept f ys"
  by (simp add: kept_def map_filter_def)

lemma kept_simps [simp]:
  "kept f [] = []" "kept f (x # xs) = (case f x of None \<Rightarrow> kept f xs | Some y \<Rightarrow> y # kept f xs)"
  by (simp_all add: kept_def List.map_filter_simps split: option.split)

lemma length_kept: "length (kept f xs) \<le> length xs"
  by (induction xs) (auto split: option.split)

lemma set_kept: "set (kept f xs) = {y. \<exists>x\<in>set xs. f x = Some y}"
  by (induction xs) (auto split: option.split)

lemma kept_all: "(\<And>x. x \<in> set xs \<Longrightarrow> f x \<noteq> None) \<Longrightarrow> kept f xs = map (\<lambda>x. the (f x)) xs"
  by (induction xs) (auto split: option.split)

definition numbered :: "int \<Rightarrow> 'a page_item list \<Rightarrow> bool" where
  "numbered from items \<longleftrightarrow> map pi_offset items = map (\<lambda>i. from + int i) [0..<length items]"

lemma numbered_append:
  assumes "numbered from xs" "numbered (from + int (length xs)) ys"
  shows "numbered from (xs @ ys)"
proof -
  have "[0..<length xs + length ys] = [0..<length xs] @ map (\<lambda>i. i + length xs) [0..<length ys]"
    by (simp add: map_add_upt upt_add_eq_append [of 0 "length xs" "length ys", simplified] add.commute)
  then show ?thesis using assms by (simp add: numbered_def comp_def add.commute add.left_commute)
qed

locale listing =
  fixes fetch :: "'c \<Rightarrow> int \<Rightarrow> 'a page_results outcome"
    and ok :: "'c \<Rightarrow> bool"
    and raw :: "'c \<Rightarrow> 'b list"
    and keep :: "'c \<Rightarrow> 'b \<Rightarrow> 'a option"
    and win :: "'c \<Rightarrow> nat \<Rightarrow> nat"
  assumes answers: "ok c \<Longrightarrow> \<exists>p. fetch c (int n) = Yielded p"
    and window: "ok c \<Longrightarrow> fetch c (int n) = Yielded p \<Longrightarrow>
      map pi_item (results p) = kept (keep c) (take (win c n) (drop n (raw c)))"
    and numbering: "ok c \<Longrightarrow> fetch c (int n) = Yielded p \<Longrightarrow> results p \<noteq> [] \<Longrightarrow>
      numbered (int n) (results p) \<and> next_offset p = int n + int (length (results p))"
    and wide: "ok c \<Longrightarrow> 0 < win c n"
begin

lemma page_length:
  assumes "ok c" "fetch c (int n) = Yielded p"
  shows "length (results p) \<le> win c n" "length (results p) \<le> length (raw c) - n"
proof -
  have "length (results p) = length (kept (keep c) (take (win c n) (drop n (raw c))))"
    using window [OF assms] by (metis length_map)
  with length_kept [of "keep c" "take (win c n) (drop n (raw c))"]
  show "length (results p) \<le> win c n" "length (results p) \<le> length (raw c) - n" by simp_all
qed

lemma walk_step:
  assumes "ok c" "fetch c (int n) = Yielded p" "results p \<noteq> []"
  shows "walk (fetch c) (int n) = Option.bind (walk (fetch c) (int (n + length (results p))))
    (\<lambda>rest. Some (bind_outcome rest (\<lambda>items. Yielded (results p @ items))))"
  using numbering [OF assms] assms by (subst walk.simps) simp

lemma walk_ends:
  assumes "ok c"
  shows "\<exists>items. walk (fetch c) (int n) = Some (Yielded items) \<and> numbered (int n) items"
proof (induction "length (raw c) - n" arbitrary: n rule: less_induct)
  case less
  obtain p where p: "fetch c (int n) = Yielded p" using answers [OF assms] by blast
  show ?case
  proof (cases "results p = []")
    case True
    then show ?thesis using p by (subst walk.simps) (simp add: numbered_def)
  next
    case False
    then have "length (raw c) - (n + length (results p)) < length (raw c) - n"
      using page_length(2) [OF assms p] by (cases "results p") auto
    from less [OF this] obtain items where "walk (fetch c) (int (n + length (results p))) = Some (Yielded items)"
      and "numbered (int (n + length (results p))) items" by blast
    then show ?thesis
      using walk_step [OF assms p False] numbering [OF assms p False] numbered_append [of "int n" "results p" items]
      by simp
  qed
qed

text \<open>Induction over the pages of a walk.\<close>

lemma walk_pages [consumes 2, case_names last page]:
  assumes "ok c" "walk (fetch c) (int n) = Some (Yielded items)"
    and last: "\<And>n. kept (keep c) (take (win c n) (drop n (raw c))) = [] \<Longrightarrow> P n []"
    and page: "\<And>n k got rest. got \<noteq> [] \<Longrightarrow> k = length got \<Longrightarrow> k \<le> win c n \<Longrightarrow> n + k \<le> length (raw c) \<Longrightarrow>
      map pi_item got = kept (keep c) (take (win c n) (drop n (raw c))) \<Longrightarrow> P (n + k) rest \<Longrightarrow> P n (got @ rest)"
  shows "P n items"
  using assms(2)
proof (induction "length (raw c) - n" arbitrary: n items rule: less_induct)
  case less
  obtain p where p: "fetch c (int n) = Yielded p" using answers [OF assms(1)] by blast
  show ?case
  proof (cases "results p = []")
    case True
    then have "items = []" using less(2) p by (subst (asm) walk.simps) simp
    then show ?thesis using last window [OF assms(1) p] True by simp
  next
    case False
    note len = page_length [OF assms(1) p]
    then have less_raw: "length (raw c) - (n + length (results p)) < length (raw c) - n"
      using False by (cases "results p") auto
    obtain rest where rest: "walk (fetch c) (int (n + length (results p))) = Some (Yielded rest)"
      using walk_ends [OF assms(1)] by blast
    then have "items = results p @ rest" using less(2) walk_step [OF assms(1) p False] by simp
    moreover have "n + length (results p) \<le> length (raw c)" using len False by (cases "results p") auto
    ultimately show ?thesis
      using page [OF False refl len(1) _ window [OF assms(1) p] less(1) [OF less_raw rest]] by simp
  qed
qed

lemma walk_sound:
  assumes "ok c" "walk (fetch c) (int n) = Some (Yielded items)"
  shows "set (map pi_item items) \<subseteq> set (kept (keep c) (drop n (raw c)))"
  using assms
proof (induction rule: walk_pages)
  case (page n k got rest)
  have "set (drop (n + k) (raw c)) \<subseteq> set (drop n (raw c))"
    by (metis add.commute drop_drop set_drop_subset)
  then have later: "set (kept (keep c) (drop (n + k) (raw c))) \<subseteq> set (kept (keep c) (drop n (raw c)))"
    by (auto simp: set_kept)
  have "set (map pi_item got) \<subseteq> set (kept (keep c) (drop n (raw c)))"
    unfolding page(5) set_kept using set_take_subset by fastforce
  with later page(6) show ?case by auto
qed simp

text \<open>
  A walk misses nothing when every request that has something left to deliver delivers something: the
  next window starts no later than this one ends.
\<close>

lemma walk_covers:
  assumes "ok c" "walk (fetch c) (int n) = Some (Yielded items)"
    and "\<And>m. kept (keep c) (drop m (raw c)) \<noteq> [] \<Longrightarrow> kept (keep c) (take (win c m) (drop m (raw c))) \<noteq> []"
  shows "set (map pi_item items) = set (kept (keep c) (drop n (raw c)))"
proof (rule equalityI [OF walk_sound [OF assms(1,2)]])
  show "set (kept (keep c) (drop n (raw c))) \<subseteq> set (map pi_item items)"
    using assms(1,2)
  proof (induction rule: walk_pages)
    case (last n)
    then show ?case using assms(3) by force
  next
    case (page n k got rest)
    have "drop n (raw c) = take k (drop n (raw c)) @ drop (n + k) (raw c)"
      by (metis append_take_drop_id drop_drop add.commute)
    moreover have "set (take k (drop n (raw c))) \<subseteq> set (take (win c n) (drop n (raw c)))"
      using page(3) by (metis min.absorb1 set_take_subset take_take)
    then have "set (kept (keep c) (take k (drop n (raw c)))) \<subseteq> set (map pi_item got)"
      unfolding page(5) by (auto simp: set_kept)
    ultimately show ?case using page(6) by (metis (no_types, lifting) Un_mono kept_append map_append set_append)
  qed
qed

text \<open>When every entry can be delivered the walk is the listing, each entry once and in its order.\<close>

lemma walk_exact:
  assumes "ok c" "walk (fetch c) (int n) = Some (Yielded items)"
    and "\<And>x. x \<in> set (raw c) \<Longrightarrow> keep c x \<noteq> None"
  shows "map pi_item items = map (\<lambda>x. the (keep c x)) (drop n (raw c))"
  using assms(1,2)
proof (induction rule: walk_pages)
  case (last n)
  have "\<And>x. x \<in> set (take (win c n) (drop n (raw c))) \<Longrightarrow> keep c x \<noteq> None"
    using assms(3) by (meson in_set_dropD in_set_takeD)
  from kept_all [of "take (win c n) (drop n (raw c))" "keep c", OF this] last
  have "take (win c n) (drop n (raw c)) = []" by simp
  then show ?case using wide [OF assms(1), of n] by simp
next
  case (page n k got rest)
  have all: "\<And>x. x \<in> set (take (win c n) (drop n (raw c))) \<Longrightarrow> keep c x \<noteq> None"
    using assms(3) by (meson in_set_dropD in_set_takeD)
  from page(5) have got: "map pi_item got = map (\<lambda>x. the (keep c x)) (take (win c n) (drop n (raw c)))"
    by (simp only: kept_all [OF all])
  then have "k = length (take (win c n) (drop n (raw c)))" using page(2) by (metis length_map)
  then have "take (win c n) (drop n (raw c)) = take k (drop n (raw c))"
    by (metis take_all_iff linorder_le_cases take_take length_take min.absorb2 min_def order_refl)
  moreover have "drop n (raw c) = take k (drop n (raw c)) @ drop (n + k) (raw c)"
    by (metis append_take_drop_id drop_drop add.commute)
  ultimately show ?case using got page(6) by (metis map_append)
qed

end

section \<open>Page-numbered endpoints\<close>

record 'a paged_listing =
  pl_items :: "'a list"
  pl_first :: int
  pl_want :: int
  pl_stride :: int

definition window_at :: "'a paged_listing \<Rightarrow> int \<Rightarrow> 'a page_results outcome" where
  "window_at c from =
     Yielded (read_window (pl_items c) (pl_first c) \<lparr>op_from = from, op_want = pl_want c, op_stride = pl_stride c\<rparr>)"

lemma kept_Some [simp]: "kept Some xs = xs"
  by (induction xs) simp_all

lemma read_window_page:
  assumes "0 < s"
  shows "read_window xs first \<lparr>op_from = int n, op_want = w, op_stride = s\<rparr> =
    foldl (\<lambda>r x. append_item r (int n) x) empty_page (take (nat (min w (s - int n mod s))) (drop n xs))"
proof -
  have skip: "skip \<lparr>op_from = int n, op_want = w, op_stride = s\<rparr> = int n mod s"
    using assms sdiv_nonneg [of "int n" s] by (simp add: skip_def)
  have "take (nat w) (take (nat (s - int n mod s)) (drop n xs)) = take (nat (min w (s - int n mod s))) (drop n xs)"
    by (simp add: min_def nat_le_eq_zle min.commute)
  then show ?thesis
    using window_items [of "\<lparr>op_from = int n, op_want = w, op_stride = s\<rparr>" xs first] assms
    by (simp add: read_window_def skip)
qed

interpretation paged: listing window_at "\<lambda>c. 0 < pl_want c \<and> 0 < pl_stride c" pl_items "\<lambda>c. Some"
  "\<lambda>c n. nat (min (pl_want c) (pl_stride c - int n mod pl_stride c))"
proof
  fix c :: "'a paged_listing" and n p
  assume ok: "0 < pl_want c \<and> 0 < pl_stride c"
  show "\<exists>p. window_at c (int n) = Yielded p" by (simp add: window_at_def)
  show "0 < nat (min (pl_want c) (pl_stride c - int n mod pl_stride c))"
    using ok pos_mod_bound [of "pl_stride c" "int n"] by simp
  assume "window_at c (int n) = Yielded p"
  with ok have p: "p = foldl (\<lambda>r x. append_item r (int n) x) empty_page
      (take (nat (min (pl_want c) (pl_stride c - int n mod pl_stride c))) (drop n (pl_items c)))"
    by (simp add: window_at_def read_window_page)
  show "map pi_item (results p) = kept Some (take (nat (min (pl_want c) (pl_stride c - int n mod pl_stride c))) (drop n (pl_items c)))"
    unfolding p numbered_page by simp
  show "numbered (int n) (results p) \<and> next_offset p = int n + int (length (results p))" if "results p \<noteq> []"
  proof -
    have "length (results p) = length (take (nat (min (pl_want c) (pl_stride c - int n mod pl_stride c))) (drop n (pl_items c)))"
      unfolding p by (metis length_map numbered_page(1))
    then show ?thesis using that unfolding p numbered_def numbered_page(2,3) by auto
  qed
qed

section \<open>The listings of a booru\<close>

text \<open>
  What the listings of a site rest on: the request an engine makes for offset \<open>n\<close> is answered by the
  next \<open>k\<close> entries of one list that does not change during the walk.
\<close>

record ('i, 'm, 'j) site_listing =
  sl_site :: "('i, 'm) booru_site"
  sl_context :: "'j booru_context"
  sl_page :: nat
  sl_entries :: "json list"
  sl_limit :: "64 word"

definition filters_at :: "64 word \<Rightarrow> int \<Rightarrow> get_filters" where
  "filters_at limit from = \<lparr>gf_from = from, gf_limit = limit, gf_sort = None\<rparr>"

definition serves_listing :: "('i, 'm, 'j) site_listing \<Rightarrow> (get_filters \<Rightarrow> get_request) \<Rightarrow> bool" where
  "serves_listing c request \<longleftrightarrow> 0 < sl_page c \<and>
     (\<forall>n. \<exists>envelope. fetch_json (sl_context c) (request (filters_at (sl_limit c) (int n))) = Yielded envelope \<and>
        be_posts_of (bs_engine (sl_site c)) envelope = Some (take (sl_page c) (drop n (sl_entries c))))"

definition pool_request_of :: "('i, 'm, 'j) site_listing \<Rightarrow> int \<Rightarrow> get_filters \<Rightarrow> get_request" where
  "pool_request_of c i =
     be_pool_items_request (bs_engine (sl_site c)) (site_base_url (sl_site c) (sl_context c)) i"

definition latest_request_of :: "('i, 'm, 'j) site_listing \<Rightarrow> get_filters \<Rightarrow> get_request" where
  "latest_request_of c = be_list_request (bs_engine (sl_site c)) (site_base_url (sl_site c) (sl_context c)) []"

definition servable :: "('i, 'm) booru_site \<Rightarrow> json \<Rightarrow> 'm option" where
  "servable site entry =
     Option.bind (if_object entry) (\<lambda>post. be_post_item (bs_engine site) post (bs_media_referer site))"

lemma zip_step: "zip [n..<Suc (n + length xs)] (x # xs) = (n, x) # zip [Suc n..<Suc (n + length xs)] xs"
  by (simp add: upt_conv_Cons del: upt_Suc)

lemma foldl_pool_step:
  "foldl (pool_step site filters) got entries =
     got\<lparr>results := results got @ map (\<lambda>(i, x). \<lparr>pi_item = x, pi_offset = gf_from filters + int i\<rparr>)
        (zip [length (results got)..<length (results got) + length (kept (servable site) entries)] (kept (servable site) entries))\<rparr>"
proof (induction entries arbitrary: got)
  case (Cons e entries)
  have "pool_step site filters got e =
      (case servable site e of None \<Rightarrow> got
       | Some x \<Rightarrow> got\<lparr>results := results got @ [\<lparr>pi_item = x, pi_offset = gf_from filters + int (length (results got))\<rparr>]\<rparr>)"
    by (simp add: pool_step_def servable_def)
  then show ?case
    by (cases "servable site e") (simp_all add: Cons zip_step del: upt_Suc)
qed simp

lemma pool_page:
  assumes "serves_listing c (pool_request_of c i)" "pool_items (sl_site c) (sl_context c) i (filters_at (sl_limit c) (int n)) = Yielded p"
  shows "map pi_item (results p) = kept (servable (sl_site c)) (take (sl_page c) (drop n (sl_entries c)))"
    "numbered (int n) (results p)" "next_offset p = int n + int (length (results p))"
proof -
  define ys where "ys = kept (servable (sl_site c)) (take (sl_page c) (drop n (sl_entries c)))"
  obtain envelope where "fetch_json (sl_context c) (pool_request_of c i (filters_at (sl_limit c) (int n))) = Yielded envelope"
    "be_posts_of (bs_engine (sl_site c)) envelope = Some (take (sl_page c) (drop n (sl_entries c)))"
    using assms(1) unfolding serves_listing_def by blast
  with assms(2) have r: "results p = map (\<lambda>(i, x). \<lparr>pi_item = x, pi_offset = int n + int i\<rparr>) (zip [0..<length ys] ys)"
    "next_offset p = int n + int (length (results p))"
    by (auto simp: pool_items_def pool_request_of_def foldl_pool_step empty_page_def filters_at_def ys_def)
  show "map pi_item (results p) = kept (servable (sl_site c)) (take (sl_page c) (drop n (sl_entries c)))"
    unfolding r(1) ys_def [symmetric] by (simp add: comp_def split_def)
  show "numbered (int n) (results p)"
    unfolding r(1) numbered_def by (rule nth_equalityI) simp_all
  show "next_offset p = int n + int (length (results p))" by (rule r(2))
qed

interpretation pool: listing "\<lambda>(c, i) n. pool_items (sl_site c) (sl_context c) i (filters_at (sl_limit c) n)"
  "\<lambda>(c, i). serves_listing c (pool_request_of c i)" "\<lambda>(c, i). sl_entries c" "\<lambda>(c, i). servable (sl_site c)" "\<lambda>(c, i) n. sl_page c"
proof (unfold_locales, goal_cases)
  case (1 ci n)
  obtain c i where ci: "ci = (c, i)" by (cases ci)
  with 1 have "serves_listing c (pool_request_of c i)" by simp
  then obtain envelope posts where
    "fetch_json (sl_context c) (pool_request_of c i (filters_at (sl_limit c) (int n))) = Yielded envelope"
    "be_posts_of (bs_engine (sl_site c)) envelope = Some posts"
    unfolding serves_listing_def by blast
  then show ?case by (simp add: ci pool_items_def pool_request_of_def Let_def)
qed (auto simp: pool_page serves_listing_def)

text \<open>The newest posts: entries that are no objects or carry no id are passed over.\<close>

definition listed_getter :: "int \<Rightarrow> ('i, 'm) booru_site \<Rightarrow> json \<Rightarrow> ('i, 'm) container_getter option" where
  "listed_getter wild site entry = map_option (post_getter wild site) (listed_post wild entry)"

lemma kept_listed_getter:
  "kept (listed_getter wild site) entries = map (post_getter wild site) (List.map_filter (listed_post wild) entries)"
  by (induction entries) (simp_all add: listed_getter_def List.map_filter_simps split: option.splits)

lemma latest_page:
  assumes "fetch_json (sl_context c) (latest_request_of c (filters_at (sl_limit c) (int n))) = Yielded envelope"
    "be_posts_of (bs_engine (sl_site c)) envelope = Some entries"
  shows "booru_latest wild (sl_site c) (sl_context c) (filters_at (sl_limit c) (int n)) =
    Yielded (foldl (\<lambda>r x. append_item r (int n) x) empty_page (kept (listed_getter wild (sl_site c)) entries))"
  using assms
  by (simp add: booru_latest_def latest_request_of_def validate_latest_filters_def validate_sort_def filters_at_def
      build_post_page_def foldl_add_post kept_listed_getter)

lemma listing_answer:
  assumes "serves_listing c request"
  obtains envelope where "fetch_json (sl_context c) (request (filters_at (sl_limit c) (int n))) = Yielded envelope"
    "be_posts_of (bs_engine (sl_site c)) envelope = Some (take (sl_page c) (drop n (sl_entries c)))"
  using assms unfolding serves_listing_def by blast

interpretation latest: listing "\<lambda>(c, wild) n. booru_latest wild (sl_site c) (sl_context c) (filters_at (sl_limit c) n)"
  "\<lambda>(c, wild). serves_listing c (latest_request_of c)" "\<lambda>(c, wild). sl_entries c" "\<lambda>(c, wild). listed_getter wild (sl_site c)"
  "\<lambda>(c, wild) n. sl_page c"
proof (unfold_locales, goal_cases)
  case (1 cw n)
  then show ?case by (auto elim!: listing_answer [where n = n] simp: latest_page split: prod.splits)
next
  case (2 cw n p)
  then show ?case
    by (auto elim!: listing_answer [where n = n] simp: latest_page numbered_page split: prod.splits)
next
  case (3 cw n p)
  obtain c wild where cw: "cw = (c, wild)" by (cases cw)
  from 3 have ok: "serves_listing c (latest_request_of c)" by (simp add: cw)
  define xs where "xs = kept (listed_getter wild (sl_site c)) (take (sl_page c) (drop n (sl_entries c)))"
  obtain envelope where "fetch_json (sl_context c) (latest_request_of c (filters_at (sl_limit c) (int n))) = Yielded envelope"
    "be_posts_of (bs_engine (sl_site c)) envelope = Some (take (sl_page c) (drop n (sl_entries c)))"
    by (rule listing_answer [OF ok])
  from latest_page [OF this, of wild] 3(2) have p: "p = foldl (\<lambda>r x. append_item r (int n) x) empty_page xs"
    by (simp add: xs_def cw)
  have "length (results p) = length xs" unfolding p by (metis length_map numbered_page(1))
  with 3(3) show ?case unfolding p numbered_def numbered_page(2,3) by auto
qed (auto simp: serves_listing_def)

section \<open>Properties\<close>

text \<open>C37: Walking a page-numbered endpoint, whatever index its first page has and wherever the walk
  starts: it ends, and gives the items of the listing from there on, each once, in order and numbered
  by its position. Each request reads the page that holds its offset and drops the head, so no page
  size has to divide the offset or the number of items wanted.\<close>
theorem paged_walk_complete:
  assumes "0 < pl_want c" "0 < pl_stride c"
  shows "\<exists>items. walk (window_at c) (int n) = Some (Yielded items) \<and>
    map pi_item items = drop n (pl_items c) \<and>
    map pi_offset items = map int [n..<n + length items]"
proof -
  have ok: "0 < pl_want c \<and> 0 < pl_stride c" using assms by simp
  from paged.walk_ends [OF ok] obtain items where items: "walk (window_at c) (int n) = Some (Yielded items)"
    "numbered (int n) items" by blast
  moreover have "map pi_item items = drop n (pl_items c)"
    using paged.walk_exact [OF ok items(1)] by simp
  moreover have "map pi_offset items = map int [n..<n + length items]"
    using items(2) unfolding numbered_def by (simp only:) (rule nth_equalityI; simp)
  ultimately show ?thesis by blast
qed

theorem paged_walk_complete_witness:
  "\<exists>items. walk (window_at \<lparr>pl_items = [10, 11, 12, 13, 14, 15, 16 :: nat], pl_first = 1, pl_want = 5, pl_stride = 3\<rparr>) 2 =
      Some (Yielded items) \<and> map pi_item items = [12, 13, 14, 15, 16]"
proof -
  define c where "c = \<lparr>pl_items = [10, 11, 12, 13, 14, 15, 16 :: nat], pl_first = 1, pl_want = 5, pl_stride = 3\<rparr>"
  have c: "0 < pl_want c" "0 < pl_stride c" "drop 2 (pl_items c) = [12, 13, 14, 15, 16]" by (simp_all add: c_def)
  obtain items where "walk (window_at c) 2 = Some (Yielded items)" "map pi_item items = drop 2 (pl_items c)"
    using paged_walk_complete [OF c(1,2), of 2] by auto
  then show ?thesis unfolding c_def [symmetric] c(3) by (intro exI conjI)
qed

text \<open>C38: Walking a pool of a booru that answers every request with the next posts of one list: the
  walk ends with consecutively numbered items, all of them servable posts of the pool. When every post
  of the pool is servable it gives each of them once and in order. When some are not it still misses
  none, provided that no request comes back without a servable post while one is left.\<close>
theorem pool_walk_covers:
  assumes "serves_listing c (pool_request_of c i)"
  shows "\<exists>items. walk (\<lambda>n. pool_items (sl_site c) (sl_context c) i (filters_at (sl_limit c) n)) (int n) = Some (Yielded items) \<and>
    map pi_offset items = map (\<lambda>j. int n + int j) [0..<length items] \<and>
    set (map pi_item items) \<subseteq> set (kept (servable (sl_site c)) (drop n (sl_entries c))) \<and>
    ((\<forall>entry \<in> set (sl_entries c). servable (sl_site c) entry \<noteq> None) \<longrightarrow>
       map pi_item items = map (\<lambda>entry. the (servable (sl_site c) entry)) (drop n (sl_entries c))) \<and>
    ((\<forall>m. kept (servable (sl_site c)) (drop m (sl_entries c)) \<noteq> [] \<longrightarrow>
          kept (servable (sl_site c)) (take (sl_page c) (drop m (sl_entries c))) \<noteq> []) \<longrightarrow>
       set (map pi_item items) = set (kept (servable (sl_site c)) (drop n (sl_entries c))))"
proof -
  have ok: "case (c, i) of (c, i) \<Rightarrow> serves_listing c (pool_request_of c i)" using assms by simp
  note walk = pool.walk_ends [OF ok, simplified] pool.walk_sound [OF ok, simplified]
    pool.walk_exact [OF ok, simplified] pool.walk_covers [OF ok, simplified]
  obtain items where items: "walk (\<lambda>n. pool_items (sl_site c) (sl_context c) i (filters_at (sl_limit c) n)) (int n) = Some (Yielded items)"
    "numbered (int n) items" using walk(1) by blast
  show ?thesis
    using items(2) walk(2) [OF items(1)] walk(3) [OF items(1)] walk(4) [OF items(1)]
    by (intro exI [of _ items] conjI impI items(1)) (auto simp: numbered_def)
qed

text \<open>A walk over the newest posts in the same way; what is passed over there are entries without an id.\<close>
theorem latest_walk_covers:
  assumes "serves_listing c (latest_request_of c)" "\<And>entry. entry \<in> set (sl_entries c) \<Longrightarrow> listed_post wild entry \<noteq> None"
  shows "\<exists>items. walk (\<lambda>n. booru_latest wild (sl_site c) (sl_context c) (filters_at (sl_limit c) n)) (int n) = Some (Yielded items) \<and>
    map pi_item items = map (\<lambda>entry. post_getter wild (sl_site c) (the (listed_post wild entry))) (drop n (sl_entries c))"
proof -
  have ok: "case (c, wild) of (c, wild) \<Rightarrow> serves_listing c (latest_request_of c)" using assms(1) by simp
  have all: "listed_getter wild (sl_site c) entry \<noteq> None" if "entry \<in> set (sl_entries c)" for entry
    using assms(2) [OF that] by (simp add: listed_getter_def)
  obtain items where items: "walk (\<lambda>n. booru_latest wild (sl_site c) (sl_context c) (filters_at (sl_limit c) n)) (int n) = Some (Yielded items)"
    using latest.walk_ends [OF ok, simplified] by blast
  have "map pi_item items = map (\<lambda>entry. the (listed_getter wild (sl_site c) entry)) (drop n (sl_entries c))"
    using latest.walk_exact [OF ok, simplified, OF items] all by blast
  also have "\<dots> = map (\<lambda>entry. post_getter wild (sl_site c) (the (listed_post wild entry))) (drop n (sl_entries c))"
    using assms(2) by (auto simp: listed_getter_def option.map_sel dest: in_set_dropD)
  finally show ?thesis using items by blast
qed

section \<open>Pools with banned posts\<close>

text \<open>A site that answers a request for offset \<open>n\<close> with the next two posts of a list; a banned post is an empty object.\<close>

definition pool_site :: "(unit, json_object) booru_site" where
  "pool_site =
     \<lparr>bs_identifier = ''b'', bs_name = ''b'', bs_primary_language = ''en'', bs_domains = [''b.test''],
      bs_api_hosts = [''https://b.test''], bs_media_referer = None,
      bs_engine =
        \<lparr>be_api_headers = [], be_supports_pools = True,
         be_search_support = \<lparr>supported_filters = [], supported_sort_keys = [], search_flags = default_flags, suggestion_kinds = []\<rparr>,
         be_list_request = (\<lambda>base tags filters. blank_request), be_posts_of = if_array,
         be_container_request = (\<lambda>base i. blank_request), be_single_post = if_object,
         be_post_info = (\<lambda>post referer. ()), be_post_item = (\<lambda>post referer. if post = [] then None else Some post),
         be_suggest_request = (\<lambda>base part kind. blank_request), be_parse_suggestions = (\<lambda>json. []),
         be_post_id_from_url = (\<lambda>url. None), be_pool_id_from_url = (\<lambda>url. None),
         be_pool_request = (\<lambda>base i. blank_request), be_pool_info = (\<lambda>pool. ()),
         be_pool_items_request = (\<lambda>base i filters. blank_request\<lparr>gr_url := replicate (nat (gf_from filters)) (CHR ''/'')\<rparr>)\<rparr>,
      bs_compatibilities = default_flags, bs_auth = None\<rparr>"

definition pool_of :: "json list \<Rightarrow> (unit, json_object, unit) site_listing" where
  "pool_of posts =
     \<lparr>sl_site = pool_site,
      sl_context =
        \<lparr>bx_config = blank_config, bx_snapshot = None,
         bx_transport = (\<lambda>r jar. case r of
           GetReq g \<Rightarrow> Inr \<lparr>rd_status_code = 200, rd_body = gr_url g, rd_headers = [], rd_effective_url = None\<rparr>
         | _ \<Rightarrow> Inl (make_response_error NetworkError [] None [])),
         bx_parse = (\<lambda>body. Inr (JArray (take 2 (drop (length body) posts))))\<rparr>,
      sl_page = 2, sl_entries = posts, sl_limit = 2\<rparr>"

lemma pool_of_answers: "serves_listing (pool_of posts) (pool_request_of (pool_of posts) i)"
  by (simp add: serves_listing_def pool_of_def pool_site_def pool_request_of_def filters_at_def fetch_json_def request_json_def fetch_ok_def
      perform_def configured_request_def apply_config_to_def add_all_def blank_config_def blank_request_def is_success_status_def)

definition post :: "64 word \<Rightarrow> json" where
  "post i = JObject [(''id'', JInt i)]"

lemma pool_servable: "servable (sl_site (pool_of posts)) (post i) = Some [(''id'', JInt i)]"
    "servable (sl_site (pool_of posts)) (JObject []) = None"
  by (simp_all add: servable_def pool_of_def pool_site_def post_def)

theorem pool_walk_covers_witness:
  "\<exists>items. walk (\<lambda>n. pool_items pool_site (sl_context (pool_of [post 1, post 2, post 3])) 7 (filters_at 2 n)) 0 = Some (Yielded items) \<and>
    map pi_item items = [[(''id'', JInt 1)], [(''id'', JInt 2)], [(''id'', JInt 3)]]"
proof -
  define c where "c = pool_of [post 1, post 2, post 3]"
  have c: "sl_entries c = [post 1, post 2, post 3]" "sl_limit c = 2" "sl_site c = pool_site"
    by (simp_all add: c_def pool_of_def)
  have "servable (sl_site c) (post i) = Some [(''id'', JInt i)]" for i
    unfolding c_def by (rule pool_servable)
  then show ?thesis
    using pool_walk_covers [of c 7 0] pool_of_answers [of "[post 1, post 2, post 3]" 7] unfolding c_def [symmetric] c by auto
qed

lemma pool_of_fields: "sl_entries (pool_of posts) = posts" "sl_limit (pool_of posts) = 2" "sl_site (pool_of posts) = pool_site"
    "sl_page (pool_of posts) = 2"
  by (simp_all add: pool_of_def)

lemma pool_of_page:
  "\<exists>p. pool_items pool_site (sl_context (pool_of posts)) 7 (filters_at 2 (int n)) = Yielded p \<and>
     map pi_item (results p) = kept (servable pool_site) (take 2 (drop n posts)) \<and>
     next_offset p = int n + int (length (results p))"
proof -
  have ok: "case (pool_of posts, 7) of (c, i) \<Rightarrow> serves_listing c (pool_request_of c i)" by (simp add: pool_of_answers)
  from pool.answers [OF ok, of n] obtain p where p: "pool_items pool_site (sl_context (pool_of posts)) 7 (filters_at 2 (int n)) = Yielded p"
    by (auto simp: pool_of_fields)
  then show ?thesis using pool_page [OF pool_of_answers, of posts 7 n p] by (simp add: pool_of_fields)
qed

definition walks_to :: "json list \<Rightarrow> nat \<Rightarrow> json_object list \<Rightarrow> bool" where
  "walks_to posts n xs \<longleftrightarrow> (\<exists>items.
     walk (\<lambda>n. pool_items pool_site (sl_context (pool_of posts)) 7 (filters_at 2 n)) (int n) = Some (Yielded items) \<and>
     map pi_item items = xs)"

lemma walks_to_step:
  assumes "walks_to posts m xs" "kept (servable pool_site) (take 2 (drop n posts)) = ys" "ys \<noteq> []" "m = n + length ys"
  shows "walks_to posts n (ys @ xs)"
proof -
  obtain p where p: "pool_items pool_site (sl_context (pool_of posts)) 7 (filters_at 2 (int n)) = Yielded p"
    "map pi_item (results p) = ys" "next_offset p = int n + int (length (results p))"
    using pool_of_page [of posts n] assms(2) by blast
  have "length (results p) = length ys" using p(2) by (metis length_map)
  then show ?thesis using p assms(1,3,4) unfolding walks_to_def by (subst walk.simps) auto
qed

lemma walks_to_stop:
  "kept (servable pool_site) (take 2 (drop n posts)) = [] \<Longrightarrow> walks_to posts n []"
  using pool_of_page [of posts n] unfolding walks_to_def by (subst walk.simps) auto

text \<open>
  The offsets count the servable posts while the source counts all of them. So behind a banned post the
  next request starts too early: the post after it is delivered a second time, under another offset,
  and two banned posts that fill a page end the walk although a servable post follows.
\<close>
theorem banned_posts_repeat_and_hide:
  "walks_to [post 1, JObject [], post 2] 0 [[(''id'', JInt 1)], [(''id'', JInt 2)], [(''id'', JInt 2)]]"
  "walks_to [post 1, JObject [], JObject [], post 2] 0 [[(''id'', JInt 1)]]"
proof -
  note serv = pool_servable [unfolded pool_of_fields]
  let ?a = "[post 1, JObject [], post 2]" and ?b = "[post 1, JObject [], JObject [], post 2]"
  have "walks_to ?a 3 []" by (rule walks_to_stop) simp
  then have "walks_to ?a 2 ([[(''id'', JInt 2)]] @ [])" by (rule walks_to_step) (simp_all add: serv)
  then have "walks_to ?a 1 ([[(''id'', JInt 2)]] @ [[(''id'', JInt 2)]] @ [])" by (rule walks_to_step) (simp_all add: serv)
  then have "walks_to ?a 0 ([[(''id'', JInt 1)]] @ [[(''id'', JInt 2)]] @ [[(''id'', JInt 2)]] @ [])"
    by (rule walks_to_step) (simp_all add: serv)
  then show "walks_to ?a 0 [[(''id'', JInt 1)], [(''id'', JInt 2)], [(''id'', JInt 2)]]" by simp
  have "walks_to ?b 1 []" by (rule walks_to_stop) (simp add: serv numeral_2_eq_2)
  then have "walks_to ?b 0 ([[(''id'', JInt 1)]] @ [])" by (rule walks_to_step) (simp_all add: serv)
  then show "walks_to ?b 0 [[(''id'', JInt 1)]]" by simp
qed

end
