(* ===== verification/Context_Services.thy ===== *)
theory Context_Services
  imports Catalog Session
begin

text \<open>
  The services a context hands to getters (\<open>RequestorContext\<close> in \<open>include/aniparse/ClientContext.hpp\<close> and
  \<open>src/ClientContext.cpp\<close>): compiled sets of selectors and patterns out of the shared bundle, and log
  messages that carry the parser they come from. A set type is a key; \<open>T::create\<close> is what the makers
  give for it.
\<close>

section \<open>Compiled sets\<close>

record ('k, 't) makers =
  mk_selectors :: "'k \<Rightarrow> selector_source \<Rightarrow> 't"
  mk_patterns :: "'k \<Rightarrow> regex_source \<Rightarrow> 't"
  mk_resource :: "'k \<Rightarrow> 't"

definition context_resource :: "'k \<Rightarrow> 't \<Rightarrow> ('k, 't) services \<Rightarrow> 't \<times> ('k, 't) services" where
  "context_resource key built sv =
     (let (t, cache) = cache_get key built (the (sv_resources sv)) in (t, sv\<lparr>sv_resources := Some cache\<rparr>))"

definition context_selector_source :: "('k, 't) services \<Rightarrow> selector_source" where
  "context_selector_source sv =
     (case sv_selectors sv of Some h \<Rightarrow> holder_get h | None \<Rightarrow> empty_selector_source)"

definition context_pattern_source :: "('k, 't) services \<Rightarrow> regex_source" where
  "context_pattern_source sv =
     (case sv_patterns sv of Some h \<Rightarrow> holder_get h | None \<Rightarrow> empty_regex_source)"

definition context_selectors ::
  "('k, 't) makers \<Rightarrow> 'k \<Rightarrow> 'j parser_config \<Rightarrow> ('k, 't) services \<Rightarrow> 't \<times> ('k, 't) services" where
  "context_selectors mk key config sv =
     (case sv_selectors sv of
        Some h \<Rightarrow> (let (t, h') = selector_set_for (mk_selectors mk) (pc_parser_id config) key h
                  in (t, sv\<lparr>sv_selectors := Some h'\<rparr>))
      | None \<Rightarrow> context_resource key (mk_selectors mk key (context_selector_source sv)) sv)"

definition context_patterns_for ::
  "('k, 't) makers \<Rightarrow> 'k \<Rightarrow> bytes \<Rightarrow> ('k, 't) services \<Rightarrow> 't \<times> ('k, 't) services" where
  "context_patterns_for mk key owner sv =
     (case sv_patterns sv of
        Some h \<Rightarrow> (let (t, h') = set_for regex_has_scope regex_scoped_to (mk_patterns mk) owner key h
                  in (t, sv\<lparr>sv_patterns := Some h'\<rparr>))
      | None \<Rightarrow> context_resource key (mk_patterns mk key (context_pattern_source sv)) sv)"

definition context_patterns ::
  "('k, 't) makers \<Rightarrow> 'k \<Rightarrow> 'j parser_config \<Rightarrow> ('k, 't) services \<Rightarrow> 't \<times> ('k, 't) services" where
  "context_patterns mk key config sv = context_patterns_for mk key (pc_parser_id config) sv"

section \<open>Log messages\<close>

datatype log_level = LogDebug | LogInfo | LogWarning | LogError | LogFatal

record log_entry =
  le_level :: log_level
  le_message :: bytes
  le_parser_id :: bytes

text \<open>What a logger has been given; a context without a logger drops its messages.\<close>

definition log_to :: "log_level \<Rightarrow> bytes \<Rightarrow> 'j parser_config \<Rightarrow> log_entry list option \<Rightarrow> log_entry list option" where
  "log_to level message config logger =
     map_option (\<lambda>entries. entries @ [\<lparr>le_level = level, le_message = message, le_parser_id = pc_parser_id config\<rparr>]) logger"

definition context_info :: "bytes \<Rightarrow> 'j parser_config \<Rightarrow> log_entry list option \<Rightarrow> log_entry list option" where
  "context_info = log_to LogInfo"

definition context_debug :: "bytes \<Rightarrow> 'j parser_config \<Rightarrow> log_entry list option \<Rightarrow> log_entry list option" where
  "context_debug = log_to LogDebug"

definition context_warning :: "bytes \<Rightarrow> 'j parser_config \<Rightarrow> log_entry list option \<Rightarrow> log_entry list option" where
  "context_warning = log_to LogWarning"

definition context_log_error :: "bytes \<Rightarrow> 'j parser_config \<Rightarrow> log_entry list option \<Rightarrow> log_entry list option" where
  "context_log_error = log_to LogError"

definition context_fatal :: "bytes \<Rightarrow> 'j parser_config \<Rightarrow> log_entry list option \<Rightarrow> log_entry list option" where
  "context_fatal = log_to LogFatal"

section \<open>Bundles in use\<close>

text \<open>
  Every set type is compiled from selectors, from patterns or from nothing (a resource a getter builds
  for itself); contexts of all parsers share the bundle, and catalogs are applied in between.
\<close>

datatype set_kind = SelectorSet | PatternSet | OwnSet

inductive in_use :: "('k, 't) makers \<Rightarrow> ('k \<Rightarrow> set_kind) \<Rightarrow> ('k, 't) services \<Rightarrow> bool" for mk kind where
  use_new: "in_use mk kind
    \<lparr>sv_mirrors = ms, sv_selectors = map_option (new_holder empty_selector_source) sel,
     sv_patterns = map_option (new_holder empty_regex_source) pat, sv_resources = Some []\<rparr>"
| use_swap: "in_use mk kind sv \<Longrightarrow> in_use mk kind (swap_parser_services ms sels pats sv)"
| use_selectors: "in_use mk kind sv \<Longrightarrow> kind k = SelectorSet \<Longrightarrow>
    in_use mk kind (snd (context_selectors mk k (config :: jar_ref parser_config) sv))"
| use_patterns: "in_use mk kind sv \<Longrightarrow> kind k = PatternSet \<Longrightarrow>
    in_use mk kind (snd (context_patterns_for mk k owner sv))"
| use_resource: "in_use mk kind sv \<Longrightarrow> kind k = OwnSet \<Longrightarrow>
    in_use mk kind (snd (context_resource k (mk_resource mk k) sv))"

text \<open>What the shared cache holds for a type: the built-in set.\<close>

definition built_in :: "('k, 't) makers \<Rightarrow> ('k \<Rightarrow> set_kind) \<Rightarrow> 'k \<Rightarrow> 't" where
  "built_in mk kind k =
     (case kind k of
        SelectorSet \<Rightarrow> mk_selectors mk k empty_selector_source
      | PatternSet \<Rightarrow> mk_patterns mk k empty_regex_source
      | OwnSet \<Rightarrow> mk_resource mk k)"

definition bundle_ok :: "('k, 't) makers \<Rightarrow> ('k \<Rightarrow> set_kind) \<Rightarrow> ('k, 't) services \<Rightarrow> bool" where
  "bundle_ok mk kind sv \<longleftrightarrow>
     (\<forall>h. sv_selectors sv = Some h \<longrightarrow> sel.fresh (mk_selectors mk) h) \<and>
     (\<forall>h. sv_patterns sv = Some h \<longrightarrow> rx.fresh (mk_patterns mk) h) \<and>
     (\<exists>cache. sv_resources sv = Some cache \<and> (\<forall>k t. lookup cache k = Some t \<longrightarrow> t = built_in mk kind k))"

lemma cache_get_built:
  assumes "\<forall>k t. lookup cache k = Some t \<longrightarrow> t = f k"
  shows "fst (cache_get key (f key) cache) = f key" "\<forall>k t. lookup (snd (cache_get key (f key) cache)) k = Some t \<longrightarrow> t = f k"
  using assms by (auto simp: cache_get_def Let_def split: option.splits if_splits)

lemma context_resource_ok:
  assumes "bundle_ok mk kind sv" "built = built_in mk kind k"
  shows "fst (context_resource k built sv) = built \<and> bundle_ok mk kind (snd (context_resource k built sv))"
proof -
  obtain cache where cache: "sv_resources sv = Some cache" "\<forall>k t. lookup cache k = Some t \<longrightarrow> t = built_in mk kind k"
    using assms(1) by (auto simp: bundle_ok_def)
  then show ?thesis
    using assms cache_get_built [OF cache(2), of k] by (simp add: context_resource_def bundle_ok_def split_def Let_def)
qed

lemma context_selectors_ok:
  assumes "bundle_ok mk kind sv" "kind k = SelectorSet"
  shows "fst (context_selectors mk k config sv) =
      mk_selectors mk k (sel.owner_view (context_selector_source sv) (pc_parser_id config)) \<and>
    bundle_ok mk kind (snd (context_selectors mk k config sv))"
proof (cases "sv_selectors sv")
  case None
  have "sel.owner_view empty_selector_source owner = empty_selector_source" for owner
    by (simp add: sel.owner_view_def needs_view_def sel.empty_scope)
  then show ?thesis
    using None context_resource_ok [OF assms(1), of _ k] assms(2)
    by (simp add: context_selectors_def context_selector_source_def built_in_def)
next
  case (Some h)
  then have "sel.fresh (mk_selectors mk) h" using assms(1) by (simp add: bundle_ok_def)
  from sel.set_for_fresh [OF this, of "pc_parser_id config" k] show ?thesis
    using Some assms(1)
    by (simp add: context_selectors_def context_selector_source_def selector_set_for_def holder_get_def bundle_ok_def split_def Let_def)
qed

lemma context_patterns_ok:
  assumes "bundle_ok mk kind sv" "kind k = PatternSet"
  shows "fst (context_patterns_for mk k owner sv) = mk_patterns mk k (rx.owner_view (context_pattern_source sv) owner) \<and>
    bundle_ok mk kind (snd (context_patterns_for mk k owner sv))"
proof (cases "sv_patterns sv")
  case None
  have "rx.owner_view empty_regex_source owner = empty_regex_source"
    by (simp add: rx.owner_view_def needs_view_def rx.empty_scope)
  then show ?thesis
    using None context_resource_ok [OF assms(1), of _ k] assms(2)
    by (simp add: context_patterns_for_def context_pattern_source_def built_in_def)
next
  case (Some h)
  then have "rx.fresh (mk_patterns mk) h" using assms(1) by (simp add: bundle_ok_def)
  from rx.set_for_fresh [OF this, of owner k] show ?thesis
    using Some assms(1)
    by (simp add: context_patterns_for_def context_pattern_source_def holder_get_def bundle_ok_def split_def Let_def)
qed

lemma in_use_ok: "in_use mk kind sv \<Longrightarrow> bundle_ok mk kind sv"
proof (induction rule: in_use.induct)
  case (use_new ms sel pat)
  show ?case
    by (auto simp: bundle_ok_def new_holder_def intro!: sel.fresh_clear rx.fresh_clear)
next
  case (use_swap sv ms sels pats)
  then show ?case
    by (auto simp: bundle_ok_def swap_parser_services_def selector_holder_set_def holder_set_def holder_clear_def
        holder_store_def cache_clear_def intro!: sel.fresh_clear rx.fresh_clear)
next
  case (use_resource sv k)
  then show ?case using context_resource_ok [of mk kind sv "mk_resource mk k" k] by (simp add: built_in_def)
qed (simp_all add: context_selectors_ok context_patterns_ok)

section \<open>Properties\<close>


definition sample_makers :: "(nat, regex_source option) makers" where
  "sample_makers = \<lparr>mk_selectors = (\<lambda>k s. None), mk_patterns = (\<lambda>k s. Some s), mk_resource = (\<lambda>k. None)\<rparr>"


end
