(* ===== verification/Media_Model.thy ===== *)
theory Media_Model
  imports Headers Html_Text Model_Values Parser_Store
begin

text \<open>
  The data model of \<open>include/aniparse/types/Model.hpp\<close>, \<open>types/Video.hpp\<close>, \<open>manga/MangaModel.hpp\<close>,
  \<open>anime/AnimeModel.hpp\<close> and \<open>images/ImageModel.hpp\<close>: the values getters fill and consumers render. A field
  an aggregate gives an initial value has it in the \<open>blank\<close> value of its record. \<open>'r\<close> is the resource
  adapter an image or a source may carry; a moment is its tick count and a duration its number of units.
\<close>

section \<open>Shared pieces\<close>

record image_resolution =
  ir_width :: int
  ir_height :: int

record 'r image =
  im_id :: int
  im_url :: bytes
  im_size :: "image_resolution option"
  im_headers :: headers
  im_adapter :: "'r option"

definition blank_image :: "'r image" where
  "blank_image = \<lparr>im_id = 0, im_url = [], im_size = None, im_headers = [], im_adapter = None\<rparr>"

record model_tag =
  tg_id :: int
  tg_name :: bytes
  tg_axis :: bytes
  tg_ref :: bytes

record related_user =
  ru_name :: bytes
  ru_ref :: bytes

definition blank_user :: related_user where
  "blank_user = \<lparr>ru_name = [], ru_ref = []\<rparr>"

record model_series =
  sr_name :: bytes
  sr_ref :: bytes

datatype catalogue_kind = AnimeCatalogue | MangaCatalogue

record external_id =
  xi_ns :: bytes
  xi_kind :: catalogue_kind
  xi_id :: bytes

record 'r related_work =
  rw_kind :: catalogue_kind
  rw_relation :: bytes
  rw_title :: bytes
  rw_previews :: "'r image list"
  rw_external_ids :: "external_id list"
  rw_handle :: "serialized_getter_data option"

datatype date_precision = DayKnown | MonthKnown | QuarterKnown | YearKnown

record model_date =
  md_time :: int
  md_precision :: date_precision

record aired_status =
  st_name :: bytes
  st_time :: "model_date option"

definition blank_status :: aired_status where
  "blank_status = \<lparr>st_name = [], st_time = None\<rparr>"

definition status_to_enum :: "aired_status \<Rightarrow> aired_status_enum" where
  "status_to_enum st = aired_status_to_enum (st_name st)"

record user_list =
  ul_name :: bytes

definition list_to_enum :: "user_list \<Rightarrow> user_list_enum" where
  "list_to_enum ul = user_list_to_enum (ul_name ul)"

record audience_list_count =
  al_name :: bytes
  al_users_count :: "int option"

datatype release_cadence = EveryDays | EveryWeeks | EveryMonths

record recurring_release =
  rr_interval :: "32 word"
  rr_unit :: release_cadence
  rr_weekday :: "nat option"
  rr_time_of_day :: "int option"

definition blank_recurring :: recurring_release where
  "blank_recurring = \<lparr>rr_interval = 1, rr_unit = EveryWeeks, rr_weekday = None, rr_time_of_day = None\<rparr>"

record view_stats =
  vs_views :: int

datatype comment =
  Comment (cm_author: related_user) (cm_text: attributed) (cm_time: "model_date option")
    (cm_score: "int option") (cm_replies: "comment list") (cm_ref: bytes)

section \<open>Metadata of every medium\<close>

record 'r media_info =
  me_external_ids :: "external_id list"
  me_title :: bytes
  me_original_title :: "bytes option"
  me_description :: attributed
  me_update_time :: "model_date option"
  me_release_time :: "model_date option"
  me_status :: aired_status
  me_revision :: bytes
  me_series :: "model_series list"
  me_uploader :: "related_user option"
  me_previews :: "'r image list"
  me_tags :: "model_tag list"
  me_rating :: "rating option"
  me_views :: "view_stats option"
  me_audience_lists :: "audience_list_count list"
  me_release_schedule :: "recurring_release option"
  me_age_restriction :: int
  me_is_hentai :: bool

definition blank_media :: "'r media_info" where
  "blank_media =
     \<lparr>me_external_ids = [], me_title = [], me_original_title = None, me_description = \<lparr>at_text = [], at_runs = []\<rparr>,
      me_update_time = None, me_release_time = None, me_status = blank_status, me_revision = [], me_series = [],
      me_uploader = None, me_previews = [], me_tags = [], me_rating = None, me_views = None, me_audience_lists = [],
      me_release_schedule = None, me_age_restriction = 0, me_is_hentai = False\<rparr>"

section \<open>Manga\<close>

definition invalid_manga_id :: int where
  "invalid_manga_id = 0"

record upcoming_chapter =
  uc_number :: bytes
  uc_name :: bytes
  uc_release_time :: "model_date option"

record 'r manga_info =
  mf_id :: int
  mf_common :: "'r media_info"
  mf_author :: related_user
  mf_artist :: related_user
  mf_user_lists :: "user_list option"
  mf_total_chapters :: "int option"
  mf_total_pages :: "int option"
  mf_next_chapter :: "upcoming_chapter option"

definition blank_manga :: "'r manga_info" where
  "blank_manga =
     \<lparr>mf_id = invalid_manga_id, mf_common = blank_media, mf_author = blank_user, mf_artist = blank_user,
      mf_user_lists = None, mf_total_chapters = None, mf_total_pages = None, mf_next_chapter = None\<rparr>"

record manga_translation =
  mt_id :: int
  mt_language :: bytes
  mt_translator :: related_user

record chapter_ref =
  cr_volume :: int
  cr_chapter :: int
  cr_id :: bytes

record 'r chapter_info =
  ci_volume :: int
  ci_chapter :: int
  ci_number :: bytes
  ci_id :: bytes
  ci_name :: bytes
  ci_description :: bytes
  ci_previews :: "'r image list"
  ci_update_time :: "model_date option"
  ci_release_time :: "model_date option"

definition blank_chapter :: "'r chapter_info" where
  "blank_chapter =
     \<lparr>ci_volume = 0, ci_chapter = 0, ci_number = [], ci_id = [], ci_name = [], ci_description = [], ci_previews = [],
      ci_update_time = None, ci_release_time = None\<rparr>"

definition ref_of_chapter :: "'r chapter_info \<Rightarrow> chapter_ref" where
  "ref_of_chapter c = \<lparr>cr_volume = ci_volume c, cr_chapter = ci_chapter c, cr_id = ci_id c\<rparr>"

record 'r manga_page =
  mp_image :: "'r image"

section \<open>Anime\<close>

datatype translation_type = Voiceover | Subtitles

record video_stream =
  vt_url :: bytes
  vt_quality :: int
  vt_bitrate :: "int option"
  vt_is_hls :: bool

datatype anime_season = UnknownSeason | Spring | Summer | Fall | Winter

record upcoming_episode =
  ue_number :: bytes
  ue_name :: bytes
  ue_release_time :: "model_date option"

record 'r anime_info =
  an_id :: int
  an_common :: "'r media_info"
  an_screenshots :: "'r image list"
  an_season :: "anime_season option"
  an_year :: int
  an_released_episodes :: "int option"
  an_total_episodes :: "int option"
  an_next_episode :: "upcoming_episode option"
  an_episode_duration :: "int option"

record anime_track =
  tk_id :: int
  tk_team :: related_user
  tk_type :: translation_type
  tk_player :: bytes
  tk_episode_count :: "int option"

record episode_ref =
  er_episode :: int
  er_id :: bytes

record 'r episode_info =
  ep_episode :: int
  ep_number :: bytes
  ep_id :: bytes
  ep_name :: bytes
  ep_description :: bytes
  ep_previews :: "'r image list"
  ep_update_time :: "model_date option"
  ep_release_time :: "model_date option"

definition ref_of_episode :: "'r episode_info \<Rightarrow> episode_ref" where
  "ref_of_episode e = \<lparr>er_episode = ep_episode e, er_id = ep_id e\<rparr>"

record 'r video_source =
  vo_player :: bytes
  vo_translation_type :: translation_type
  vo_team :: related_user
  vo_track :: "int option"
  vo_stream_url :: bytes
  vo_streams :: "video_stream list"
  vo_headers :: headers
  vo_adapter :: "'r option"
  vo_poster :: "'r image option"

section \<open>Containers of images\<close>

datatype image_item_kind = StillImage | AnimatedImage | VideoClip

record 'r image_item =
  ii_image :: "'r image"
  ii_kind :: image_item_kind
  ii_duration :: "int option"
  ii_poster :: "'r image option"

record 'r image_container =
  ic_id :: int
  ic_common :: "'r media_info"
  ic_total_items :: "int option"

text \<open>
  A reference is what a listing of chapters or episodes hands back: numbers and the opaque id, nothing
  else, so two entries with the same reference differ in what is shown only.
\<close>

lemma chapter_refs:
  "ref_of_chapter a = ref_of_chapter b \<longleftrightarrow> ci_volume a = ci_volume b \<and> ci_chapter a = ci_chapter b \<and> ci_id a = ci_id b"
  by (simp add: ref_of_chapter_def)

lemma blank_status_other: "status_to_enum blank_status = OtherStatus"
  by (simp add: status_to_enum_def blank_status_def aired_status_to_enum_def)

end
