(* ===== verification/Example_Manga.thy ===== *)
theory Example_Manga
  imports Media_Model Listing_Walk Context_Services Getter_Defaults
begin

text \<open>
  \<open>examples/example_manga_parser.cpp\<close>: a manga parser written against the library's interfaces and a
  program that registers it, opens a session and reads its listing. It joins the parser store, sessions,
  search queries, paging and logging. The URL parser, the clock, the place of the logging call and the
  logger's file name are parameters.
\<close>

section \<open>The getter of a manga\<close>

record example_getter =
  eg_private_url :: bytes

definition example_getter_default :: example_getter where
  "example_getter_default = \<lparr>eg_private_url = ''https://example.com''\<rparr>"

definition example_getter_flags :: "flag_error + strong_bitset" where
  "example_getter_flags = (case flag supports_commenting of Inl e \<Rightarrow> Inl e | Inr f \<Rightarrow> join_flags f [supports_voting])"

definition example_preview_info :: "example_getter \<Rightarrow> 'r manga_info option" where
  "example_preview_info g =
     Some (blank_manga\<lparr>mf_common := blank_media\<lparr>me_title := ''Test'',
       me_description := \<lparr>at_text = ''Some description'', at_runs = []\<rparr>,
       me_status := blank_status\<lparr>st_name := ''released''\<rparr>\<rparr>\<rparr>)"

definition example_info :: "example_getter \<Rightarrow> 'r manga_info outcome" where
  "example_info g =
     Yielded (blank_manga\<lparr>mf_common := blank_media\<lparr>me_title := ''Test'',
       me_description := \<lparr>at_text = ''Some description'', at_runs = []\<rparr>,
       me_status := blank_status\<lparr>st_name := ''released''\<rparr>\<rparr>\<rparr>)"

definition example_canonical_url :: "example_getter \<Rightarrow> bytes" where
  "example_canonical_url g = eg_private_url g"

definition example_translation_info :: "example_getter \<Rightarrow> get_filters \<Rightarrow> manga_translation page_results outcome" where
  "example_translation_info g filters =
     (if gf_limit filters = 0 then Yielded empty_page
      else Yielded (empty_page\<lparr>total_count := 10,
        results := [\<lparr>pi_item = \<lparr>mt_id = 0, mt_language = ''ru-ru'', mt_translator = blank_user\<lparr>ru_name := ''Ru translator''\<rparr>\<rparr>,
          pi_offset = 0\<rparr>]\<rparr>))"

definition example_chapters_info ::
  "example_getter \<Rightarrow> get_filters \<Rightarrow> int option \<Rightarrow> 'r chapter_info page_results outcome" where
  "example_chapters_info g filters translation =
     (if gf_limit filters = 0 then Yielded empty_page
      else Yielded (empty_page\<lparr>total_count := 1,
        results := [\<lparr>pi_item = blank_chapter\<lparr>ci_volume := 0, ci_chapter := 0, ci_name := ''Chapter 1''\<rparr>, pi_offset = 0\<rparr>]\<rparr>))"

definition example_related :: "example_getter \<Rightarrow> get_filters \<Rightarrow> 'r related_work page_results outcome" where
  "example_related g filters = fail_with NotImplemented ''Parser doesn't support related''"

definition example_chapter_pages ::
  "example_getter \<Rightarrow> chapter_ref \<Rightarrow> get_filters \<Rightarrow> int option \<Rightarrow> 'r manga_page page_results outcome" where
  "example_chapter_pages g chapter filters translation =
     (if gf_limit filters = 0 then Yielded empty_page
      else Yielded (empty_page\<lparr>total_count := 2,
        results :=
          [\<lparr>pi_item = \<lparr>mp_image = blank_image\<lparr>im_id := 0, im_url := ''https://example.com/image1''\<rparr>\<rparr>, pi_offset = 0\<rparr>,
           \<lparr>pi_item = \<lparr>mp_image = blank_image\<lparr>im_id := 1, im_url := ''https://example.com/image2''\<rparr>\<rparr>, pi_offset = 1\<rparr>]\<rparr>))"

definition example_serialize :: "example_getter \<Rightarrow> serialized_getter_data outcome" where
  "example_serialize g = Yielded \<lparr>sg_url = eg_private_url g, sg_params = []\<rparr>"

section \<open>The root getter\<close>

definition example_search_support :: "search_compatibilities outcome" where
  "example_search_support = Yielded default_search_support"

definition example_latest_sorts :: supported_sorts where
  "example_latest_sorts =
     foldl (\<lambda>sorts (key, d). om_emplace key d sorts) []
       [(''title'', \<lparr>sd_ascending = True, sd_descending = True\<rparr>),
        (''popularity'', \<lparr>sd_ascending = True, sd_descending = True\<rparr>),
        (''rel_time'', \<lparr>sd_ascending = True, sd_descending = True\<rparr>),
        (''downloads'', \<lparr>sd_ascending = False, sd_descending = True\<rparr>),
        (''views'', \<lparr>sd_ascending = False, sd_descending = True\<rparr>)]"

definition example_search :: "search_request \<Rightarrow> get_filters \<Rightarrow> example_getter page_results outcome" where
  "example_search asked filters =
     bind_outcome example_search_support (\<lambda>support.
       let errors = validate_query support asked filters
       in if errors \<noteq> [] then fail_with InvalidArguments (describe_search_query_errors errors)
          else fail_with NotImplemented ''The parser cannot search'')"

definition latest_message :: "get_filters \<Rightarrow> bytes" where
  "latest_message filters =
     ''latest() called, from '' @ int_to_dec (gf_from filters) @ '', limit '' @ int_to_dec (uint (gf_limit filters))"

definition example_latest ::
  "'j parser_config \<Rightarrow> get_filters \<Rightarrow> log_entry list option \<Rightarrow> example_getter page_results outcome \<times> log_entry list option" where
  "example_latest config filters logger =
     (let logger' = context_info (latest_message filters) config logger
      in (if gf_limit filters = 0 then Yielded empty_page
          else Yielded (empty_page\<lparr>total_count := 2,
            results := [\<lparr>pi_item = example_getter_default, pi_offset = 0\<rparr>]\<rparr>), logger'))"

definition example_parse_url :: "parsed_url \<Rightarrow> example_getter outcome" where
  "example_parse_url url = fail_with NotImplemented ''The parser cannot parse URLs''"

definition example_from_serialized :: "serialized_getter_data \<Rightarrow> example_getter outcome" where
  "example_from_serialized saved =
     (if sg_url saved = [] then fail_with NotImplemented ''Invalid serialized url''
      else Yielded \<lparr>eg_private_url = sg_url saved\<rparr>)"

section \<open>The parser\<close>

record parser_info =
  pn_name :: bytes
  pn_primary_language :: bytes

definition example_parser_info :: parser_info where
  "example_parser_info = \<lparr>pn_name = ''Example'', pn_primary_language = ''ru-ru''\<rparr>"

definition example_identifier :: bytes where
  "example_identifier = ''Example''"

definition example_suggest_getter :: "parsed_url \<Rightarrow> getter_type" where
  "example_suggest_getter url = Manga"

definition example_parser_flags :: "flag_error + strong_bitset" where
  "example_parser_flags = flag supports_manga_store"

definition example_domains :: "bytes list" where
  "example_domains = [''example.com'', ''example-test.com'']"

definition example_authenticate :: "config_ref \<Rightarrow> authentication_data \<Rightarrow> config_ref outcome" where
  "example_authenticate config login = Yielded config"

definition example_configure :: "'j parser_config \<Rightarrow> 'j parser_config" where
  "example_configure config = config\<lparr>pc_headers := headers_set (pc_headers config) ''User-Agent'' ''ExampleParser/1.0''\<rparr>"

definition example_mirrors :: "bytes list" where
  "example_mirrors = [''https://example.com'']"

text \<open>The parts of the parser the store and the sessions see.\<close>

definition example_parser :: parser where
  "example_parser =
     \<lparr>pr_identifier = example_identifier, pr_domains = example_domains, pr_suggest = example_suggest_getter,
      pr_valid_override = None\<rparr>"

definition example_session_parser :: session_parser where
  "example_session_parser =
     \<lparr>sp_identifier = example_identifier, sp_configure = example_configure, sp_auth_fields = None\<rparr>"

section \<open>The program\<close>

fun level_name :: "log_level \<Rightarrow> bytes" where
  "level_name LogDebug = ''DEBUG''"
| "level_name LogInfo = ''INFO''"
| "level_name LogWarning = ''WARNING''"
| "level_name LogError = ''ERROR''"
| "level_name LogFatal = ''FATAL''"

definition console_log :: "bytes \<Rightarrow> bytes \<Rightarrow> log_entry \<Rightarrow> bytes" where
  "console_log now place entry =
     ''['' @ now @ '' '' @ level_name (le_level entry) @ '' '' @
       (if le_parser_id entry = [] then ''-'' else le_parser_id entry) @ '' '' @ place @ ''] '' @ le_message entry"

datatype ending = Exited int | Aborted

definition example_route_lines :: "route option \<Rightarrow> bytes list" where
  "example_route_lines routed =
     (case routed of
        None \<Rightarrow> []
      | Some r \<Rightarrow>
          (''Routed to '' @ [CHR 0x27] @ pn_name example_parser_info @ [CHR 0x27] @ '' (manga: '' @
             (if route_type r = Manga then ''true'' else ''false'') @ '')'') #
          (case example_parse_url (route_target r) of
             Failed e \<Rightarrow> [''Failed to parse manga: '' @ re_message e] | _ \<Rightarrow> []))"

text \<open>What is printed once a session is ready: the listing, the first manga, and the route of a pasted URL.\<close>

definition example_session ::
  "'u lexbor \<Rightarrow> bytes \<Rightarrow> bytes \<Rightarrow> parser_store \<Rightarrow> 'j parser_config \<Rightarrow> bytes list \<times> ending" where
  "example_session lx now place store config =
     (let (listed, logger) = example_latest config
            \<lparr>gf_from = 0, gf_limit = 10, gf_sort = Some \<lparr>so_key = ''title'', so_ascending = True\<rparr>\<rparr> (Some []);
          logged = map (console_log now place) (the logger)
      in case listed of
           Threw f \<Rightarrow> (logged, Aborted)
         | Failed e \<Rightarrow> (logged @ [''Failed to fetch the latest manga: '' @ re_message e], Exited (- 1))
         | Yielded got \<Rightarrow>
             (case results got of
                [] \<Rightarrow> (logged @ [''No latest manga''], Exited (- 1))
              | first # _ \<Rightarrow>
                  (case (example_info (pi_item first) :: unit manga_info outcome) of
                     Threw f \<Rightarrow> (logged, Aborted)
                   | Failed e \<Rightarrow> (logged @ [''Failed to fetch manga info: '' @ re_message e], Exited (- 1))
                   | Yielded info \<Rightarrow>
                       (logged @ [''Title: '' @ me_title (mf_common info),
                          ''Description: '' @ at_text (me_description (mf_common info))] @
                        example_route_lines (route_url lx store ''https://example.com/manga/123''), Exited 0))))"

text \<open>
  \<open>main\<close>: the store, the client and its context, the registered parser, and a session of it. An
  exception and a missing parser abort the program.
\<close>

definition example_main :: "'u lexbor \<Rightarrow> bytes \<Rightarrow> bytes \<Rightarrow> session_heap \<Rightarrow> (bytes list \<times> ending) \<times> session_heap" where
  "example_main lx now place h0 =
     (let client = \<lparr>makes_jars = True\<rparr>
      in case new_context (Some client) None h0 of
           Inl err \<Rightarrow> (([], Aborted), h0)
         | Inr (shared, h1) \<Rightarrow>
             (case add_parser new_parser_store example_parser of
                Inl err \<Rightarrow> (([], Aborted), h1)
              | Inr (added, store) \<Rightarrow>
                  (case find_parser_by_key store ''Example'' of
                     None \<Rightarrow> (([], Aborted), h1)
                   | Some found \<Rightarrow>
                       (let (config, h2) = make_config example_session_parser (Some shared) h1
                        in case new_with_config (Some client) config h2 of
                             Inl err \<Rightarrow> (([], Aborted), h2)
                           | Inr (ready, h3) \<Rightarrow> (example_session lx now place store (config_at h3 ready), h3)))))"

section \<open>What the program prints\<close>

lemma example_added:
  obtains store where "add_parser new_parser_store example_parser = Inr (Some example_parser, store)"
    "find_parser_by_key store ''Example'' = Some example_parser" "consistent emplace_domains store"
    "\<And>host p d. serves emplace_domains store host p d \<longleftrightarrow> p = example_parser \<and> d \<in> set example_domains \<and> under_domain host d"
proof -
  have none: "find_parser_by_key new_parser_store k = None" for k
    by (simp add: find_parser_by_key_def find_by_key_def new_parser_store_def new_store_def)
  then obtain store where store: "add_parser new_parser_store example_parser = Inr (Some example_parser, store)"
    "\<And>k. find_parser_by_key store k = (if k = pr_identifier example_parser then Some example_parser else None)" "ps_reachable store"
    using add_parser_registers [OF ps_new, of example_parser] by (auto split: option.splits)
  have "snap_volatile (live store) = []"
    using store(1) by (auto simp: add_parser_def edit_add_parser_def edit_contains_def om_contains_def parser_begin_edit_def begin_edit_def
        edit_add_def commit_or_throw_def parser_edit_commit_def edit_commit_def store_commit_def Let_def new_parser_store_def new_store_def
        split: if_splits)
  then have "serves emplace_domains store host p d \<longleftrightarrow> p = example_parser \<and> d \<in> set example_domains \<and> under_domain host d" for host p d
    using store(2) by (auto simp: serves_def find_parser_by_key_def domains_of_def emplace_domains_def example_parser_def)
  moreover have "find_parser_by_key store ''Example'' = Some example_parser"
    using store(2) by (simp add: example_parser_def example_identifier_def)
  ultimately show thesis
    using that store(1) ps_reachable_ok [OF store(3)] by (simp add: parser_store_ok_def)
qed

lemma example_valid: "valid_for_url example_parser u"
  by (simp add: valid_for_url_def suggest_getter_def example_parser_def example_suggest_getter_def)

lemma example_routed:
  assumes "consistent emplace_domains store"
    "\<And>host p d. serves emplace_domains store host p d \<longleftrightarrow> p = example_parser \<and> d \<in> set example_domains \<and> under_domain host d"
  shows "route_url lx store text =
    (case parse_url lx text of
       None \<Rightarrow> None
     | Some u \<Rightarrow>
         if \<exists>d \<in> set example_domains. under_domain (url_host u) d
         then Some \<lparr>route_parser = example_parser, route_type = Manga, route_target = u\<rparr> else None)"
proof (cases "parse_url lx text")
  case (Some u)
  show ?thesis
  proof (cases "find_by_host store (url_host u) (\<lambda>p. valid_for_url p u)")
    case None
    then have no_parser: "\<not> serves emplace_domains store (url_host u) example_parser d" for d
      using find_by_host_None [OF assms(1), of "url_host u" "\<lambda>p. valid_for_url p u"] example_valid [of u] by blast
    have "\<not> under_domain (url_host u) d" if "d \<in> set example_domains" for d
      using no_parser [of d] assms(2) [of "url_host u" example_parser d] that by simp
    then show ?thesis using None \<open>parse_url lx text = Some u\<close> by (simp add: route_url_def)
  next
    case (Some p)
    from find_by_host_Some [OF assms(1) this] assms(2)
    have "p = example_parser" "\<exists>d \<in> set example_domains. under_domain (url_host u) d" by blast+
    then show ?thesis using Some \<open>parse_url lx text = Some u\<close>
      by (simp add: route_url_def suggest_getter_def example_parser_def example_suggest_getter_def)
  qed
qed (simp add: route_url_def)

lemma example_ready:
  fixes h0 :: session_heap
  defines "shared \<equiv> length (sh_configs h0)" and "jar \<equiv> length (sh_jars h0)"
  obtains h1 h2 h3 where "new_context (Some \<lparr>makes_jars = True\<rparr>) None h0 = Inr (shared, h1)"
    "make_config example_session_parser (Some shared) h1 = (Some (Suc shared), h2)"
    "new_with_config (Some \<lparr>makes_jars = True\<rparr>) (Some (Suc shared)) h2 = Inr (Suc shared, h3)"
    "config_at h3 (Suc shared) = blank_config
       \<lparr>pc_headers := [(''User-Agent'', ''ExampleParser/1.0'')], pc_parser_id := ''Example'', pc_cookie_jar := Some (Suc jar)\<rparr>"
    "pc_cookie_jar (config_at h3 shared) = Some jar"
    "take shared (sh_configs h3) = sh_configs h0" "take jar (sh_jars h3) = sh_jars h0"
proof -
  let ?c = "blank_config\<lparr>pc_cookie_jar := Some jar\<rparr> :: jar_ref parser_config"
  let ?e = "blank_config\<lparr>pc_headers := [(''User-Agent'', ''ExampleParser/1.0'')], pc_parser_id := ''Example''\<rparr> :: jar_ref parser_config"
  let ?j = "\<lparr>store_ref = []\<rparr> :: memory_jar"
  let ?h1 = "\<lparr>sh_configs = sh_configs h0 @ [?c], sh_jars = sh_jars h0 @ [?j]\<rparr>"
  let ?h2 = "\<lparr>sh_configs = sh_configs h0 @ [?c, ?e], sh_jars = sh_jars h0 @ [?j]\<rparr>"
  let ?h3 = "\<lparr>sh_configs = sh_configs h0 @ [?c, ?e\<lparr>pc_cookie_jar := Some (Suc jar)\<rparr>], sh_jars = sh_jars h0 @ [?j, ?j]\<rparr>"
  have jars: "pc_cookie_jar (blank_config :: jar_ref parser_config) = None" by (simp add: blank_config_def)
  have one: "new_context (Some \<lparr>makes_jars = True\<rparr>) None h0 = Inr (shared, ?h1)"
    by (simp add: new_context_def make_shared_config_def provision_jar_def config_at_def make_cookie_jar_def make_shared_jar_def
        update_config_def jars shared_def jar_def Let_def)
  have "example_configure (?c\<lparr>pc_cookie_jar := None, pc_parser_id := ''Example''\<rparr>) = ?e"
    by (simp add: example_configure_def blank_config_def headers_set_def headers_erase_def)
  then have two: "make_config example_session_parser (Some shared) ?h1 = (Some (Suc shared), ?h2)"
    by (simp add: make_config_def example_session_parser_def example_identifier_def make_shared_config_def config_at_def
        shared_def Let_def)
  have three: "new_with_config (Some \<lparr>makes_jars = True\<rparr>) (Some (Suc shared)) ?h2 = Inr (Suc shared, ?h3)"
    by (simp add: new_with_config_def new_context_def provision_jar_def config_at_def make_cookie_jar_def make_shared_jar_def
        update_config_def jars shared_def jar_def nth_append list_update_append Let_def)
  show thesis
    by (rule that [OF one two three]) (simp_all add: config_at_def nth_append shared_def jar_def)
qed

text \<open>C40: The example program, whatever sessions exist before it runs: it ends normally, having printed the
  log line of its request under the parser's name, the first manga of the listing, and, when the URL
  parser reads the pasted URL with a host under one of the two registered domains, the route and the
  refusal of the parser to read URLs. Its session carries the parser's name and user agent, has a jar
  other than the one of the base configuration, and leaves earlier sessions as they are.\<close>
theorem example_program_output:
  "let (printed, h) = example_main lx now place h0; ready = config_at h (Suc (length (sh_configs h0))) in
   printed =
     ([''['' @ now @ '' INFO Example '' @ place @ ''] latest() called, from 0, limit 10'',
       ''Title: Test'', ''Description: Some description''] @
      (case parse_url lx ''https://example.com/manga/123'' of
         None \<Rightarrow> []
       | Some u \<Rightarrow>
           if under_domain (url_host u) ''example.com'' \<or> under_domain (url_host u) ''example-test.com''
           then [''Routed to '' @ [CHR 0x27] @ ''Example'' @ [CHR 0x27] @ '' (manga: true)'',
                 ''Failed to parse manga: The parser cannot parse URLs'']
           else []), Exited 0) \<and>
   pc_parser_id ready = ''Example'' \<and> headers_get_all (pc_headers ready) ''user-agent'' = [''ExampleParser/1.0''] \<and>
   pc_cookie_jar ready \<noteq> None \<and> pc_cookie_jar ready \<noteq> pc_cookie_jar (config_at h (length (sh_configs h0))) \<and>
   take (length (sh_configs h0)) (sh_configs h) = sh_configs h0 \<and> take (length (sh_jars h0)) (sh_jars h) = sh_jars h0"
proof -
  obtain store where store: "add_parser new_parser_store example_parser = Inr (Some example_parser, store)"
    "find_parser_by_key store ''Example'' = Some example_parser" "consistent emplace_domains store"
    "\<And>host p d. serves emplace_domains store host p d \<longleftrightarrow> p = example_parser \<and> d \<in> set example_domains \<and> under_domain host d"
    by (rule example_added) blast
  note routed = example_routed [OF store(3,4), of lx "''https://example.com/manga/123''"]
  obtain h1 h2 h3 where ready: "new_context (Some \<lparr>makes_jars = True\<rparr>) None h0 = Inr (length (sh_configs h0), h1)"
    "make_config example_session_parser (Some (length (sh_configs h0))) h1 = (Some (Suc (length (sh_configs h0))), h2)"
    "new_with_config (Some \<lparr>makes_jars = True\<rparr>) (Some (Suc (length (sh_configs h0)))) h2 = Inr (Suc (length (sh_configs h0)), h3)"
    and c: "config_at h3 (Suc (length (sh_configs h0))) = blank_config\<lparr>pc_headers := [(''User-Agent'', ''ExampleParser/1.0'')],
       pc_parser_id := ''Example'', pc_cookie_jar := Some (Suc (length (sh_jars h0)))\<rparr>"
    and others: "pc_cookie_jar (config_at h3 (length (sh_configs h0))) = Some (length (sh_jars h0))"
      "take (length (sh_configs h0)) (sh_configs h3) = sh_configs h0" "take (length (sh_jars h0)) (sh_jars h3) = sh_jars h0"
    by (rule example_ready)
  let ?lines = "case parse_url lx ''https://example.com/manga/123'' of
         None \<Rightarrow> []
       | Some u \<Rightarrow>
           if under_domain (url_host u) ''example.com'' \<or> under_domain (url_host u) ''example-test.com''
           then [''Routed to '' @ [CHR 0x27] @ ''Example'' @ [CHR 0x27] @ '' (manga: true)'',
                 ''Failed to parse manga: The parser cannot parse URLs'']
           else []"
  have lines: "example_route_lines (route_url lx store ''https://example.com/manga/123'') = ?lines"
    unfolding routed
    by (simp add: example_route_lines_def example_parser_info_def example_parse_url_def fail_with_def make_response_error_def
        example_domains_def split: option.splits)
  have message: "latest_message \<lparr>gf_from = 0, gf_limit = 10, gf_sort = s\<rparr> = ''latest() called, from 0, limit 10''" for s
    by (simp add: latest_message_def int_to_dec_def) (code_simp)
  have session: "example_session lx now place store (config_at h3 (Suc (length (sh_configs h0)))) =
    ([''['' @ now @ '' INFO Example '' @ place @ ''] latest() called, from 0, limit 10'',
       ''Title: Test'', ''Description: Some description''] @ ?lines, Exited 0)"
    unfolding example_session_def example_latest_def message c
    by (simp add: lines context_info_def log_to_def console_log_def example_info_def)
  have agent: "headers_get_all [(''User-Agent'', ''ExampleParser/1.0'')] ''user-agent'' = [''ExampleParser/1.0'']"
    by code_simp
  have main: "example_main lx now place h0 = (([''['' @ now @ '' INFO Example '' @ place @ ''] latest() called, from 0, limit 10'',
       ''Title: Test'', ''Description: Some description''] @ ?lines, Exited 0), h3)"
    unfolding example_main_def Let_def ready store(1) sum.case prod.case store(2) option.case
    by (simp only: ready store(2) sum.case prod.case option.case session)
  show ?thesis
    unfolding main Let_def prod.case using agent others c by simp
qed

section \<open>What the interfaces ask of a parser\<close>

text \<open>
  The saved getter restores to the same getter. Three things the interfaces ask for are not there: a
  listing read to its end, which repeats its first page for ever because \<open>from\<close> is ignored and
  \<open>next_offset\<close> left at zero; a canonical URL that can be opened again; and the refusal of an order
  that is not declared.
\<close>
theorem example_contracts:
  fixes filters :: get_filters
  assumes "gf_limit filters \<noteq> 0"
  shows "eg_private_url g \<noteq> [] \<Longrightarrow> bind_outcome (example_serialize g) example_from_serialized = Yielded g"
    and "walk (\<lambda>n. fst (example_latest config (filters\<lparr>gf_from := n\<rparr>) logger)) 0 = None"
    and "walk (\<lambda>n. example_chapters_info g (filters\<lparr>gf_from := n\<rparr>) translation) 0 = None"
    and "walk (\<lambda>n. example_chapter_pages g chapter (filters\<lparr>gf_from := n\<rparr>) translation) 0 = None"
    and "parse_url lx (example_canonical_url g) = Some u \<Longrightarrow> \<exists>e. example_parse_url u = Failed e \<and> re_code e = NotImplemented"
    and "validate_sort example_latest_sorts (Some \<lparr>so_key = ''rating'', so_ascending = False\<rparr>) \<noteq> [] \<and>
      (\<exists>got. fst (example_latest config (filters\<lparr>gf_sort := Some \<lparr>so_key = ''rating'', so_ascending = False\<rparr>\<rparr>) logger) = Yielded got)"
proof -
  show "eg_private_url g \<noteq> [] \<Longrightarrow> bind_outcome (example_serialize g) example_from_serialized = Yielded g"
    by (simp add: example_serialize_def example_from_serialized_def)
  show "walk (\<lambda>n. fst (example_latest config (filters\<lparr>gf_from := n\<rparr>) logger)) 0 = None"
    by (rule walk_stuck) (use assms in \<open>auto simp: example_latest_def empty_page_def\<close>)
  show "walk (\<lambda>n. example_chapters_info g (filters\<lparr>gf_from := n\<rparr>) translation) 0 = None"
    by (rule walk_stuck) (use assms in \<open>auto simp: example_chapters_info_def empty_page_def\<close>)
  show "walk (\<lambda>n. example_chapter_pages g chapter (filters\<lparr>gf_from := n\<rparr>) translation) 0 = None"
    by (rule walk_stuck) (use assms in \<open>auto simp: example_chapter_pages_def empty_page_def\<close>)
  show "parse_url lx (example_canonical_url g) = Some u \<Longrightarrow> \<exists>e. example_parse_url u = Failed e \<and> re_code e = NotImplemented"
    by (simp add: example_parse_url_def fail_with_def make_response_error_def)
  have "validate_sort example_latest_sorts (Some \<lparr>so_key = ''rating'', so_ascending = False\<rparr>) \<noteq> []"
    by code_simp
  then show "validate_sort example_latest_sorts (Some \<lparr>so_key = ''rating'', so_ascending = False\<rparr>) \<noteq> [] \<and>
      (\<exists>got. fst (example_latest config (filters\<lparr>gf_sort := Some \<lparr>so_key = ''rating'', so_ascending = False\<rparr>\<rparr>) logger) = Yielded got)"
    using assms by (simp add: example_latest_def Let_def)
qed

end
