(* ===== verification/Example_Pages.thy ===== *)
theory Example_Pages
  imports Html_Document Dom_Text Js_Scan Json Requests Resource_Cache
begin

text \<open>
  \<open>examples/example_parse.cpp\<close> and \<open>examples/example_net.cpp\<close>: a page read from disk and taken apart with
  selectors that are compiled once, and three requests whose results are printed. Lexbor, the JSON parser
  and the transport are parameters; \<open>None\<close> is a walk that does not return, a left sum an exception.
\<close>

section \<open>The selectors of a card\<close>

record 'sel card_selectors =
  cs_title :: 'sel
  cs_card :: 'sel
  cs_link :: 'sel
  cs_tag :: 'sel
  cs_rating :: 'sel

definition compile_or_throw :: "(bytes \<Rightarrow> 'sel option) \<Rightarrow> bytes \<Rightarrow> html_error + 'sel" where
  "compile_or_throw lexbor selector =
     (case lexbor selector of
        None \<Rightarrow> Inl (SelectorParseError (''invalid CSS selector: '' @ selector)) | Some sel \<Rightarrow> Inr sel)"

fun compile_each :: "(bytes \<Rightarrow> 'sel option) \<Rightarrow> bytes list \<Rightarrow> html_error + 'sel list" where
  "compile_each lexbor [] = Inr []"
| "compile_each lexbor (s # ss) =
     (case compile_or_throw lexbor s of
        Inl e \<Rightarrow> Inl e
      | Inr sel \<Rightarrow> (case compile_each lexbor ss of Inl e \<Rightarrow> Inl e | Inr sels \<Rightarrow> Inr (sel # sels)))"

definition card_texts :: "bytes list" where
  "card_texts = [''title'', ''.card'', ''.card-link'', ''.tag'', ''.rating'']"

definition create_card_selectors :: "(bytes \<Rightarrow> 'sel option) \<Rightarrow> html_error + 'sel card_selectors" where
  "create_card_selectors lexbor =
     (case compile_each lexbor card_texts of
        Inl e \<Rightarrow> Inl e
      | Inr sels \<Rightarrow>
          Inr \<lparr>cs_title = sels ! 0, cs_card = sels ! 1, cs_link = sels ! 2, cs_tag = sels ! 3, cs_rating = sels ! 4\<rparr>)"

section \<open>The cards of a page\<close>

fun texts_of :: "store \<Rightarrow> addr list \<Rightarrow> bytes list option" where
  "texts_of d [] = Some []"
| "texts_of d (a # as) =
     Option.bind (element_text d a) (\<lambda>s. Option.bind (texts_of d as) (\<lambda>ss. Some (s # ss)))"

definition rating_lines :: "'sel selector_engine \<Rightarrow> store \<Rightarrow> 'sel \<Rightarrow> addr \<Rightarrow> bytes list option" where
  "rating_lines engine d selector box =
     (case query engine (Some box) (Some selector) of
        None \<Rightarrow> Some []
      | Some rating \<Rightarrow> Option.bind (element_text d rating) (\<lambda>s. Some [''  rating: '' @ s]))"

definition attr_or_unknown :: "store \<Rightarrow> addr \<Rightarrow> bytes \<Rightarrow> bytes" where
  "attr_or_unknown d a name = (case get_attr d (Some a) name of None \<Rightarrow> ''?'' | Some v \<Rightarrow> v)"

definition card_lines :: "'sel selector_engine \<Rightarrow> store \<Rightarrow> 'sel card_selectors \<Rightarrow> addr \<Rightarrow> bytes list option" where
  "card_lines engine d sels box =
     (case query engine (Some box) (Some (cs_link sels)) of
        None \<Rightarrow> Some []
      | Some link \<Rightarrow>
          Option.bind (element_text d link) (\<lambda>title.
          Option.bind (rating_lines engine d (cs_rating sels) box) (\<lambda>rating.
          Option.bind (texts_of d (query_all engine (Some box) (Some (cs_tag sels)))) (\<lambda>tags.
            Some ([''- '' @ title,
                   ''  url:    '' @ attr_or_unknown d link ''href'',
                   ''  id:     '' @ attr_or_unknown d box ''data-id''] @ rating @
                  [''  tags:   '' @ concat (map (\<lambda>t. t @ '' '') tags)])))))"

fun cards_lines :: "'sel selector_engine \<Rightarrow> store \<Rightarrow> 'sel card_selectors \<Rightarrow> addr list \<Rightarrow> bytes list option" where
  "cards_lines engine d sels [] = Some []"
| "cards_lines engine d sels (box # boxes) =
     Option.bind (card_lines engine d sels box) (\<lambda>ls.
     Option.bind (cards_lines engine d sels boxes) (\<lambda>rest. Some (ls @ rest)))"

text \<open>
  \<open>extract_cards\<close> with the selectors from the shared cache: the title and an empty line when there is one,
  then the cards. The outer option is a null document element.
\<close>

definition extract_cards :: "'sel selector_engine \<Rightarrow> store \<Rightarrow> addr \<Rightarrow> 'sel card_selectors \<Rightarrow> bytes list option option" where
  "extract_cards engine d doc sels =
     (case document_query engine d doc (Some (cs_title sels)) of
        None \<Rightarrow> None
      | Some title \<Rightarrow>
          (case document_query_all engine d doc (Some (cs_card sels)) of
             None \<Rightarrow> None
           | Some cards \<Rightarrow>
               Some (Option.bind (case title of None \<Rightarrow> Some [] | Some t \<Rightarrow> Option.bind (element_text d t) (\<lambda>s. Some [''Title: '' @ s, []]))
                 (\<lambda>head. Option.bind (cards_lines engine d sels cards) (\<lambda>rest. Some (head @ rest))))))"

section \<open>The gallery\<close>

text \<open>\<open>c_str\<close> ends at the first null byte.\<close>

definition gallery_item :: "json \<Rightarrow> bytes list" where
  "gallery_item item = (case item of JString s \<Rightarrow> [''  '' @ takeWhile (\<lambda>c. c \<noteq> CHR 0x00) s] | _ \<Rightarrow> [])"

definition gallery_lines :: "(bytes \<Rightarrow> json option) \<Rightarrow> bytes \<Rightarrow> bytes list" where
  "gallery_lines parse html =
     [[], ''Gallery (from a <script> JS array):''] @
     (case parse_json_var parse ''gallery'' html of
        Some (JArray elems) \<Rightarrow> concat (map gallery_item elems)
      | _ \<Rightarrow> [''  (not found)''])"

datatype page_result =
    PagePrinted "bytes list" int
  | PageThrew html_error
  | PageCrashed

text \<open>
  \<open>main\<close> of \<open>example_parse\<close>: the file's bytes, the parse, the cards with the selectors out of a fresh cache,
  the gallery. \<open>None\<close> when a text is never read to its end.
\<close>

definition parse_main ::
  "(bytes \<Rightarrow> 'sel option) \<Rightarrow> 'sel selector_engine \<Rightarrow> (bytes \<Rightarrow> (store \<times> addr) option) \<Rightarrow> (bytes \<Rightarrow> json option) \<Rightarrow>
     bytes \<Rightarrow> bytes \<Rightarrow> page_result option" where
  "parse_main lexbor engine parse json dir html =
     (if html = [] then Some (PagePrinted [''Could not read fixture from '' @ dir] 1)
      else case parse (parsed_text html True) of
        None \<Rightarrow> Some (PagePrinted [''Parse failed: Failed to parse HTML''] 1)
      | Some (d, doc) \<Rightarrow>
          (case create_card_selectors lexbor of
             Inl e \<Rightarrow> Some (PageThrew e)
           | Inr built \<Rightarrow>
               (case extract_cards engine d doc (fst (cache_get ''CardSelectors'' built [])) of
                  None \<Rightarrow> Some PageCrashed
                | Some None \<Rightarrow> None
                | Some (Some cards) \<Rightarrow> Some (PagePrinted (cards @ gallery_lines json html) 0))))"

section \<open>Three requests\<close>

definition net_get :: "bytes \<Rightarrow> client_request" where
  "net_get url = GetReq \<lparr>gr_url = url, gr_params = [], gr_headers = [], gr_method = Get\<rparr>"

fun raw_lines :: "response_data outcome \<Rightarrow> bytes list" where
  "raw_lines (Yielded r) =
     [''  status:        '' @ int_to_dec (rd_status_code r),
      ''  effective_url: '' @ (case rd_effective_url r of None \<Rightarrow> ''(none)'' | Some u \<Rightarrow> u)] @
     (if headers_contains (rd_headers r) ''content-type''
      then [''  content-type:  '' @ headers_get (rd_headers r) ''content-type''] else []) @
     [''  body bytes:    '' @ int_to_dec (int (length (rd_body r)))]"
| "raw_lines (Failed e) = [''  failed: '' @ re_message e]"
| "raw_lines (Threw f) = []"

fun title_lines :: "bytes option outcome \<Rightarrow> bytes list" where
  "title_lines (Yielded t) = [''  <title>: '' @ document_title t]"
| "title_lines (Failed e) = [''  failed: '' @ re_message e]"
| "title_lines (Threw f) = []"

fun user_lines :: "json outcome \<Rightarrow> bytes list" where
  "user_lines (Yielded v) =
     (case v of
        JObject user \<Rightarrow> (case lookup user ''name'' of
          Some (JString name) \<Rightarrow> [''  user name: '' @ takeWhile (\<lambda>c. c \<noteq> CHR 0x00) name] | _ \<Rightarrow> [])
      | _ \<Rightarrow> [])"
| "user_lines (Failed e) = [''  failed: '' @ re_message e]"
| "user_lines (Threw f) = []"

text \<open>
  \<open>main\<close> of \<open>example_net\<close>; the titles of parsed documents are what lexbor gives. An exception ends the
  program: what was printed before it, and no exit code.
\<close>

definition net_main ::
  "'j transport \<Rightarrow> 'j parser_config \<Rightarrow> (bytes \<Rightarrow> bytes + bytes option) \<Rightarrow> (bytes \<Rightarrow> bytes + json) \<Rightarrow> bytes list \<times> int option" where
  "net_main transport config parse_title parse_json =
     (let raw = perform transport config (net_get ''https://example.com'');
          html = request_html parse_title transport config (net_get ''https://example.com'');
          json = request_json parse_json transport config (net_get ''https://jsonplaceholder.typicode.com/users/1'');
          first = ''GET https://example.com'' # raw_lines raw;
          second = first @ [[], ''request_html https://example.com''] @ title_lines html;
          third = second @ [[], ''request_json https://jsonplaceholder.typicode.com/users/1''] @ user_lines json
      in case raw of
           Threw f \<Rightarrow> (first, None)
         | _ \<Rightarrow> (case html of
              Threw f \<Rightarrow> (first @ [[], ''request_html https://example.com''], None)
            | _ \<Rightarrow> (case json of
                 Threw f \<Rightarrow> (second @ [[], ''request_json https://jsonplaceholder.typicode.com/users/1''], None)
               | _ \<Rightarrow> (third, Some 0))))"

section \<open>Reading a tree of cards ends\<close>

lemma linked_listD: "linked_list d p before ts \<Longrightarrow> t \<in> set ts \<Longrightarrow> linked d t"
  by (induction ts arbitrary: before) auto

lemma subtree_at:
  assumes "tree_at d t" "a \<in> set (preorder t)"
  shows "\<exists>u. tree_at d u \<and> root_of u = a"
  using assms
proof (induction t rule: preorder.induct)
  case (1 b ts)
  show ?case
  proof (cases "a = b")
    case True
    then show ?thesis using 1(2) by (metis dtree.sel(1))
  next
    case False
    then obtain u where u: "u \<in> set ts" "a \<in> set (preorder u)" using 1(3) by auto
    have "linked_list d b None ts" "distinct (concat (map preorder ts))" using 1(2) by (simp_all add: tree_at_def)
    then have "tree_at d u" using u(1) linked_listD by (auto simp: tree_at_def distinct_concat_iff)
    then show ?thesis using 1(1) [OF u(1)] u(2) by blast
  qed
qed

text \<open>Below an element of a parsed tree the engine reports elements of the tree.\<close>

definition reports_within :: "'sel selector_engine \<Rightarrow> dtree \<Rightarrow> bool" where
  "reports_within engine t \<longleftrightarrow>
     (\<forall>every a sel. a \<in> set (preorder t) \<longrightarrow> set (engine_reports engine every a sel) \<subseteq> set (preorder t))"

definition text_at :: "store \<Rightarrow> addr \<Rightarrow> bytes" where
  "text_at d a = the (element_text d a)"

lemma element_text_ends:
  assumes "tree_at d t" "a \<in> set (preorder t)"
  shows "element_text d a = Some (text_at d a)"
proof -
  obtain u where "tree_at d u" "root_of u = a" using subtree_at [OF assms] by blast
  then show ?thesis using element_text_rendered [of d u] by (simp add: text_at_def)
qed

lemma texts_of_ends:
  assumes "tree_at d t" "set as \<subseteq> set (preorder t)"
  shows "texts_of d as = Some (map (text_at d) as)"
  using assms(2) by (induction as) (simp_all add: element_text_ends [OF assms(1)])

lemma query_within:
  assumes "reports_within engine t" "a \<in> set (preorder t)"
  shows "set (query_all engine (Some a) sel) \<subseteq> set (preorder t)"
    "query engine (Some a) sel = Some b \<Longrightarrow> b \<in> set (preorder t)"
proof -
  have sub: "set (engine_reports engine every a s) \<subseteq> set (preorder t)" for every s
    using assms by (simp add: reports_within_def)
  show "set (query_all engine (Some a) sel) \<subseteq> set (preorder t)"
    using sub by (auto simp: query_all_def run_query_all split: option.splits if_splits)
  show "b \<in> set (preorder t)" if found: "query engine (Some a) sel = Some b"
  proof -
    obtain s where "sel = Some s" "run_callback query_first_cb (engine_reports engine False a s) None = Some b"
      using found by (cases sel) (simp_all add: query_def split: if_splits)
    then show ?thesis using sub [of False s] by (cases "engine_reports engine False a s") (auto simp: query_first_cb_def)
  qed
qed

text \<open>The block a card with a link is printed as.\<close>

definition card_block :: "'sel selector_engine \<Rightarrow> store \<Rightarrow> 'sel card_selectors \<Rightarrow> addr \<Rightarrow> addr \<Rightarrow> bytes list" where
  "card_block engine d sels box link =
     [''- '' @ text_at d link, ''  url:    '' @ attr_or_unknown d link ''href'', ''  id:     '' @ attr_or_unknown d box ''data-id''] @
     (case query engine (Some box) (Some (cs_rating sels)) of None \<Rightarrow> [] | Some r \<Rightarrow> [''  rating: '' @ text_at d r]) @
     [''  tags:   '' @ concat (map (\<lambda>t. text_at d t @ '' '') (query_all engine (Some box) (Some (cs_tag sels))))]"

lemma card_lines_block:
  assumes "tree_at d t" "reports_within engine t" "box \<in> set (preorder t)"
  shows "card_lines engine d sels box =
    Some (case query engine (Some box) (Some (cs_link sels)) of None \<Rightarrow> [] | Some link \<Rightarrow> card_block engine d sels box link)"
proof (cases "query engine (Some box) (Some (cs_link sels))")
  case (Some link)
  note within = query_within [OF assms(2,3)]
  have "rating_lines engine d (cs_rating sels) box =
      Some (case query engine (Some box) (Some (cs_rating sels)) of None \<Rightarrow> [] | Some r \<Rightarrow> [''  rating: '' @ text_at d r])"
    using within(2) element_text_ends [OF assms(1)] by (auto simp: rating_lines_def split: option.split)
  then show ?thesis
    using Some element_text_ends [OF assms(1) within(2) [OF Some]] texts_of_ends [OF assms(1) within(1)]
    by (simp add: card_lines_def card_block_def comp_def)
qed (simp add: card_lines_def)

lemma cards_lines_blocks:
  assumes "tree_at d t" "reports_within engine t" "set boxes \<subseteq> set (preorder t)"
  shows "cards_lines engine d sels boxes =
    Some (concat (map (\<lambda>box. case query engine (Some box) (Some (cs_link sels)) of
      None \<Rightarrow> [] | Some link \<Rightarrow> card_block engine d sels box link) boxes))"
  using assms(3) by (induction boxes) (simp_all add: card_lines_block [OF assms(1,2)])

text \<open>
  What \<open>example_parse\<close> prints for a document whose root element is found, whatever the engine reports
  below the elements of the tree: the title of the first match, then a block for every matching card
  that has a link and nothing for the others, in the order the engine reports them.
\<close>
theorem extract_cards_prints:
  assumes "parsed_document d doc before html after" "before = [] \<or> (\<exists>t. before = [t] \<and> n_kind (d (root_of t)) = DoctypeNode)"
    and "reports_within engine html" "engine_created engine"
  shows "extract_cards engine d doc sels =
    Some (Some ((case query engine (Some (root_of html)) (Some (cs_title sels)) of
        None \<Rightarrow> [] | Some t \<Rightarrow> [''Title: '' @ text_at d t, []]) @
      concat (map (\<lambda>box. case query engine (Some box) (Some (cs_link sels)) of
        None \<Rightarrow> [] | Some link \<Rightarrow> card_block engine d sels box link)
        (engine_reports engine True (root_of html) (cs_card sels)))))"
proof -
  have whole: "tree_at d (DNode doc (before @ html # after))" using assms(1) by (simp add: parsed_document_def)
  then have "linked d html" "distinct (preorder html)"
    using linked_listD [of d doc None "before @ html # after" html] by (auto simp: tree_at_def)
  then have tree: "tree_at d html" by (simp add: tree_at_def)
  have root: "document_element d doc = Some (Some (root_of html))" by (rule document_element_html [OF assms(1,2)])
  note within = query_within [OF assms(3) root_in_preorder]
  have cards: "query_all engine (Some (root_of html)) (Some (cs_card sels)) = engine_reports engine True (root_of html) (cs_card sels)"
    by (rule query_reports(1) [OF assms(4)])
  show ?thesis
    using cards_lines_blocks [OF tree assms(3) within(1), of _ "Some (cs_card sels)"] element_text_ends [OF tree within(2)]
    by (auto simp: extract_cards_def document_query_def document_query_all_def root cards split: option.split)
qed

text \<open>The three requests of \<open>example_net\<close> over a transport that answers nothing: each reports its own error and the program goes on.\<close>
theorem net_errors_reported:
  assumes "\<And>r jar. transport r jar = Inl e" "pc_modifiers config = []"
  shows "net_main transport config parse_html_title parse_json =
    ([''GET https://example.com'', ''  failed: '' @ re_message e, [], ''request_html https://example.com'',
      ''  failed: '' @ re_message e, [], ''request_json https://jsonplaceholder.typicode.com/users/1'',
      ''  failed: '' @ re_message e], Some 0)"
proof -
  have "perform transport config r = Failed e" if "r = net_get url" for r url
    using that assms by (simp add: perform_def configured_request_def apply_config_to_def net_get_def)
  then show ?thesis
    by (simp add: net_main_def request_html_def request_json_def fetch_ok_def Let_def)
qed

end
