(* ===== verification/Store_Benchmark.thy ===== *)
theory Store_Benchmark
  imports Parser_Store Decimal
begin

text \<open>
  \<open>benchmarks/ParserStoreBenchmark.cpp\<close> and \<open>benchmarks/BenchmarkParser.cpp\<close>: the same parsers registered in
  three ways, in a bare tree, in a store parser by parser and in a store with one edit, and a host
  looked up in a tree and by asking every parser for its domains. The benchmark times them against each
  other; that they do the same work is what is proved here.
\<close>

section \<open>The parsers\<close>

definition benchmark_parser :: "int \<Rightarrow> parser" where
  "benchmark_parser number =
     \<lparr>pr_identifier = ''Benchmark'' @ int_to_dec number,
      pr_domains = [''video'' @ int_to_dec number @ ''.media.example.test'', ''video'' @ int_to_dec number @ ''.mirror.example.test''],
      pr_suggest = (\<lambda>_. Unknown), pr_valid_override = Some (\<lambda>_. True)\<rparr>"

text \<open>\<open>static_cast<int>(index)\<close>.\<close>

definition int_of_index :: "nat \<Rightarrow> int" where
  "int_of_index i = sint (word_of_nat i :: 32 word)"

definition benchmark_parsers :: "nat \<Rightarrow> parser list" where
  "benchmark_parsers n = map (\<lambda>i. benchmark_parser (int_of_index i)) [0..<n]"

section \<open>Three ways to build\<close>

definition legacy_add :: "parser node \<Rightarrow> parser \<Rightarrow> parser node" where
  "legacy_add root p = foldl (\<lambda>t d. add_domain_parser (split_domains d) p t) root (emplace_domains p)"

definition legacy_build :: "nat \<Rightarrow> parser node" where
  "legacy_build n = foldl legacy_add empty_node (benchmark_parsers n)"

fun add_each :: "parser_store \<Rightarrow> parser list \<Rightarrow> parser_store_error + parser_store" where
  "add_each s [] = Inr s"
| "add_each s (p # ps) = (case add_parser s p of Inl err \<Rightarrow> Inl err | Inr (added, s') \<Rightarrow> add_each s' ps)"

definition one_shot_build :: "nat \<Rightarrow> parser_store_error + parser_store" where
  "one_shot_build n = add_each new_parser_store (benchmark_parsers n)"

fun edit_each :: "parser edit \<Rightarrow> parser list \<Rightarrow> parser_store_error + parser edit" where
  "edit_each e [] = Inr e"
| "edit_each e (p # ps) = (case edit_add_parser e p of Inl err \<Rightarrow> Inl err | Inr (added, e') \<Rightarrow> edit_each e' ps)"

definition batch_build :: "nat \<Rightarrow> parser_store_error + parser_store" where
  "batch_build n =
     (case edit_each (parser_begin_edit new_parser_store) (benchmark_parsers n) of
        Inl err \<Rightarrow> Inl err
      | Inr e \<Rightarrow> commit_or_throw new_parser_store e)"

section \<open>Looking a host up without a tree\<close>

definition lazy_add_domain :: "bytes \<Rightarrow> bool \<Rightarrow> bytes \<Rightarrow> bool" where
  "lazy_add_domain host matched domain \<longleftrightarrow>
     matched \<or> (suffix domain host \<and>
       (length host = length domain \<or> host ! (length host - length domain - 1) = CHR ''.''))"

definition lazy_matched :: "bytes \<Rightarrow> parser \<Rightarrow> bool" where
  "lazy_matched host p = foldl (lazy_add_domain host) False (emplace_domains p)"

definition lazy_lookup :: "bytes \<Rightarrow> parser list \<Rightarrow> parser option" where
  "lazy_lookup host ps = List.find (lazy_matched host) ps"

section \<open>The builds\<close>

lemma lazy_domain_iff:
  assumes "domain \<noteq> []"
  shows "lazy_add_domain host matched domain \<longleftrightarrow> matched \<or> under_domain host domain"
proof -
  have "suffix domain host \<and> (length host = length domain \<or> host ! (length host - length domain - 1) = CHR ''.'') \<longleftrightarrow>
      host = domain \<or> (\<exists>sub. host = sub @ CHR ''.'' # domain)" (is "?l \<longleftrightarrow> ?r")
  proof
    assume ?l
    then obtain front where host: "host = front @ domain" by (auto simp: suffix_def)
    show ?r
    proof (cases front rule: rev_cases)
      case (snoc sub c)
      then have "c = CHR ''.''" using \<open>?l\<close> host by (simp add: nth_append)
      then show ?thesis using snoc host by auto
    qed (use host in simp)
  next
    assume ?r
    then show ?l by (auto simp: suffix_def nth_append)
  qed
  then show ?thesis using assms by (simp add: lazy_add_domain_def under_domain_def)
qed

lemma lazy_matched_iff:
  assumes "[] \<notin> set (pr_domains p)"
  shows "lazy_matched host p \<longleftrightarrow> (\<exists>d \<in> set (pr_domains p). under_domain host d)"
proof -
  have "foldl (lazy_add_domain host) m ds \<longleftrightarrow> m \<or> (\<exists>d \<in> set ds. under_domain host d)" if "[] \<notin> set ds" for m ds
    using that
  proof (induction ds arbitrary: m)
    case (Cons d ds)
    then show ?case using lazy_domain_iff [of d host m] by auto
  qed simp
  then show ?thesis using assms by (simp add: lazy_matched_def emplace_domains_def)
qed

text \<open>What a store or a draft holds after adding parsers one by one.\<close>

definition with_parsers :: "parser smap \<Rightarrow> parser list \<Rightarrow> parser smap" where
  "with_parsers es ps = foldl (\<lambda>es p. om_emplace (pr_identifier p) p es) es ps"

lemma with_parsers_simps [simp]:
  "with_parsers es [] = es" "with_parsers es (p # ps) = with_parsers (om_emplace (pr_identifier p) p es) ps"
  by (simp_all add: with_parsers_def)

definition new_names :: "parser smap \<Rightarrow> parser list \<Rightarrow> bool" where
  "new_names es ps \<longleftrightarrow> distinct (map pr_identifier ps) \<and> (\<forall>p \<in> set ps. lookup es (pr_identifier p) = None)"

lemma new_names_Cons:
  assumes "om_wf es" "new_names es (p # ps)"
  shows "lookup es (pr_identifier p) = None" "new_names (om_emplace (pr_identifier p) p es) ps"
  using assms by (auto simp: new_names_def lookup_om_emplace) (metis image_eqI)

lemma with_parsers_wf: "om_wf es \<Longrightarrow> om_wf (with_parsers es ps)"
  by (induction ps arbitrary: es) auto

lemma with_parsers_lookup:
  assumes "om_wf es" "new_names es ps"
  shows "lookup (with_parsers es ps) k = (case List.find (\<lambda>p. pr_identifier p = k) ps of Some p \<Rightarrow> Some p | None \<Rightarrow> lookup es k)"
  using assms
proof (induction ps arbitrary: es)
  case (Cons p ps)
  note n = new_names_Cons [OF Cons.prems]
  have "List.find (\<lambda>q. pr_identifier q = pr_identifier p) ps = None"
    using Cons.prems(2) by (auto simp: new_names_def find_None_iff) (metis image_eqI)
  then show ?case
    using Cons.IH [OF om_wf_emplace [OF Cons.prems(1)] n(2)] n(1) Cons.prems(1)
    by (auto simp: lookup_om_emplace split: option.splits)
qed simp

lemma add_each_live:
  assumes "om_wf (snap_entries (live s))" "new_names (snap_entries (live s)) ps"
    "live s = make_snapshot emplace_domains (snap_entries (live s)) (snap_volatile (live s))"
  shows "add_each s ps = Inr (s\<lparr>live := make_snapshot emplace_domains (with_parsers (snap_entries (live s)) ps) (snap_volatile (live s)),
      live_id := live_id s + length ps\<rparr>)"
  using assms
proof (induction ps arbitrary: s)
  case (Cons p ps)
  note n = new_names_Cons [OF Cons.prems(1,2)]
  let ?s = "s\<lparr>live := make_snapshot emplace_domains (om_emplace (pr_identifier p) p (snap_entries (live s))) (snap_volatile (live s)),
    live_id := Suc (live_id s)\<rparr>"
  have "add_parser s p = Inr (Some p, ?s)"
    using n(1) by (simp add: add_parser_def edit_add_parser_def edit_contains_def om_contains_def parser_begin_edit_def
        begin_edit_def edit_add_def commit_or_throw_def parser_edit_commit_def edit_commit_def store_commit_def Let_def)
  then show ?case using Cons.IH [of ?s] Cons.prems(1) n(2) by simp
qed simp

lemma edit_each_entries:
  assumes "om_wf (ed_entries e)" "new_names (ed_entries e) ps"
  shows "edit_each e ps = Inr (e\<lparr>ed_entries := with_parsers (ed_entries e) ps\<rparr>)"
  using assms
proof (induction ps arbitrary: e)
  case (Cons p ps)
  note n = new_names_Cons [OF Cons.prems]
  have "edit_add_parser e p = Inr (Some p, e\<lparr>ed_entries := om_emplace (pr_identifier p) p (ed_entries e)\<rparr>)"
    using n(1) by (simp add: edit_add_parser_def edit_contains_def om_contains_def edit_add_def)
  then show ?case using Cons.IH [of "e\<lparr>ed_entries := om_emplace (pr_identifier p) p (ed_entries e)\<rparr>"] Cons.prems(1) n(2) by simp
qed simp

lemma new_store_fields:
  "snap_entries (live new_parser_store) = []" "snap_volatile (live new_parser_store) = []" "live_id new_parser_store = 0"
  "live new_parser_store = make_snapshot emplace_domains [] []"
  by (simp_all add: new_parser_store_def new_store_def)

lemma builds_publish:
  assumes "distinct (map pr_identifier ps)"
  shows "\<exists>s. add_each new_parser_store ps = Inr s \<and> live s = make_snapshot emplace_domains (with_parsers [] ps) [] \<and> live_id s = length ps"
    "\<exists>e s. edit_each (parser_begin_edit new_parser_store) ps = Inr e \<and> commit_or_throw new_parser_store e = Inr s \<and>
      live s = make_snapshot emplace_domains (with_parsers [] ps) [] \<and> live_id s = 1"
proof -
  have names: "new_names [] ps" using assms by (simp add: new_names_def)
  show "\<exists>s. add_each new_parser_store ps = Inr s \<and> live s = make_snapshot emplace_domains (with_parsers [] ps) [] \<and> live_id s = length ps"
    using add_each_live [of new_parser_store ps] names by (simp add: new_store_fields)
  have "ed_entries (parser_begin_edit new_parser_store) = []"
    by (simp add: parser_begin_edit_def begin_edit_def new_store_fields)
  then show "\<exists>e s. edit_each (parser_begin_edit new_parser_store) ps = Inr e \<and> commit_or_throw new_parser_store e = Inr s \<and>
      live s = make_snapshot emplace_domains (with_parsers [] ps) [] \<and> live_id s = 1"
    using edit_each_entries [of "parser_begin_edit new_parser_store" ps] names
    by (simp add: commit_or_throw_Inr) (simp add: parser_begin_edit_def begin_edit_def new_store_fields)
qed

section \<open>The domains of the parsers do not overlap\<close>

lemma split_domains_append:
  assumes "a \<noteq> []" "b \<noteq> []"
  shows "split_domains (a @ CHR ''.'' # b) = split_domains b @ split_domains a"
  using assms by (simp add: split_domains_def split_dots_dot)

lemma split_domains_plain: "a \<noteq> [] \<Longrightarrow> CHR ''.'' \<notin> set a \<Longrightarrow> split_domains a = [a]"
  by (simp add: split_domains_def split_dots_plain)

lemma int_to_dec_no_dot: "CHR ''.'' \<notin> set (int_to_dec i)"
proof -
  have "\<not> is_digit CHR ''.''" by (simp add: is_digit_def code_def)
  then show ?thesis using set_int_to_dec [of "CHR ''.''" i] by auto
qed

definition video_labels :: "bool \<Rightarrow> int \<Rightarrow> bytes list" where
  "video_labels mirror i = [''test'', ''example'', if mirror then ''mirror'' else ''media'', ''video'' @ int_to_dec i]"

lemma video_domains:
  "split_domains (''video'' @ int_to_dec i @ ''.media.example.test'') = video_labels False i"
  "split_domains (''video'' @ int_to_dec i @ ''.mirror.example.test'') = video_labels True i"
proof -
  have front: "split_domains (''video'' @ int_to_dec i) = [''video'' @ int_to_dec i]"
    by (rule split_domains_plain) (simp_all add: int_to_dec_no_dot)
  have rest: "split_domains ''media.example.test'' = [''test'', ''example'', ''media'']"
    "split_domains ''mirror.example.test'' = [''test'', ''example'', ''mirror'']"
    using split_domains_append [of "''media''" "''example.test''"] split_domains_append [of "''mirror''" "''example.test''"]
      split_domains_append [of "''example''" "''test''"]
    by (simp_all add: split_domains_plain)
  show "split_domains (''video'' @ int_to_dec i @ ''.media.example.test'') = video_labels False i"
    using split_domains_append [of "''video'' @ int_to_dec i" "''media.example.test''"] front rest(1) by (simp add: video_labels_def)
  show "split_domains (''video'' @ int_to_dec i @ ''.mirror.example.test'') = video_labels True i"
    using split_domains_append [of "''video'' @ int_to_dec i" "''mirror.example.test''"] front rest(2) by (simp add: video_labels_def)
qed

lemma int_to_dec_inj: "in_int64 i \<Longrightarrow> in_int64 j \<Longrightarrow> int_to_dec i = int_to_dec j \<longleftrightarrow> i = j"
  by (rule decimal_codec.enc_inj)

text \<open>The parser with number \<open>i\<close> has a domain that covers the host.\<close>

definition covers :: "int \<Rightarrow> bytes \<Rightarrow> bool" where
  "covers i host \<longleftrightarrow> (\<exists>d \<in> set (pr_domains (benchmark_parser i)). under_domain host d)"

lemma covers_labels: "covers i host \<longleftrightarrow> (\<exists>mirror. prefix (video_labels mirror i) (split_domains host))"
proof -
  have "covers i host \<longleftrightarrow> prefix (video_labels False i) (split_domains host) \<or> prefix (video_labels True i) (split_domains host)"
    by (simp only: covers_def benchmark_parser_def parser.simps list.set Set.bex_simps Set.ball_simps simp_thms
        labels_prefix_iff [symmetric] video_domains)
  then show ?thesis by (metis (full_types))
qed

lemma covers_unique:
  assumes "covers i host" "covers j host" "in_int64 i" "in_int64 j"
  shows "i = j"
proof -
  obtain a b where "prefix (video_labels a i) (split_domains host)" "prefix (video_labels b j) (split_domains host)"
    using assms(1,2) by (auto simp: covers_labels)
  then have "take 4 (split_domains host) = video_labels a i" "take 4 (split_domains host) = video_labels b j"
    by (auto simp: prefix_def video_labels_def)
  then have "int_to_dec i = int_to_dec j" by (auto simp: video_labels_def)
  then show ?thesis using int_to_dec_inj assms(3,4) by simp
qed

lemma benchmark_matched: "lazy_matched host (benchmark_parser i) \<longleftrightarrow> covers i host"
  unfolding covers_def by (rule lazy_matched_iff) (simp add: benchmark_parser_def)

lemma int_of_index_id: "i < 2 ^ 31 \<Longrightarrow> int_of_index i = int i"
  by (simp add: int_of_index_def signed_of_nat signed_take_bit_int_eq_self)

lemma benchmark_parsers_small: "n \<le> 2 ^ 31 \<Longrightarrow> benchmark_parsers n = map (\<lambda>i. benchmark_parser (int i)) [0..<n]"
  by (simp add: benchmark_parsers_def int_of_index_id)

lemma small_int64: "k < 2 ^ 31 \<Longrightarrow> in_int64 (int k)"
  by (simp add: in_int64_def int64_min_def int64_max_def)

lemma benchmark_names:
  assumes "n \<le> 2 ^ 31"
  shows "distinct (map pr_identifier (benchmark_parsers n))"
proof -
  have "inj_on (\<lambda>i. ''Benchmark'' @ int_to_dec (int i)) {0..<n}"
  proof (rule inj_onI)
    fix i j assume "i \<in> {0..<n}" "j \<in> {0..<n}" "''Benchmark'' @ int_to_dec (int i) = ''Benchmark'' @ int_to_dec (int j)"
    then show "i = j" using assms int_to_dec_inj [of "int i" "int j"] small_int64 by simp
  qed
  then show ?thesis
    by (simp add: benchmark_parsers_small [OF assms] distinct_map comp_def benchmark_parser_def)
qed

lemma lazy_found:
  assumes "n \<le> 2 ^ 31"
  shows "lazy_lookup host (benchmark_parsers n) = None \<longleftrightarrow> (\<forall>k < n. \<not> covers (int k) host)"
    "k < n \<Longrightarrow> covers (int k) host \<Longrightarrow> lazy_lookup host (benchmark_parsers n) = Some (benchmark_parser (int k))"
proof -
  show "lazy_lookup host (benchmark_parsers n) = None \<longleftrightarrow> (\<forall>k < n. \<not> covers (int k) host)"
    by (auto simp: lazy_lookup_def benchmark_parsers_small [OF assms] find_None_iff benchmark_matched)
  assume k: "k < n" "covers (int k) host"
  have "\<not> covers (int j) host" if "j < k" for j
    using covers_unique [of "int j" host "int k"] that k assms small_int64 by fastforce
  then show "lazy_lookup host (benchmark_parsers n) = Some (benchmark_parser (int k))"
    using k unfolding lazy_lookup_def benchmark_parsers_small [OF assms] find_Some_iff
    by (intro exI [of _ k]) (simp add: benchmark_matched)
qed

text \<open>A search that finds a parser covering the host whenever there is one finds the one that covers it.\<close>

lemma found_is_lazy:
  assumes "n \<le> 2 ^ 31"
    and none: "found = None \<longleftrightarrow> (\<forall>k < n. \<not> covers (int k) host)"
    and some: "\<And>p. found = Some p \<Longrightarrow> \<exists>k < n. p = benchmark_parser (int k) \<and> covers (int k) host"
  shows "found = lazy_lookup host (benchmark_parsers n)"
proof (cases found)
  case None
  then show ?thesis using none lazy_found(1) [OF assms(1), of host] by simp
next
  case (Some p)
  then show ?thesis using some lazy_found(2) [OF assms(1)] by fastforce
qed

section \<open>The lookups\<close>

lemma find_distinct: "distinct (map f xs) \<Longrightarrow> x \<in> set xs \<Longrightarrow> List.find (\<lambda>y. f y = f x) xs = Some x"
  by (induction xs) (auto simp: image_iff)

lemma published_serves:
  assumes "n \<le> 2 ^ 31" "live s = make_snapshot emplace_domains (with_parsers [] (benchmark_parsers n)) []"
  shows "consistent emplace_domains s"
    "serves emplace_domains s host p d \<longleftrightarrow> (\<exists>k < n. p = benchmark_parser (int k) \<and> d \<in> set (pr_domains p) \<and> under_domain host d)"
proof -
  note names = benchmark_names [OF assms(1)]
  have "om_wf (with_parsers [] (benchmark_parsers n))" by (rule with_parsers_wf) simp
  then show "consistent emplace_domains s" by (simp add: consistent_def assms(2))
  have "new_names [] (benchmark_parsers n)" using names by (simp add: new_names_def)
  from with_parsers_lookup [OF om_wf_Nil this]
  have key: "find_by_key s k = List.find (\<lambda>p. pr_identifier p = k) (benchmark_parsers n)" for k
    by (simp add: find_by_key_def assms(2) split: option.split)
  have "(\<exists>k. find_by_key s k = Some p) \<longleftrightarrow> p \<in> set (benchmark_parsers n)"
    using find_distinct [OF names, of p] by (auto simp: key find_Some_iff)
  then show "serves emplace_domains s host p d \<longleftrightarrow> (\<exists>k < n. p = benchmark_parser (int k) \<and> d \<in> set (pr_domains p) \<and> under_domain host d)"
    by (auto simp: serves_def domains_of_def assms(2) emplace_domains_def benchmark_parsers_small [OF assms(1)])
qed

lemma store_lookup:
  assumes "n \<le> 2 ^ 31" "live s = make_snapshot emplace_domains (with_parsers [] (benchmark_parsers n)) []"
  shows "find_by_host s host (\<lambda>_. True) = lazy_lookup host (benchmark_parsers n)"
proof (rule found_is_lazy [OF assms(1)])
  note serves = published_serves(2) [OF assms] and con = published_serves(1) [OF assms]
  show "find_by_host s host (\<lambda>_. True) = None \<longleftrightarrow> (\<forall>k < n. \<not> covers (int k) host)"
    unfolding find_by_host_None [OF con] serves covers_def by blast
  show "\<exists>k < n. p = benchmark_parser (int k) \<and> covers (int k) host" if "find_by_host s host (\<lambda>_. True) = Some p" for p
    using find_by_host_Some [OF con that] unfolding serves covers_def by blast
qed

lemma legacy_registrations:
  "foldl legacy_add t ps =
     foldl (\<lambda>t r. add_domain_parser (fst r) (snd r) t) t (concat (map (\<lambda>p. map (\<lambda>d. (split_domains d, p)) (pr_domains p)) ps))"
proof (induction ps arbitrary: t)
  case (Cons p ps)
  have "foldl (\<lambda>t d. add_domain_parser (split_domains d) p t) t ds =
      foldl (\<lambda>t r. add_domain_parser (fst r) (snd r) t) t (map (\<lambda>d. (split_domains d, p)) ds)" for t ds
    by (induction ds arbitrary: t) simp_all
  then show ?case using Cons by (simp add: legacy_add_def emplace_domains_def)
qed simp

lemma legacy_lookup:
  assumes "n \<le> 2 ^ 31"
  shows "search_all (split_domains host) (\<lambda>_. True) (legacy_build n) = lazy_lookup host (benchmark_parsers n)"
proof (rule found_is_lazy [OF assms])
  define regs where "regs = concat (map (\<lambda>p. map (\<lambda>d. (split_domains d, p)) (pr_domains p)) (benchmark_parsers n))"
  have legacy: "legacy_build n = scanner.build regs"
    by (simp add: legacy_build_def legacy_registrations scanner.build_def regs_def)
  have regs: "(path, p) \<in> set regs \<longleftrightarrow>
      (\<exists>k < n. p = benchmark_parser (int k) \<and> (\<exists>d \<in> set (pr_domains p). path = split_domains d))" for path p
    by (auto simp: regs_def benchmark_parsers_small [OF assms])
  have covered: "covers i host \<longleftrightarrow> (\<exists>d \<in> set (pr_domains (benchmark_parser i)). prefix (split_domains d) (split_domains host))" for i
    by (simp only: covers_def labels_prefix_iff)
  show "search_all (split_domains host) (\<lambda>_. True) (legacy_build n) = None \<longleftrightarrow> (\<forall>k < n. \<not> covers (int k) host)"
  proof -
    have "search_all (split_domains host) (\<lambda>_. True) (legacy_build n) = None \<longleftrightarrow>
        (\<forall>path p. (path, p) \<in> set regs \<longrightarrow> \<not> prefix path (split_domains host))"
      unfolding legacy scanner.search_None_iff by auto
    then show ?thesis unfolding regs covered by blast
  qed
  show "\<exists>k < n. p = benchmark_parser (int k) \<and> covers (int k) host"
    if found: "search_all (split_domains host) (\<lambda>_. True) (legacy_build n) = Some p" for p
  proof -
    obtain path where "(path, p) \<in> set regs" "prefix path (split_domains host)"
      using scanner.search_Some_longest [OF found [unfolded legacy]] by blast
    then show ?thesis unfolding regs covered by blast
  qed
qed

section \<open>Properties\<close>

text \<open>C39: The three builds register the same routing. For any number of parsers the store grown parser by
  parser and the store of one edit succeed and publish the same snapshot, after as many commits as
  there are parsers and after one; and on every host the lookup in the store, the lookup in the bare
  tree and the search that asks every parser for its domains find the same parser, which is the one
  parser with a domain over the host.\<close>
theorem benchmark_builds_agree:
  assumes "n \<le> 2 ^ 31"
  shows "\<exists>s s'. one_shot_build n = Inr s \<and> batch_build n = Inr s' \<and> live s = live s' \<and> live_id s = n \<and> live_id s' = 1 \<and>
    (\<forall>host. find_by_host s host (\<lambda>_. True) = lazy_lookup host (benchmark_parsers n) \<and>
       search_all (split_domains host) (\<lambda>_. True) (legacy_build n) = lazy_lookup host (benchmark_parsers n)) \<and>
    (\<forall>host k. k < n \<and> (\<exists>d \<in> set (pr_domains (benchmark_parser (int k))). under_domain host d) \<longrightarrow>
       lazy_lookup host (benchmark_parsers n) = Some (benchmark_parser (int k)))"
proof -
  obtain s s' where s: "one_shot_build n = Inr s" "live s = make_snapshot emplace_domains (with_parsers [] (benchmark_parsers n)) []" "live_id s = n"
    and s': "batch_build n = Inr s'" "live s' = make_snapshot emplace_domains (with_parsers [] (benchmark_parsers n)) []" "live_id s' = 1"
    using builds_publish [OF benchmark_names [OF assms]] by (auto simp: one_shot_build_def batch_build_def benchmark_parsers_def)
  have "\<forall>host k. k < n \<and> (\<exists>d \<in> set (pr_domains (benchmark_parser (int k))). under_domain host d) \<longrightarrow>
      lazy_lookup host (benchmark_parsers n) = Some (benchmark_parser (int k))"
    using lazy_found(2) [OF assms] unfolding covers_def by blast
  then show ?thesis
    using s s' store_lookup [OF assms s(2)] legacy_lookup [OF assms] by (intro exI [of _ s] exI [of _ s']) simp
qed

theorem benchmark_builds_agree_witness:
  "\<exists>s. one_shot_build 1000 = Inr s \<and>
     find_by_host s ''cdn.video500.media.example.test'' (\<lambda>_. True) = Some (benchmark_parser 500)"
proof -
  have small: "(1000 :: nat) \<le> 2 ^ 31" by simp
  obtain s where s: "one_shot_build 1000 = Inr s"
    "\<And>host. find_by_host s host (\<lambda>_. True) = lazy_lookup host (benchmark_parsers 1000)"
    "\<And>host k. k < 1000 \<Longrightarrow> \<exists>d \<in> set (pr_domains (benchmark_parser (int k))). under_domain host d \<Longrightarrow>
       lazy_lookup host (benchmark_parsers 1000) = Some (benchmark_parser (int k))"
    using benchmark_builds_agree [OF small] by blast
  have "int_to_dec 500 = ''500''" by code_simp
  then have "\<exists>d \<in> set (pr_domains (benchmark_parser (int 500))). under_domain ''cdn.video500.media.example.test'' d"
    by (simp add: benchmark_parser_def under_domain_def)
  from s(3) [of 500, OF _ this] s(1,2) show ?thesis by simp
qed

end
