(* ===== verification/Getter_Interfaces.thy ===== *)
theory Getter_Interfaces
  imports Example_Manga
begin

text \<open>
  The classes \<open>MangaGetter\<close>, \<open>AnimeGetter\<close>, \<open>ImageContainerGetter\<close> and their root getters (\<open>manga/Manga.hpp\<close>,
  \<open>anime/Anime.hpp\<close>, \<open>images/Image.hpp\<close>) as records of virtual functions. A base takes the pure virtual
  functions and answers the others as the class does; a derived class updates what it overrides. \<open>'c\<close> is
  the context of a request, \<open>'r\<close> the adapter of a resource, \<open>'g\<close> a handle of a getter.
\<close>

section \<open>The interfaces\<close>

record ('c, 'r, 'g) manga_getter =
  mg_flags :: "flag_error + strong_bitset"
  mg_preview_info :: "'r manga_info option"
  mg_info :: "'c \<Rightarrow> 'r manga_info outcome"
  mg_translation_info :: "'c \<Rightarrow> get_filters \<Rightarrow> manga_translation page_results outcome"
  mg_chapters_info :: "'c \<Rightarrow> get_filters \<Rightarrow> int option \<Rightarrow> 'r chapter_info page_results outcome"
  mg_comments :: "'c \<Rightarrow> get_filters \<Rightarrow> comment page_results outcome"
  mg_related :: "'c \<Rightarrow> get_filters \<Rightarrow> 'r related_work page_results outcome"
  mg_similar :: "'c \<Rightarrow> get_filters \<Rightarrow> 'g page_results outcome"
  mg_chapter_pages :: "'c \<Rightarrow> chapter_ref \<Rightarrow> get_filters \<Rightarrow> int option \<Rightarrow> 'r manga_page page_results outcome"
  mg_canonical_url :: "'c \<Rightarrow> bytes"
  mg_serialize :: "serialized_getter_data outcome"

record ('c, 'r, 'g) anime_getter =
  ag_flags :: "flag_error + strong_bitset"
  ag_preview_info :: "'r anime_info option"
  ag_info :: "'c \<Rightarrow> 'r anime_info outcome"
  ag_tracks :: "'c \<Rightarrow> get_filters \<Rightarrow> anime_track page_results outcome"
  ag_episodes_info :: "'c \<Rightarrow> get_filters \<Rightarrow> int option \<Rightarrow> 'r episode_info page_results outcome"
  ag_comments :: "'c \<Rightarrow> get_filters \<Rightarrow> comment page_results outcome"
  ag_related :: "'c \<Rightarrow> get_filters \<Rightarrow> 'r related_work page_results outcome"
  ag_similar :: "'c \<Rightarrow> get_filters \<Rightarrow> 'g page_results outcome"
  ag_episode_sources :: "'c \<Rightarrow> episode_ref \<Rightarrow> get_filters \<Rightarrow> int option \<Rightarrow> 'r video_source page_results outcome"
  ag_resolve_video :: "'c \<Rightarrow> 'r video_source \<Rightarrow> 'r video_source outcome"
  ag_canonical_url :: "'c \<Rightarrow> bytes"
  ag_serialize :: "serialized_getter_data outcome"

record ('c, 'r) image_container_getter =
  ig_flags :: "flag_error + strong_bitset"
  ig_preview_info :: "'r image_container option"
  ig_info :: "'c \<Rightarrow> 'r image_container outcome"
  ig_items :: "'c \<Rightarrow> get_filters \<Rightarrow> 'r image_item page_results outcome"
  ig_comments :: "'c \<Rightarrow> get_filters \<Rightarrow> comment page_results outcome"
  ig_serialize :: "serialized_getter_data outcome"

text \<open>The root getters of the three kinds differ in the getters they give.\<close>

record root_compatibilities =
  rc_supported_sorts :: supported_sorts
  rc_flags :: strong_bitset

record ('c, 'g) root_getter =
  rg_search_support :: "'c \<Rightarrow> search_compatibilities outcome"
  rg_latest_support :: root_compatibilities
  rg_search :: "'c \<Rightarrow> search_request \<Rightarrow> get_filters \<Rightarrow> 'g page_results outcome"
  rg_latest :: "'c \<Rightarrow> get_filters \<Rightarrow> 'g page_results outcome"
  rg_suggest :: "'c \<Rightarrow> bytes \<Rightarrow> bytes option \<Rightarrow> search_suggestion list outcome"
  rg_parse_url :: "'c \<Rightarrow> parsed_url \<Rightarrow> 'g outcome"
  rg_from_serialized :: "serialized_getter_data \<Rightarrow> 'g outcome"

type_synonym ('c, 'g) anime_root_getter = "('c, 'g) root_getter"

type_synonym ('c, 'g) images_root_getter = "('c, 'g) root_getter"

section \<open>What a class inherits\<close>

definition manga_base ::
  "flag_error + strong_bitset \<Rightarrow> ('c \<Rightarrow> 'r manga_info outcome) \<Rightarrow>
     ('c \<Rightarrow> chapter_ref \<Rightarrow> get_filters \<Rightarrow> int option \<Rightarrow> 'r manga_page page_results outcome) \<Rightarrow>
     ('c \<Rightarrow> bytes) \<Rightarrow> serialized_getter_data outcome \<Rightarrow> ('c, 'r, 'g) manga_getter" where
  "manga_base claims info pages url saved =
     \<lparr>mg_flags = claims, mg_preview_info = None, mg_info = info,
      mg_translation_info = (\<lambda>cx filters. Failed (manga_default MangaTranslationInfo)),
      mg_chapters_info = (\<lambda>cx filters translation. Failed (manga_default MangaChaptersInfo)),
      mg_comments = (\<lambda>cx filters. Failed (manga_default MangaCommentList)),
      mg_related = (\<lambda>cx filters. Failed (manga_default MangaRelated)),
      mg_similar = (\<lambda>cx filters. Failed (manga_default MangaSimilar)),
      mg_chapter_pages = pages, mg_canonical_url = url, mg_serialize = saved\<rparr>"

definition anime_base ::
  "flag_error + strong_bitset \<Rightarrow> ('c \<Rightarrow> 'r anime_info outcome) \<Rightarrow>
     ('c \<Rightarrow> episode_ref \<Rightarrow> get_filters \<Rightarrow> int option \<Rightarrow> 'r video_source page_results outcome) \<Rightarrow>
     ('c \<Rightarrow> bytes) \<Rightarrow> serialized_getter_data outcome \<Rightarrow> ('c, 'r, 'g) anime_getter" where
  "anime_base claims info sources url saved =
     \<lparr>ag_flags = claims, ag_preview_info = None, ag_info = info,
      ag_tracks = (\<lambda>cx filters. Failed (anime_default AnimeTracks)),
      ag_episodes_info = (\<lambda>cx filters track. Failed (anime_default AnimeEpisodesInfo)),
      ag_comments = (\<lambda>cx filters. Failed (anime_default AnimeCommentList)),
      ag_related = (\<lambda>cx filters. Failed (anime_default AnimeRelated)),
      ag_similar = (\<lambda>cx filters. Failed (anime_default AnimeSimilar)),
      ag_episode_sources = sources,
      ag_resolve_video = (\<lambda>cx source. case resolve_video_default source of Inl e \<Rightarrow> Failed e | Inr v \<Rightarrow> Yielded v),
      ag_canonical_url = url, ag_serialize = saved\<rparr>"

definition image_base ::
  "flag_error + strong_bitset \<Rightarrow> ('c \<Rightarrow> 'r image_container outcome) \<Rightarrow>
     ('c \<Rightarrow> get_filters \<Rightarrow> 'r image_item page_results outcome) \<Rightarrow> serialized_getter_data outcome \<Rightarrow>
     ('c, 'r) image_container_getter" where
  "image_base claims info items saved =
     \<lparr>ig_flags = claims, ig_preview_info = None, ig_info = info, ig_items = items,
      ig_comments = (\<lambda>cx filters. Failed (image_default ImageComments)), ig_serialize = saved\<rparr>"

text \<open>The roots of mangas and animes answer alike.\<close>

definition root_base :: "(serialized_getter_data \<Rightarrow> 'g outcome) \<Rightarrow> ('c, 'g) root_getter" where
  "root_base restore =
     \<lparr>rg_search_support = (\<lambda>cx. Yielded default_search_support),
      rg_latest_support = \<lparr>rc_supported_sorts = default_latest_sorts, rc_flags = default_flags\<rparr>,
      rg_search = (\<lambda>cx query filters. Failed (root_default RootSearch)),
      rg_latest = (\<lambda>cx filters. Failed (root_default RootLatest)),
      rg_suggest = (\<lambda>cx part kind. Failed (root_default RootSuggest)),
      rg_parse_url = (\<lambda>cx url. Failed (root_default RootParseUrl)),
      rg_from_serialized = restore\<rparr>"

definition images_root_base :: "(serialized_getter_data \<Rightarrow> 'g outcome) \<Rightarrow> ('c, 'g) images_root_getter" where
  "images_root_base restore = (root_base restore)
     \<lparr>rg_search := (\<lambda>cx query filters. Failed (image_default ImagesSearch)),
      rg_latest := (\<lambda>cx filters. Failed (image_default ImagesLatest)),
      rg_suggest := (\<lambda>cx part kind. Failed (image_default ImagesSuggest)),
      rg_parse_url := (\<lambda>cx url. Failed (image_default ImagesParseUrl))\<rparr>"

text \<open>\<open>validate_latest_filters\<close> asks the overridden \<open>latest_support\<close>.\<close>

definition rg_validate_latest :: "('c, 'g) root_getter \<Rightarrow> get_filters \<Rightarrow> query_error list" where
  "rg_validate_latest rg filters = root_validate_latest_filters (rc_supported_sorts (rg_latest_support rg)) filters"

section \<open>The classes of the repository\<close>

definition example_manga_getter :: "example_getter \<Rightarrow> ('c, 'r, 'g) manga_getter" where
  "example_manga_getter g =
     (manga_base example_getter_flags (\<lambda>cx. example_info g) (\<lambda>cx. example_chapter_pages g)
        (\<lambda>cx. example_canonical_url g) (example_serialize g))
     \<lparr>mg_preview_info := example_preview_info g, mg_translation_info := (\<lambda>cx. example_translation_info g),
      mg_chapters_info := (\<lambda>cx. example_chapters_info g), mg_related := (\<lambda>cx. example_related g)\<rparr>"

text \<open>With a context that has no logger.\<close>

definition example_root_getter :: "('j parser_config, example_getter) root_getter" where
  "example_root_getter =
     (root_base example_from_serialized)
     \<lparr>rg_search_support := (\<lambda>cx. example_search_support),
      rg_latest_support := \<lparr>rc_supported_sorts = example_latest_sorts, rc_flags = default_flags\<rparr>,
      rg_search := (\<lambda>cx. example_search), rg_latest := (\<lambda>cx filters. fst (example_latest cx filters None)),
      rg_parse_url := (\<lambda>cx. example_parse_url)\<rparr>"

type_synonym 'r image_site = "('r image_container, 'r image_item) booru_site"

type_synonym 'r image_handle = "('r image_container, 'r image_item) container_getter"

definition booru_getter :: "'r image_site \<Rightarrow> 'r image_handle \<Rightarrow> ('j booru_context, 'r) image_container_getter" where
  "booru_getter site g =
     (image_base (Inr default_flags) (\<lambda>cx. getter_info site cx g) (\<lambda>cx. getter_items site cx g) (Yielded (getter_serialize g)))
     \<lparr>ig_preview_info := preview_info g\<rparr>"

definition booru_root_getter :: "int \<Rightarrow> 'r image_site \<Rightarrow> ('j booru_context, 'r image_handle) images_root_getter" where
  "booru_root_getter wild site =
     (images_root_base (booru_from_serialized wild site))
     \<lparr>rg_search_support := (\<lambda>cx. Yielded (be_search_support (bs_engine site))),
      rg_search := booru_search wild site, rg_latest := booru_latest wild site,
      rg_suggest := booru_suggest site, rg_parse_url := (\<lambda>cx. booru_parse_url site)\<rparr>"

section \<open>What is inherited fails in the open\<close>

lemma walk_failed: "fetch from = Failed e \<Longrightarrow> walk fetch from = Some (Failed e)"
  by (subst walk.simps) simp

definition refuses :: "'a outcome \<Rightarrow> bool" where
  "refuses out \<longleftrightarrow> (case out of Failed e \<Rightarrow> re_code e = NotImplemented | _ \<Rightarrow> False)"

lemma refuses_simps [simp]:
  "refuses (Failed e) \<longleftrightarrow> re_code e = NotImplemented" "\<not> refuses (Yielded x)" "\<not> refuses (Threw f)"
  by (simp_all add: refuses_def)

lemma not_implemented_code [simp]: "re_code (not_implemented message) = NotImplemented"
  by (simp add: not_implemented_def make_response_error_def)

text \<open>
  A consumer that walks a listing its getter does not implement is told so, wherever it starts; it does
  not take the listing for an empty one. A class derived from the base inherits this for what it does
  not override.
\<close>
theorem inherited_listings_refuse:
  fixes g :: "('c, 'r, 'g) manga_getter" and claims info pages url saved and filters :: "int \<Rightarrow> get_filters"
  defines "inherited \<equiv> manga_base claims info pages url saved :: ('c, 'r, 'g) manga_getter"
  shows "mg_translation_info g = mg_translation_info inherited \<Longrightarrow>
      walk (\<lambda>n. mg_translation_info g cx (filters n)) n = Some (Failed (manga_default MangaTranslationInfo))"
    and "mg_chapters_info g = mg_chapters_info inherited \<Longrightarrow>
      walk (\<lambda>n. mg_chapters_info g cx (filters n) translation) n = Some (Failed (manga_default MangaChaptersInfo))"
    and "mg_comments g = mg_comments inherited \<Longrightarrow>
      walk (\<lambda>n. mg_comments g cx (filters n)) n = Some (Failed (manga_default MangaCommentList))"
    and "mg_related g = mg_related inherited \<Longrightarrow>
      walk (\<lambda>n. mg_related g cx (filters n)) n = Some (Failed (manga_default MangaRelated))"
    and "mg_similar g = mg_similar inherited \<Longrightarrow>
      walk (\<lambda>n. mg_similar g cx (filters n)) n = Some (Failed (manga_default MangaSimilar))"
  by (simp_all add: inherited_def manga_base_def walk_failed)

section \<open>Flags that promise an operation\<close>

text \<open>A getter that claims comments answers a request for them otherwise than by refusing it.\<close>

definition comments_backed :: "(flag_error + strong_bitset) \<Rightarrow> 'a outcome \<Rightarrow> bool" where
  "comments_backed claims answer \<longleftrightarrow>
     (case (claims, flag supports_commenting) of (Inr f, Inr m) \<Rightarrow> (sb_has f m \<longrightarrow> \<not> refuses answer) | _ \<Rightarrow> False)"

text \<open>The getters of a booru claim nothing; the example claims comments and refuses them.\<close>
theorem claims_of_comments:
  "comments_backed (ig_flags (booru_getter site h)) (ig_comments (booru_getter site h) bx filters)"
  "\<not> comments_backed (mg_flags (example_manga_getter g)) (mg_comments (example_manga_getter g) cx filters)"
proof -
  obtain m where m: "flag supports_commenting = Inr m" "wf_sb flags_width m" "sb_bits m = {capability_bit supports_commenting}"
    using flag_ok by blast
  have full: "flags_width mod 64 = 0" by (simp add: flags_width_def)
  have no: "\<not> sb_has default_flags m"
    using sb_has_bits [OF conjunct1 [OF default_flags_wf] m(2) full] default_flags_wf m(3) by simp
  obtain f where f: "join_flags m [supports_voting] = Inr f" "wf_sb flags_width f" "sb_bits m \<subseteq> sb_bits f"
    using join_flags_bits [OF m(2), of "[supports_voting]"] by auto
  then have claims: "example_getter_flags = Inr f" "sb_has f m"
    using sb_has_bits [OF f(2) m(2) full] by (simp_all add: example_getter_flags_def m(1))
  then show "\<not> comments_backed (mg_flags (example_manga_getter g)) (mg_comments (example_manga_getter g) cx filters)"
    by (simp add: comments_backed_def example_manga_getter_def manga_base_def claims m(1))
  show "comments_backed (ig_flags (booru_getter site h)) (ig_comments (booru_getter site h) bx filters)"
    using m(1) no by (simp add: comments_backed_def booru_getter_def image_base_def)
qed

section \<open>What the classes save and restore\<close>

lemma example_saved [simp]:
  "mg_serialize (example_manga_getter g) = example_serialize g" "rg_from_serialized example_root_getter = example_from_serialized"
  by (simp_all add: example_manga_getter_def manga_base_def example_root_getter_def root_base_def)

lemma booru_saved [simp]:
  "ig_serialize (booru_getter site h) = Yielded (getter_serialize h)" "ig_preview_info (booru_getter site h) = preview_info h"
  "rg_from_serialized (booru_root_getter wild site) = booru_from_serialized wild site"
  by (simp_all add: booru_getter_def image_base_def booru_root_getter_def images_root_base_def root_base_def)

section \<open>Getters on a shelf\<close>

text \<open>
  What \<open>serialize\<close> and \<open>from_serialized\<close> promise a consumer that keeps getters: an \<open>addressable\<close> getter comes
  back with its \<open>identity\<close>, and the saved data depends on nothing else.
\<close>

locale saved_identity =
  fixes save :: "'g \<Rightarrow> serialized_getter_data outcome"
    and restore :: "serialized_getter_data \<Rightarrow> 'g outcome"
    and addressable :: "'g \<Rightarrow> bool"
    and identity :: "'g \<Rightarrow> 'i"
  assumes restored: "addressable g \<Longrightarrow>
      \<exists>g'. bind_outcome (save g) restore = Yielded g' \<and> addressable g' \<and> identity g' = identity g"
    and saves_identity: "addressable g \<Longrightarrow> addressable g' \<Longrightarrow> identity g = identity g' \<Longrightarrow> save g = save g'"
begin

lemma same_key: "addressable g \<Longrightarrow> addressable g' \<Longrightarrow> save g = save g' \<longleftrightarrow> identity g = identity g'"
  by (metis outcome.inject(3) restored saves_identity)

lemma key_stable:
  assumes "addressable g"
  shows "bind_outcome (bind_outcome (save g) restore) save = save g"
proof -
  obtain g' where "bind_outcome (save g) restore = Yielded g'" "addressable g'" "identity g' = identity g"
    using restored [OF assms] by blast
  then show ?thesis using saves_identity [of g' g] assms by simp
qed

lemma shelf_distinct:
  assumes "\<And>g. g \<in> set gs \<Longrightarrow> addressable g"
  shows "distinct (map save gs) \<longleftrightarrow> distinct (map identity gs)"
  using assms by (induction gs) (auto simp: image_iff same_key)

end

interpretation example_shelf: saved_identity example_serialize example_from_serialized "\<lambda>g. eg_private_url g \<noteq> []" eg_private_url
  by unfold_locales
    (auto simp: example_serialize_def example_from_serialized_def)

fun booru_id :: "('i, 'm) container_getter \<Rightarrow> int + int" where
  "booru_id (PostGetter i info item) = Inl i"
| "booru_id (PoolGetter i) = Inr i"

fun booru_addressable :: "('i, 'm) booru_site \<Rightarrow> ('i, 'm) container_getter \<Rightarrow> bool" where
  "booru_addressable site (PostGetter i info item) \<longleftrightarrow> in_int32 i"
| "booru_addressable site (PoolGetter i) \<longleftrightarrow> in_int32 i \<and> be_supports_pools (bs_engine site)"

interpretation booru_shelf: saved_identity "\<lambda>g. Yielded (getter_serialize g)" "booru_from_serialized wild site"
    "booru_addressable site" booru_id for site :: "('i, 'm) booru_site" and wild :: int
proof
  fix g g' :: "('i, 'm) container_getter"
  show "booru_addressable site g \<Longrightarrow>
      \<exists>g'. bind_outcome (Yielded (getter_serialize g)) (booru_from_serialized wild site) = Yielded g' \<and>
        booru_addressable site g' \<and> booru_id g' = booru_id g"
  proof (cases g)
    case (PostGetter i info item)
    assume "booru_addressable site g"
    then have "booru_from_serialized wild site (getter_serialize g) = Yielded (PostGetter i None None)" "in_int32 i"
      using booru_serialize_roundtrip [of i wild site info item] PostGetter by auto
    then show ?thesis by (simp add: PostGetter)
  next
    case (PoolGetter i)
    assume "booru_addressable site g"
    then have "booru_from_serialized wild site (getter_serialize g) = Yielded (PoolGetter i)"
      "in_int32 i" "be_supports_pools (bs_engine site)"
      using booru_serialize_roundtrip [of i wild site] PoolGetter by auto
    then show ?thesis by (simp add: PoolGetter)
  qed
  show "booru_addressable site g \<Longrightarrow> booru_addressable site g' \<Longrightarrow> booru_id g = booru_id g' \<Longrightarrow>
      Yielded (getter_serialize g) = Yielded (getter_serialize g')"
    by (cases g; cases g') auto
qed

text \<open>
  A shelf of getters kept under their saved data. Two entries collide exactly when they are the same
  manga, post or pool, restoring and saving again leaves an entry where it is, and a restored post has
  forgotten what a listing had supplied.
\<close>
theorem shelf_keys:
  "(\<And>g. g \<in> set gs \<Longrightarrow> eg_private_url g \<noteq> []) \<Longrightarrow>
     distinct (map (\<lambda>g. mg_serialize (example_manga_getter g)) gs) \<longleftrightarrow> distinct (map eg_private_url gs)"
  "(\<And>h. h \<in> set hs \<Longrightarrow> booru_addressable site h) \<Longrightarrow>
     distinct (map (\<lambda>h. ig_serialize (booru_getter site h)) hs) \<longleftrightarrow> distinct (map booru_id hs)"
  "booru_addressable site h \<Longrightarrow>
     bind_outcome (bind_outcome (ig_serialize (booru_getter site h)) (rg_from_serialized (booru_root_getter wild site)))
       (\<lambda>g. ig_serialize (booru_getter site g)) = ig_serialize (booru_getter site h)"
  "bind_outcome (ig_serialize (booru_getter site h)) (rg_from_serialized (booru_root_getter wild site)) = Yielded h' \<Longrightarrow>
     ig_preview_info (booru_getter site h') = None"
  using example_shelf.shelf_distinct [of gs] booru_shelf.shelf_distinct [of hs site] booru_shelf.key_stable [of site h wild]
  by (auto simp: booru_from_serialized_def fail_with_def split: if_splits)

section \<open>Orders of the newest items\<close>

text \<open>
  What \<open>validate_latest_filters\<close> of the two roots accepts. A booru inherits an empty declaration, so only
  the default order passes, and its \<open>latest\<close> sends no request for any other.
\<close>
theorem latest_orders:
  fixes site :: "'r image_site"
  shows "rg_validate_latest (booru_root_getter wild site) filters = [] \<longleftrightarrow> gf_sort filters = None"
    and "gf_sort filters \<noteq> None \<Longrightarrow>
      \<exists>e. rg_latest (booru_root_getter wild site) bx filters = Failed e \<and> re_code e = InvalidArguments"
    and "rg_validate_latest example_root_getter filters = validate_sort example_latest_sorts (gf_sort filters)"
proof -
  have base: "rg_validate_latest (booru_root_getter wild site) filters = root_validate_latest_filters default_latest_sorts filters"
    by (simp add: rg_validate_latest_def booru_root_getter_def images_root_base_def root_base_def)
  show "rg_validate_latest (booru_root_getter wild site) filters = [] \<longleftrightarrow> gf_sort filters = None"
    unfolding base by (rule default_latest_order)
  have "validate_latest_filters [] filters = [] \<longleftrightarrow> gf_sort filters = None"
    using default_latest_order [of filters]
    by (simp add: validate_latest_filters_def root_validate_latest_filters_def default_latest_sorts_def)
  then show "gf_sort filters \<noteq> None \<Longrightarrow>
      \<exists>e. rg_latest (booru_root_getter wild site) bx filters = Failed e \<and> re_code e = InvalidArguments"
    by (simp add: booru_root_getter_def booru_latest_def Let_def fail_with_def make_response_error_def)
  show "rg_validate_latest example_root_getter filters = validate_sort example_latest_sorts (gf_sort filters)"
    by (simp add: rg_validate_latest_def example_root_getter_def root_validate_latest_filters_def)
qed

end
