(* ===== verification/Spec2Isabelle.thy ===== *)
theory Spec2Isabelle
  imports Bitset Flags Headers Decimal Url_Codec Cookies Domain_Trie Ordered_Map Domain_Store
    Parsed_Url Parser_Store Js_Scan Iso_Time Paging Search_Query Regex_Source Source_Holder Requests Mirrors Resource_Chain Video_Extract Json Resource_Cache Catalog
    Model_Values Getter_Defaults Catalog_Sink File_Cache Dom Dom_Search Dom_Text Html_Text Html_Handles Html_Document Session Booru Backends Transfer_Race Republishable Tasks
    Listing_Walk Context_Services Media_Model Example_Manga Example_Pages Store_Benchmark Getter_Interfaces
begin

text \<open>
  A verification of aniparse, a C++20 library that parses media sites: parsers for manga, anime and
  image sources are registered under the domains they serve, a URL is routed to the parser that
  accepts it, the parser's getters request pages through a session of the user and read HTML, JSON
  or JavaScript out of them, and a signed catalog can replace domains, mirrors, selectors and patterns
  at run time. Paths below are under \<open>src/\<close> and \<open>include/aniparse/\<close> of the repository.

  \<^bold>\<open>Shared vocabulary.\<close> \<open>Prelude\<close> (byte strings, \<open>std::string_view\<close> searches, association lists, the
  round-trip interface \<open>codec\<close>), \<open>Ordered_Map\<close> (\<open>std::map\<close>), \<open>Decimal\<close> (\<open>std::to_string\<close>, \<open>std::from_chars\<close>) and
  \<open>Double\<close> (IEEE 754 doubles as rationals with rounding) model what the sources use of the language and
  its library. A string is a list of bytes, an exception or an \<open>expected\<close> error a value of a sum or of
  an outcome type, a shared pointer an index into an explicit heap where sharing matters, and an
  integer a word or an \<open>int\<close> with its bounds where the width matters.

  \<^bold>\<open>Routing.\<close> \<open>Bitset\<close> and \<open>Flags\<close> (\<open>detail/BitsetLite.hpp\<close>, \<open>StrongBitset.hpp\<close>, \<open>types/Flags.hpp\<close>): word-parallel
  sets refine sets of positions. \<open>Domain_Trie\<close> and \<open>Domain_Store\<close> (\<open>detail/DomainScanner.hpp\<close>, \<open>DomainStore.hpp\<close>):
  the trie over domain labels and the registry that publishes snapshots by compare-and-swap; a host
  is routed to its longest registered domain and a commit never loses an update. \<open>Parsed_Url\<close>
  (\<open>types/ParsedUrl.cpp\<close>) and \<open>Parser_Store\<close> (\<open>ParserStore.cpp\<close>, \<open>Parser.cpp\<close>) build on them: components are cut out
  of the serialization by 32-bit offsets, exact for serializations below \<open>2 ^ 31\<close> bytes, and routing
  is sound and complete.

  \<^bold>\<open>Requests and sessions.\<close> \<open>Headers\<close>, \<open>Url_Codec\<close>, \<open>Cookies\<close> (the header list, percent encoding, the cookie jar and its
  Netscape lines), \<open>Requests\<close> (\<open>ClientContext.cpp\<close>: the configuration of a parser folded into a request and
  the classification of the answer), \<open>Session\<close> (configurations and jars in a heap; sessions are not
  shared and credentials round trip), \<open>Mirrors\<close>, \<open>Paging\<close>, \<open>Search_Query\<close>, \<open>Getter_Defaults\<close> (what a parser answers
  that overrides nothing, and the mirrors it offers). \<open>Context_Services\<close> (\<open>ClientContext.cpp\<close>): the compiled sets and
  resources that contexts of all parsers take out of one bundle while catalogs are applied, and the
  messages they log.

  \<^bold>\<open>The HTTP backends.\<close> \<open>Client_Config\<close>, \<open>Retry\<close>, \<open>Curl_Client\<close> (\<open>net/Client.cpp\<close>), \<open>Multipart\<close> and \<open>Url_Session\<close>
  (\<open>net/UrlSessionClient.mm\<close>), \<open>Transfer_Race\<close> (the hand-over between completion block and coroutine as a step
  relation) and \<open>Backends\<close>, which proves the two interchangeable up to the differences it states. Retry
  counters are words of 32 bits; one loop is a partial function and its one divergent budget is a
  theorem. A transfer makes at most seven steps. \<open>File_Cache\<close> (\<open>testing/FileCachingClient.hpp\<close>) wraps any backend.

  \<^bold>\<open>Overrides.\<close> \<open>Regex_Source\<close> and \<open>Source_Holder\<close> (\<open>utility/RegexSource.cpp\<close>, \<open>html/SelectorSource.cpp\<close>): override tables and
  the slots they are swapped in, whose calls interleave; \<open>Resource_Cache\<close> and \<open>Republishable\<close> (\<open>cache/\<close>): compiled
  resources, and values that serve a seed until a snapshot is fetched, at most three steps per
  caller; \<open>Catalog\<close> (\<open>catalog/\<close>): verification, decoding and application of a signed catalog to the routing and
  the slots; \<open>Catalog_Sink\<close> (\<open>utility/CatalogSink.cpp\<close>): the dump of the built-in tables.

  \<^bold>\<open>Reading pages.\<close> \<open>Dom\<close>, \<open>Dom_Search\<close> and \<open>Dom_Text\<close> (\<open>html/DOMNode.cpp\<close>, \<open>DOMElement.cpp\<close>): the walks over lexbor's node
  graph as partial functions over a store, which end and follow document order where the store links
  a tree; \<open>Html_Handles\<close> and \<open>Html_Document\<close> (\<open>html/CompiledSelector.cpp\<close>, \<open>HTMLParser.cpp\<close>, \<open>HTMLDocument.cpp\<close>): ownership of
  lexbor's objects, parsing and the root element; \<open>Html_Text\<close> (\<open>utility/HtmlText.cpp\<close>): HTML as text with runs;
  \<open>Js_Scan\<close> (\<open>html/JSParser.cpp\<close>): object literals in scripts; \<open>Json\<close>, \<open>Iso_Time\<close> and \<open>Model_Values\<close> (\<open>json/Json.hpp\<close>, \<open>utility/Time.cpp\<close>,
  \<open>utility/Number.cpp\<close>, \<open>types/Model.cpp\<close>): values, timestamps, decimal prefixes, ratings and statuses.

  \<^bold>\<open>Media.\<close> \<open>Resource_Chain\<close> (\<open>media/ResourceAdapter.cpp\<close>): chains of handles that transform a stream; \<open>Video_Extract\<close>
  (\<open>video/VideoExtractor.cpp\<close>): the registry of extractors and the chase of delegated links, whose depth \<open>max_depth\<close>
  bounds the recursion; \<open>Booru\<close> (\<open>engines/booru/\<close>): one image source for a family of sites, on top of nearly all
  of the above.

  \<^bold>\<open>Listings.\<close> \<open>Listing_Walk\<close>: the protocol \<open>types/Pagination.hpp\<close> gives to a consumer, requests at \<open>next_offset\<close> until
  a page is empty, as a partial function over any getter. Walks over page-numbered and booru listings
  end and what they deliver is stated, posts skipped or repeated behind unservable ones included.

  \<^bold>\<open>Data and programs.\<close> \<open>Media_Model\<close> (\<open>types/Model.hpp\<close>, \<open>Video.hpp\<close>, the models of manga, anime and images): the
  structs with their initial values. \<open>Example_Manga\<close>, \<open>Example_Pages\<close> (\<open>examples/\<close>) and \<open>Store_Benchmark\<close>
  (\<open>benchmarks/\<close>) compose the parts: a parser written against the interfaces and the program that runs it,
  printed lines included, a page taken apart by selectors, three requests, and three ways of building
  a store that give one routing. \<open>Getter_Interfaces\<close> (\<open>manga/Manga.hpp\<close>, \<open>anime/Anime.hpp\<close>, \<open>images/Image.hpp\<close>):
  the classes a consumer holds as records of virtual functions with what they inherit, the example
  and the booru getters as instances, and what they promise a consumer that saves and restores them.

  \<^bold>\<open>Tasks.\<close> \<open>Tasks\<close> (\<open>net/vendor/CancellingTask.hpp\<close>): the coroutines every getter returns. Running one by control
  transfer ends with what calling its bodies like functions gives, which is why the other theories
  take a task for its outcome, or for a sequence of steps where calls interleave; and a stop request
  or progress reaches exactly the connected tasks.

  \<^bold>\<open>Interfaces.\<close> A locale stands where one part relies on a contract of another and is interpreted on the code's
  own functions: \<open>codec\<close> (decimals, headers, cookies, percent encoding), \<open>domain_index\<close> (the trie under the
  store), \<open>cookie_jar\<close> (the jar under sessions), \<open>scoped_source\<close> (both override sources under the holder),
  \<open>tree_step\<close> (both walk iterators), \<open>retrying\<close> (both retry loops), \<open>listing\<close> (the listings that are walked), \<open>saved_identity\<close> (getters
  that are saved and restored), \<open>handle_class\<close> and \<open>leak_free_class\<close> (the owners of
  lexbor's objects).

  \<^bold>\<open>Parameters.\<close> Code outside the repository is an argument of the definitions that use it: lexbor's URL, HTML and
  CSS parsers and its selector engine, \<open>boost::json::parse\<close>, the regex engine, libcurl and \<open>asyncnet\<close>, Foundation,
  the check of a signature, the hash of the standard library, and what the virtual functions of
  parsers, extractors, engines and handles of a consumer answer. Hypotheses about them are named in
  the theorems, and every theorem with a hypothesis is applied at a concrete input behind it.

  \<^bold>\<open>Not modelled.\<close> \<open>gather_awaitables\<close> of \<open>utility/Coroutines.hpp\<close>, a thin adapter of the libcoro library, and the aliases of
  Boost.Regex in \<open>utility/Regex.hpp\<close>. Assertions, and what a logger does with its messages
  outside the example. \<open>MangaType\<close>, whose constructor has no definition. In the examples and benchmarks, the
  locale, reading the page from disk, and taking and printing times. The constant settings of the Foundation session (no cookie store, no
  cache, the delegate queue). Signing in to a booru shares the jar of the caller, so it is outside
  the reachable heaps of \<open>Session\<close>, and \<open>Booru\<close> states what it does. Data races below the granularity of a
  mutex or an atomic operation are excluded by the code's own locks and not modelled.
\<close>

end
